(* ===== verification/Prelude.thy ===== *)
theory Prelude
  imports Main "HOL-Library.Sublist"
begin

text \<open>
  Shared material of the development: the machine integers of the Rust sources (\<open>u64\<close> and
  \<open>i64\<close> with their casts and wrap-around written out), the string operations of the Rust
  standard library that the components call (trimming, splitting, ASCII case, decimal and
  hexadecimal formatting, \<open>u64\<close> parsing), lists, and two generic interfaces: an associative,
  commutative and idempotent combination operator, and a transition system with an invariant.

  Strings are lists of characters that stand for ASCII text; \<open>char::is_whitespace\<close> is
  modelled on that range.
\<close>

section \<open>Theorem collections\<close>

named_theorems text_simps \<open>equations of the string operations on closed and composed text\<close>
named_theorems width_simps \<open>casts between machine integers that stay in range\<close>

section \<open>Results\<close>

text \<open>A Rust \<open>Result<T, E>\<close> is a sum with the error on the left.\<close>

type_synonym ('e, 'a) result = "'e + 'a"

definition is_ok :: "('e, 'a) result \<Rightarrow> bool" where
  "is_ok r \<longleftrightarrow> (case r of Inl _ \<Rightarrow> False | Inr _ \<Rightarrow> True)"

lemma is_ok_simps [simp]: "is_ok (Inr a)" "\<not> is_ok (Inl e)"
  by (simp_all add: is_ok_def)

lemma is_ok_iff: "is_ok r \<longleftrightarrow> (\<exists>a. r = Inr a)"
  by (cases r) simp_all

section \<open>Machine integers\<close>

text \<open>
  A \<open>u64\<close> is a natural number below \<open>2 ^ 64\<close>, an \<open>i64\<close> an integer in the two's complement
  range. Additions and subtractions wrap, as a release build of the sources does.
\<close>

type_synonym u64 = nat
type_synonym i64 = int

definition is_u64 :: "nat \<Rightarrow> bool" where
  "is_u64 n \<longleftrightarrow> n < 2 ^ 64"

definition u64_max :: nat where
  "u64_max = 2 ^ 64 - 1"

definition wrap_i64 :: "int \<Rightarrow> i64" where
  "wrap_i64 x = (x + 2 ^ 63) mod 2 ^ 64 - 2 ^ 63"

definition as_i64 :: "u64 \<Rightarrow> i64" where
  "as_i64 n = wrap_i64 (int n)"

definition as_u64 :: "i64 \<Rightarrow> u64" where
  "as_u64 x = nat (x mod 2 ^ 64)"

definition u64_add :: "u64 \<Rightarrow> u64 \<Rightarrow> u64" where
  "u64_add a b = (a + b) mod 2 ^ 64"

definition u64_saturating_add :: "u64 \<Rightarrow> u64 \<Rightarrow> u64" where
  "u64_saturating_add a b = min (a + b) u64_max"

definition i64_add :: "i64 \<Rightarrow> i64 \<Rightarrow> i64" where
  "i64_add a b = wrap_i64 (a + b)"

definition i64_sub :: "i64 \<Rightarrow> i64 \<Rightarrow> i64" where
  "i64_sub a b = wrap_i64 (a - b)"

text \<open>\<open>row.get::<_, i64>(_)?.max(0) as u64\<close>, the way the stores read a column back.\<close>

definition db_u64 :: "u64 \<Rightarrow> u64" where
  "db_u64 n = nat (max 0 (as_i64 n))"

lemma wrap_i64_id [width_simps]: "- (2 ^ 63) \<le> x \<Longrightarrow> x < 2 ^ 63 \<Longrightarrow> wrap_i64 x = x"
  by (simp add: wrap_i64_def)

lemma as_i64_small [width_simps]: "n < 2 ^ 63 \<Longrightarrow> as_i64 n = int n"
  by (simp add: as_i64_def wrap_i64_def)

lemma as_i64_large: "2 ^ 63 \<le> n \<Longrightarrow> n < 2 ^ 64 \<Longrightarrow> as_i64 n = int n - 2 ^ 64"
proof -
  assume a: "2 ^ 63 \<le> n" "n < 2 ^ 64"
  then have "(int n + 2 ^ 63) mod 2 ^ 64 = int n + 2 ^ 63 - 2 ^ 64"
    by (subst mod_pos_geq) auto
  then show ?thesis by (simp add: as_i64_def wrap_i64_def)
qed

lemma as_i64_inj: "is_u64 m \<Longrightarrow> is_u64 n \<Longrightarrow> as_i64 m = as_i64 n \<longleftrightarrow> m = n"
  by (cases "m < 2 ^ 63"; cases "n < 2 ^ 63")
    (auto simp: is_u64_def as_i64_small as_i64_large)

lemma as_u64_of_nat [width_simps]: "n < 2 ^ 64 \<Longrightarrow> as_u64 (int n) = n"
  by (simp add: as_u64_def)

lemma as_u64_as_i64: "is_u64 n \<Longrightarrow> as_u64 (as_i64 n) = n"
proof (cases "n < 2 ^ 63")
  case True
  then show ?thesis by (simp add: as_i64_small as_u64_def)
next
  case False
  assume u: "is_u64 n"
  with False have e: "as_i64 n = int n - 2 ^ 64"
    by (simp add: as_i64_large is_u64_def)
  have "(int n - 2 ^ 64) mod 2 ^ 64 = int n mod 2 ^ 64"
    by (simp add: mod_diff_right_eq [symmetric])
  also have "\<dots> = int n" using u by (simp add: is_u64_def)
  finally show ?thesis using e by (simp add: as_u64_def)
qed

lemma db_u64_small [width_simps]: "n < 2 ^ 63 \<Longrightarrow> db_u64 n = n"
  by (simp add: db_u64_def as_i64_small)

lemma u64_add_small [width_simps]: "a + b < 2 ^ 64 \<Longrightarrow> u64_add a b = a + b"
  by (simp add: u64_add_def)

section \<open>Strings\<close>

definition is_whitespace :: "char \<Rightarrow> bool" where
  "is_whitespace c \<longleftrightarrow> of_char c \<in> {9, 10, 11, 12, 13, 32 :: nat}"

definition trim :: "string \<Rightarrow> string" where
  "trim s = rev (dropWhile is_whitespace (rev (dropWhile is_whitespace s)))"

fun split_on :: "char \<Rightarrow> string \<Rightarrow> string list" where
  "split_on d [] = [[]]"
| "split_on d (c # s) =
     (if c = d then [] # split_on d s
      else (case split_on d s of [] \<Rightarrow> [[c]] | w # ws \<Rightarrow> (c # w) # ws))"

fun strip_prefix :: "string \<Rightarrow> string \<Rightarrow> string option" where
  "strip_prefix [] s = Some s"
| "strip_prefix (p # ps) [] = None"
| "strip_prefix (p # ps) (c # s) = (if p = c then strip_prefix ps s else None)"

definition strip_suffix :: "string \<Rightarrow> string \<Rightarrow> string option" where
  "strip_suffix suf s = map_option rev (strip_prefix (rev suf) (rev s))"

definition ascii_lower :: "char \<Rightarrow> char" where
  "ascii_lower c =
     (if (65 :: nat) \<le> of_char c \<and> of_char c \<le> (90 :: nat) then char_of (of_char c + (32 :: nat)) else c)"

definition ascii_upper :: "char \<Rightarrow> char" where
  "ascii_upper c =
     (if (97 :: nat) \<le> of_char c \<and> of_char c \<le> (122 :: nat) then char_of (of_char c - (32 :: nat)) else c)"

definition to_ascii_lowercase :: "string \<Rightarrow> string" where
  "to_ascii_lowercase s = map ascii_lower s"

definition to_ascii_uppercase :: "string \<Rightarrow> string" where
  "to_ascii_uppercase s = map ascii_upper s"

definition eq_ignore_ascii_case :: "string \<Rightarrow> string \<Rightarrow> bool" where
  "eq_ignore_ascii_case a b \<longleftrightarrow> to_ascii_lowercase a = to_ascii_lowercase b"

text \<open>Joining pieces with a separator, \<open>[_]::join\<close>.\<close>

fun join_with :: "string \<Rightarrow> string list \<Rightarrow> string" where
  "join_with d [] = []"
| "join_with d [w] = w"
| "join_with d (w # v # ws) = w @ d @ join_with d (v # ws)"

lemma split_on_not_Nil [simp]: "split_on d s \<noteq> []"
  by (induction s) (auto split: list.splits)

lemma split_on_no_delim [text_simps]: "d \<notin> set s \<Longrightarrow> split_on d s = [s]"
  by (induction s) auto

lemma split_on_append_delim [text_simps]:
  "d \<notin> set w \<Longrightarrow> split_on d (w @ d # s) = w # split_on d s"
  by (induction w) auto

lemma split_on_pieces: "w \<in> set (split_on d s) \<Longrightarrow> d \<notin> set w"
  by (induction s arbitrary: w) (auto split: if_splits list.splits)

lemma join_split_on: "join_with [d] (split_on d s) = s"
proof (induction s)
  case (Cons c s)
  obtain w ws where sp: "split_on d s = w # ws"
    by (cases "split_on d s") simp_all
  with Cons show ?case by (cases ws) auto
qed simp

lemma strip_prefix_append [text_simps, simp]: "strip_prefix p (p @ s) = Some s"
  by (induction p) auto

lemma strip_prefix_Some: "strip_prefix p s = Some r \<longleftrightarrow> s = p @ r"
  by (induction p s rule: strip_prefix.induct) auto

lemma strip_suffix_Some: "strip_suffix suf s = Some r \<longleftrightarrow> s = r @ suf"
  by (auto simp: strip_suffix_def strip_prefix_Some rev_swap)

lemma ascii_lower_idem [simp]: "ascii_lower (ascii_lower c) = ascii_lower c"
  by (auto simp: ascii_lower_def)

lemma eq_ignore_ascii_case_equiv:
  "eq_ignore_ascii_case a a"
  "eq_ignore_ascii_case a b = eq_ignore_ascii_case b a"
  "eq_ignore_ascii_case a b \<Longrightarrow> eq_ignore_ascii_case b c \<Longrightarrow> eq_ignore_ascii_case a c"
  by (auto simp: eq_ignore_ascii_case_def)

lemma trim_no_ws:
  assumes "\<And>c. c \<in> set s \<Longrightarrow> \<not> is_whitespace c"
  shows "trim s = s"
proof -
  have "dropWhile is_whitespace s = s"
    using assms by (cases s) auto
  moreover have "dropWhile is_whitespace (rev s) = rev s"
    using assms by (cases "rev s") (auto dest: arg_cong [where f = set])
  ultimately show ?thesis by (simp add: trim_def)
qed

lemma trim_bounded:
  assumes "s \<noteq> []" "\<not> is_whitespace (hd s)" "\<not> is_whitespace (last s)"
  shows "trim s = s"
proof -
  have "dropWhile is_whitespace s = s"
    using assms by (cases s) auto
  moreover have "dropWhile is_whitespace (rev s) = rev s"
    using assms by (cases "rev s") (auto simp: last_rev hd_rev dest: arg_cong [where f = hd])
  ultimately show ?thesis by (simp add: trim_def)
qed

subsection \<open>Formatting and parsing of numbers\<close>

text \<open>\<open>format!("{}", n)\<close> is base 10, \<open>format!("{:x}", n)\<close> base 16.\<close>

definition digit_char :: "nat \<Rightarrow> char" where
  "digit_char d = ''0123456789abcdef'' ! d"

fun show_base :: "nat \<Rightarrow> nat \<Rightarrow> string" where
  "show_base b n =
     (if b < 2 \<or> n < b then [digit_char n]
      else show_base b (n div b) @ [digit_char (n mod b)])"

declare show_base.simps [simp del]

abbreviation show_dec :: "nat \<Rightarrow> string" where
  "show_dec n \<equiv> show_base 10 n"

abbreviation show_hex :: "nat \<Rightarrow> string" where
  "show_hex n \<equiv> show_base 16 n"

definition show_int :: "int \<Rightarrow> string" where
  "show_int x = (if x < 0 then CHR ''-'' # show_dec (nat (- x)) else show_dec (nat x))"

fun index_of :: "'a \<Rightarrow> 'a list \<Rightarrow> nat option" where
  "index_of x [] = None"
| "index_of x (y # ys) = (if x = y then Some 0 else map_option Suc (index_of x ys))"

fun read_base :: "nat \<Rightarrow> nat \<Rightarrow> string \<Rightarrow> nat option" where
  "read_base b acc [] = Some acc"
| "read_base b acc (c # s) =
     (case index_of c (take b ''0123456789abcdef'') of
        None \<Rightarrow> None | Some d \<Rightarrow> read_base b (acc * b + d) s)"

text \<open>\<open>str::parse::<u64>\<close>: an optional plus sign, then decimal digits, in range.\<close>

definition parse_u64 :: "string \<Rightarrow> u64 option" where
  "parse_u64 s =
     (let t = (case s of [] \<Rightarrow> [] | c # r \<Rightarrow> if c = CHR ''+'' then r else s)
      in if t = [] then None
         else case read_base 10 0 t of
                None \<Rightarrow> None | Some n \<Rightarrow> if n < 2 ^ 64 then Some n else None)"

lemma index_of_Some: "index_of x ys = Some i \<Longrightarrow> i < length ys \<and> ys ! i = x"
  by (induction ys arbitrary: i) (auto split: if_splits)

lemma index_of_None: "index_of x ys = None \<longleftrightarrow> x \<notin> set ys"
  by (induction ys) auto

lemma index_of_nth: "distinct ys \<Longrightarrow> i < length ys \<Longrightarrow> index_of (ys ! i) ys = Some i"
  by (induction ys arbitrary: i) (auto simp: nth_Cons split: nat.splits)

lemma index_of_digit:
  assumes "b \<le> 16" "d < b"
  shows "index_of (digit_char d) (take b ''0123456789abcdef'') = Some d"
proof -
  let ?ds = "take b ''0123456789abcdef''"
  have "distinct ''0123456789abcdef''" by simp
  then have "distinct ?ds" by (rule distinct_take)
  moreover have "digit_char d = ?ds ! d" "d < length ?ds"
    using assms by (simp_all add: digit_char_def)
  ultimately show ?thesis by (metis index_of_nth)
qed

lemma read_base_append:
  "read_base b acc (s @ t) = Option.bind (read_base b acc s) (\<lambda>a. read_base b a t)"
  by (induction s arbitrary: acc) (auto split: option.splits)

lemma read_show_base:
  assumes "2 \<le> b" "b \<le> 16"
  shows "read_base b 0 (show_base b n) = Some n"
  using assms
proof (induction b n rule: show_base.induct)
  case (1 b n)
  show ?case
  proof (cases "n < b")
    case True
    with 1 show ?thesis by (simp add: show_base.simps [of b n] index_of_digit)
  next
    case False
    with 1 show ?thesis
      by (simp add: show_base.simps [of b n] read_base_append index_of_digit)
  qed
qed

lemma show_base_inj: "2 \<le> b \<Longrightarrow> b \<le> 16 \<Longrightarrow> show_base b m = show_base b n \<longleftrightarrow> m = n"
  by (metis option.inject read_show_base)

lemma show_base_not_Nil [simp]: "show_base b n \<noteq> []"
  by (subst show_base.simps) simp

lemma digit_char_in: "d < 16 \<Longrightarrow> digit_char d \<in> set ''0123456789abcdef''"
  unfolding digit_char_def by (rule nth_mem) simp

lemma show_base_chars:
  assumes "2 \<le> b" "b \<le> 16"
  shows "set (show_base b n) \<subseteq> set ''0123456789abcdef''"
  using assms
proof (induction b n rule: show_base.induct)
  case (1 b n)
  show ?case
  proof (cases "n < b")
    case True
    with 1 show ?thesis using digit_char_in [of n] by (simp add: show_base.simps [of b n])
  next
    case False
    have "n mod b < 16" using 1(2,3) mod_less_divisor [of b n] by linarith
    with False 1 show ?thesis
      using digit_char_in [of "n mod b"] by (simp add: show_base.simps [of b n])
  qed
qed

lemma parse_u64_show:
  assumes "is_u64 n"
  shows "parse_u64 (show_dec n) = Some n"
proof (cases "show_dec n")
  case (Cons c r)
  then have "c \<in> set ''0123456789abcdef''"
    using show_base_chars [of 10 n] by auto
  then have "c \<noteq> CHR ''+''" by auto
  with Cons assms read_show_base [of 10 n] show ?thesis
    by (simp add: parse_u64_def is_u64_def)
qed simp

section \<open>Combination operators\<close>

text \<open>
  The interface of every operator that combines security facts: on the elements of a carrier
  it is associative, commutative and idempotent. The client's fact is that combining a list
  depends only on which elements the list holds, not on their order or multiplicity.
\<close>

locale comm_idem_op =
  fixes carrier :: "'a \<Rightarrow> bool" and f :: "'a \<Rightarrow> 'a \<Rightarrow> 'a"
  assumes closed: "carrier a \<Longrightarrow> carrier b \<Longrightarrow> carrier (f a b)"
    and comm: "carrier a \<Longrightarrow> carrier b \<Longrightarrow> f a b = f b a"
    and assoc: "carrier a \<Longrightarrow> carrier b \<Longrightarrow> carrier c \<Longrightarrow> f (f a b) c = f a (f b c)"
    and idem: "carrier a \<Longrightarrow> f a a = a"
begin

lemma left_comm:
  assumes "carrier a" "carrier b" "carrier c"
  shows "f a (f b c) = f b (f a c)"
  using assms assoc comm by metis

lemma foldr_closed: "list_all carrier xs \<Longrightarrow> carrier a \<Longrightarrow> carrier (foldr f xs a)"
  by (induction xs) (auto intro: closed)

lemma foldr_absorb:
  "list_all carrier xs \<Longrightarrow> carrier a \<Longrightarrow> x \<in> set xs \<Longrightarrow> f x (foldr f xs a) = foldr f xs a"
proof (induction xs)
  case (Cons y xs)
  then have y: "carrier y" and xs: "list_all carrier xs" and t: "carrier (foldr f xs a)"
    by (auto intro: foldr_closed)
  show ?case
  proof (cases "x = y")
    case True
    with y t show ?thesis by (simp add: assoc [symmetric] idem)
  next
    case False
    with Cons have "x \<in> set xs" by simp
    then have "carrier x" using xs by (simp add: list_all_iff)
    with Cons.IH [OF xs Cons.prems(2) \<open>x \<in> set xs\<close>] y t show ?thesis
      by (simp add: left_comm [of x y])
  qed
qed simp

lemma foldr_subset:
  assumes "list_all carrier ys" "carrier a" "set xs \<subseteq> set ys"
  shows "foldr f xs (foldr f ys a) = foldr f ys a"
  using assms(3) by (induction xs) (use assms(1,2) foldr_absorb in auto)

lemma foldr_commute:
  assumes "list_all carrier xs" "list_all carrier ys" "carrier a"
  shows "foldr f xs (foldr f ys a) = foldr f ys (foldr f xs a)"
  using assms(1)
proof (induction xs)
  case (Cons x xs)
  have x: "carrier x" and t: "carrier (foldr f xs a)"
    using Cons.prems assms(3) by (auto intro: foldr_closed)
  have "f x (foldr f ys b) = foldr f ys (f x b)" if "carrier b" for b
    using assms(2) by (induction ys) (use x that in \<open>auto simp: left_comm foldr_closed\<close>)
  with Cons t show ?case by simp
qed simp

lemma foldr_set_cong:
  assumes "list_all carrier xs" "list_all carrier ys" "carrier a" "set xs = set ys"
  shows "foldr f xs a = foldr f ys a"
proof -
  have "foldr f ys a = foldr f xs (foldr f ys a)"
    using assms by (simp add: foldr_subset)
  also have "\<dots> = foldr f ys (foldr f xs a)"
    using assms by (simp add: foldr_commute)
  also have "\<dots> = foldr f xs a"
    using assms by (simp add: foldr_subset)
  finally show ?thesis by simp
qed

end

section \<open>Transition systems\<close>

inductive reach :: "('s \<Rightarrow> bool) \<Rightarrow> ('s \<Rightarrow> 's \<Rightarrow> bool) \<Rightarrow> 's \<Rightarrow> bool"
  for init :: "'s \<Rightarrow> bool" and step :: "'s \<Rightarrow> 's \<Rightarrow> bool"
where
  reach_init: "init s \<Longrightarrow> reach init step s"
| reach_step: "reach init step s \<Longrightarrow> step s t \<Longrightarrow> reach init step t"

text \<open>The contract of a stateful component: its invariant holds initially and every step keeps it.\<close>

locale invariant_system =
  fixes init :: "'s \<Rightarrow> bool" and step :: "'s \<Rightarrow> 's \<Rightarrow> bool" and inv :: "'s \<Rightarrow> bool"
  assumes init_inv: "init s \<Longrightarrow> inv s"
    and step_inv: "inv s \<Longrightarrow> step s t \<Longrightarrow> inv t"
begin

lemma reach_inv: "reach init step s \<Longrightarrow> inv s"
  by (induction rule: reach.induct) (auto intro: init_inv step_inv)

lemma steps_inv: "step\<^sup>*\<^sup>* s t \<Longrightarrow> inv s \<Longrightarrow> inv t"
  by (induction rule: rtranclp_induct) (auto intro: step_inv)

end

end
