(* ===== verification/Refusal_Algebra.thy ===== *)
theory Refusal_Algebra
  imports Prelude
begin

text \<open>
  \<open>src/refusal_algebra.rs\<close>: the portable refusal algebra. A refusal is a value of a finite
  lattice: fourteen frozen reason words, ranked by their position in \<open>DENY_REASONS\<close> (a lower
  rank is more severe), and a verdict that is either \<open>Allow\<close> or a \<open>Deny\<close> carrying the code
  and the ranked cause. The theory models the data and every operation, and shows that
  reasons and verdicts form lattices and what combining many verdicts gives.
\<close>

section \<open>The model\<close>

definition DENY_REASONS :: "string list" where
  "DENY_REASONS =
    [''VOICE_EGRESS_UNCONSENTED'', ''IRREVERSIBLE_NO_GRANT'', ''UNTRUSTED_EXEC_DECISION'',
     ''SECRET_TO_EXEC'', ''SECRET_EGRESS_VCS'', ''SECRET_EGRESS_NETWORK'',
     ''PII_EGRESS_NETWORK'', ''PII_EGRESS_OUTPUT'', ''UNTRUSTED_EGRESS_NETWORK'',
     ''UNTRUSTED_FILE_PATH'', ''SINK_CLEARANCE'', ''HTML_INJECTION'', ''TAINT_PERSISTENCE'',
     ''SECRET_LEAK'']"

record reason =
  r_word :: string
  r_rank :: nat

definition Reason_parse :: "string \<Rightarrow> reason option" where
  "Reason_parse word =
     map_option (\<lambda>rank. \<lparr>r_word = DENY_REASONS ! rank, r_rank = rank\<rparr>) (index_of word DENY_REASONS)"

definition reason_join :: "reason \<Rightarrow> reason \<Rightarrow> reason" where
  "reason_join a b = (if r_rank a \<le> r_rank b then a else b)"

definition reason_meet :: "reason \<Rightarrow> reason \<Rightarrow> reason" where
  "reason_meet a b = (if r_rank a \<ge> r_rank b then a else b)"

datatype verdict = Allow | Deny (deny_code: string) (deny_cause: reason)

definition Verdict_deny :: "string \<Rightarrow> verdict option" where
  "Verdict_deny word = map_option (\<lambda>cause. Deny (r_word cause) cause) (Reason_parse word)"

definition is_deny :: "verdict \<Rightarrow> bool" where
  "is_deny v = (case v of Deny _ _ \<Rightarrow> True | Allow \<Rightarrow> False)"

definition Verdict_code :: "verdict \<Rightarrow> string option" where
  "Verdict_code v = (case v of Deny code _ \<Rightarrow> Some code | Allow \<Rightarrow> None)"

fun Verdict_join :: "verdict \<Rightarrow> verdict \<Rightarrow> verdict" where
  "Verdict_join Allow x = x"
| "Verdict_join x Allow = x"
| "Verdict_join (Deny _ a) (Deny _ b) =
     (let c = reason_join a b in Deny (r_word c) c)"

fun Verdict_meet :: "verdict \<Rightarrow> verdict \<Rightarrow> verdict" where
  "Verdict_meet Allow _ = Allow"
| "Verdict_meet _ Allow = Allow"
| "Verdict_meet (Deny _ a) (Deny _ b) =
     (let c = reason_meet a b in Deny (r_word c) c)"

section \<open>Well-formed reasons and verdicts\<close>

text \<open>
  The fields of a reason are private in the source: a reason comes from \<open>Reason_parse\<close> only,
  and a deny verdict from the constructors above. These predicates say so.
\<close>

definition valid_reason :: "reason \<Rightarrow> bool" where
  "valid_reason r \<longleftrightarrow> Reason_parse (r_word r) = Some r"

definition valid_verdict :: "verdict \<Rightarrow> bool" where
  "valid_verdict v = (case v of Allow \<Rightarrow> True | Deny code cause \<Rightarrow> valid_reason cause \<and> code = r_word cause)"

lemma distinct_DENY_REASONS: "distinct DENY_REASONS"
  by (simp add: DENY_REASONS_def)

lemma Reason_parse_Some:
  "Reason_parse w = Some r \<Longrightarrow>
     r_word r = w \<and> r_rank r < length DENY_REASONS \<and> DENY_REASONS ! r_rank r = w"
  by (auto simp: Reason_parse_def dest: index_of_Some)

lemma valid_reason_iff:
  "valid_reason r \<longleftrightarrow> r_rank r < length DENY_REASONS \<and> r_word r = DENY_REASONS ! r_rank r"
proof
  assume "valid_reason r"
  then show "r_rank r < length DENY_REASONS \<and> r_word r = DENY_REASONS ! r_rank r"
    by (auto simp: valid_reason_def Reason_parse_def dest: index_of_Some)
next
  assume "r_rank r < length DENY_REASONS \<and> r_word r = DENY_REASONS ! r_rank r"
  then show "valid_reason r"
    by (simp add: valid_reason_def Reason_parse_def index_of_nth distinct_DENY_REASONS)
qed

lemma Reason_parse_valid: "Reason_parse w = Some r \<Longrightarrow> valid_reason r"
  by (auto simp: valid_reason_def dest: Reason_parse_Some)

lemma valid_reason_eq:
  "valid_reason a \<Longrightarrow> valid_reason b \<Longrightarrow> r_rank a = r_rank b \<Longrightarrow> a = b"
  by (auto simp: valid_reason_iff)

lemma Verdict_deny_valid: "Verdict_deny w = Some v \<Longrightarrow> valid_verdict v \<and> is_deny v"
  by (auto simp: Verdict_deny_def valid_verdict_def is_deny_def dest: Reason_parse_valid)

section \<open>Lattice laws\<close>

text \<open>A lattice on a carrier: two combination operators with the absorption laws.\<close>

locale refusal_lattice =
  j: comm_idem_op carrier join + m: comm_idem_op carrier meet
  for carrier :: "'a \<Rightarrow> bool" and join :: "'a \<Rightarrow> 'a \<Rightarrow> 'a" and meet :: "'a \<Rightarrow> 'a \<Rightarrow> 'a" +
  assumes absorb_join: "carrier a \<Longrightarrow> carrier b \<Longrightarrow> join a (meet a b) = a"
    and absorb_meet: "carrier a \<Longrightarrow> carrier b \<Longrightarrow> meet a (join a b) = a"
begin

lemma join_meet_order:
  assumes "carrier a" "carrier b"
  shows "join a b = b \<longleftrightarrow> meet a b = a"
  using assms absorb_join absorb_meet j.comm m.comm by metis

end

interpretation reasons: refusal_lattice valid_reason reason_join reason_meet
  by unfold_locales
    (auto simp: reason_join_def reason_meet_def intro: valid_reason_eq)

lemma Verdict_op_Deny:
  "valid_verdict (Deny c a) \<Longrightarrow> valid_verdict (Deny d b) \<Longrightarrow>
     Verdict_join (Deny c a) (Deny d b) = Deny (r_word (reason_join a b)) (reason_join a b) \<and>
     Verdict_meet (Deny c a) (Deny d b) = Deny (r_word (reason_meet a b)) (reason_meet a b)"
  by (simp add: Let_def)

lemma valid_verdict_simps [simp]:
  "valid_verdict Allow"
  "valid_verdict (Deny c a) \<longleftrightarrow> valid_reason a \<and> c = r_word a"
  by (simp_all add: valid_verdict_def)

lemma Verdict_Allow [simp]: "Verdict_join v Allow = v" "Verdict_meet v Allow = Allow"
  by (cases v; simp)+

interpretation verdicts: refusal_lattice valid_verdict Verdict_join Verdict_meet
proof (unfold_locales, goal_cases)
  case (1 a b) then show ?case by (cases a; cases b) (auto simp: Let_def intro: reasons.j.closed)
next
  case (2 a b) then show ?case by (cases a; cases b) (simp_all add: Let_def reasons.j.comm)
next
  case (3 a b c) then show ?case
    by (cases a; cases b; cases c) (simp_all add: Let_def reasons.j.assoc)
next
  case (4 a) then show ?case by (cases a) (simp_all add: Let_def reasons.j.idem)
next
  case (5 a b) then show ?case by (cases a; cases b) (auto simp: Let_def intro: reasons.m.closed)
next
  case (6 a b) then show ?case by (cases a; cases b) (simp_all add: Let_def reasons.m.comm)
next
  case (7 a b c) then show ?case
    by (cases a; cases b; cases c) (simp_all add: Let_def reasons.m.assoc)
next
  case (8 a) then show ?case by (cases a) (simp_all add: Let_def reasons.m.idem)
next
  case (9 a b) then show ?case
    by (cases a; cases b) (simp_all add: Let_def reasons.absorb_join reasons.j.idem)
next
  case (10 a b) then show ?case
    by (cases a; cases b) (simp_all add: Let_def reasons.absorb_meet reasons.m.idem)
qed

section \<open>Combining the verdicts of many gates\<close>

definition verdict_causes :: "verdict list \<Rightarrow> reason list" where
  "verdict_causes vs = map deny_cause (filter is_deny vs)"

lemma verdict_causes_simps [simp]:
  "verdict_causes [] = []"
  "verdict_causes (Allow # vs) = verdict_causes vs"
  "verdict_causes (Deny c a # vs) = a # verdict_causes vs"
  by (simp_all add: verdict_causes_def is_deny_def)

lemma join_verdicts_shape:
  "list_all valid_verdict vs \<Longrightarrow>
     (case foldr Verdict_join vs Allow of
        Allow \<Rightarrow> verdict_causes vs = []
      | Deny c a \<Rightarrow> c = r_word a \<and> a \<in> set (verdict_causes vs) \<and>
          (\<forall>b \<in> set (verdict_causes vs). r_rank a \<le> r_rank b))"
proof (induction vs)
  case (Cons v vs)
  then show ?case
    by (cases v; cases "foldr Verdict_join vs Allow") (auto simp: Let_def reason_join_def)
qed simp

lemma verdict_causes_Nil: "verdict_causes vs = [] \<longleftrightarrow> (\<forall>v \<in> set vs. v = Allow)"
proof (induction vs)
  case (Cons v vs) then show ?case by (cases v) auto
qed simp

text \<open>
  Reasons built by \<open>Reason::parse\<close> and the verdicts over them form a lattice under the
  code's \<open>join\<close> and \<open>meet\<close> (closed, commutative, associative, idempotent, absorbing), and
  \<open>Allow\<close> is its bottom element, so no combination of refusals can produce a value outside the
  frozen vocabulary or lose a refusal.
\<close>

theorem verdict_lattice:
  assumes "valid_verdict a" "valid_verdict b" "valid_verdict c"
  shows "valid_verdict (Verdict_join a b) \<and> valid_verdict (Verdict_meet a b)
    \<and> Verdict_join a b = Verdict_join b a \<and> Verdict_meet a b = Verdict_meet b a
    \<and> Verdict_join (Verdict_join a b) c = Verdict_join a (Verdict_join b c)
    \<and> Verdict_meet (Verdict_meet a b) c = Verdict_meet a (Verdict_meet b c)
    \<and> Verdict_join a a = a \<and> Verdict_meet a a = a
    \<and> Verdict_join a (Verdict_meet a b) = a \<and> Verdict_meet a (Verdict_join a b) = a
    \<and> Verdict_join Allow a = a \<and> Verdict_meet Allow a = Allow
    \<and> (is_deny (Verdict_join a b) \<longleftrightarrow> is_deny a \<or> is_deny b)"
proof -
  have "is_deny (Verdict_join a b) \<longleftrightarrow> is_deny a \<or> is_deny b"
    by (cases a; cases b) (simp_all add: is_deny_def Let_def)
  then show ?thesis
    using verdicts.j.closed [OF assms(1,2)] verdicts.m.closed [OF assms(1,2)]
      verdicts.j.comm [OF assms(1,2)] verdicts.m.comm [OF assms(1,2)]
      verdicts.j.assoc [OF assms] verdicts.m.assoc [OF assms]
      verdicts.j.idem [OF assms(1)] verdicts.m.idem [OF assms(1)]
      verdicts.absorb_join [OF assms(1,2)] verdicts.absorb_meet [OF assms(1,2)]
    by (intro conjI; (assumption | simp only: Verdict_join.simps Verdict_meet.simps))
qed

theorem verdict_lattice_witness:
  "let a = the (Verdict_deny ''SINK_CLEARANCE''); b = the (Verdict_deny ''SECRET_LEAK'')
   in Verdict_join a b = Verdict_join b a \<and> Verdict_code (Verdict_join a b) = Some ''SINK_CLEARANCE''"
proof -
  let ?a = "the (Verdict_deny ''SINK_CLEARANCE'')" and ?b = "the (Verdict_deny ''SECRET_LEAK'')"
  have "valid_verdict ?a" "valid_verdict ?b" by code_simp+
  then have "Verdict_join ?a ?b = Verdict_join ?b ?a"
    using verdict_lattice [of ?a ?b Allow] by simp
  moreover have "Verdict_code (Verdict_join ?a ?b) = Some ''SINK_CLEARANCE''" by code_simp
  ultimately show ?thesis by (simp add: Let_def)
qed

text \<open>
  Combining the verdicts of any list of gates with \<open>join\<close> allows exactly when every gate
  allows; otherwise the result is the deny of a cause that occurs in the list and that no
  other cause outranks, with that cause's word as its code, and the result depends only on
  which verdicts the list holds, not on the order the gates ran in.
\<close>

theorem combined_verdict_most_severe:
  assumes "list_all valid_verdict vs" "set ws = set vs"
  shows "foldr Verdict_join ws Allow = foldr Verdict_join vs Allow \<and>
    (foldr Verdict_join vs Allow = Allow \<longleftrightarrow> (\<forall>v \<in> set vs. v = Allow)) \<and>
    (foldr Verdict_join vs Allow \<noteq> Allow \<longrightarrow>
      (\<exists>a \<in> set (verdict_causes vs). foldr Verdict_join vs Allow = Deny (r_word a) a \<and>
         (\<forall>b \<in> set (verdict_causes vs). r_rank a \<le> r_rank b)))"
proof -
  have "list_all valid_verdict ws" using assms by (simp add: list_all_iff)
  then have "foldr Verdict_join ws Allow = foldr Verdict_join vs Allow"
    using assms by (intro verdicts.j.foldr_set_cong) simp_all
  moreover have "foldr Verdict_join vs Allow = Allow \<longleftrightarrow> verdict_causes vs = []"
    using join_verdicts_shape [OF assms(1)] by (auto split: verdict.splits)
  moreover have "foldr Verdict_join vs Allow \<noteq> Allow \<longrightarrow>
      (\<exists>a \<in> set (verdict_causes vs). foldr Verdict_join vs Allow = Deny (r_word a) a \<and>
         (\<forall>b \<in> set (verdict_causes vs). r_rank a \<le> r_rank b))"
    using join_verdicts_shape [OF assms(1)] by (auto split: verdict.splits)
  ultimately show ?thesis by (simp add: verdict_causes_Nil)
qed

theorem combined_verdict_most_severe_witness:
  "let a = the (Verdict_deny ''SECRET_LEAK''); b = the (Verdict_deny ''SECRET_TO_EXEC'')
   in foldr Verdict_join [a, Allow, b] Allow = foldr Verdict_join [b, a, Allow] Allow
      \<and> Verdict_code (foldr Verdict_join [a, Allow, b] Allow) = Some ''SECRET_TO_EXEC''"
proof -
  let ?a = "the (Verdict_deny ''SECRET_LEAK'')" and ?b = "the (Verdict_deny ''SECRET_TO_EXEC'')"
  have "list_all valid_verdict [?b, ?a, Allow]" by code_simp
  moreover have "set [?a, Allow, ?b] = set [?b, ?a, Allow]" by auto
  ultimately have "foldr Verdict_join [?a, Allow, ?b] Allow = foldr Verdict_join [?b, ?a, Allow] Allow"
    using combined_verdict_most_severe by blast
  moreover have "Verdict_code (foldr Verdict_join [?a, Allow, ?b] Allow) = Some ''SECRET_TO_EXEC''"
    by code_simp
  ultimately show ?thesis by (simp only: Let_def simp_thms)
qed

end
