(* ===== verification/Labels.thy ===== *)
theory Labels
  imports Prelude "HOL-Library.FSet" "HOL-Library.Char_ord" "HOL-Library.List_Lexorder"
begin

text \<open>
  \<open>src/labels.rs\<close>: the three-component security label (confidentiality, integrity, consent
  scopes), its join and meet, the flow check of the gateway, the canonical rendering and the
  parser of label annotations, and the projection of the legacy taint kinds. The
  \<open>BTreeSet<String>\<close> of consent scopes is a finite set of strings, rendered in sorted order.
\<close>

section \<open>The axes\<close>

datatype conf = Public | Consented | Private | Poisoned

datatype integrity = Untrusted | Trusted

text \<open>The derived \<open>Ord\<close> of the source is the declaration order.\<close>

fun conf_rank :: "conf \<Rightarrow> nat" where
  "conf_rank Public = 0"
| "conf_rank Consented = 1"
| "conf_rank Private = 2"
| "conf_rank Poisoned = 3"

instantiation conf :: linorder
begin

definition less_eq_conf :: "conf \<Rightarrow> conf \<Rightarrow> bool" where
  "less_eq_conf a b \<longleftrightarrow> conf_rank a \<le> conf_rank b"

definition less_conf :: "conf \<Rightarrow> conf \<Rightarrow> bool" where
  "less_conf a b \<longleftrightarrow> conf_rank a < conf_rank b"

instance
proof
  fix a b :: conf
  show "a \<le> b \<Longrightarrow> b \<le> a \<Longrightarrow> a = b"
    by (cases a; cases b) (simp_all add: less_eq_conf_def)
qed (auto simp: less_eq_conf_def less_conf_def)

end

instantiation integrity :: linorder
begin

definition less_eq_integrity :: "integrity \<Rightarrow> integrity \<Rightarrow> bool" where
  "less_eq_integrity a b \<longleftrightarrow> (a = Trusted \<longrightarrow> b = Trusted)"

definition less_integrity :: "integrity \<Rightarrow> integrity \<Rightarrow> bool" where
  "less_integrity a b \<longleftrightarrow> a = Untrusted \<and> b = Trusted"

instance
proof
  fix a b :: integrity
  show "(a < b) = (a \<le> b \<and> \<not> b \<le> a)"
    by (cases a; cases b) (simp_all add: less_eq_integrity_def less_integrity_def)
  show "a \<le> b \<Longrightarrow> b \<le> a \<Longrightarrow> a = b"
    by (cases a; cases b) (simp_all add: less_eq_integrity_def)
  show "a \<le> b \<or> b \<le> a"
    by (cases a; cases b) (simp_all add: less_eq_integrity_def)
qed (auto simp: less_eq_integrity_def)

end

fun Conf_join :: "conf \<Rightarrow> conf \<Rightarrow> conf" where
  "Conf_join a b = (if a = Poisoned \<or> b = Poisoned then Poisoned else max a b)"

fun Conf_meet :: "conf \<Rightarrow> conf \<Rightarrow> conf" where
  "Conf_meet a b = (if a = Poisoned \<or> b = Poisoned then Poisoned else min a b)"

definition Conf_parse_word :: "string \<Rightarrow> conf option" where
  "Conf_parse_word w =
     (if w = ''public'' then Some Public
      else if w = ''consented'' then Some Consented
      else if w = ''private'' then Some Private
      else if w = ''poisoned'' then Some Poisoned
      else None)"

fun Conf_word :: "conf \<Rightarrow> string" where
  "Conf_word Public = ''public''"
| "Conf_word Consented = ''consented''"
| "Conf_word Private = ''private''"
| "Conf_word Poisoned = ''poisoned''"

definition Integrity_join :: "integrity \<Rightarrow> integrity \<Rightarrow> integrity" where
  "Integrity_join a b = min a b"

definition Integrity_meet :: "integrity \<Rightarrow> integrity \<Rightarrow> integrity" where
  "Integrity_meet a b = max a b"

definition Integrity_parse_word :: "string \<Rightarrow> integrity option" where
  "Integrity_parse_word w =
     (if w = ''untrusted'' then Some Untrusted
      else if w = ''trusted'' then Some Trusted
      else None)"

fun Integrity_word :: "integrity \<Rightarrow> string" where
  "Integrity_word Untrusted = ''untrusted''"
| "Integrity_word Trusted = ''trusted''"

type_synonym consent_scope = "string fset"

definition from_scopes :: "string list \<Rightarrow> consent_scope" where
  "from_scopes ss = fset_of_list ss"

definition Consent_join :: "consent_scope \<Rightarrow> consent_scope \<Rightarrow> consent_scope" where
  "Consent_join a b = a |\<inter>| b"

definition Consent_meet :: "consent_scope \<Rightarrow> consent_scope \<Rightarrow> consent_scope" where
  "Consent_meet a b = a |\<union>| b"

definition Consent_display :: "consent_scope \<Rightarrow> string" where
  "Consent_display c =
     (if c = {||} then []
      else ''consent('' @ join_with '', '' (sorted_list_of_fset c) @ '')'')"

section \<open>Labels\<close>

record label =
  l_conf :: conf
  l_integrity :: integrity
  l_consent :: consent_scope

definition Label_bottom :: label where
  "Label_bottom = \<lparr>l_conf = Public, l_integrity = Trusted, l_consent = {||}\<rparr>"

definition Label_join :: "label \<Rightarrow> label \<Rightarrow> label" where
  "Label_join a b =
     \<lparr>l_conf = Conf_join (l_conf a) (l_conf b),
      l_integrity = Integrity_join (l_integrity a) (l_integrity b),
      l_consent = Consent_join (l_consent a) (l_consent b)\<rparr>"

definition Label_meet :: "label \<Rightarrow> label \<Rightarrow> label" where
  "Label_meet a b =
     \<lparr>l_conf = Conf_meet (l_conf a) (l_conf b),
      l_integrity = Integrity_meet (l_integrity a) (l_integrity b),
      l_consent = Consent_meet (l_consent a) (l_consent b)\<rparr>"

definition flows_to :: "label \<Rightarrow> label \<Rightarrow> bool" where
  "flows_to l requirement =
     (if l_conf l = Poisoned then False
      else l_conf l \<le> l_conf requirement
         \<and> l_integrity l \<ge> l_integrity requirement
         \<and> fBall (l_consent requirement) (\<lambda>s. s |\<in>| l_consent l))"

definition Label_display :: "label \<Rightarrow> string" where
  "Label_display l =
     Conf_word (l_conf l) @ '', '' @ Integrity_word (l_integrity l)
     @ (if l_consent l = {||} then [] else '', '' @ Consent_display (l_consent l))"

section \<open>Annotation parsing\<close>

datatype label_parse_error_kind =
  Empty | DuplicateConf | DuplicateIntegrity | DuplicateConsent | UnknownWord
| EmptyConsentList | MissingConf

record label_parse_error =
  e_kind :: label_parse_error_kind
  e_word :: string

abbreviation parse_err :: "label_parse_error_kind \<Rightarrow> string \<Rightarrow> (label_parse_error, 'a) result" where
  "parse_err k w \<equiv> Inl \<lparr>e_kind = k, e_word = w\<rparr>"

text \<open>The loop that splits on commas outside parentheses: the parts, the depth and the
  current part are the loop's variables.\<close>

fun split_parts :: "string \<Rightarrow> nat \<Rightarrow> string \<Rightarrow> string list \<Rightarrow> (label_parse_error, string list \<times> nat) result" where
  "split_parts [] depth current parts = Inr (parts @ [current], depth)"
| "split_parts (ch # cs) depth current parts =
     (if ch = CHR ''('' then split_parts cs (depth + 1) (current @ [ch]) parts
      else if ch = CHR '')'' then
        (if depth = 0 then parse_err UnknownWord current
         else split_parts cs (depth - 1) (current @ [ch]) parts)
      else if ch = CHR '','' \<and> depth = 0 then split_parts cs depth [] (parts @ [current])
      else split_parts cs depth (current @ [ch]) parts)"

definition consent_scopes_of :: "string \<Rightarrow> string list" where
  "consent_scopes_of inner = filter (\<lambda>s. s \<noteq> []) (map trim (split_on (CHR '','') inner))"

text \<open>The loop over the parts, with the three optional components as its variables.\<close>

fun parse_parts :: "string list \<Rightarrow> conf option \<Rightarrow> integrity option \<Rightarrow> consent_scope option
    \<Rightarrow> (label_parse_error, conf option \<times> integrity option \<times> consent_scope option) result" where
  "parse_parts [] c i s = Inr (c, i, s)"
| "parse_parts (p # ps) c i s =
     (let part = trim p in
      if part = [] then parse_err UnknownWord part
      else case strip_prefix ''consent('' part of
        Some rest \<Rightarrow>
          (if s \<noteq> None then parse_err DuplicateConsent part
           else case strip_suffix '')'' rest of
             None \<Rightarrow> parse_err UnknownWord part
           | Some inner \<Rightarrow>
               (let scopes = consent_scopes_of inner in
                if scopes = [] then parse_err EmptyConsentList part
                else parse_parts ps c i (Some (from_scopes scopes))))
      | None \<Rightarrow>
          (case Conf_parse_word part of
             Some cw \<Rightarrow> if c \<noteq> None then parse_err DuplicateConf part
                        else parse_parts ps (Some cw) i s
           | None \<Rightarrow>
               (case Integrity_parse_word part of
                  Some iw \<Rightarrow> if i \<noteq> None then parse_err DuplicateIntegrity part
                             else parse_parts ps c (Some iw) s
                | None \<Rightarrow> parse_err UnknownWord part)))"

definition Label_parse :: "string \<Rightarrow> (label_parse_error, label) result" where
  "Label_parse raw0 =
     (let raw = trim raw0 in
      if raw = [] then parse_err Empty []
      else case split_parts raw 0 [] [] of
        Inl e \<Rightarrow> Inl e
      | Inr (parts, depth) \<Rightarrow>
          (if depth \<noteq> 0 then parse_err UnknownWord raw
           else case parse_parts parts None None None of
             Inl e \<Rightarrow> Inl e
           | Inr (c, i, s) \<Rightarrow>
               (case c of
                  None \<Rightarrow> parse_err MissingConf raw
                | Some cw \<Rightarrow>
                    Inr \<lparr>l_conf = cw,
                         l_integrity = (case i of None \<Rightarrow> Trusted | Some iw \<Rightarrow> iw),
                         l_consent = (case s of None \<Rightarrow> {||} | Some sc \<Rightarrow> sc)\<rparr>)))"

definition legacy_taint_label :: "string \<Rightarrow> label option" where
  "legacy_taint_label kind =
     map_option (\<lambda>(c, i). \<lparr>l_conf = c, l_integrity = i, l_consent = {||}\<rparr>)
       (if kind = ''LlmOutput'' then Some (Public, Untrusted)
        else if kind = ''UserInput'' then Some (Public, Untrusted)
        else if kind = ''Sanitized'' then Some (Public, Trusted)
        else if kind = ''CanaryLeak'' then Some (Poisoned, Untrusted)
        else None)"

section \<open>Join, meet and flow\<close>

lemma conf_le_simps [simp]:
  "Public \<le> c" "c \<le> Poisoned" "Poisoned \<le> c \<longleftrightarrow> c = Poisoned" "c \<le> Public \<longleftrightarrow> c = Public"
  by (cases c; simp add: less_eq_conf_def)+

lemma integrity_le_simps [simp]:
  "Untrusted \<le> i" "i \<le> Trusted" "Trusted \<le> i \<longleftrightarrow> i = Trusted" "i \<le> Untrusted \<longleftrightarrow> i = Untrusted"
  by (cases i; simp add: less_eq_integrity_def)+

lemma max_Poisoned: "max a b = Poisoned \<longleftrightarrow> a = Poisoned \<or> b = Poisoned"
  by (cases a; cases b) (simp_all add: max_def less_eq_conf_def)

lemma min_Poisoned: "min a b = Poisoned \<longleftrightarrow> a = Poisoned \<and> b = (Poisoned :: conf)"
  by (cases a; cases b) (simp_all add: min_def less_eq_conf_def)

interpretation label_joins: comm_idem_op "\<lambda>_. True" Label_join
  by unfold_locales
    (auto simp: Label_join_def Integrity_join_def Consent_join_def ac_simps max_Poisoned)

interpretation label_meets: comm_idem_op "\<lambda>_. True" Label_meet
  by unfold_locales
    (auto simp: Label_meet_def Integrity_meet_def Consent_meet_def ac_simps min_Poisoned)

lemma flows_to_join_iff:
  "flows_to (Label_join a b) r \<longleftrightarrow> flows_to a r \<and> flows_to b r"
  by (auto simp: flows_to_def Label_join_def Integrity_join_def Consent_join_def max_Poisoned)

lemma flows_to_trans: "flows_to a b \<Longrightarrow> flows_to b c \<Longrightarrow> flows_to a c"
  by (auto simp: flows_to_def intro: order_trans split: if_splits)

lemma flows_to_meet_iff:
  assumes "l_conf r \<noteq> Poisoned" "l_conf s \<noteq> Poisoned"
  shows "flows_to a (Label_meet r s) \<longleftrightarrow> flows_to a r \<and> flows_to a s"
  using assms by (auto simp: flows_to_def Label_meet_def Integrity_meet_def Consent_meet_def)

text \<open>
  C27. No laundering by combination: data obtained by joining any list of labelled values may
  pass a sink exactly when every one of the values may, so a value that may not reach a sink
  cannot be made to reach it by mixing it with others; in particular a poisoned ingredient
  blocks every sink, and the order of mixing does not matter.
\<close>

theorem no_laundering_by_join:
  "(flows_to (foldr Label_join ls base) r \<longleftrightarrow> flows_to base r \<and> (\<forall>l \<in> set ls. flows_to l r))
   \<and> ((\<exists>l \<in> set ls. l_conf l = Poisoned) \<longrightarrow> \<not> flows_to (foldr Label_join ls base) r)
   \<and> (set ks = set ls \<longrightarrow> foldr Label_join ks base = foldr Label_join ls base)"
proof -
  have flow: "flows_to (foldr Label_join ls base) r \<longleftrightarrow> flows_to base r \<and> (\<forall>l \<in> set ls. flows_to l r)"
    by (induction ls) (auto simp: flows_to_join_iff)
  moreover have "\<not> flows_to l r" if "l_conf l = Poisoned" for l
    using that by (simp add: flows_to_def)
  moreover have "foldr Label_join ks base = foldr Label_join ls base" if "set ks = set ls"
    using that label_joins.foldr_set_cong [of ks ls base] by (simp add: list_all_iff)
  ultimately show ?thesis by blast
qed

theorem no_laundering_by_join_witness:
  "\<not> flows_to (foldr Label_join
      [\<lparr>l_conf = Public, l_integrity = Trusted, l_consent = {||}\<rparr>,
       \<lparr>l_conf = Poisoned, l_integrity = Untrusted, l_consent = {||}\<rparr>] Label_bottom) Label_bottom"
  using no_laundering_by_join [of
      "[\<lparr>l_conf = Public, l_integrity = Trusted, l_consent = {||}\<rparr>,
        \<lparr>l_conf = Poisoned, l_integrity = Untrusted, l_consent = {||}\<rparr>]" Label_bottom Label_bottom "[]"]
  by (simp add: flows_to_def)

text \<open>
  Requirements combined with \<open>meet\<close> are the conjunction of the requirements as long as
  neither is poisoned; flow is reflexive off quarantine and transitive. With a poisoned
  requirement the absorbing \<open>meet\<close> of the code widens instead: private data passes the
  combination of a public requirement and a poisoned one although it does not pass the public
  one alone.
\<close>

theorem requirement_meet:
  "(l_conf r \<noteq> Poisoned \<and> l_conf s \<noteq> Poisoned \<longrightarrow>
      (flows_to a (Label_meet r s) \<longleftrightarrow> flows_to a r \<and> flows_to a s))
   \<and> (flows_to a a \<longleftrightarrow> l_conf a \<noteq> Poisoned)
   \<and> (flows_to a r \<and> flows_to r s \<longrightarrow> flows_to a s)
   \<and> (\<exists>x p q. \<not> flows_to x p \<and> l_conf q = Poisoned \<and> flows_to x (Label_meet p q))"
proof -
  let ?x = "\<lparr>l_conf = Private, l_integrity = Trusted, l_consent = {||}\<rparr>"
  let ?q = "\<lparr>l_conf = Poisoned, l_integrity = Trusted, l_consent = {||}\<rparr>"
  have "\<not> flows_to ?x Label_bottom \<and> l_conf ?q = Poisoned \<and> flows_to ?x (Label_meet Label_bottom ?q)"
    by (simp add: flows_to_def Label_bottom_def Label_meet_def Integrity_meet_def Consent_meet_def)
  moreover have "flows_to a a \<longleftrightarrow> l_conf a \<noteq> Poisoned"
    by (auto simp: flows_to_def)
  ultimately show ?thesis
    using flows_to_meet_iff flows_to_trans by blast
qed

theorem requirement_meet_witness:
  "flows_to Label_bottom (Label_meet Label_bottom Label_bottom) \<longleftrightarrow> flows_to Label_bottom Label_bottom"
  using requirement_meet [of Label_bottom Label_bottom Label_bottom]
  by (simp add: Label_bottom_def)

section \<open>Rendering and parsing\<close>

text \<open>A scope name the annotation syntax can carry.\<close>

definition scope_ok :: "string \<Rightarrow> bool" where
  "scope_ok w \<longleftrightarrow> w \<noteq> [] \<and> \<not> is_whitespace (hd w) \<and> \<not> is_whitespace (last w)
     \<and> CHR '','' \<notin> set w \<and> CHR ''('' \<notin> set w \<and> CHR '')'' \<notin> set w"

lemma split_parts_word:
  "CHR '','' \<notin> set w \<Longrightarrow> CHR ''('' \<notin> set w \<Longrightarrow> CHR '')'' \<notin> set w \<Longrightarrow>
     split_parts (w @ cs) depth current parts = split_parts cs depth (current @ w) parts"
  by (induction w arbitrary: current) auto

lemma split_parts_inside:
  "CHR ''('' \<notin> set w \<Longrightarrow> CHR '')'' \<notin> set w \<Longrightarrow>
     split_parts (w @ cs) (Suc depth) current parts = split_parts cs (Suc depth) (current @ w) parts"
  by (induction w arbitrary: current) auto

lemma is_whitespace_simps [simp]:
  "is_whitespace (CHR '' '')" "\<not> is_whitespace (CHR '')'')" "\<not> is_whitespace (CHR ''c'')"
  "\<not> is_whitespace (CHR ''p'')" "\<not> is_whitespace (CHR ''t'')" "\<not> is_whitespace (CHR ''u'')"
  "\<not> is_whitespace (CHR ''d'')"
  by (simp_all add: is_whitespace_def)

lemma trim_space: "trim (CHR '' '' # s) = trim s"
  by (simp add: trim_def)

lemma trim_scope_ok: "scope_ok w \<Longrightarrow> trim w = w"
  by (simp add: scope_ok_def trim_bounded)

lemma split_on_join:
  "list_all scope_ok ws \<Longrightarrow> ws \<noteq> [] \<Longrightarrow>
     split_on (CHR '','') (join_with '', '' ws) = hd ws # map ((#) (CHR '' '')) (tl ws)"
proof (induction "'', ''" ws rule: join_with.induct)
  case (3 w v ws)
  then have "split_on (CHR '','') (w @ CHR '','' # CHR '' '' # join_with '', '' (v # ws))
      = w # split_on (CHR '','') (CHR '' '' # join_with '', '' (v # ws))"
    by (intro split_on_append_delim) (simp add: scope_ok_def)
  with 3 show ?case by simp
qed (simp_all add: scope_ok_def split_on_no_delim)

lemma consent_scopes_of_join:
  assumes "list_all scope_ok ws" "ws \<noteq> []"
  shows "consent_scopes_of (join_with '', '' ws) = ws"
proof -
  have "map trim (map ((#) (CHR '' '')) (tl ws)) = tl ws"
    using assms by (cases ws) (auto simp: trim_space trim_scope_ok list_all_iff intro!: map_idI)
  moreover have "trim (hd ws) = hd ws"
    using assms by (cases ws) (simp_all add: trim_scope_ok)
  moreover have "filter (\<lambda>s. s \<noteq> []) ws = ws"
    using assms(1) by (induction ws) (auto simp: scope_ok_def)
  ultimately show ?thesis
    using assms by (simp add: consent_scopes_of_def split_on_join)
qed

lemma join_scopes_chars:
  "list_all scope_ok ws \<Longrightarrow> CHR ''('' \<notin> set (join_with '', '' ws) \<and> CHR '')'' \<notin> set (join_with '', '' ws)"
  by (induction "'', ''" ws rule: join_with.induct) (auto simp: scope_ok_def)

lemma word_facts:
  "CHR '','' \<notin> set (Conf_word c)" "CHR ''('' \<notin> set (Conf_word c)" "CHR '')'' \<notin> set (Conf_word c)"
  "CHR '','' \<notin> set (Integrity_word i)" "CHR ''('' \<notin> set (Integrity_word i)"
  "CHR '')'' \<notin> set (Integrity_word i)"
  "Conf_word c \<noteq> []" "\<not> is_whitespace (hd (Conf_word c))" "\<not> is_whitespace (last (Conf_word c))"
  "Integrity_word i \<noteq> []" "\<not> is_whitespace (hd (Integrity_word i))"
  "\<not> is_whitespace (last (Integrity_word i))"
  "Conf_parse_word (Conf_word c) = Some c" "Integrity_parse_word (Integrity_word i) = Some i"
  "Conf_parse_word (Integrity_word i) = None"
  "strip_prefix ''consent('' (Conf_word c) = None" "strip_prefix ''consent('' (Integrity_word i) = None"
  by (cases c; cases i; simp add: is_whitespace_def Conf_parse_word_def Integrity_parse_word_def)+

lemma trim_words [simp]: "trim (Conf_word c) = Conf_word c" "trim (Integrity_word i) = Integrity_word i"
  by (simp_all add: trim_bounded word_facts)

lemma Label_display_trim: "trim (Label_display l) = Label_display l"
  by (rule trim_bounded) (auto simp: Label_display_def Consent_display_def word_facts)

lemma split_parts_static:
  "split_parts (Conf_word c @ CHR '','' # CHR '' '' # Integrity_word i @ rest) 0 [] []
     = split_parts rest 0 (CHR '' '' # Integrity_word i) [Conf_word c]"
  by (simp add: split_parts_word word_facts)

lemma split_parts_display:
  assumes "list_all scope_ok (sorted_list_of_fset (l_consent l))"
  shows "split_parts (Label_display l) 0 [] [] =
    Inr ([Conf_word (l_conf l), CHR '' '' # Integrity_word (l_integrity l)]
         @ (if l_consent l = {||} then [] else [CHR '' '' # Consent_display (l_consent l)]), 0)"
proof (cases "l_consent l = {||}")
  case True
  then show ?thesis
    using split_parts_static [of "l_conf l" "l_integrity l" "[]"] by (simp add: Label_display_def)
next
  case False
  let ?in = "join_with '', '' (sorted_list_of_fset (l_consent l))"
  have "split_parts (CHR '','' # '' consent('' @ ?in @ '')'') 0 (CHR '' '' # Integrity_word (l_integrity l)) [Conf_word (l_conf l)]
      = split_parts (?in @ '')'') (Suc 0) '' consent(''
          [Conf_word (l_conf l), CHR '' '' # Integrity_word (l_integrity l)]"
    by simp
  also have "\<dots> = split_parts '')'' (Suc 0) ('' consent('' @ ?in)
          [Conf_word (l_conf l), CHR '' '' # Integrity_word (l_integrity l)]"
    using join_scopes_chars [OF assms] by (intro split_parts_inside) auto
  finally show ?thesis
    using False split_parts_static [of "l_conf l" "l_integrity l" "CHR '','' # '' consent('' @ ?in @ '')''"]
    by (simp add: Label_display_def Consent_display_def)
qed

text \<open>
  Parsing the canonical rendering of a label gives the label back, for every label whose
  scope names the annotation syntax can carry: rendering loses no component, and the defaults
  the parser fills in never change a rendered label.
\<close>

theorem Label_parse_display:
  assumes "fBall (l_consent l) scope_ok"
  shows "Label_parse (Label_display l) = Inr l"
proof -
  let ?ws = "sorted_list_of_fset (l_consent l)"
  have ws: "list_all scope_ok ?ws" using assms by (simp add: list_all_iff)
  have ne: "Label_display l \<noteq> []" by (simp add: Label_display_def word_facts)
  show ?thesis
  proof (cases "l_consent l = {||}")
    case True
    then show ?thesis
      by (simp add: Label_parse_def Label_display_trim ne split_parts_display [OF ws] trim_space word_facts Let_def)
  next
    case False
    then have ne': "?ws \<noteq> []"
      by (metis fset_of_list_simps(1) sorted_list_of_fset_simps(2))
    have tr: "trim (Consent_display (l_consent l)) = Consent_display (l_consent l)"
      using False by (intro trim_bounded) (simp_all add: Consent_display_def)
    have pre: "strip_prefix ''consent('' (Consent_display (l_consent l)) = Some (join_with '', '' ?ws @ '')'')"
      using False by (simp only: Consent_display_def if_False strip_prefix_append)
    have suf: "strip_suffix '')'' (join_with '', '' ?ws @ '')'') = Some (join_with '', '' ?ws)"
      by (simp add: strip_suffix_Some)
    have "from_scopes ?ws = l_consent l"
      by (simp add: from_scopes_def)
    with False ne' show ?thesis
      by (simp add: Label_parse_def Label_display_trim ne split_parts_display [OF ws] trim_space word_facts
          tr pre suf consent_scopes_of_join [OF ws ne'] Let_def) (simp add: Consent_display_def)
  qed
qed

theorem Label_parse_display_witness:
  "Label_parse ''private, untrusted, consent(analytics, gdpr)''
     = Inr \<lparr>l_conf = Private, l_integrity = Untrusted, l_consent = {|''gdpr'', ''analytics''|}\<rparr>"
proof -
  let ?l = "\<lparr>l_conf = Private, l_integrity = Untrusted, l_consent = {|''gdpr'', ''analytics''|}\<rparr>"
  have "fBall (l_consent ?l) scope_ok" by (simp add: scope_ok_def is_whitespace_def)
  then have "Label_parse (Label_display ?l) = Inr ?l" by (rule Label_parse_display)
  moreover have "Label_display ?l = ''private, untrusted, consent(analytics, gdpr)''"
    by (simp add: Label_display_def Consent_display_def sorted_list_of_fset.rep_eq less_list_code less_char_def
        less_eq_list_code less_eq_char_def)
  ultimately show ?thesis by simp
qed

end
