(* ===== verification/Ledger.thy ===== *)
theory Ledger
  imports Prelude
begin

text \<open>
  \<open>src/ledger.rs\<close>: the action ledger, an append-only journal in which every record carries
  the hash of the one before and an Ed25519 signature, with key rotation and snapshots, and
  the verifier of exported chains.

  The hash, the signature scheme, the hexadecimal codec and the JSON serializer are crates the
  sources only call: they are the fields of \<open>crypto\<close>, a parameter of every definition that
  uses one of them. \<open>crypto_ok\<close> and \<open>json_ok\<close> state the documented behaviour the proofs rely
  on; collision resistance is never assumed, the tamper theorem names the collision instead.
  The in-memory SQLite table is the list of its rows; a failed initialization is \<open>None\<close>. The
  clock reading that a call makes is an argument. The in-toto rendering of a chain is left out.
\<close>

section \<open>Records\<close>

record ledger_record =
  lr_seq :: u64
  lr_ts :: u64
  lr_kind :: string
  lr_actor :: string
  lr_action :: string
  lr_scope :: string
  lr_args_hash :: string
  lr_prev_hash :: string
  lr_new_pubkey :: string
  lr_key_id :: string
  lr_pubkey :: string
  lr_hash :: string
  lr_sig :: string

record ledger_body =
  lb_seq :: u64
  lb_ts :: u64
  lb_kind :: string
  lb_actor :: string
  lb_action :: string
  lb_scope :: string
  lb_args_hash :: string
  lb_prev_hash :: string
  lb_new_pubkey :: "string option"
  lb_key_id :: string
  lb_pubkey :: string

record crypto =
  sha256 :: "string \<Rightarrow> string"
  hex_encode :: "string \<Rightarrow> string"
  hex_decode :: "string \<Rightarrow> string option"
  verifying_key :: "string \<Rightarrow> string"
  ed_sign :: "string \<Rightarrow> string \<Rightarrow> string"
  vk_from_bytes :: "string \<Rightarrow> bool"
  ed_verify :: "string \<Rightarrow> string \<Rightarrow> string \<Rightarrow> bool"
  json_body :: "ledger_body \<Rightarrow> string"
  json_record :: "ledger_record \<Rightarrow> string"
  json_parse :: "string \<Rightarrow> ledger_record option"

definition GENESIS_PREV_HASH :: string where
  "GENESIS_PREV_HASH = replicate 64 (CHR ''0'')"

definition LEDGER_SCHEMA_VERSION :: nat where
  "LEDGER_SCHEMA_VERSION = 1"

definition body_of :: "ledger_record \<Rightarrow> ledger_body" where
  "body_of r =
     \<lparr>lb_seq = lr_seq r, lb_ts = lr_ts r, lb_kind = lr_kind r, lb_actor = lr_actor r,
      lb_action = lr_action r, lb_scope = lr_scope r, lb_args_hash = lr_args_hash r,
      lb_prev_hash = lr_prev_hash r,
      lb_new_pubkey = (if lr_new_pubkey r = [] then None else Some (lr_new_pubkey r)),
      lb_key_id = lr_key_id r, lb_pubkey = lr_pubkey r\<rparr>"

definition canonical_body :: "crypto \<Rightarrow> ledger_record \<Rightarrow> string" where
  "canonical_body C r = json_body C (body_of r)"

definition sha256_hex :: "crypto \<Rightarrow> string \<Rightarrow> string" where
  "sha256_hex C data = hex_encode C (sha256 C data)"

definition record_hash :: "crypto \<Rightarrow> ledger_record \<Rightarrow> string" where
  "record_hash C r = sha256_hex C (canonical_body C r)"

definition decode_hex_32_plus :: "crypto \<Rightarrow> string \<Rightarrow> string option" where
  "decode_hex_32_plus C s = (if s = [] \<or> odd (length s) then None else hex_decode C s)"

definition key_id_of :: "crypto \<Rightarrow> string \<Rightarrow> string option" where
  "key_id_of C pubkey_hex =
     map_option (\<lambda>bytes. take 16 (sha256_hex C bytes)) (decode_hex_32_plus C pubkey_hex)"

definition args_hash_of :: "crypto \<Rightarrow> string \<Rightarrow> string" where
  "args_hash_of C detail = sha256_hex C detail"

text \<open>\<open>unwrap_or_default\<close> on an optional string.\<close>

definition or_default :: "string option \<Rightarrow> string" where
  "or_default x = (case x of None \<Rightarrow> [] | Some s \<Rightarrow> s)"

section \<open>The runtime store\<close>

record ledger_state =
  ls_conn :: "ledger_record list option"
  ls_signing :: string
  ls_active_pubkey :: string
  ls_head_seq :: "u64 option"
  ls_head_hash :: string
  ls_write_failures :: u64

datatype ledger_error = LedgerUnavailable | LedgerInsert

definition load_or_generate_signing_key :: "crypto \<Rightarrow> string option \<Rightarrow> string \<Rightarrow> string" where
  "load_or_generate_signing_key C env_key random_seed =
     (case env_key of
        Some seed_hex \<Rightarrow>
          (case hex_decode C (trim seed_hex) of
             Some seed \<Rightarrow> if length seed = 32 then seed else random_seed
           | None \<Rightarrow> random_seed)
      | None \<Rightarrow> random_seed)"

text \<open>\<open>ORDER BY seq\<close> over the stored rows; the column is a signed 64-bit integer.\<close>

definition by_seq :: "ledger_record list \<Rightarrow> ledger_record list" where
  "by_seq rows = sort_key (\<lambda>r. as_i64 (lr_seq r)) rows"

definition map_row :: "ledger_record \<Rightarrow> ledger_record" where
  "map_row r = r\<lparr>lr_seq := db_u64 (lr_seq r), lr_ts := db_u64 (lr_ts r)\<rparr>"

definition ledger_init :: "crypto \<Rightarrow> ledger_record list option \<Rightarrow> string \<Rightarrow> ledger_state" where
  "ledger_init C conn signing =
     (let active_pubkey = hex_encode C (verifying_key C signing);
          head = (case conn of None \<Rightarrow> None
                  | Some rows \<Rightarrow> if rows = [] then None else Some (last (by_seq rows)));
          rotated = (case conn of None \<Rightarrow> None
                  | Some rows \<Rightarrow>
                      (let rots = filter (\<lambda>r. lr_kind r = ''key_rotation'') (by_seq rows)
                       in if rots = [] then None else Some (lr_new_pubkey (last rots))))
      in \<lparr>ls_conn = conn, ls_signing = signing,
          ls_active_pubkey =
            (case rotated of Some p \<Rightarrow> p
             | None \<Rightarrow> (case head of Some r \<Rightarrow> lr_pubkey r | None \<Rightarrow> active_pubkey)),
          ls_head_seq = map_option (\<lambda>r. db_u64 (lr_seq r)) head,
          ls_head_hash = (case head of Some r \<Rightarrow> lr_hash r | None \<Rightarrow> GENESIS_PREV_HASH),
          ls_write_failures = 0\<rparr>)"

definition append_record ::
  "crypto \<Rightarrow> u64 \<Rightarrow> string \<Rightarrow> string \<Rightarrow> string \<Rightarrow> string \<Rightarrow> string \<Rightarrow> string option \<Rightarrow> ledger_state
     \<Rightarrow> (ledger_error, ledger_record) result \<times> ledger_state"
where
  "append_record C now kind actor action scope args_hash new_pubkey st =
     (case ls_conn st of
        None \<Rightarrow> (Inl LedgerUnavailable, st)
      | Some rows \<Rightarrow>
          (let pubkey = hex_encode C (verifying_key C (ls_signing st));
               record0 =
                 \<lparr>lr_seq = (case ls_head_seq st of None \<Rightarrow> 0 | Some s \<Rightarrow> u64_add s 1),
                  lr_ts = now, lr_kind = kind, lr_actor = actor, lr_action = action,
                  lr_scope = scope, lr_args_hash = args_hash, lr_prev_hash = ls_head_hash st,
                  lr_new_pubkey = or_default new_pubkey,
                  lr_key_id = or_default (key_id_of C pubkey), lr_pubkey = pubkey,
                  lr_hash = [], lr_sig = []\<rparr>;
               hash = record_hash C record0;
               r = record0\<lparr>lr_hash := hash,
                     lr_sig := hex_encode C (ed_sign C (ls_signing st) hash)\<rparr>
           in if lr_seq r \<in> lr_seq ` set rows then (Inl LedgerInsert, st)
              else (Inr r, st\<lparr>ls_conn := Some (rows @ [r]), ls_head_seq := Some (lr_seq r),
                              ls_head_hash := lr_hash r\<rparr>)))"

text \<open>\<open>record\<close>: the best-effort side effect of every action. A failed write is counted.\<close>

definition record_action ::
  "crypto \<Rightarrow> u64 \<Rightarrow> string \<Rightarrow> string \<Rightarrow> string \<Rightarrow> string \<Rightarrow> ledger_state \<Rightarrow> ledger_state"
where
  "record_action C now action actor scope detail st =
     (case append_record C now ''action'' actor action scope (args_hash_of C detail) None st of
        (Inr _, st') \<Rightarrow> st'
      | (Inl _, st') \<Rightarrow> st'\<lparr>ls_write_failures := u64_add (ls_write_failures st') 1\<rparr>)"

definition ledger_count :: "ledger_state \<Rightarrow> (ledger_error, u64) result" where
  "ledger_count st =
     (case ls_conn st of None \<Rightarrow> Inl LedgerUnavailable | Some rows \<Rightarrow> Inr (length rows))"

definition head_hash :: "ledger_state \<Rightarrow> string" where
  "head_hash st = (if ls_head_seq st = None then [] else ls_head_hash st)"

definition rotate_key ::
  "crypto \<Rightarrow> u64 \<Rightarrow> string \<Rightarrow> ledger_state \<Rightarrow> (ledger_error, string) result \<times> ledger_state"
where
  "rotate_key C now seed_bytes st =
     (let new_pubkey = hex_encode C (verifying_key C seed_bytes);
          new_key_id = or_default (key_id_of C new_pubkey)
      in case append_record C now ''key_rotation'' ''runtime'' ''ledger.rotate'' []
                (args_hash_of C new_pubkey) (Some new_pubkey) st of
           (Inl e, st') \<Rightarrow> (Inl e, st')
         | (Inr _, st') \<Rightarrow>
             (Inr new_key_id, st'\<lparr>ls_signing := seed_bytes, ls_active_pubkey := new_pubkey\<rparr>))"

definition snapshot :: "crypto \<Rightarrow> u64 \<Rightarrow> ledger_state \<Rightarrow> (ledger_error, string) result \<times> ledger_state" where
  "snapshot C now st =
     (case append_record C now ''snapshot'' ''runtime'' ''ledger.snapshot'' []
             (args_hash_of C ''snapshot'') None st of
        (Inl e, st') \<Rightarrow> (Inl e, st')
      | (Inr r, st') \<Rightarrow> (Inr (lr_hash r), st'))"

definition all_records :: "ledger_state \<Rightarrow> (ledger_error, ledger_record list) result" where
  "all_records st =
     (case ls_conn st of
        None \<Rightarrow> Inl LedgerUnavailable | Some rows \<Rightarrow> Inr (map map_row (by_seq rows)))"

definition record_at :: "u64 \<Rightarrow> ledger_state \<Rightarrow> (ledger_error, ledger_record option) result" where
  "record_at seq st =
     (case ls_conn st of
        None \<Rightarrow> Inl LedgerUnavailable
      | Some rows \<Rightarrow> Inr (map_option map_row (find (\<lambda>r. as_i64 (lr_seq r) = as_i64 seq) rows)))"

section \<open>Export\<close>

definition records_to_jsonl :: "crypto \<Rightarrow> ledger_record list \<Rightarrow> string" where
  "records_to_jsonl C rs = concat (map (\<lambda>r. json_record C r @ [CHR 0x0A]) rs)"

definition export_jsonl :: "crypto \<Rightarrow> ledger_state \<Rightarrow> (ledger_error, string) result" where
  "export_jsonl C st =
     (case all_records st of Inl e \<Rightarrow> Inl e | Inr rs \<Rightarrow> Inr (records_to_jsonl C rs))"

text \<open>\<open>str::lines\<close>: the pieces between line feeds, without a trailing empty one, and without
  the carriage return of a CR LF line end.\<close>

definition strip_cr :: "string \<Rightarrow> string" where
  "strip_cr l = (case strip_suffix [CHR 0x0D] l of None \<Rightarrow> l | Some x \<Rightarrow> x)"

definition str_lines :: "string \<Rightarrow> string list" where
  "str_lines s =
     (let ps = split_on (CHR 0x0A) s
      in map strip_cr (if last ps = [] then butlast ps else ps))"

fun records_from_lines :: "crypto \<Rightarrow> nat \<Rightarrow> string list \<Rightarrow> (nat, ledger_record list) result" where
  "records_from_lines C i [] = Inr []"
| "records_from_lines C i (l # ls) =
     (let line = trim l
      in if line = [] then records_from_lines C (Suc i) ls
         else case json_parse C line of
                None \<Rightarrow> Inl (i + 1)
              | Some r \<Rightarrow>
                  (case records_from_lines C (Suc i) ls of Inl e \<Rightarrow> Inl e | Inr rs \<Rightarrow> Inr (r # rs)))"

definition records_from_jsonl :: "crypto \<Rightarrow> string \<Rightarrow> (nat, ledger_record list) result" where
  "records_from_jsonl C content = records_from_lines C 0 (str_lines content)"

section \<open>Verification\<close>

datatype fault_reason =
  EmptyLedger | SnapshotAtZero | NoSignerKey | BadStartSeq u64 | BadGenesis string
| KeyAnchorMismatch string string | SeqGap u64 u64 | PrevHashBreak string string
| HashMismatch | KeyIdMismatch | SignerBreak string string | SigNot64 | PubkeyNot32
| MalformedPubkey | SigFailed | RotationWithoutKey | NewPubkeyOn string | UnknownKind string
| HeadAnchorMismatch string string | NotARecord nat | CannotRead

record verify_fault =
  vf_record :: "nat option"
  vf_reason :: fault_reason

record verify_report =
  vr_schema_version :: nat
  vr_records :: nat
  vr_head_hash :: string
  vr_distinct_keys :: nat
  vr_anchored_start :: bool

abbreviation fault_at :: "nat \<Rightarrow> fault_reason \<Rightarrow> (verify_fault, 'a) result" where
  "fault_at n why \<equiv> Inl \<lparr>vf_record = Some n, vf_reason = why\<rparr>"

abbreviation chain_fault :: "fault_reason \<Rightarrow> (verify_fault, 'a) result" where
  "chain_fault why \<equiv> Inl \<lparr>vf_record = None, vf_reason = why\<rparr>"

definition sized :: "nat \<Rightarrow> string option \<Rightarrow> string option" where
  "sized n v = (case v of None \<Rightarrow> None | Some b \<Rightarrow> if length b = n then Some b else None)"

text \<open>The checks on one record, in the order of the loop body; \<open>n\<close> is its 1-based position.
  The result is the signer that must have signed the next record.\<close>

definition check_one ::
  "crypto \<Rightarrow> nat \<Rightarrow> string \<Rightarrow> u64 \<Rightarrow> string \<Rightarrow> ledger_record \<Rightarrow> (verify_fault, string) result"
where
  "check_one C n prev_hash expected_seq active_pubkey r =
     (if lr_seq r \<noteq> expected_seq then fault_at n (SeqGap expected_seq (lr_seq r))
      else if lr_prev_hash r \<noteq> prev_hash then fault_at n (PrevHashBreak prev_hash (lr_prev_hash r))
      else if record_hash C r \<noteq> lr_hash r then fault_at n HashMismatch
      else if or_default (key_id_of C (lr_pubkey r)) \<noteq> lr_key_id r then fault_at n KeyIdMismatch
      else if lr_pubkey r \<noteq> active_pubkey then
        fault_at n (SignerBreak (lr_key_id r) (or_default (key_id_of C active_pubkey)))
      else case sized 64 (decode_hex_32_plus C (lr_sig r)) of
        None \<Rightarrow> fault_at n SigNot64
      | Some sig \<Rightarrow>
          (case sized 32 (decode_hex_32_plus C (lr_pubkey r)) of
             None \<Rightarrow> fault_at n PubkeyNot32
           | Some vk \<Rightarrow>
               if \<not> vk_from_bytes C vk then fault_at n MalformedPubkey
               else if \<not> ed_verify C vk (lr_hash r) sig then fault_at n SigFailed
               else if lr_kind r = ''key_rotation'' then
                 (if lr_new_pubkey r = [] then fault_at n RotationWithoutKey
                  else Inr (lr_new_pubkey r))
               else if lr_new_pubkey r \<noteq> [] then fault_at n (NewPubkeyOn (lr_kind r))
               else if lr_kind r \<noteq> ''action'' \<and> lr_kind r \<noteq> ''snapshot''
                 then fault_at n (UnknownKind (lr_kind r))
               else Inr active_pubkey))"

fun verify_loop ::
  "crypto \<Rightarrow> nat \<Rightarrow> string \<Rightarrow> u64 \<Rightarrow> string \<Rightarrow> string set \<Rightarrow> ledger_record list
     \<Rightarrow> (verify_fault, string set) result"
where
  "verify_loop C n prev_hash expected_seq active_pubkey distinct_keys [] = Inr distinct_keys"
| "verify_loop C n prev_hash expected_seq active_pubkey distinct_keys (r # rs) =
     (case check_one C n prev_hash expected_seq active_pubkey r of
        Inl e \<Rightarrow> Inl e
      | Inr active' \<Rightarrow>
          verify_loop C (Suc n) (lr_hash r) (u64_add (lr_seq r) 1) active'
            (insert (lr_key_id r)
              (if lr_kind r = ''key_rotation''
               then insert (or_default (key_id_of C active')) distinct_keys else distinct_keys))
            rs)"

definition verify_start ::
  "string option \<Rightarrow> ledger_record \<Rightarrow> (verify_fault, bool) result"
where
  "verify_start expect_key first =
     (let anchored = (lr_kind first = ''snapshot'');
          key_check = (case expect_key of
              Some k \<Rightarrow> if lr_pubkey first \<noteq> k then fault_at 1 (KeyAnchorMismatch k (lr_pubkey first))
                        else Inr anchored
            | None \<Rightarrow> Inr anchored)
      in if anchored then
           (if lr_seq first = 0 then fault_at 1 SnapshotAtZero
            else if lr_new_pubkey first = [] \<and> lr_pubkey first = [] then fault_at 1 NoSignerKey
            else key_check)
         else if lr_seq first \<noteq> 0 then fault_at 1 (BadStartSeq (lr_seq first))
         else if lr_prev_hash first \<noteq> GENESIS_PREV_HASH then fault_at 1 (BadGenesis (lr_prev_hash first))
         else key_check)"

definition verify_records_structural ::
  "crypto \<Rightarrow> ledger_record list \<Rightarrow> string option \<Rightarrow> string option \<Rightarrow> (verify_fault, verify_report) result"
where
  "verify_records_structural C records expect_head expect_key =
     (case records of
        [] \<Rightarrow> chain_fault EmptyLedger
      | first # _ \<Rightarrow>
          (case verify_start expect_key first of
             Inl e \<Rightarrow> Inl e
           | Inr anchored \<Rightarrow>
               (case verify_loop C 1 (lr_prev_hash first) (lr_seq first) (lr_pubkey first)
                       {lr_key_id first} records of
                  Inl e \<Rightarrow> Inl e
                | Inr distinct_keys \<Rightarrow>
                    (let head = lr_hash (last records);
                         report = \<lparr>vr_schema_version = LEDGER_SCHEMA_VERSION,
                                   vr_records = length records, vr_head_hash = head,
                                   vr_distinct_keys = card distinct_keys,
                                   vr_anchored_start = anchored\<rparr>
                     in case expect_head of
                          Some h \<Rightarrow> if head \<noteq> h then chain_fault (HeadAnchorMismatch h head)
                                    else Inr report
                        | None \<Rightarrow> Inr report))))"

text \<open>\<open>verify_records\<close> is the same function with the fault rendered as text.\<close>

definition verify_records ::
  "crypto \<Rightarrow> ledger_record list \<Rightarrow> string option \<Rightarrow> string option \<Rightarrow> (verify_fault, verify_report) result"
where
  "verify_records C records expect_head expect_key =
     verify_records_structural C records expect_head expect_key"

record ledger_verdict =
  lv_ok :: bool
  lv_schema_version :: nat
  lv_records :: nat
  lv_head_hash :: string
  lv_distinct_keys :: nat
  lv_anchored_start :: bool
  lv_fault :: "verify_fault option"

datatype ledger_verify_source = Jsonl string | File string

definition failed_verdict :: "nat \<Rightarrow> verify_fault \<Rightarrow> ledger_verdict" where
  "failed_verdict n fault =
     \<lparr>lv_ok = False, lv_schema_version = LEDGER_SCHEMA_VERSION, lv_records = n, lv_head_hash = [],
      lv_distinct_keys = 0, lv_anchored_start = False, lv_fault = Some fault\<rparr>"

text \<open>The file system is a map from paths to contents; an unreadable file is absent.\<close>

definition ledger_verify ::
  "crypto \<Rightarrow> (string \<rightharpoonup> string) \<Rightarrow> ledger_verify_source \<Rightarrow> string option \<Rightarrow> string option \<Rightarrow> ledger_verdict"
where
  "ledger_verify C fs source expect_head expect_key =
     (let parsed = (case (case source of Jsonl content \<Rightarrow> Some content | File path \<Rightarrow> fs path) of
            None \<Rightarrow> Inl \<lparr>vf_record = None, vf_reason = CannotRead\<rparr>
          | Some content \<Rightarrow>
              (case records_from_jsonl C content of
                 Inl i \<Rightarrow> Inl \<lparr>vf_record = None, vf_reason = NotARecord i\<rparr>
               | Inr rs \<Rightarrow> Inr rs))
      in case parsed of
           Inl fault \<Rightarrow> failed_verdict 0 fault
         | Inr records \<Rightarrow>
             (if records = [] then
                (let fault = (case expect_head of
                       Some h \<Rightarrow> Some \<lparr>vf_record = None, vf_reason = HeadAnchorMismatch h []\<rparr>
                     | None \<Rightarrow>
                         (case expect_key of
                            Some k \<Rightarrow> Some \<lparr>vf_record = None, vf_reason = KeyAnchorMismatch k []\<rparr>
                          | None \<Rightarrow> None))
                 in \<lparr>lv_ok = (fault = None), lv_schema_version = LEDGER_SCHEMA_VERSION,
                     lv_records = 0, lv_head_hash = [], lv_distinct_keys = 0,
                     lv_anchored_start = False, lv_fault = fault\<rparr>)
              else case verify_records_structural C records expect_head expect_key of
                Inr rep \<Rightarrow>
                  \<lparr>lv_ok = True, lv_schema_version = vr_schema_version rep,
                   lv_records = vr_records rep, lv_head_hash = vr_head_hash rep,
                   lv_distinct_keys = vr_distinct_keys rep,
                   lv_anchored_start = vr_anchored_start rep, lv_fault = None\<rparr>
              | Inl fault \<Rightarrow> failed_verdict (length records) fault))"

datatype archive_error = ArchiveRead | ArchiveParse nat | NoSnapshotAt u64 | SliceFault verify_fault

definition verify_file ::
  "crypto \<Rightarrow> (string \<rightharpoonup> string) \<Rightarrow> string \<Rightarrow> string option \<Rightarrow> string option \<Rightarrow> (archive_error, verify_report) result"
where
  "verify_file C fs path expect_head expect_key =
     (case fs path of
        None \<Rightarrow> Inl ArchiveRead
      | Some content \<Rightarrow>
          (case records_from_jsonl C content of
             Inl i \<Rightarrow> Inl (ArchiveParse i)
           | Inr records \<Rightarrow>
               (case verify_records C records expect_head expect_key of
                  Inl f \<Rightarrow> Inl (SliceFault f) | Inr rep \<Rightarrow> Inr rep)))"

definition archive_file ::
  "crypto \<Rightarrow> (string \<rightharpoonup> string) \<Rightarrow> string \<Rightarrow> string \<Rightarrow> u64
     \<Rightarrow> (archive_error, verify_report) result \<times> (string \<rightharpoonup> string)"
where
  "archive_file C fs input output at_seq =
     (case fs input of
        None \<Rightarrow> (Inl ArchiveRead, fs)
      | Some content \<Rightarrow>
          (case records_from_jsonl C content of
             Inl i \<Rightarrow> (Inl (ArchiveParse i), fs)
           | Inr records \<Rightarrow>
               (let slice = dropWhile (\<lambda>r. \<not> (lr_seq r = at_seq \<and> lr_kind r = ''snapshot'')) records
                in if slice = [] then (Inl (NoSnapshotAt at_seq), fs)
                   else case verify_records C slice None None of
                          Inl f \<Rightarrow> (Inl (SliceFault f), fs)
                        | Inr rep \<Rightarrow> (Inr rep, fs(output \<mapsto> records_to_jsonl C slice)))))"

definition build_record ::
  "crypto \<Rightarrow> string \<Rightarrow> nat \<Rightarrow> string \<Rightarrow> string \<times> string \<times> string \<Rightarrow> ledger_record"
where
  "build_record C signing i prev_hash spec =
     (case spec of (action, actor, scope) \<Rightarrow>
       let pubkey = hex_encode C (verifying_key C signing);
           r0 = \<lparr>lr_seq = i, lr_ts = 1700000000 + i, lr_kind = ''action'', lr_actor = actor,
                 lr_action = action, lr_scope = scope,
                 lr_args_hash = args_hash_of C (action @ ''|'' @ actor @ ''|'' @ scope),
                 lr_prev_hash = prev_hash, lr_new_pubkey = [],
                 lr_key_id = or_default (key_id_of C pubkey), lr_pubkey = pubkey,
                 lr_hash = [], lr_sig = []\<rparr>;
           hash = record_hash C r0
       in r0\<lparr>lr_hash := hash, lr_sig := hex_encode C (ed_sign C signing hash)\<rparr>)"

fun build_chain_from ::
  "crypto \<Rightarrow> string \<Rightarrow> nat \<Rightarrow> string \<Rightarrow> (string \<times> string \<times> string) list \<Rightarrow> ledger_record list"
where
  "build_chain_from C signing i prev_hash [] = []"
| "build_chain_from C signing i prev_hash (spec # specs) =
     (let r = build_record C signing i prev_hash spec
      in r # build_chain_from C signing (Suc i) (lr_hash r) specs)"

definition build_chain ::
  "crypto \<Rightarrow> string \<Rightarrow> (string \<times> string \<times> string) list \<Rightarrow> ledger_record list"
where
  "build_chain C signing specs = build_chain_from C signing 0 GENESIS_PREV_HASH specs"

section \<open>What the proofs rely on\<close>

text \<open>
  The hexadecimal codec is a round trip of twice the length, a key pair made from a 32-byte
  seed has a well-formed 32-byte public key, and its 64-byte signatures verify.
\<close>

definition crypto_ok :: "crypto \<Rightarrow> bool" where
  "crypto_ok C \<longleftrightarrow>
     (\<forall>b. hex_decode C (hex_encode C b) = Some b \<and> length (hex_encode C b) = 2 * length b)
   \<and> (\<forall>s. length s = 32 \<longrightarrow>
         length (verifying_key C s) = 32 \<and> vk_from_bytes C (verifying_key C s)
         \<and> (\<forall>m. length (ed_sign C s m) = 64 \<and> ed_verify C (verifying_key C s) m (ed_sign C s m)))"

definition record_u64 :: "ledger_record \<Rightarrow> bool" where
  "record_u64 r \<longleftrightarrow> is_u64 (lr_seq r) \<and> is_u64 (lr_ts r)"

text \<open>
  Serialization is faithful: distinct bodies have distinct texts, a serialized record parses
  back, and its text is one line that starts and ends with a visible character.
\<close>

definition json_ok :: "crypto \<Rightarrow> bool" where
  "json_ok C \<longleftrightarrow>
     (\<forall>r r'. record_u64 r \<longrightarrow> record_u64 r' \<longrightarrow>
         canonical_body C r = canonical_body C r' \<longrightarrow> body_of r = body_of r')
   \<and> (\<forall>r. record_u64 r \<longrightarrow>
         json_parse C (json_record C r) = Some r \<and> CHR 0x0A \<notin> set (json_record C r)
         \<and> json_record C r \<noteq> [] \<and> \<not> is_whitespace (hd (json_record C r))
         \<and> \<not> is_whitespace (last (json_record C r)))"

lemma crypto_okD:
  assumes "crypto_ok C"
  shows "hex_decode C (hex_encode C b) = Some b" "length (hex_encode C b) = 2 * length b"
    and "length s = 32 \<Longrightarrow> length (verifying_key C s) = 32"
    and "length s = 32 \<Longrightarrow> vk_from_bytes C (verifying_key C s)"
    and "length s = 32 \<Longrightarrow> length (ed_sign C s m) = 64"
    and "length s = 32 \<Longrightarrow> ed_verify C (verifying_key C s) m (ed_sign C s m)"
  using assms by (simp_all add: crypto_ok_def)

lemma json_okD:
  assumes "json_ok C" "record_u64 r"
  shows "json_parse C (json_record C r) = Some r" "CHR 0x0A \<notin> set (json_record C r)"
    and "trim (json_record C r) = json_record C r" "json_record C r \<noteq> []"
    and "\<not> is_whitespace (last (json_record C r))"
  using assms by (auto simp: json_ok_def intro: trim_bounded)

lemma hex_encode_inj: "crypto_ok C \<Longrightarrow> hex_encode C a = hex_encode C b \<longleftrightarrow> a = b"
  by (metis crypto_okD(1) option.inject)

lemma decode_hex_encoded:
  assumes "crypto_ok C" "b \<noteq> []"
  shows "decode_hex_32_plus C (hex_encode C b) = Some b"
proof -
  have "length (hex_encode C b) = 2 * length b" using assms by (simp add: crypto_okD)
  moreover have "hex_encode C b \<noteq> []" using calculation assms by auto
  ultimately show ?thesis
    using assms by (simp add: decode_hex_32_plus_def crypto_okD)
qed

end
