(* ===== verification/Sample_Crypto.thy ===== *)
theory Sample_Crypto
  imports Ledger
begin

text \<open>
  A concrete instance of the parameter \<open>crypto\<close> on which every function computes: a real
  hexadecimal codec, a self-delimiting field encoding in place of JSON, and a checksum-like
  digest and signature that pad and truncate. It shows that \<open>crypto_ok\<close> and \<open>json_ok\<close> can hold
  together, and is what the witnesses of the ledger's properties run on.
\<close>

definition byte_hex :: "char \<Rightarrow> string" where
  "byte_hex c = [digit_char (of_char c div 16), digit_char (of_char c mod 16)]"

definition sample_hex_encode :: "string \<Rightarrow> string" where
  "sample_hex_encode b = concat (map byte_hex b)"

fun sample_hex_decode :: "string \<Rightarrow> string option" where
  "sample_hex_decode [] = Some []"
| "sample_hex_decode [c] = None"
| "sample_hex_decode (a # b # s) =
     (case (index_of a ''0123456789abcdef'', index_of b ''0123456789abcdef'', sample_hex_decode s) of
        (Some i, Some j, Some r) \<Rightarrow> Some (char_of (16 * i + j) # r)
      | _ \<Rightarrow> None)"

definition pad_to :: "nat \<Rightarrow> string \<Rightarrow> string" where
  "pad_to n s = take n (s @ replicate n (CHR 0x00))"

definition enc_fields :: "string list \<Rightarrow> string" where
  "enc_fields fs = ''r'' @ concat (map (\<lambda>f. CHR ''.'' # sample_hex_encode f) fs)"

definition dec_fields :: "string \<Rightarrow> string list option" where
  "dec_fields s = (case split_on (CHR ''.'') s of [] \<Rightarrow> None | _ # fs \<Rightarrow> those (map sample_hex_decode fs))"

definition sample_json_body :: "ledger_body \<Rightarrow> string" where
  "sample_json_body b = enc_fields
     [show_dec (lb_seq b), show_dec (lb_ts b), lb_kind b, lb_actor b, lb_action b, lb_scope b,
      lb_args_hash b, lb_prev_hash b,
      (case lb_new_pubkey b of None \<Rightarrow> [] | Some k \<Rightarrow> CHR ''s'' # k), lb_key_id b, lb_pubkey b]"

definition record_fields :: "ledger_record \<Rightarrow> string list" where
  "record_fields r =
     [show_dec (lr_seq r), show_dec (lr_ts r), lr_kind r, lr_actor r, lr_action r, lr_scope r,
      lr_args_hash r, lr_prev_hash r, lr_new_pubkey r, lr_key_id r, lr_pubkey r, lr_hash r, lr_sig r]"

definition sample_json_record :: "ledger_record \<Rightarrow> string" where
  "sample_json_record r = enc_fields (record_fields r) @ ''.7a''"

definition record_of_fields :: "string list \<Rightarrow> ledger_record option" where
  "record_of_fields fs =
     (if length fs = 14 then
        case (read_base 10 0 (fs ! 0), read_base 10 0 (fs ! 1)) of
          (Some a, Some b) \<Rightarrow>
            Some \<lparr>lr_seq = a, lr_ts = b, lr_kind = fs ! 2, lr_actor = fs ! 3, lr_action = fs ! 4,
              lr_scope = fs ! 5, lr_args_hash = fs ! 6, lr_prev_hash = fs ! 7, lr_new_pubkey = fs ! 8,
              lr_key_id = fs ! 9, lr_pubkey = fs ! 10, lr_hash = fs ! 11, lr_sig = fs ! 12\<rparr>
        | _ \<Rightarrow> None
      else None)"

definition sample_crypto :: crypto where
  "sample_crypto =
     \<lparr>sha256 = pad_to 32, hex_encode = sample_hex_encode, hex_decode = sample_hex_decode,
      verifying_key = pad_to 32, ed_sign = (\<lambda>s m. pad_to 64 (pad_to 32 s @ m)),
      vk_from_bytes = (\<lambda>_. True), ed_verify = (\<lambda>vk m sig. sig = pad_to 64 (vk @ m)),
      json_body = sample_json_body, json_record = sample_json_record,
      json_parse = (\<lambda>s. Option.bind (dec_fields s) record_of_fields)\<rparr>"

lemma length_pad_to [simp]: "length (pad_to n s) = n"
  by (simp add: pad_to_def)

lemma char_nibbles: "(of_char c :: nat) div 16 < 16" "(of_char c :: nat) mod 16 < 16"
  by (rule less_mult_imp_div_less) simp_all

lemma byte_hex_decode:
  "sample_hex_decode (byte_hex c @ s) = map_option ((#) c) (sample_hex_decode s)"
proof -
  have i: "index_of (digit_char d) ''0123456789abcdef'' = Some d" if "d < 16" for d
    using index_of_digit [of 16 d] that by simp
  have "16 * (of_char c div 16) + of_char c mod 16 = (of_char c :: nat)"
    by (rule mult_div_mod_eq)
  then show ?thesis
    using i [OF char_nibbles(1)] i [OF char_nibbles(2)]
    by (simp add: byte_hex_def split: option.splits)
qed

lemma sample_hex_roundtrip: "sample_hex_decode (sample_hex_encode b) = Some b"
  by (induction b) (simp_all add: sample_hex_encode_def byte_hex_decode)

lemma length_sample_hex: "length (sample_hex_encode b) = 2 * length b"
  by (induction b) (simp_all add: sample_hex_encode_def byte_hex_def)

lemma sample_hex_chars: "set (sample_hex_encode b) \<subseteq> set ''0123456789abcdef''"
proof -
  have "set (byte_hex c) \<subseteq> set ''0123456789abcdef''" for c
    using digit_char_in [OF char_nibbles(1)] digit_char_in [OF char_nibbles(2)]
    unfolding byte_hex_def by simp
  then show ?thesis by (induction b) (simp_all add: sample_hex_encode_def)
qed

lemma dot_notin_hex [simp]: "CHR ''.'' \<notin> set (sample_hex_encode b)"
  using sample_hex_chars [of b] by auto

lemma split_enc_tail:
  "CHR ''.'' \<notin> set w \<Longrightarrow>
     split_on (CHR ''.'') (w @ concat (map (\<lambda>f. CHR ''.'' # sample_hex_encode f) fs))
       = w # map sample_hex_encode fs"
proof (induction fs arbitrary: w)
  case Nil
  then show ?case by (simp add: split_on_no_delim)
next
  case (Cons f fs)
  then show ?case by (simp add: split_on_append_delim)
qed

lemma those_map_Some: "(\<And>x. x \<in> set xs \<Longrightarrow> f x = Some (g x)) \<Longrightarrow> those (map f xs) = Some (map g xs)"
  by (induction xs) auto

lemma dec_enc_fields: "dec_fields (enc_fields fs) = Some fs"
proof -
  have "those (map (sample_hex_decode \<circ> sample_hex_encode) fs) = Some fs"
    using those_map_Some [of fs "sample_hex_decode \<circ> sample_hex_encode" id]
    by (simp add: sample_hex_roundtrip)
  moreover have "split_on (CHR ''.'') (enc_fields fs) = ''r'' # map sample_hex_encode fs"
    unfolding enc_fields_def by (rule split_enc_tail) simp
  ultimately show ?thesis by (simp add: dec_fields_def)
qed

lemma enc_fields_inj: "enc_fields a = enc_fields b \<longleftrightarrow> a = b"
  by (metis dec_enc_fields option.inject)

lemma sample_json_body_inj: "sample_json_body a = sample_json_body b \<Longrightarrow> a = b"
  by (auto simp: sample_json_body_def enc_fields_inj show_base_inj split: option.splits)

lemma sample_json_record_eq: "sample_json_record r = enc_fields (record_fields r @ [''z''])"
  by (simp add: sample_json_record_def enc_fields_def sample_hex_encode_def byte_hex_def digit_char_def)

lemma sample_json_roundtrip:
  "json_parse sample_crypto (sample_json_record r) = Some r"
  by (simp add: sample_crypto_def sample_json_record_eq dec_enc_fields record_of_fields_def
      record_fields_def read_show_base)

lemma enc_fields_chars:
  assumes "\<And>b. set (sample_hex_encode b) \<subseteq> H"
  shows "set (enc_fields fs) \<subseteq> insert (CHR ''r'') (insert (CHR ''.'') H)"
  using assms by (auto simp: enc_fields_def)

lemma sample_json_chars:
  "set (sample_json_record r) \<subseteq> insert (CHR ''r'') (insert (CHR ''.'') (set ''0123456789abcdef''))"
  unfolding sample_json_record_eq by (rule enc_fields_chars) (rule sample_hex_chars)

theorem sample_crypto_ok: "crypto_ok sample_crypto"
  by (simp add: crypto_ok_def sample_crypto_def sample_hex_roundtrip length_sample_hex)

theorem sample_json_ok: "json_ok sample_crypto"
proof -
  have "CHR 0x0A \<notin> set (sample_json_record r)" for r
    using sample_json_chars [of r] by auto
  moreover have "sample_json_record r \<noteq> [] \<and> \<not> is_whitespace (hd (sample_json_record r))
      \<and> \<not> is_whitespace (last (sample_json_record r))" for r
    by (simp add: sample_json_record_def enc_fields_def is_whitespace_def)
  ultimately show ?thesis
    unfolding json_ok_def canonical_body_def using sample_json_roundtrip sample_json_body_inj
    by (auto simp: sample_crypto_def)
qed

text \<open>The same with a digest that is the text itself: no two texts collide.\<close>

definition plain_crypto :: crypto where
  "plain_crypto = sample_crypto\<lparr>sha256 := (\<lambda>text. text)\<rparr>"

lemma plain_crypto_ok: "crypto_ok plain_crypto"
  using sample_crypto_ok by (simp add: crypto_ok_def plain_crypto_def)

lemma plain_json_ok: "json_ok plain_crypto"
proof -
  have "json_record plain_crypto = json_record sample_crypto" "json_parse plain_crypto = json_parse sample_crypto"
    "canonical_body plain_crypto r = canonical_body sample_crypto r" for r
    by (simp_all add: plain_crypto_def canonical_body_def)
  then show ?thesis using sample_json_ok by (simp only: json_ok_def)
qed

end
