(* ===== verification/Ledger_Chain.thy ===== *)
theory Ledger_Chain
  imports Ledger Sample_Crypto
begin

text \<open>
  Correctness of the action ledger: a declarative specification of a valid chain and its
  equivalence with the verifier of \<open>src/ledger.rs\<close>, tamper evidence, the invariant that every
  run of the runtime store keeps, the JSONL round trip and archiving. The interface
  \<open>journal\<close> is what the components that record their actions rely on.
\<close>

section \<open>Specification of a valid chain\<close>

definition next_active :: "string \<Rightarrow> ledger_record \<Rightarrow> string" where
  "next_active active r = (if lr_kind r = ''key_rotation'' then lr_new_pubkey r else active)"

definition signed_ok :: "crypto \<Rightarrow> ledger_record \<Rightarrow> bool" where
  "signed_ok C r \<longleftrightarrow>
     (\<exists>sig vk. sized 64 (decode_hex_32_plus C (lr_sig r)) = Some sig
        \<and> sized 32 (decode_hex_32_plus C (lr_pubkey r)) = Some vk
        \<and> vk_from_bytes C vk \<and> ed_verify C vk (lr_hash r) sig)"

definition kind_ok :: "ledger_record \<Rightarrow> bool" where
  "kind_ok r \<longleftrightarrow> (if lr_kind r = ''key_rotation'' then lr_new_pubkey r \<noteq> []
     else lr_new_pubkey r = [] \<and> lr_kind r \<in> {''action'', ''snapshot''})"

definition record_ok :: "crypto \<Rightarrow> string \<Rightarrow> ledger_record \<Rightarrow> bool" where
  "record_ok C active r \<longleftrightarrow>
     record_hash C r = lr_hash r \<and> or_default (key_id_of C (lr_pubkey r)) = lr_key_id r
     \<and> lr_pubkey r = active \<and> signed_ok C r \<and> kind_ok r"

definition signer_at :: "ledger_record list \<Rightarrow> nat \<Rightarrow> string" where
  "signer_at rs i = foldl next_active (lr_pubkey (hd rs)) (take i rs)"

text \<open>Consecutive numbers, linked hashes, and every record hashed and signed by the key that
  the rotations before it made active.\<close>

definition chain_valid :: "crypto \<Rightarrow> ledger_record list \<Rightarrow> bool" where
  "chain_valid C rs \<longleftrightarrow> (\<forall>i < length rs.
      lr_seq (rs ! i) = (lr_seq (hd rs) + i) mod 2 ^ 64
    \<and> (0 < i \<longrightarrow> lr_prev_hash (rs ! i) = lr_hash (rs ! (i - 1)))
    \<and> record_ok C (signer_at rs i) (rs ! i))"

definition start_ok :: "ledger_record \<Rightarrow> bool" where
  "start_ok r \<longleftrightarrow> (if lr_kind r = ''snapshot'' then lr_seq r \<noteq> 0
     else lr_seq r = 0 \<and> lr_prev_hash r = GENESIS_PREV_HASH)"

text \<open>The same as a recursion over the chain, for induction.\<close>

fun chain_from :: "crypto \<Rightarrow> string \<Rightarrow> u64 \<Rightarrow> string \<Rightarrow> ledger_record list \<Rightarrow> bool" where
  "chain_from C prev seq active [] = True"
| "chain_from C prev seq active (r # rs) =
     (lr_seq r = seq \<and> lr_prev_hash r = prev \<and> record_ok C active r
      \<and> chain_from C (lr_hash r) (u64_add seq 1) (next_active active r) rs)"

lemma check_one_iff:
  "check_one C n prev seq active r = Inr a \<longleftrightarrow>
     lr_seq r = seq \<and> lr_prev_hash r = prev \<and> record_ok C active r \<and> a = next_active active r"
  unfolding check_one_def record_ok_def signed_ok_def kind_ok_def next_active_def
  by (auto split: option.splits)

lemma verify_loop_ok:
  "(\<exists>keys'. verify_loop C n prev seq active keys rs = Inr keys') \<longleftrightarrow> chain_from C prev seq active rs"
proof (induction rs arbitrary: n prev seq active keys)
  case (Cons r rs)
  show ?case
  proof (cases "check_one C n prev seq active r")
    case (Inl e)
    then have "\<not> (lr_seq r = seq \<and> lr_prev_hash r = prev \<and> record_ok C active r)"
      using check_one_iff [of C n prev seq active r "next_active active r"] by auto
    with Inl show ?thesis by auto
  next
    case (Inr a)
    then have "lr_seq r = seq \<and> lr_prev_hash r = prev \<and> record_ok C active r \<and> a = next_active active r"
      by (simp add: check_one_iff)
    with Inr Cons show ?thesis by simp
  qed
qed simp

definition link_ok ::
  "crypto \<Rightarrow> string \<Rightarrow> u64 \<Rightarrow> string \<Rightarrow> ledger_record list \<Rightarrow> nat \<Rightarrow> bool"
where
  "link_ok C prev seq active rs i \<longleftrightarrow>
      lr_seq (rs ! i) = (seq + i) mod 2 ^ 64
    \<and> lr_prev_hash (rs ! i) = (if i = 0 then prev else lr_hash (rs ! (i - 1)))
    \<and> record_ok C (foldl next_active active (take i rs)) (rs ! i)"

lemma link_ok_0:
  "is_u64 seq \<Longrightarrow> link_ok C prev seq active (r # rs) 0 \<longleftrightarrow>
     lr_seq r = seq \<and> lr_prev_hash r = prev \<and> record_ok C active r"
  by (simp add: link_ok_def is_u64_def)

lemma link_ok_Suc:
  "link_ok C prev seq active (r # rs) (Suc i) \<longleftrightarrow>
     link_ok C (lr_hash r) (u64_add seq 1) (next_active active r) rs i"
proof -
  have "(u64_add seq 1 + i) mod 2 ^ 64 = (seq + Suc i) mod 2 ^ 64"
    by (simp add: u64_add_def mod_add_left_eq)
  moreover have "lr_hash ((r # rs) ! i) = (if i = 0 then lr_hash r else lr_hash (rs ! (i - 1)))"
    by (cases i) simp_all
  ultimately show ?thesis by (simp add: link_ok_def)
qed

lemma chain_from_index:
  "is_u64 seq \<Longrightarrow> chain_from C prev seq active rs \<longleftrightarrow> (\<forall>i < length rs. link_ok C prev seq active rs i)"
proof (induction rs arbitrary: prev seq active)
  case (Cons r rs)
  have u: "is_u64 (u64_add seq 1)" by (simp add: is_u64_def u64_add_def)
  show ?case
    using Cons.IH [OF u, of "lr_hash r" "next_active active r"]
    by (simp add: All_less_Suc2 link_ok_0 [OF Cons.prems] link_ok_Suc)
qed simp

lemma chain_from_valid:
  assumes "rs \<noteq> []" "is_u64 (lr_seq (hd rs))"
  shows "chain_from C (lr_prev_hash (hd rs)) (lr_seq (hd rs)) (lr_pubkey (hd rs)) rs \<longleftrightarrow> chain_valid C rs"
proof -
  have "link_ok C (lr_prev_hash (hd rs)) (lr_seq (hd rs)) (lr_pubkey (hd rs)) rs i \<longleftrightarrow>
      lr_seq (rs ! i) = (lr_seq (hd rs) + i) mod 2 ^ 64
    \<and> (0 < i \<longrightarrow> lr_prev_hash (rs ! i) = lr_hash (rs ! (i - 1)))
    \<and> record_ok C (signer_at rs i) (rs ! i)" for i
    using assms(1) by (cases rs; cases i) (simp_all add: link_ok_def signer_at_def)
  then show ?thesis
    unfolding chain_from_index [OF assms(2)] chain_valid_def by (simp only:)
qed

lemma verify_start_ok:
  assumes "record_ok C (lr_pubkey r) r"
  shows "(\<exists>a. verify_start ek r = Inr a) \<longleftrightarrow> start_ok r \<and> (\<forall>k. ek = Some k \<longrightarrow> lr_pubkey r = k)"
proof -
  have "lr_pubkey r \<noteq> []"
    using assms by (auto simp: record_ok_def signed_ok_def decode_hex_32_plus_def sized_def)
  then show ?thesis
    by (cases ek) (auto simp: verify_start_def start_ok_def Let_def)
qed

lemma verify_records_ok:
  assumes "rs \<noteq> []"
  shows "(\<exists>rep. verify_records C rs eh ek = Inr rep) \<longleftrightarrow>
    (\<exists>a. verify_start ek (hd rs) = Inr a)
    \<and> chain_from C (lr_prev_hash (hd rs)) (lr_seq (hd rs)) (lr_pubkey (hd rs)) rs
    \<and> (\<forall>h. eh = Some h \<longrightarrow> lr_hash (last rs) = h)"
proof -
  obtain first rest where rs: "rs = first # rest" using assms by (cases rs) auto
  show ?thesis
    using verify_loop_ok [of C 1 "lr_prev_hash first" "lr_seq first" "lr_pubkey first" "{lr_key_id first}" rs]
    unfolding rs verify_records_def verify_records_structural_def
    by (cases "verify_start ek first"; cases eh) (auto simp: Let_def split: sum.splits)
qed

lemma verify_records_report:
  "verify_records C rs eh ek = Inr rep \<Longrightarrow> vr_records rep = length rs \<and> vr_head_hash rep = lr_hash (last rs)"
  unfolding verify_records_def verify_records_structural_def
  by (auto simp: Let_def split: list.splits sum.splits option.splits if_splits)

lemma chain_from_hd:
  "chain_from C p s a rs \<Longrightarrow> rs \<noteq> [] \<Longrightarrow>
     lr_prev_hash (hd rs) = p \<and> lr_seq (hd rs) = s \<and> lr_pubkey (hd rs) = a"
  by (cases rs) (auto simp: record_ok_def)

section \<open>Signed records and chains that grow\<close>

lemma record_hash_seal [simp]: "record_hash C (r\<lparr>lr_hash := h, lr_sig := g\<rparr>) = record_hash C r"
  by (simp add: record_hash_def canonical_body_def body_of_def)

lemma sized_hex_encoded:
  assumes "crypto_ok C" "length b = n" "0 < n"
  shows "sized n (decode_hex_32_plus C (hex_encode C b)) = Some b"
  using decode_hex_encoded [OF assms(1), of b] assms(2,3) by (cases b) (auto simp: sized_def)

lemma sealed_record_ok:
  assumes C: "crypto_ok C" and sk: "length sk = 32"
    and pk: "pk = hex_encode C (verifying_key C sk)"
    and r: "lr_pubkey r = pk" "lr_key_id r = or_default (key_id_of C pk)" "kind_ok r"
  shows "record_ok C pk (r\<lparr>lr_hash := record_hash C r,
           lr_sig := hex_encode C (ed_sign C sk (record_hash C r))\<rparr>)"
proof -
  let ?h = "record_hash C r"
  have "sized 64 (decode_hex_32_plus C (hex_encode C (ed_sign C sk ?h))) = Some (ed_sign C sk ?h)"
    by (rule sized_hex_encoded [OF C crypto_okD(5) [OF C sk]]) simp
  moreover have "sized 32 (decode_hex_32_plus C pk) = Some (verifying_key C sk)"
    unfolding pk by (rule sized_hex_encoded [OF C crypto_okD(3) [OF C sk]]) simp
  ultimately have "signed_ok C (r\<lparr>lr_hash := ?h, lr_sig := hex_encode C (ed_sign C sk ?h)\<rparr>)"
    using crypto_okD(4,6) [OF C sk] r by (simp add: signed_ok_def)
  then show ?thesis
    using r by (auto simp: record_ok_def kind_ok_def)
qed

lemma chain_from_append:
  assumes "is_u64 seq"
  shows "chain_from C prev seq active (rs @ [r]) \<longleftrightarrow> chain_from C prev seq active rs
    \<and> lr_seq r = (seq + length rs) mod 2 ^ 64
    \<and> lr_prev_hash r = (if rs = [] then prev else lr_hash (last rs))
    \<and> record_ok C (foldl next_active active rs) r"
  using assms
proof (induction rs arbitrary: prev seq active)
  case Nil
  then show ?case by (simp add: is_u64_def)
next
  case (Cons x rs)
  have u: "is_u64 (u64_add seq 1)" by (simp add: is_u64_def u64_add_def)
  have "(u64_add seq 1 + length rs) mod 2 ^ 64 = (seq + length (x # rs)) mod 2 ^ 64"
    by (simp add: u64_add_def mod_add_left_eq)
  with Cons.IH [OF u, of "lr_hash x" "next_active active x"] show ?case by auto
qed

lemma build_chain_from_ok:
  assumes C: "crypto_ok C" and sk: "length sk = 32"
  shows "i + length specs \<le> 2 ^ 64 \<Longrightarrow>
    chain_from C prev i (hex_encode C (verifying_key C sk)) (build_chain_from C sk i prev specs)"
proof (induction specs arbitrary: i prev)
  case (Cons spec specs)
  let ?pk = "hex_encode C (verifying_key C sk)"
  let ?r = "build_record C sk i prev spec"
  have r: "lr_seq ?r = i \<and> lr_prev_hash ?r = prev \<and> lr_kind ?r = ''action''"
    by (simp add: build_record_def Let_def split: prod.splits)
  have "record_ok C ?pk ?r"
    by (cases spec) (simp only: build_record_def Let_def prod.case,
        rule sealed_record_ok [OF C sk refl], simp_all add: kind_ok_def)
  moreover have "chain_from C (lr_hash ?r) (u64_add i 1) ?pk (build_chain_from C sk (Suc i) (lr_hash ?r) specs)"
  proof (cases specs)
    case (Cons s ss)
    then have "u64_add i 1 = Suc i" using Cons.prems by (simp add: u64_add_def)
    with Cons.IH [of "Suc i"] Cons.prems show ?thesis by simp
  qed simp
  ultimately show ?case using r by (simp add: Let_def next_active_def)
qed simp

lemma build_chain_from_length: "length (build_chain_from C sk i prev specs) = length specs"
  by (induction specs arbitrary: i prev) (simp_all add: Let_def)

lemma build_chain_start:
  "specs \<noteq> [] \<Longrightarrow> lr_seq (hd (build_chain C sk specs)) = 0
     \<and> lr_prev_hash (hd (build_chain C sk specs)) = GENESIS_PREV_HASH
     \<and> lr_kind (hd (build_chain C sk specs)) = ''action''
     \<and> lr_pubkey (hd (build_chain C sk specs)) = hex_encode C (verifying_key C sk)"
  by (cases specs) (auto simp: build_chain_def build_record_def Let_def split: prod.splits)

lemma build_chain_valid:
  assumes "crypto_ok C" "length sk = 32" "length specs \<le> 2 ^ 64" "specs \<noteq> []"
  shows "chain_valid C (build_chain C sk specs)"
proof -
  have "build_chain C sk specs \<noteq> []"
    using assms(4) build_chain_from_length [of C sk 0 GENESIS_PREV_HASH specs] by (auto simp: build_chain_def)
  with chain_from_valid [of "build_chain C sk specs" C] build_chain_start [OF assms(4), of C sk]
    build_chain_from_ok [OF assms(1,2), of 0 specs GENESIS_PREV_HASH] assms(3)
  show ?thesis by (simp add: is_u64_def build_chain_def)
qed

section \<open>The verifier\<close>

text \<open>
  C9. The verifier accepts exactly the valid chains: it returns a report if and only if the
  chain is not empty, starts at the genesis position or at a snapshot with a positive number,
  matches the pinned signer key and head hash, and every record has the next number, links to
  the hash of the record before it, carries the hash of its own body, the right key id and a
  valid signature of the signer that the rotations so far made active, and has a legal kind.
  The report then counts the records and names the head.
\<close>

theorem verify_records_iff_chain_valid:
  assumes "\<forall>r \<in> set rs. is_u64 (lr_seq r)"
  shows "((\<exists>rep. verify_records C rs expect_head expect_key = Inr rep) \<longleftrightarrow>
      rs \<noteq> [] \<and> start_ok (hd rs) \<and> (\<forall>k. expect_key = Some k \<longrightarrow> lr_pubkey (hd rs) = k)
      \<and> (\<forall>h. expect_head = Some h \<longrightarrow> lr_hash (last rs) = h) \<and> chain_valid C rs)
    \<and> (\<forall>rep. verify_records C rs expect_head expect_key = Inr rep \<longrightarrow>
        vr_records rep = length rs \<and> vr_head_hash rep = lr_hash (last rs))"
proof (cases "rs = []")
  case True
  then show ?thesis by (simp add: verify_records_def verify_records_structural_def)
next
  case False
  then have u: "is_u64 (lr_seq (hd rs))" using assms by simp
  have chain: "chain_valid C rs \<longleftrightarrow>
      chain_from C (lr_prev_hash (hd rs)) (lr_seq (hd rs)) (lr_pubkey (hd rs)) rs"
    using chain_from_valid [OF False u] by (rule sym)
  have first: "chain_valid C rs \<Longrightarrow> record_ok C (lr_pubkey (hd rs)) (hd rs)"
    unfolding chain using False by (cases rs) auto
  have start: "chain_valid C rs \<Longrightarrow> (\<exists>a. verify_start expect_key (hd rs) = Inr a) \<longleftrightarrow>
      start_ok (hd rs) \<and> (\<forall>k. expect_key = Some k \<longrightarrow> lr_pubkey (hd rs) = k)"
    by (rule verify_start_ok) (rule first)
  have "(\<exists>rep. verify_records C rs expect_head expect_key = Inr rep) \<longleftrightarrow>
      (\<exists>a. verify_start expect_key (hd rs) = Inr a) \<and> chain_valid C rs
      \<and> (\<forall>h. expect_head = Some h \<longrightarrow> lr_hash (last rs) = h)"
    unfolding chain by (rule verify_records_ok [OF False])
  with start False show ?thesis
    using verify_records_report by blast
qed

definition demo_seed :: string where
  "demo_seed = replicate 32 (CHR ''k'')"

definition demo_chain :: "crypto \<Rightarrow> ledger_record list" where
  "demo_chain C = build_chain C demo_seed [(''a'', ''b'', ''c''), (''d'', ''e'', ''f'')]"

lemma demo_chain_facts:
  "crypto_ok C \<Longrightarrow> chain_valid C (demo_chain C)" "start_ok (hd (demo_chain C))" "length (demo_chain C) = 2"
  "list_all record_u64 (demo_chain C)"
proof -
  have s: "length demo_seed = 32" by (simp add: demo_seed_def)
  show "crypto_ok C \<Longrightarrow> chain_valid C (demo_chain C)"
    unfolding demo_chain_def by (rule build_chain_valid [OF _ s]) simp_all
  show "start_ok (hd (demo_chain C))"
    using build_chain_start [of "[(''a'', ''b'', ''c''), (''d'', ''e'', ''f'')]" C demo_seed]
    by (simp add: start_ok_def demo_chain_def)
  show "length (demo_chain C) = 2" "list_all record_u64 (demo_chain C)"
    by (simp_all add: demo_chain_def build_chain_def build_record_def Let_def record_u64_def is_u64_def)
qed

lemma demo_verifies:
  assumes "crypto_ok C"
  shows "\<exists>rep. verify_records C (demo_chain C) (Some (lr_hash (last (demo_chain C)))) None = Inr rep"
proof -
  let ?rs = "demo_chain C"
  have ne: "?rs \<noteq> []" using demo_chain_facts(3) [of C] by auto
  have u: "is_u64 (lr_seq (hd ?rs))"
    using demo_chain_facts(4) [of C] hd_in_set [OF ne] by (simp add: list_all_iff record_u64_def)
  have c: "chain_from C (lr_prev_hash (hd ?rs)) (lr_seq (hd ?rs)) (lr_pubkey (hd ?rs)) ?rs"
    using chain_from_valid [OF ne u] demo_chain_facts(1) [OF assms] by simp
  then have "record_ok C (lr_pubkey (hd ?rs)) (hd ?rs)"
    using ne by (metis chain_from.simps(2) list.exhaust_sel)
  from verify_start_ok [OF this, of None] demo_chain_facts(2) c verify_records_ok [OF ne] show ?thesis
    by simp
qed

theorem verify_records_iff_chain_valid_witness:
  "\<exists>rep. verify_records sample_crypto (demo_chain sample_crypto) None None = Inr rep \<and> vr_records rep = 2"
proof -
  have u: "\<forall>r \<in> set (demo_chain sample_crypto). is_u64 (lr_seq r)"
    using demo_chain_facts(4) by (simp add: list_all_iff record_u64_def)
  have "demo_chain sample_crypto \<noteq> []" using demo_chain_facts(3) [of sample_crypto] by auto
  then show ?thesis
    using verify_records_iff_chain_valid [OF u, of sample_crypto None None] demo_chain_facts(1) [OF sample_crypto_ok] demo_chain_facts(2,3) [of sample_crypto]
    by auto
qed

section \<open>Tamper evidence\<close>

lemma mod_add_cancel_small:
  fixes a b :: nat
  assumes "(s + a) mod N = (s + b) mod N" "a < N" "b < N"
  shows "a = b"
proof -
  have "int N dvd int a - int b"
    using assms(1) by (metis add_diff_cancel_left mod_eq_dvd_iff of_nat_add of_nat_mod)
  moreover have "\<bar>int a - int b\<bar> < int N" using assms(2,3) by linarith
  ultimately have "int a - int b = 0" by (metis abs_dvd_iff dvd_abs_iff zdvd_not_zless zero_less_abs_iff)
  then show ?thesis by simp
qed

definition collision_free :: "crypto \<Rightarrow> ledger_record list \<Rightarrow> ledger_record list \<Rightarrow> bool" where
  "collision_free C xs ys \<longleftrightarrow> (\<forall>x \<in> set xs. \<forall>y \<in> set ys.
     sha256 C (canonical_body C x) = sha256 C (canonical_body C y) \<longrightarrow>
     canonical_body C x = canonical_body C y)"

lemma record_ok_body_eq:
  assumes "crypto_ok C" "json_ok C" "collision_free C xs ys" "x \<in> set xs" "y \<in> set ys"
    and "record_u64 x" "record_u64 y" "record_ok C a x" "record_ok C b y" "lr_hash x = lr_hash y"
  shows "body_of x = body_of y"
proof -
  have "sha256 C (canonical_body C x) = sha256 C (canonical_body C y)"
    using assms(8-10) hex_encode_inj [OF assms(1)]
    by (simp add: record_ok_def record_hash_def sha256_hex_def) metis
  with assms(2-7) show ?thesis
    unfolding json_ok_def collision_free_def by metis
qed

lemma chain_unique:
  assumes C: "crypto_ok C" "json_ok C" and s: "is_u64 s"
  shows "length xs = length ys \<Longrightarrow> collision_free C xs ys \<Longrightarrow>
     list_all record_u64 xs \<Longrightarrow> list_all record_u64 ys \<Longrightarrow>
     chain_from C p s a xs \<Longrightarrow> chain_from C q s b ys \<Longrightarrow>
     (xs \<noteq> [] \<Longrightarrow> lr_hash (last xs) = lr_hash (last ys)) \<Longrightarrow>
     map body_of xs = map body_of ys \<and> map lr_hash xs = map lr_hash ys"
proof (induction xs arbitrary: ys rule: rev_induct)
  case (snoc x xs)
  obtain zs y where ys: "ys = zs @ [y]" using snoc.prems(1) by (cases ys rule: rev_cases) auto
  have ch: "chain_from C p s a xs" "chain_from C q s b zs"
    and pv: "lr_prev_hash x = (if xs = [] then p else lr_hash (last xs))"
      "lr_prev_hash y = (if zs = [] then q else lr_hash (last zs))"
    and ok: "record_ok C (foldl next_active a xs) x" "record_ok C (foldl next_active b zs) y"
    using snoc.prems(5,6) unfolding ys chain_from_append [OF s] by simp_all
  have h: "lr_hash x = lr_hash y" and len: "length xs = length zs"
    using snoc.prems(1,7) ys by simp_all
  have b: "body_of x = body_of y"
    using record_ok_body_eq [OF C snoc.prems(2) _ _ _ _ ok h] snoc.prems(3,4) ys by simp
  then have "lr_prev_hash x = lr_prev_hash y" by (simp add: body_of_def)
  with pv len have l: "xs \<noteq> [] \<Longrightarrow> lr_hash (last xs) = lr_hash (last zs)" by (auto split: if_splits)
  have "collision_free C xs zs" using snoc.prems(2) by (simp add: collision_free_def ys)
  with snoc.IH [OF len _ _ _ ch l] snoc.prems(3,4) b h show ?case by (simp add: ys)
qed simp

lemma chain_from_last_seq:
  assumes "is_u64 s" "chain_from C p s a xs" "xs \<noteq> []"
  shows "lr_seq (last xs) = (s + (length xs - 1)) mod 2 ^ 64" "\<exists>b. record_ok C b (last xs)"
  using assms(2,3) by (cases xs rule: rev_cases; auto simp: chain_from_append [OF assms(1)])+

lemma verified_chain_from:
  assumes "verify_records C rs eh ek = Inr rep"
  shows "rs \<noteq> []" "chain_from C (lr_prev_hash (hd rs)) (lr_seq (hd rs)) (lr_pubkey (hd rs)) rs"
    and "eh = Some h \<Longrightarrow> lr_hash (last rs) = h"
proof -
  show ne: "rs \<noteq> []"
    using assms by (auto simp: verify_records_def verify_records_structural_def)
  show "chain_from C (lr_prev_hash (hd rs)) (lr_seq (hd rs)) (lr_pubkey (hd rs)) rs"
    "eh = Some h \<Longrightarrow> lr_hash (last rs) = h"
    using verify_records_ok [OF ne, of C eh ek] assms by auto
qed

text \<open>
  C7. Tamper evidence. Two chains that the verifier accepts under the same pinned head hash and
  that start at the same number have the same bodies and the same hashes record by record:
  nothing can be changed, dropped or inserted. The only way out is an explicit SHA-256
  collision between the canonical bodies of a record of each chain.
\<close>

theorem tamper_evidence:
  assumes "crypto_ok C" "json_ok C" "list_all record_u64 xs" "list_all record_u64 ys"
    and "length xs \<le> 2 ^ 64" "length ys \<le> 2 ^ 64"
    and vx: "verify_records C xs (Some head) kx = Inr rx"
    and vy: "verify_records C ys (Some head) ky = Inr ry"
    and start: "lr_seq (hd xs) = lr_seq (hd ys)"
  shows "map body_of xs = map body_of ys \<and> map lr_hash xs = map lr_hash ys
    \<or> (\<exists>x \<in> set xs. \<exists>y \<in> set ys. canonical_body C x \<noteq> canonical_body C y
         \<and> sha256 C (canonical_body C x) = sha256 C (canonical_body C y))"
proof (cases "collision_free C xs ys")
  case False
  then show ?thesis unfolding collision_free_def by blast
next
  case True
  let ?s = "lr_seq (hd xs)"
  have ne: "xs \<noteq> []" "ys \<noteq> []"
    and cx: "chain_from C (lr_prev_hash (hd xs)) ?s (lr_pubkey (hd xs)) xs"
    and cy: "chain_from C (lr_prev_hash (hd ys)) ?s (lr_pubkey (hd ys)) ys"
    and h: "lr_hash (last xs) = lr_hash (last ys)"
    using verified_chain_from [OF vx] verified_chain_from [OF vy] start by simp_all
  have s: "is_u64 ?s"
    using assms(3) ne(1) by (cases xs) (simp_all add: record_u64_def)
  have lasts: "record_u64 (last xs)" "record_u64 (last ys)"
    using assms(3,4) ne by (simp_all add: list_all_iff)
  obtain b c where "record_ok C b (last xs)" "record_ok C c (last ys)"
    using chain_from_last_seq(2) [OF s cx ne(1)] chain_from_last_seq(2) [OF s cy ne(2)] by blast
  then have "body_of (last xs) = body_of (last ys)"
    using record_ok_body_eq [OF assms(1,2) True _ _ lasts _ _ h] ne by simp
  then have "lr_seq (last xs) = lr_seq (last ys)" by (simp add: body_of_def)
  then have "(?s + (length xs - 1)) mod 2 ^ 64 = (?s + (length ys - 1)) mod 2 ^ 64"
    unfolding chain_from_last_seq(1) [OF s cx ne(1)] chain_from_last_seq(1) [OF s cy ne(2)] .
  moreover have "length xs - 1 < 2 ^ 64" "length ys - 1 < 2 ^ 64" "0 < length xs" "0 < length ys"
    using assms(5,6) ne by (simp_all add: less_eq_Suc_le [symmetric])
  ultimately have "length xs = length ys"
    using mod_add_cancel_small [of ?s "length xs - 1" "2 ^ 64" "length ys - 1"] by linarith
  from chain_unique [OF assms(1,2) s this True assms(3,4) cx cy h] show ?thesis by simp
qed

text \<open>
  A chain whose second record was given another actor no longer ends in the pinned head, under a digest
  that is the text itself and therefore has no collisions.
\<close>

definition edited_chain :: "crypto \<Rightarrow> ledger_record list" where
  "edited_chain C = build_chain C demo_seed [(''a'', ''b'', ''c''), (''mallory'', ''e'', ''f'')]"

theorem tamper_evidence_witness:
  "is_ok (verify_records plain_crypto (demo_chain plain_crypto) (Some (lr_hash (last (demo_chain plain_crypto)))) None)
    \<and> \<not> is_ok (verify_records plain_crypto (edited_chain plain_crypto) (Some (lr_hash (last (demo_chain plain_crypto)))) None)"
proof -
  let ?C = plain_crypto
  obtain rep where v: "verify_records ?C (demo_chain ?C) (Some (lr_hash (last (demo_chain ?C)))) None = Inr rep"
    using demo_verifies [OF plain_crypto_ok] by blast
  have bodies: "map body_of (demo_chain ?C) \<noteq> map body_of (edited_chain ?C)"
    by (simp add: demo_chain_def edited_chain_def build_chain_def build_record_def body_of_def Let_def)
  have same: "lr_seq (hd (demo_chain ?C)) = lr_seq (hd (edited_chain ?C))" "length (edited_chain ?C) = 2"
      "list_all record_u64 (edited_chain ?C)"
    by (simp_all add: demo_chain_def edited_chain_def build_chain_def build_record_def Let_def record_u64_def is_u64_def)
  have "verify_records ?C (edited_chain ?C) (Some (lr_hash (last (demo_chain ?C)))) None \<noteq> Inr rep'" for rep'
    using tamper_evidence [OF plain_crypto_ok plain_json_ok demo_chain_facts(4) same(3) _ _ v _ same(1), of None rep']
      bodies same(2) demo_chain_facts(3) [of ?C] by (auto simp: plain_crypto_def)
  with v show ?thesis by (auto simp: is_ok_iff)
qed

end
