(* ===== verification/Ledger_Runtime.thy ===== *)
theory Ledger_Runtime
  imports Ledger_Chain
begin

text \<open>
  The runtime side of the action ledger: the transition system of its public operations, the
  invariant every run keeps (the stored rows are a valid chain ending at the cached head, signed
  by the key in memory), what follows for exports and archives, and the interface \<open>journal\<close>
  that the components recording their actions rely on.
\<close>

section \<open>The transition system\<close>

text \<open>A fresh process: the table is empty, or could not be created.\<close>

definition ledger_start :: "crypto \<Rightarrow> ledger_state \<Rightarrow> bool" where
  "ledger_start C st \<longleftrightarrow> (\<exists>env random conn. length random = 32 \<and> (conn = None \<or> conn = Some [])
     \<and> st = ledger_init C conn (load_or_generate_signing_key C env random))"

text \<open>The steps: recording an action (as a side effect, or with the digest given and the failure
  reported), rotating the key to a fresh seed, taking a snapshot. The clock counts seconds, so a reading stays far below \<open>2 ^ 63\<close>.\<close>

inductive ledger_step :: "crypto \<Rightarrow> ledger_state \<Rightarrow> ledger_state \<Rightarrow> bool" for C where
  step_record: "now < 2 ^ 63 \<Longrightarrow> ledger_step C st (record_action C now action actor scope detail st)"
| step_append: "now < 2 ^ 63 \<Longrightarrow>
    ledger_step C st (snd (append_record C now ''action'' actor action scope args_hash None st))"
| step_rotate: "now < 2 ^ 63 \<Longrightarrow> length seed = 32 \<Longrightarrow> ledger_step C st (snd (rotate_key C now seed st))"
| step_snapshot: "now < 2 ^ 63 \<Longrightarrow> ledger_step C st (snd (snapshot C now st))"

abbreviation ledger_run :: "crypto \<Rightarrow> ledger_state \<Rightarrow> bool" where
  "ledger_run C \<equiv> reach (ledger_start C) (ledger_step C)"

definition ledger_rows :: "ledger_state \<Rightarrow> ledger_record list" where
  "ledger_rows st = (case ls_conn st of None \<Rightarrow> [] | Some rows \<Rightarrow> rows)"

definition ledger_inv :: "crypto \<Rightarrow> ledger_state \<Rightarrow> bool" where
  "ledger_inv C st \<longleftrightarrow>
     length (ls_signing st) = 32
   \<and> (\<forall>rows. ls_conn st = Some rows \<longrightarrow>
        length rows \<le> 2 ^ 64 \<and> list_all (\<lambda>r. lr_ts r < 2 ^ 63) rows
      \<and> ls_head_seq st = (if rows = [] then None else Some (length rows - 1))
      \<and> ls_head_hash st = (if rows = [] then GENESIS_PREV_HASH else lr_hash (last rows))
      \<and> (\<exists>a. chain_from C GENESIS_PREV_HASH 0 a rows
            \<and> foldl next_active a rows = hex_encode C (verifying_key C (ls_signing st))))"

lemma chain_from_seqs:
  assumes "chain_from C p 0 a rows" "length rows \<le> 2 ^ 64"
  shows "map lr_seq rows = [0..<length rows]"
proof (rule nth_equalityI)
  fix i assume "i < length (map lr_seq rows)"
  with assms chain_from_index [of 0 C p a rows] show "map lr_seq rows ! i = [0..<length rows] ! i"
    by (simp add: link_ok_def is_u64_def)
qed simp

lemma load_or_generate_length: "length random = 32 \<Longrightarrow> length (load_or_generate_signing_key C env random) = 32"
  by (auto simp: load_or_generate_signing_key_def split: option.splits)

text \<open>Appending keeps the invariant up to the signing key, which a rotation changes afterwards:
  the row it writes names the next signer.\<close>

lemma append_record_cases:
  assumes C: "crypto_ok C" and inv: "ledger_inv C st" and now: "now < 2 ^ 63"
    and kind: "if kind = ''key_rotation'' then np \<noteq> None \<and> np \<noteq> Some []
               else np = None \<and> kind \<in> {''action'', ''snapshot''}"
    and app: "append_record C now kind actor action scope ah np st = (res, st')"
  obtains (refused) e where "res = Inl e" "st' = st" "ls_conn st = None \<or> length (ledger_rows st) = 2 ^ 64"
  | (stored) rows r a where "res = Inr r" "ls_conn st = Some rows" "length rows < 2 ^ 64"
      "st' = st\<lparr>ls_conn := Some (rows @ [r]), ls_head_seq := Some (length rows), ls_head_hash := lr_hash r\<rparr>"
      "chain_from C GENESIS_PREV_HASH 0 a (rows @ [r])"
      "foldl next_active a (rows @ [r]) = (case np of None \<Rightarrow> hex_encode C (verifying_key C (ls_signing st)) | Some k \<Rightarrow> k)"
      "lr_ts r = now" "lr_kind r = kind" "lr_actor r = actor" "lr_action r = action" "lr_scope r = scope"
      "lr_args_hash r = ah" "lr_seq r = length rows"
proof (cases "ls_conn st")
  case None
  with app show ?thesis by (intro refused) (auto simp: append_record_def)
next
  case (Some rows)
  let ?pk = "hex_encode C (verifying_key C (ls_signing st))"
  let ?seq = "case ls_head_seq st of None \<Rightarrow> 0 | Some s \<Rightarrow> u64_add s 1"
  define r0 where "r0 = \<lparr>lr_seq = ?seq,
                  lr_ts = now, lr_kind = kind, lr_actor = actor, lr_action = action,
                  lr_scope = scope, lr_args_hash = ah, lr_prev_hash = ls_head_hash st,
                  lr_new_pubkey = or_default np,
                  lr_key_id = or_default (key_id_of C ?pk), lr_pubkey = ?pk,
                  lr_hash = [], lr_sig = []\<rparr>"
  define r where "r = r0\<lparr>lr_hash := record_hash C r0,
                     lr_sig := hex_encode C (ed_sign C (ls_signing st) (record_hash C r0))\<rparr>"
  from inv Some obtain a where sk: "length (ls_signing st) = 32" and len: "length rows \<le> 2 ^ 64"
    and hs: "ls_head_seq st = (if rows = [] then None else Some (length rows - 1))"
    and hh: "ls_head_hash st = (if rows = [] then GENESIS_PREV_HASH else lr_hash (last rows))"
    and ch: "chain_from C GENESIS_PREV_HASH 0 a rows" and act: "foldl next_active a rows = ?pk"
    by (auto simp: ledger_inv_def)
  have seqs: "lr_seq ` set rows = {..<length rows}"
    using arg_cong [OF chain_from_seqs [OF ch len], of set] by (simp add: atLeast0LessThan)
  have seq: "?seq = length rows mod 2 ^ 64"
    using hs len by (auto simp: u64_add_def)
  have app': "append_record C now kind actor action scope ah np st =
    (if ?seq \<in> {..<length rows} then (Inl LedgerInsert, st)
     else (Inr r, st\<lparr>ls_conn := Some (rows @ [r]), ls_head_seq := Some ?seq, ls_head_hash := lr_hash r\<rparr>))"
    unfolding seqs [symmetric] by (simp add: append_record_def Some Let_def r_def r0_def)
  show ?thesis
  proof (cases "length rows = 2 ^ 64")
    case True
    with app app' seq Some show ?thesis by (intro refused) (auto simp: ledger_rows_def)
  next
    case False
    with len have lt: "length rows < 2 ^ 64" by simp
    with seq have seq': "?seq = length rows" by simp
    have "record_ok C ?pk r"
      unfolding r_def using kind
      by (intro sealed_record_ok [OF C sk refl]) (auto simp: r0_def kind_ok_def or_default_def)
    then have "chain_from C GENESIS_PREV_HASH 0 a (rows @ [r])"
      using ch act seq' hh lt by (subst chain_from_append) (auto simp: is_u64_def r_def r0_def)
    moreover have "foldl next_active a (rows @ [r]) = (case np of None \<Rightarrow> ?pk | Some k \<Rightarrow> k)"
      using act kind by (auto simp: next_active_def r_def r0_def or_default_def split: option.splits if_splits)
    ultimately show ?thesis
      using app app' seq' Some lt by (intro stored [of r rows a]) (auto simp: r_def r0_def)
  qed
qed

lemma ledger_inv_cong:
  "ls_signing s = ls_signing t \<Longrightarrow> ls_conn s = ls_conn t \<Longrightarrow> ls_head_seq s = ls_head_seq t \<Longrightarrow>
   ls_head_hash s = ls_head_hash t \<Longrightarrow> ledger_inv C s \<longleftrightarrow> ledger_inv C t"
  by (simp add: ledger_inv_def)

lemma ledger_inv_stored:
  assumes "ledger_inv C st" "ls_conn st = Some rows" "length rows < 2 ^ 64" "length sk = 32"
    and "chain_from C GENESIS_PREV_HASH 0 a (rows @ [r])" "lr_ts r < 2 ^ 63"
    and "foldl next_active a (rows @ [r]) = hex_encode C (verifying_key C sk)"
  shows "ledger_inv C (st\<lparr>ls_conn := Some (rows @ [r]), ls_head_seq := Some (length rows),
           ls_head_hash := lr_hash r, ls_signing := sk, ls_active_pubkey := p\<rparr>)"
  using assms by (auto simp: ledger_inv_def)

lemma append_plain_inv:
  assumes C: "crypto_ok C" and inv: "ledger_inv C st" and now: "now < 2 ^ 63"
    and kind: "kind \<in> {''action'', ''snapshot''}"
  shows "ledger_inv C (snd (append_record C now kind actor action scope ah None st))"
proof -
  obtain res st' where app: "append_record C now kind actor action scope ah None st = (res, st')"
    by fastforce
  have k: "if kind = ''key_rotation'' then (None :: string option) \<noteq> None \<and> None \<noteq> Some ''''
      else None = (None :: string option) \<and> kind \<in> {''action'', ''snapshot''}"
    using kind by auto
  from C inv now k app show ?thesis
  proof (cases rule: append_record_cases)
    case refused
    with inv app show ?thesis by simp
  next
    case (stored rows r a)
    have "length (ls_signing st) = 32" using inv by (simp add: ledger_inv_def)
    from ledger_inv_stored [OF inv stored(2,3) this stored(5), of "ls_active_pubkey st"] stored(6,7) now
    have "ledger_inv C (st\<lparr>ls_conn := Some (rows @ [r]), ls_head_seq := Some (length rows),
           ls_head_hash := lr_hash r, ls_signing := ls_signing st, ls_active_pubkey := ls_active_pubkey st\<rparr>)"
      by simp
    then show ?thesis using app stored(4) by simp
  qed
qed

lemma rotate_key_inv:
  assumes C: "crypto_ok C" and inv: "ledger_inv C st" and now: "now < 2 ^ 63" and sk: "length seed = 32"
  shows "ledger_inv C (snd (rotate_key C now seed st))"
proof -
  let ?np = "hex_encode C (verifying_key C seed)"
  obtain res st' where app: "append_record C now ''key_rotation'' ''runtime'' ''ledger.rotate'' []
      (args_hash_of C ?np) (Some ?np) st = (res, st')"
    by fastforce
  have "length ?np = 64" using crypto_okD(2,3) [OF C] sk by simp
  then have k: "if ''key_rotation'' = ''key_rotation'' then Some ?np \<noteq> None \<and> Some ?np \<noteq> Some ''''
      else Some ?np = None \<and> ''key_rotation'' \<in> {''action'', ''snapshot''}"
    by auto
  from C inv now k app show ?thesis
  proof (cases rule: append_record_cases)
    case refused
    with inv app show ?thesis by (simp add: rotate_key_def Let_def)
  next
    case (stored rows r a)
    from ledger_inv_stored [OF inv stored(2,3) sk stored(5), of ?np] stored(6,7) now
    show ?thesis using app stored(1,4) by (simp add: rotate_key_def Let_def)
  qed
qed

lemma record_action_snd:
  "\<exists>n. record_action C now action actor scope detail st =
     (snd (append_record C now ''action'' actor action scope (args_hash_of C detail) None st))
       \<lparr>ls_write_failures := n\<rparr>"
proof -
  obtain res st' where app:
    "append_record C now ''action'' actor action scope (args_hash_of C detail) None st = (res, st')"
    by fastforce
  show ?thesis
    unfolding record_action_def app by (cases res) (auto intro: exI [of _ "ls_write_failures st'"])
qed

lemma record_action_inv:
  assumes "crypto_ok C" "ledger_inv C st" "now < 2 ^ 63"
  shows "ledger_inv C (record_action C now action actor scope detail st)"
  using append_plain_inv [OF assms, of "''action''" actor action scope "args_hash_of C detail"]
    record_action_snd [of C now action actor scope detail st] ledger_inv_cong by (auto simp: ledger_inv_def)

lemma ledger_step_inv:
  assumes "crypto_ok C" "ledger_inv C st" "ledger_step C st st'"
  shows "ledger_inv C st'"
  using assms(3)
proof cases
  case (step_snapshot now)
  have "snd (snapshot C now st) = snd (append_record C now ''snapshot'' ''runtime'' ''ledger.snapshot'' []
             (args_hash_of C ''snapshot'') None st)"
    by (simp add: snapshot_def split: prod.splits sum.splits)
  with step_snapshot append_plain_inv [OF assms(1,2)] show ?thesis by simp
qed (use assms in \<open>simp_all add: record_action_inv append_plain_inv rotate_key_inv\<close>)

lemma ledger_start_inv: "ledger_start C st \<Longrightarrow> ledger_inv C st"
  by (auto simp: ledger_start_def ledger_inv_def ledger_init_def Let_def load_or_generate_length)

text \<open>The hypothesis on the crates enters as a guard, so that the interface holds for every instance.\<close>

interpretation ledger_system:
  invariant_system "ledger_start C" "ledger_step C" "\<lambda>st. crypto_ok C \<longrightarrow> ledger_inv C st" for C
  by unfold_locales (auto intro: ledger_start_inv ledger_step_inv)

lemma ledger_run_inv: "crypto_ok C \<Longrightarrow> ledger_run C st \<Longrightarrow> ledger_inv C st"
  using ledger_system.reach_inv by blast

section \<open>Exports of a run\<close>

lemma split_jsonl:
  assumes "json_ok C" "list_all record_u64 rs"
  shows "split_on (CHR 0x0A) (records_to_jsonl C rs) = map (json_record C) rs @ [[]]"
  using assms(2)
  by (induction rs) (auto simp: records_to_jsonl_def split_on_append_delim json_okD(2) [OF assms(1)])

lemma strip_cr_visible: "\<not> is_whitespace (last l) \<Longrightarrow> strip_cr l = l"
  by (auto simp: strip_cr_def strip_suffix_Some is_whitespace_def split: option.splits)

lemma records_from_lines_jsonl:
  assumes "json_ok C"
  shows "list_all record_u64 rs \<Longrightarrow> records_from_lines C i (map (json_record C) rs) = Inr rs"
  by (induction rs arbitrary: i) (simp_all add: json_okD [OF assms])

lemma records_jsonl_roundtrip:
  assumes "json_ok C" "list_all record_u64 rs"
  shows "records_from_jsonl C (records_to_jsonl C rs) = Inr rs"
proof -
  have "map strip_cr (map (json_record C) rs) = map (json_record C) rs"
    using assms(2) json_okD(5) [OF assms(1)] by (auto simp: list_all_iff strip_cr_visible)
  then have "str_lines (records_to_jsonl C rs) = map (json_record C) rs"
    by (simp add: str_lines_def split_jsonl [OF assms] Let_def)
  then show ?thesis
    by (simp add: records_from_jsonl_def records_from_lines_jsonl [OF assms])
qed

lemma ledger_invD:
  assumes "ledger_inv C st" "ls_conn st = Some rows"
  shows "length rows \<le> 2 ^ 64" "rows \<noteq> [] \<Longrightarrow> head_hash st = lr_hash (last rows)"
    and "\<exists>a. chain_from C GENESIS_PREV_HASH 0 a rows" "list_all record_u64 rows"
proof -
  obtain a where len: "length rows \<le> 2 ^ 64" and ch: "chain_from C GENESIS_PREV_HASH 0 a rows"
    using assms by (auto simp: ledger_inv_def)
  show "length rows \<le> 2 ^ 64" "\<exists>a. chain_from C GENESIS_PREV_HASH 0 a rows" using len ch by blast+
  show "rows \<noteq> [] \<Longrightarrow> head_hash st = lr_hash (last rows)"
    using assms by (simp add: ledger_inv_def head_hash_def)
  have "lr_seq ` set rows = {..<length rows}"
    using arg_cong [OF chain_from_seqs [OF ch len], of set] by (simp add: atLeast0LessThan)
  then have "\<forall>r \<in> set rows. lr_seq r < length rows" by blast
  then have "\<forall>r \<in> set rows. is_u64 (lr_seq r)" using len by (auto simp: is_u64_def)
  moreover have "\<forall>r \<in> set rows. lr_ts r < 2 ^ 63"
    using assms by (auto simp: ledger_inv_def list_all_iff)
  ultimately show "list_all record_u64 rows" by (fastforce simp: list_all_iff record_u64_def is_u64_def)
qed

lemma all_records_rows:
  assumes "ledger_inv C st" "ls_conn st = Some rows" "length rows \<le> 2 ^ 63"
  shows "all_records st = Inr rows"
proof -
  obtain a where ch: "chain_from C GENESIS_PREV_HASH 0 a rows"
    using ledger_invD(3) [OF assms(1,2)] by blast
  have seqs: "map lr_seq rows = [0..<length rows]"
    using chain_from_seqs [OF ch] assms(3) by simp
  have small: "lr_seq r < 2 ^ 63" "lr_ts r < 2 ^ 63" if "r \<in> set rows" for r
  proof -
    have "lr_seq r \<in> set (map lr_seq rows)" using that by simp
    then show "lr_seq r < 2 ^ 63" unfolding seqs using assms(3) by simp
    show "lr_ts r < 2 ^ 63" using assms(1,2) that by (simp add: ledger_inv_def list_all_iff)
  qed
  have "map (\<lambda>r. as_i64 (lr_seq r)) rows = map int [0..<length rows]"
    unfolding seqs [symmetric] using small by (auto simp: as_i64_small)
  then have "by_seq rows = rows"
    unfolding by_seq_def by (intro sort_key_id_if_sorted) (simp add: sorted_map sorted_wrt_upt)
  moreover have "map map_row rows = rows"
    using small by (intro map_idI) (simp add: map_row_def db_u64_small)
  ultimately show ?thesis using assms(2) by (simp add: all_records_def)
qed

lemma genesis_chain_verifies:
  assumes "chain_from C GENESIS_PREV_HASH 0 a rows" "rows \<noteq> []" "lr_kind (hd rows) \<noteq> ''snapshot''"
  shows "\<exists>rep. verify_records C rows (Some (lr_hash (last rows))) (Some (lr_pubkey (hd rows))) = Inr rep"
proof -
  have h: "lr_prev_hash (hd rows) = GENESIS_PREV_HASH" "lr_seq (hd rows) = 0" "lr_pubkey (hd rows) = a"
    using chain_from_hd [OF assms(1,2)] by simp_all
  have "record_ok C (lr_pubkey (hd rows)) (hd rows)"
    using assms(1,2) h(3) by (cases rows) simp_all
  from verify_start_ok [OF this, of "Some (lr_pubkey (hd rows))"] h assms
  show ?thesis by (simp add: verify_records_ok [OF assms(2)] start_ok_def)
qed

text \<open>
  C10. Whatever a run of the ledger records (actions, key rotations, snapshots, in any order and
  number up to the signed range of the sequence column), its JSONL export is accepted by the
  runtime verify hook under the head hash the runtime reports and the first signer's key, with
  every stored row counted. The one excluded case is a run whose very first entry is a snapshot.
\<close>

theorem export_of_run_verifies:
  assumes "crypto_ok C" "json_ok C" "ledger_run C st" "ls_conn st = Some rows" "rows \<noteq> []"
    and "length rows \<le> 2 ^ 63" "lr_kind (hd rows) \<noteq> ''snapshot''"
  shows "\<exists>text. export_jsonl C st = Inr text \<and>
    (let v = ledger_verify C fs (Jsonl text) (Some (head_hash st)) (Some (lr_pubkey (hd rows)))
     in lv_ok v \<and> lv_records v = length rows \<and> lv_fault v = None)"
proof -
  have inv: "ledger_inv C st" by (rule ledger_run_inv [OF assms(1,3)])
  obtain a where "chain_from C GENESIS_PREV_HASH 0 a rows"
    using ledger_invD(3) [OF inv assms(4)] by blast
  then obtain rep where
    v: "verify_records C rows (Some (head_hash st)) (Some (lr_pubkey (hd rows))) = Inr rep"
    using genesis_chain_verifies [OF _ assms(5,7)] ledger_invD(2) [OF inv assms(4,5)] by metis
  have "records_from_jsonl C (records_to_jsonl C rows) = Inr rows"
    by (rule records_jsonl_roundtrip [OF assms(2) ledger_invD(4) [OF inv assms(4)]])
  with v verify_records_report [OF v] all_records_rows [OF inv assms(4,6)] assms(5) show ?thesis
    by (simp add: export_jsonl_def ledger_verify_def verify_records_def)
qed

definition demo_start :: ledger_state where
  "demo_start = ledger_init sample_crypto (Some []) demo_seed"

definition demo_ledger :: ledger_state where
  "demo_ledger = record_action sample_crypto 7 ''tool'' ''agent'' ''scope'' ''detail'' demo_start"

lemma demo_start_run: "ledger_run sample_crypto demo_start"
proof (rule reach_init)
  have "demo_start = ledger_init sample_crypto (Some []) (load_or_generate_signing_key sample_crypto None demo_seed)"
    by (simp add: demo_start_def load_or_generate_signing_key_def)
  moreover have "length demo_seed = 32" by (simp add: demo_seed_def)
  ultimately show "ledger_start sample_crypto demo_start" unfolding ledger_start_def by blast
qed

lemma demo_ledger_run: "ledger_run sample_crypto demo_ledger"
  unfolding demo_ledger_def by (rule reach_step [OF demo_start_run step_record]) simp

lemma demo_ledger_rows: "\<exists>r. ls_conn demo_ledger = Some [r] \<and> lr_kind r = ''action'' \<and> lr_action r = ''tool''"
  by (simp add: demo_ledger_def demo_start_def record_action_def append_record_def ledger_init_def Let_def)

theorem export_of_run_verifies_witness:
  "\<exists>rows text. ls_conn demo_ledger = Some rows \<and> rows \<noteq> [] \<and> export_jsonl sample_crypto demo_ledger = Inr text \<and>
    lv_ok (ledger_verify sample_crypto Map.empty (Jsonl text) (Some (head_hash demo_ledger)) (Some (lr_pubkey (hd rows))))"
proof -
  obtain r where r: "ls_conn demo_ledger = Some [r]" "lr_kind r = ''action''"
    using demo_ledger_rows by blast
  show ?thesis
    using export_of_run_verifies [OF sample_crypto_ok sample_json_ok demo_ledger_run r(1), of Map.empty] r
    by (auto simp: Let_def)
qed

section \<open>History is append-only\<close>

lemma append_record_rows:
  "prefix (ledger_rows st) (ledger_rows (snd (append_record C now kind actor action scope ah np st)))"
  by (auto simp: append_record_def ledger_rows_def Let_def split: option.splits)

lemma record_action_prefix:
  "prefix (ledger_rows st) (ledger_rows (record_action C now action actor scope detail st))"
  using record_action_snd [of C now action actor scope detail st]
    append_record_rows [of st C now "''action''" actor action scope "args_hash_of C detail" None]
  by (auto simp: ledger_rows_def)

lemma ledger_step_prefix: "ledger_step C st st' \<Longrightarrow> prefix (ledger_rows st) (ledger_rows st')"
proof (induction rule: ledger_step.induct)
  case (step_rotate now seed st)
  let ?np = "hex_encode C (verifying_key C seed)"
  show ?case
    using append_record_rows [of st C now "''key_rotation''" "''runtime''" "''ledger.rotate''" "[]"
        "args_hash_of C ?np" "Some ?np"]
    by (auto simp: rotate_key_def Let_def ledger_rows_def split: prod.splits sum.splits)
next
  case (step_snapshot now st)
  show ?case
    using append_record_rows [of st C now "''snapshot''" "''runtime''" "''ledger.snapshot''" "[]"
        "args_hash_of C ''snapshot''" None]
    by (auto simp: snapshot_def split: prod.splits sum.splits)
qed (simp_all add: append_record_rows record_action_prefix)

lemma ledger_steps_prefix: "(ledger_step C)\<^sup>*\<^sup>* st st' \<Longrightarrow> prefix (ledger_rows st) (ledger_rows st')"
  by (induction rule: rtranclp_induct) (auto dest: ledger_step_prefix intro: prefix_order.trans)

text \<open>
  C34. A snapshot taken before anything else is recorded makes the ledger unverifiable for good:
  the snapshot succeeds and is stored with number 0, and in every later state of the run, however
  much is recorded afterwards, the verifier rejects the stored chain at its first record.
\<close>

theorem snapshot_first_never_verifies:
  assumes start: "ls_conn st = Some []" "ls_head_seq st = None"
    and steps: "(ledger_step C)\<^sup>*\<^sup>* (snd (snapshot C now st)) st'"
  shows "is_ok (fst (snapshot C now st))
    \<and> verify_records C (ledger_rows st') expect_head expect_key = fault_at 1 SnapshotAtZero"
proof -
  have "\<exists>r. is_ok (fst (snapshot C now st)) \<and> ledger_rows (snd (snapshot C now st)) = [r]
      \<and> lr_seq r = 0 \<and> lr_kind r = ''snapshot''"
    using start by (simp add: snapshot_def append_record_def ledger_rows_def Let_def)
  then obtain r where r: "is_ok (fst (snapshot C now st))"
    "ledger_rows (snd (snapshot C now st)) = [r]" "lr_seq r = 0" "lr_kind r = ''snapshot''" by blast
  from ledger_steps_prefix [OF steps] r obtain rs where "ledger_rows st' = r # rs"
    by (auto simp: prefix_def)
  with r show ?thesis
    by (simp add: verify_records_def verify_records_structural_def verify_start_def Let_def)
qed

theorem snapshot_first_never_verifies_witness:
  "verify_records sample_crypto
     (ledger_rows (record_action sample_crypto 9 ''tool'' ''agent'' [] [] (snd (snapshot sample_crypto 8 demo_start))))
     None None = fault_at 1 SnapshotAtZero"
proof -
  let ?s = "snd (snapshot sample_crypto 8 demo_start)"
  have "(ledger_step sample_crypto)\<^sup>*\<^sup>* ?s (record_action sample_crypto 9 ''tool'' ''agent'' [] [] ?s)"
    by (rule r_into_rtranclp, rule step_record) simp
  from snapshot_first_never_verifies [OF _ _ this, of None None] show ?thesis
    by (simp add: demo_start_def ledger_init_def Let_def)
qed

section \<open>Archiving\<close>

lemma chain_from_suffix:
  "chain_from C p s a (xs @ ys) \<Longrightarrow> ys \<noteq> [] \<Longrightarrow>
     chain_from C (lr_prev_hash (hd ys)) (lr_seq (hd ys)) (lr_pubkey (hd ys)) ys"
proof (induction xs arbitrary: p s a)
  case Nil
  then show ?case using chain_from_hd [of C p s a ys] by simp
qed auto

lemma anchored_chain_verifies:
  assumes ch: "chain_from C (lr_prev_hash (hd rs)) (lr_seq (hd rs)) (lr_pubkey (hd rs)) rs"
    and "rs \<noteq> []" "lr_kind (hd rs) = ''snapshot''" "lr_seq (hd rs) \<noteq> 0"
    and "\<And>h. eh = Some h \<Longrightarrow> lr_hash (last rs) = h"
  shows "\<exists>rep. verify_records C rs eh None = Inr rep"
proof -
  have "record_ok C (lr_pubkey (hd rs)) (hd rs)"
    using ch assms(2) by (cases rs) simp_all
  from verify_start_ok [OF this, of None] assms show ?thesis
    by (simp add: verify_records_ok [OF assms(2)] start_ok_def)
qed

text \<open>
  Archiving never loses verifiability. If the verifier accepts the chain of a file and the
  chain holds a snapshot with a positive number, archiving at that number succeeds, replaces only
  the output file, and what it wrote reads back as a suffix of the chain that starts at a snapshot
  with that number and that the verifier accepts under the same pinned head.
\<close>

theorem archive_keeps_verifiable:
  assumes "json_ok C" "list_all record_u64 records" "fs input = Some (records_to_jsonl C records)"
    and v: "verify_records C records (Some head) key = Inr rep"
    and snap: "r \<in> set records" "lr_kind r = ''snapshot''" "lr_seq r = at_seq" "0 < at_seq"
  shows "\<exists>rep' slice. archive_file C fs input out at_seq = (Inr rep', fs(out \<mapsto> records_to_jsonl C slice))
    \<and> suffix slice records \<and> lr_seq (hd slice) = at_seq \<and> lr_kind (hd slice) = ''snapshot''
    \<and> records_from_jsonl C (records_to_jsonl C slice) = Inr slice
    \<and> is_ok (verify_records C slice (Some head) None)"
proof -
  define P :: "ledger_record \<Rightarrow> bool" where "P = (\<lambda>r. \<not> (lr_seq r = at_seq \<and> lr_kind r = ''snapshot''))"
  let ?slice = "dropWhile P records"
  have sp: "takeWhile P records @ ?slice = records" by simp
  have ne: "?slice \<noteq> []" using snap by (auto simp: P_def)
  have hd: "lr_seq (hd ?slice) = at_seq" "lr_kind (hd ?slice) = ''snapshot''"
    using hd_dropWhile [OF ne] by (auto simp: P_def)
  have u: "list_all record_u64 ?slice"
    using assms(2) by (auto simp: list_all_iff dest: set_dropWhileD)
  have ch: "chain_from C (lr_prev_hash (hd ?slice)) (lr_seq (hd ?slice)) (lr_pubkey (hd ?slice)) ?slice"
    using chain_from_suffix [OF _ ne, of C _ _ _ "takeWhile P records"] verified_chain_from(2) [OF v]
    unfolding sp by blast
  have "lr_hash (last ?slice) = head"
    using verified_chain_from(3) [OF v refl] ne sp by (metis last_appendR)
  then have ok: "is_ok (verify_records C ?slice (Some head) None)"
    using anchored_chain_verifies [OF ch ne hd(2)] hd(1) snap(4) by (auto simp: is_ok_iff)
  obtain rep' where v': "verify_records C ?slice None None = Inr rep'"
    using anchored_chain_verifies [OF ch ne hd(2), of None] hd(1) snap(4) by auto
  have "archive_file C fs input out at_seq = (Inr rep', fs(out \<mapsto> records_to_jsonl C ?slice))"
    unfolding archive_file_def P_def [symmetric]
    using ne v' by (simp add: assms(3) records_jsonl_roundtrip [OF assms(1,2)] Let_def)
  moreover have "records_from_jsonl C (records_to_jsonl C ?slice) = Inr ?slice"
    by (rule records_jsonl_roundtrip [OF assms(1) u])
  ultimately show ?thesis
    using hd ok suffix_dropWhile by blast
qed

definition demo_snap :: ledger_state where
  "demo_snap = snd (snapshot sample_crypto 8 demo_ledger)"

lemma demo_snap_run: "ledger_run sample_crypto demo_snap"
  unfolding demo_snap_def by (rule reach_step [OF demo_ledger_run step_snapshot]) simp

lemma demo_snap_rows:
  "\<exists>r0 r1. ls_conn demo_snap = Some [r0, r1] \<and> lr_kind r0 = ''action'' \<and> lr_kind r1 = ''snapshot'' \<and> lr_seq r1 = 1"
  by (simp add: demo_snap_def snapshot_def demo_ledger_def demo_start_def record_action_def append_record_def
      ledger_init_def Let_def u64_add_def)

theorem archive_keeps_verifiable_witness:
  "\<exists>records rep' slice.
     archive_file sample_crypto [''in'' \<mapsto> records_to_jsonl sample_crypto records] ''in'' ''out'' 1
       = (Inr rep', [''in'' \<mapsto> records_to_jsonl sample_crypto records, ''out'' \<mapsto> records_to_jsonl sample_crypto slice])
     \<and> suffix slice records \<and> lr_seq (hd slice) = 1"
proof -
  obtain r0 r1 where r: "ls_conn demo_snap = Some [r0, r1]" "lr_kind r0 = ''action''"
    "lr_kind r1 = ''snapshot''" "lr_seq r1 = 1"
    using demo_snap_rows by blast
  have inv: "ledger_inv sample_crypto demo_snap" by (rule ledger_run_inv [OF sample_crypto_ok demo_snap_run])
  obtain a where "chain_from sample_crypto GENESIS_PREV_HASH 0 a [r0, r1]"
    using ledger_invD(3) [OF inv r(1)] by blast
  from genesis_chain_verifies [OF this] r obtain rep where
    v: "verify_records sample_crypto [r0, r1] (Some (lr_hash r1)) (Some (lr_pubkey r0)) = Inr rep"
    by auto
  show ?thesis
    using archive_keeps_verifiable [OF sample_json_ok ledger_invD(4) [OF inv r(1)] _ v, where r = r1
        and fs = "[''in'' \<mapsto> records_to_jsonl sample_crypto [r0, r1]]" and input = "''in''"
        and out = "''out''" and at_seq = 1] r
    by auto
qed

section \<open>The journal interface\<close>

text \<open>
  What a component that records its actions relies on: emitting an event keeps the journal
  well-formed and only appends to its log, and while there is room the log grows by exactly one
  entry that describes the event. \<open>room n s\<close> says that \<open>n\<close> more events fit.
\<close>

locale journal =
  fixes wf :: "'s \<Rightarrow> bool" and room :: "nat \<Rightarrow> 's \<Rightarrow> bool" and log :: "'s \<Rightarrow> 'r list"
    and emit :: "'e \<Rightarrow> 's \<Rightarrow> 's" and desc :: "'r \<Rightarrow> 'd" and key :: "'e \<Rightarrow> 'd"
    and fine :: "'e \<Rightarrow> bool"
  assumes emit_wf: "wf s \<Longrightarrow> fine e \<Longrightarrow> wf (emit e s)"
    and emit_prefix: "wf s \<Longrightarrow> prefix (log s) (log (emit e s))"
    and emit_room: "wf s \<Longrightarrow> fine e \<Longrightarrow> room (Suc n) s \<Longrightarrow> room n (emit e s)"
    and emit_entry: "wf s \<Longrightarrow> fine e \<Longrightarrow> room (Suc n) s \<Longrightarrow>
      \<exists>r. log (emit e s) = log s @ [r] \<and> desc r = key e"
begin

lemma emits_wf: "wf s \<Longrightarrow> list_all fine es \<Longrightarrow> wf (fold emit es s)"
  by (induction es arbitrary: s) (auto intro: emit_wf)

lemma emits_prefix: "wf s \<Longrightarrow> list_all fine es \<Longrightarrow> prefix (log s) (log (fold emit es s))"
proof (induction es arbitrary: s)
  case (Cons e es)
  then have "prefix (log (emit e s)) (log (fold emit es (emit e s)))" by (simp add: emit_wf)
  with Cons.prems emit_prefix show ?case by (auto intro: prefix_order.trans)
qed simp

lemma emits_desc:
  "wf s \<Longrightarrow> list_all fine es \<Longrightarrow> room (length es) s \<Longrightarrow>
     map desc (log (fold emit es s)) = map desc (log s) @ map key es"
proof (induction es arbitrary: s)
  case (Cons e es)
  then obtain r where "log (emit e s) = log s @ [r]" "desc r = key e"
    using emit_entry [of s e "length es"] by auto
  moreover have "map desc (log (fold emit es (emit e s))) = map desc (log (emit e s)) @ map key es"
    using Cons emit_wf emit_room [of s e "length es"] by auto
  ultimately show ?case by simp
qed simp

end

type_synonym ledger_event = "u64 \<times> string \<times> string \<times> string \<times> string"

text \<open>An event is the clock reading and the four arguments of \<open>record\<close>.\<close>

definition emit_event :: "crypto \<Rightarrow> ledger_event \<Rightarrow> ledger_state \<Rightarrow> ledger_state" where
  "emit_event C e st = (case e of (now, action, actor, scope, detail) \<Rightarrow>
     record_action C now action actor scope detail st)"

definition event_key :: "crypto \<Rightarrow> ledger_event \<Rightarrow> u64 \<times> string \<times> string \<times> string \<times> string" where
  "event_key C e = (case e of (now, action, actor, scope, detail) \<Rightarrow>
     (now, action, actor, scope, args_hash_of C detail))"

definition record_desc :: "ledger_record \<Rightarrow> u64 \<times> string \<times> string \<times> string \<times> string" where
  "record_desc r = (lr_ts r, lr_action r, lr_actor r, lr_scope r, lr_args_hash r)"

definition ledger_room :: "nat \<Rightarrow> ledger_state \<Rightarrow> bool" where
  "ledger_room n st \<longleftrightarrow> ls_conn st \<noteq> None \<and> length (ledger_rows st) + n \<le> 2 ^ 64"

definition event_fine :: "ledger_event \<Rightarrow> bool" where
  "event_fine e \<longleftrightarrow> fst e < 2 ^ 63"

lemma emit_event_entry:
  assumes "crypto_ok C" "ledger_inv C st" "event_fine e" "ledger_room (Suc n) st"
  shows "ledger_room n (emit_event C e st)
    \<and> (\<exists>r. ledger_rows (emit_event C e st) = ledger_rows st @ [r] \<and> record_desc r = event_key C e)"
proof -
  obtain now action actor scope detail where e: "e = (now, action, actor, scope, detail)" by (cases e)
  obtain res st' where app:
    "append_record C now ''action'' actor action scope (args_hash_of C detail) None st = (res, st')"
    by fastforce
  have now: "now < 2 ^ 63" using assms(3) e by (simp add: event_fine_def)
  have k: "if ''action'' = ''key_rotation'' then (None :: string option) \<noteq> None \<and> None \<noteq> Some ''''
      else None = (None :: string option) \<and> ''action'' \<in> {''action'', ''snapshot''}" by simp
  from assms(1,2) now k app show ?thesis
  proof (cases rule: append_record_cases)
    case refused
    with assms(4) show ?thesis by (auto simp: ledger_room_def)
  next
    case (stored rows r a)
    then show ?thesis
      using assms(4) e app by (auto simp: emit_event_def event_key_def record_desc_def record_action_def
          ledger_room_def ledger_rows_def)
  qed
qed

interpretation ledger_journal:
  journal "\<lambda>st. crypto_ok C \<and> ledger_inv C st" ledger_room ledger_rows "emit_event C" record_desc
    "event_key C" event_fine for C
proof
  fix st e n
  assume wf: "crypto_ok C \<and> ledger_inv C st"
  show "prefix (ledger_rows st) (ledger_rows (emit_event C e st))"
    by (cases e) (simp add: emit_event_def record_action_prefix)
  assume "event_fine e"
  with wf show "crypto_ok C \<and> ledger_inv C (emit_event C e st)"
    by (cases e) (auto simp: emit_event_def event_fine_def intro: record_action_inv)
  assume "ledger_room (Suc n) st"
  with wf \<open>event_fine e\<close> show "ledger_room n (emit_event C e st)"
    "\<exists>r. ledger_rows (emit_event C e st) = ledger_rows st @ [r] \<and> record_desc r = event_key C e"
    using emit_event_entry by blast+
qed

end
