(* ===== verification/Consent.thy ===== *)
theory Consent
  imports Prelude
begin

text \<open>
  \<open>src/consent.rs\<close>: the process-local consent ledger, one table for grants and revocations, and
  the reader \<open>active_grant_for\<close> that the consent gates consult. The table is the list of its rows
  in insertion order; an unavailable database is \<open>None\<close>. The clock reading (seconds) of a call is
  an argument. The JSON serializer of the export is a parameter.
\<close>

section \<open>The store\<close>

record consent_row =
  cr_id :: nat
  cr_kind :: string
  cr_subject :: string
  cr_scope :: string
  cr_ttl_seconds :: i64
  cr_issued_at :: i64
  cr_expires_at :: "i64 option"
  cr_note :: string

record consent_record =
  con_id :: nat
  con_kind :: string
  con_subject :: string
  con_scope :: string
  con_ttl_seconds :: u64
  con_issued_at :: u64
  con_expires_at :: "u64 option"
  con_note :: string

type_synonym consent_conn = "consent_row list option"

datatype consent_error = ConsentUnavailable | ConsentEmptyScope | ConsentJson

text \<open>\<open>with_conn\<close>: run on the table, or refuse when it is unavailable.\<close>

definition with_conn :: "(consent_row list \<Rightarrow> (consent_error, 'a) result) \<Rightarrow> consent_conn \<Rightarrow> (consent_error, 'a) result" where
  "with_conn f conn = (case conn of None \<Rightarrow> Inl ConsentUnavailable | Some rows \<Rightarrow> f rows)"

text \<open>\<open>AUTOINCREMENT\<close>: rows are never deleted, so the next id is one above the largest.\<close>

definition next_row_id :: "consent_row list \<Rightarrow> nat" where
  "next_row_id rows = Suc (foldr (\<lambda>r. max (cr_id r)) rows 0)"

definition insert_row :: "consent_row \<Rightarrow> consent_conn \<Rightarrow> (consent_error, unit) result \<times> consent_conn" where
  "insert_row r conn =
     (case conn of
        None \<Rightarrow> (Inl ConsentUnavailable, conn)
      | Some rows \<Rightarrow> (Inr (), Some (rows @ [r\<lparr>cr_id := next_row_id rows\<rparr>])))"

definition record_grant ::
  "u64 \<Rightarrow> string \<Rightarrow> string \<Rightarrow> u64 \<Rightarrow> consent_conn \<Rightarrow> (consent_error, unit) result \<times> consent_conn"
where
  "record_grant now_secs subject scope ttl_seconds conn =
     (if trim scope = [] then (Inl ConsentEmptyScope, conn)
      else
        let now = as_i64 now_secs;
            expires = (if ttl_seconds > 0 then Some (i64_add now (as_i64 ttl_seconds)) else None)
        in insert_row \<lparr>cr_id = 0, cr_kind = ''grant'', cr_subject = subject, cr_scope = scope,
             cr_ttl_seconds = as_i64 ttl_seconds, cr_issued_at = now, cr_expires_at = expires,
             cr_note = []\<rparr> conn)"

definition record_revoke ::
  "u64 \<Rightarrow> string option \<Rightarrow> consent_conn \<Rightarrow> (consent_error, unit) result \<times> consent_conn"
where
  "record_revoke now_secs scope conn =
     insert_row \<lparr>cr_id = 0, cr_kind = ''revoke'', cr_subject = [],
       cr_scope = (case scope of None \<Rightarrow> ''<all>'' | Some s \<Rightarrow> s), cr_ttl_seconds = 0,
       cr_issued_at = as_i64 now_secs, cr_expires_at = None, cr_note = []\<rparr> conn"

text \<open>\<open>COALESCE((SELECT MAX(rowid) \<dots> WHERE kind = 'revoke' AND scope = ?1), 0)\<close>.\<close>

definition last_revoke :: "string \<Rightarrow> consent_row list \<Rightarrow> nat" where
  "last_revoke scope rows =
     foldr (\<lambda>r. max (cr_id r)) (filter (\<lambda>r. cr_kind r = ''revoke'' \<and> cr_scope r = scope) rows) 0"

definition unexpired :: "i64 option \<Rightarrow> i64 \<Rightarrow> bool" where
  "unexpired expires now = (case expires of None \<Rightarrow> True | Some e \<Rightarrow> e > now)"

definition active_grant_for :: "u64 \<Rightarrow> string \<Rightarrow> consent_conn \<Rightarrow> bool" where
  "active_grant_for now_secs scope conn =
     (case with_conn (\<lambda>rows. Inr (\<exists>r \<in> set rows. cr_kind r = ''grant'' \<and> cr_scope r = scope
             \<and> unexpired (cr_expires_at r) (as_i64 now_secs) \<and> cr_id r > last_revoke scope rows)) conn of
        Inl _ \<Rightarrow> False | Inr found \<Rightarrow> found)"

definition entry_count :: "consent_conn \<Rightarrow> (consent_error, int) result" where
  "entry_count conn = with_conn (\<lambda>rows. Inr (int (length rows))) conn"

definition export_row :: "consent_row \<Rightarrow> consent_record" where
  "export_row r =
     \<lparr>con_id = cr_id r, con_kind = cr_kind r, con_subject = cr_subject r, con_scope = cr_scope r,
      con_ttl_seconds = nat (max 0 (cr_ttl_seconds r)), con_issued_at = nat (max 0 (cr_issued_at r)),
      con_expires_at = map_option (\<lambda>v. nat (max 0 v)) (cr_expires_at r), con_note = cr_note r\<rparr>"

definition export_json ::
  "(consent_record list \<Rightarrow> string option) \<Rightarrow> consent_conn \<Rightarrow> (consent_error, string) result"
where
  "export_json to_json conn =
     with_conn (\<lambda>rows. case to_json (map export_row (sort_key cr_id rows)) of
        None \<Rightarrow> Inl ConsentJson | Some s \<Rightarrow> Inr s) conn"

section \<open>The contract of a consent store\<close>

text \<open>
  What the gates rely on: a grant with a live window activates its scope, a revocation
  deactivates exactly its scope, nothing else changes. The client's fact follows from the laws:
  a scope is active after a history exactly when a grant recorded since its last revocation has
  not expired.
\<close>

datatype consent_op = OpGrant string "i64 option" | OpRevoke string

fun live_grants :: "consent_op list \<Rightarrow> string \<Rightarrow> i64 option list" where
  "live_grants [] scope = []"
| "live_grants (OpGrant s e # ops) scope =
     (if s = scope \<and> OpRevoke scope \<notin> set ops then e # live_grants ops scope else live_grants ops scope)"
| "live_grants (OpRevoke s # ops) scope = live_grants ops scope"

locale consent_store =
  fixes wf :: "'s \<Rightarrow> bool" and call :: "'c \<Rightarrow> 's \<Rightarrow> 's" and view :: "'c \<Rightarrow> consent_op option"
    and active :: "i64 \<Rightarrow> string \<Rightarrow> 's \<Rightarrow> bool"
  assumes call_wf: "wf s \<Longrightarrow> wf (call c s)"
    and refused_active: "view c = None \<Longrightarrow> call c s = s"
    and grant_active: "wf s \<Longrightarrow> view c = Some (OpGrant sc e) \<Longrightarrow>
      active now scope (call c s) \<longleftrightarrow> (sc = scope \<and> unexpired e now) \<or> active now scope s"
    and revoke_active: "wf s \<Longrightarrow> view c = Some (OpRevoke sc) \<Longrightarrow>
      active now scope (call c s) \<longleftrightarrow> sc \<noteq> scope \<and> active now scope s"
begin

lemma active_history:
  "wf s \<Longrightarrow> active now scope (fold call cs s) \<longleftrightarrow>
     (\<exists>e \<in> set (live_grants (List.map_filter view cs) scope). unexpired e now)
     \<or> OpRevoke scope \<notin> set (List.map_filter view cs) \<and> active now scope s"
proof (induction cs arbitrary: s)
  case (Cons c cs)
  note IH = Cons.IH [OF call_wf [OF Cons.prems]]
  show ?case
  proof (cases "view c")
    case None
    with Cons.IH [OF Cons.prems] show ?thesis by (simp add: refused_active)
  next
    case (Some a)
    with IH Cons.prems show ?thesis
      by (cases a) (auto simp: grant_active revoke_active)
  qed
qed simp

end

section \<open>The table implements the contract\<close>

datatype consent_call =
  CallGrant (call_now: u64) string string u64
| CallRevoke (call_now: u64) "string option"

fun run_call :: "consent_call \<Rightarrow> consent_conn \<Rightarrow> consent_conn" where
  "run_call (CallGrant now subject scope ttl) conn = snd (record_grant now subject scope ttl conn)"
| "run_call (CallRevoke now scope) conn = snd (record_revoke now scope conn)"

fun call_view :: "consent_call \<Rightarrow> consent_op option" where
  "call_view (CallGrant now subject scope ttl) =
     (if trim scope = [] then None
      else Some (OpGrant scope (if ttl > 0 then Some (i64_add (as_i64 now) (as_i64 ttl)) else None)))"
| "call_view (CallRevoke now scope) =
     Some (OpRevoke (case scope of None \<Rightarrow> ''<all>'' | Some s \<Rightarrow> s))"

definition row_active :: "i64 \<Rightarrow> string \<Rightarrow> consent_conn \<Rightarrow> bool" where
  "row_active now scope conn \<longleftrightarrow> (\<exists>rows. conn = Some rows \<and> (\<exists>r \<in> set rows. cr_kind r = ''grant''
     \<and> cr_scope r = scope \<and> unexpired (cr_expires_at r) now \<and> cr_id r > last_revoke scope rows))"

lemma active_grant_for_row: "active_grant_for now scope conn = row_active (as_i64 now) scope conn"
  by (auto simp: active_grant_for_def row_active_def with_conn_def split: option.splits)

lemma foldr_max_ge: "r \<in> set rows \<Longrightarrow> f r \<le> foldr (\<lambda>r. max (f r)) rows (0::nat)"
  by (induction rows) auto

lemma foldr_max_less: "foldr (\<lambda>r. max (f r)) rows (0::nat) < Suc n \<longleftrightarrow> (\<forall>r \<in> set rows. f r \<le> n)"
  by (induction rows) auto

lemma next_row_id_fresh: "r \<in> set rows \<Longrightarrow> cr_id r < next_row_id rows"
  by (simp add: next_row_id_def less_Suc_eq_le foldr_max_ge)

lemma last_revoke_less: "last_revoke scope rows < next_row_id rows"
  unfolding last_revoke_def next_row_id_def foldr_max_less by (auto simp: foldr_max_ge)

lemma last_revoke_append:
  assumes "cr_id r = next_row_id rows"
  shows "last_revoke scope (rows @ [r]) =
    (if cr_kind r = ''revoke'' \<and> cr_scope r = scope then cr_id r else last_revoke scope rows)"
proof -
  have "foldr (\<lambda>r. max (cr_id r)) rs (cr_id r) = max (cr_id r) (foldr (\<lambda>r. max (cr_id r)) rs 0)"
    for rs :: "consent_row list" by (induction rs) (simp_all add: max.left_commute)
  then have "last_revoke scope (rows @ [r]) =
     (if cr_kind r = ''revoke'' \<and> cr_scope r = scope then max (cr_id r) (last_revoke scope rows)
      else last_revoke scope rows)"
    unfolding last_revoke_def by simp
  moreover have "last_revoke scope rows < cr_id r" using last_revoke_less assms by simp
  ultimately show ?thesis by simp
qed

lemma row_active_append:
  assumes "cr_id r = next_row_id rows" "cr_kind r = ''grant'' \<or> cr_kind r = ''revoke''"
  shows "row_active now scope (Some (rows @ [r])) \<longleftrightarrow>
    (if cr_scope r = scope
     then cr_kind r = ''grant'' \<and> (unexpired (cr_expires_at r) now \<or> row_active now scope (Some rows))
     else row_active now scope (Some rows))"
proof -
  have "last_revoke scope rows < cr_id r" using last_revoke_less assms(1) by simp
  moreover have "\<forall>x \<in> set rows. cr_id x < cr_id r" using next_row_id_fresh assms(1) by simp
  ultimately show ?thesis
    using assms(2) by (auto simp: row_active_def last_revoke_append [OF assms(1)] dest: less_asym)
qed

interpretation consent_table:
  consent_store "\<lambda>conn. conn \<noteq> None" run_call call_view row_active
proof
  fix conn :: consent_conn and c sc e now scope
  show "conn \<noteq> None \<Longrightarrow> run_call c conn \<noteq> None"
    by (cases c) (auto simp: record_grant_def record_revoke_def insert_row_def Let_def split: option.splits)
  show "call_view c = None \<Longrightarrow> run_call c conn = conn"
    by (cases c) (auto simp: record_grant_def)
  show "conn \<noteq> None \<Longrightarrow> call_view c = Some (OpGrant sc e) \<Longrightarrow>
      row_active now scope (run_call c conn) \<longleftrightarrow> (sc = scope \<and> unexpired e now) \<or> row_active now scope conn"
    by (cases c) (auto simp: record_grant_def insert_row_def Let_def row_active_append split: if_splits)
  show "conn \<noteq> None \<Longrightarrow> call_view c = Some (OpRevoke sc) \<Longrightarrow>
      row_active now scope (run_call c conn) \<longleftrightarrow> sc \<noteq> scope \<and> row_active now scope conn"
    by (cases c) (auto simp: record_revoke_def insert_row_def row_active_append split: if_splits)
qed

lemma run_call_None: "run_call c None = None"
  by (cases c) (simp_all add: record_grant_def record_revoke_def insert_row_def)

text \<open>
  C32. The consent gate against its history: after any sequence of calls on a fresh ledger, a scope
  is active exactly when some grant of that scope was accepted after the last revocation naming
  the scope and has not expired at the time of asking. With the ledger unavailable nothing is
  ever active.
\<close>

theorem active_grant_history:
  "(active_grant_for now scope (fold run_call calls (Some [])) \<longleftrightarrow>
     (\<exists>e \<in> set (live_grants (List.map_filter call_view calls) scope). unexpired e (as_i64 now)))
   \<and> \<not> active_grant_for now scope (fold run_call calls None)"
proof -
  have "fold run_call calls None = None"
    by (induction calls) (simp_all add: run_call_None)
  then show ?thesis
    using consent_table.active_history [of "Some []" "as_i64 now" scope calls]
    by (simp add: active_grant_for_row row_active_def)
qed

text \<open>
  C35. A total revocation (no scope) deactivates nothing: for every scope but the literal text
  \<open><all>\<close>, what was active before the call is active after it.
\<close>

theorem total_revoke_keeps_grants:
  assumes "scope \<noteq> ''<all>''"
  shows "active_grant_for t scope (snd (record_revoke now None conn)) = active_grant_for t scope conn"
proof (cases conn)
  case (Some rows)
  then show ?thesis
    using consent_table.revoke_active [of conn "CallRevoke now None" "''<all>''" "as_i64 t" scope] assms
    by (simp add: active_grant_for_row)
qed (simp add: record_revoke_def insert_row_def)

theorem total_revoke_keeps_grants_witness:
  "active_grant_for 5 ''gdpr'' (snd (record_revoke 4 None (snd (record_grant 3 ''patient-1'' ''gdpr'' 0 (Some [])))))"
proof -
  have "active_grant_for 5 ''gdpr'' (snd (record_grant 3 ''patient-1'' ''gdpr'' 0 (Some [])))"
    by (simp add: active_grant_for_def with_conn_def record_grant_def insert_row_def Let_def trim_def
        is_whitespace_def last_revoke_def next_row_id_def unexpired_def)
  then show ?thesis
    by (subst total_revoke_keeps_grants) simp_all
qed

end
