(* ===== verification/Values.thy ===== *)
theory Values
  imports Complex_Main Prelude
begin

text \<open>
  The runtime values that the security kernel inspects or builds (\<open>src/interpreter/values.rs\<close>):
  strings, secrets, numbers, booleans, structs, lists, the unit value, and the opaque grant, session,
  duplex and memory handles. Every other variant is opaque to this code and is \<open>VOther\<close>, named by its type.
  A number is an IEEE double: a rational, an infinity or NaN; the casts between doubles and
  64-bit integers are those of Rust (saturating one way, round half to even the other).
\<close>

section \<open>Numbers\<close>

datatype f64 = Fin rat | Infinite bool | NaN

text \<open>\<open>n >= c\<close> for a constant \<open>c\<close>; the flag of an infinity says that it is positive.\<close>

fun f64_ge :: "f64 \<Rightarrow> rat \<Rightarrow> bool" where
  "f64_ge (Fin x) c = (x \<ge> c)"
| "f64_ge (Infinite pos) c = pos"
| "f64_ge NaN c = False"

text \<open>\<open>n.fract() == 0.0\<close>; the fraction of an infinity is NaN.\<close>

fun f64_whole :: "f64 \<Rightarrow> bool" where
  "f64_whole (Fin x) = (x = of_int \<lfloor>x\<rfloor>)"
| "f64_whole (Infinite _) = False"
| "f64_whole NaN = False"

fun f64_as_u64 :: "f64 \<Rightarrow> u64" where
  "f64_as_u64 (Fin x) = (if x < 0 then 0 else min (nat \<lfloor>x\<rfloor>) u64_max)"
| "f64_as_u64 (Infinite pos) = (if pos then u64_max else 0)"
| "f64_as_u64 NaN = 0"

fun bit_length :: "nat \<Rightarrow> nat" where
  "bit_length n = (if n = 0 then 0 else Suc (bit_length (n div 2)))"

declare bit_length.simps [simp del]

text \<open>Rounding of a natural number to 53 significant bits, half to even.\<close>

definition f64_round :: "nat \<Rightarrow> nat" where
  "f64_round n =
     (if n < 2 ^ 53 then n
      else let e = bit_length n - 53; q = n div 2 ^ e; r = n mod 2 ^ e; half = 2 ^ (e - 1)
           in (if r > half \<or> r = half \<and> odd q then q + 1 else q) * 2 ^ e)"

definition f64_of_u64 :: "u64 \<Rightarrow> f64" where
  "f64_of_u64 n = Fin (of_nat (f64_round n))"

definition f64_of_i64 :: "i64 \<Rightarrow> f64" where
  "f64_of_i64 x = Fin (if x < 0 then - of_nat (f64_round (nat (- x))) else of_nat (f64_round (nat x)))"

lemma f64_of_u64_exact: "n < 2 ^ 53 \<Longrightarrow> f64_of_u64 n = Fin (of_nat n)"
  by (simp add: f64_of_u64_def f64_round_def)

lemma f64_u64_roundtrip: "n < 2 ^ 53 \<Longrightarrow> f64_as_u64 (f64_of_u64 n) = n"
  by (simp add: f64_of_u64_exact u64_max_def)

section \<open>Grant handles\<close>

datatype grant_class = Once | GrantN u64 | Unlimited

record grant_handle =
  gh_grant_id :: string
  gh_scope :: string
  gh_class :: grant_class
  gh_expires_at :: u64
  gh_issuer :: string

section \<open>Values\<close>

datatype runtime_value =
  VString string
| VFloat f64
| VBool bool
| VStruct string "string \<Rightarrow> runtime_value option"
| VList "runtime_value list"
| VUnit
| VGrant grant_handle
| VSession "string \<Rightarrow> string option"
| VDuplex "string \<Rightarrow> string option"
| VMemory "string \<Rightarrow> string option"
| VSecret string
| VOther string

text \<open>\<open>Value::type_name\<close>; an opaque variant carries its own.\<close>

fun type_name :: "runtime_value \<Rightarrow> string" where
  "type_name (VString _) = ''String''"
| "type_name (VFloat _) = ''Float''"
| "type_name (VBool _) = ''Bool''"
| "type_name (VStruct _ _) = ''Struct''"
| "type_name (VList _) = ''List''"
| "type_name VUnit = ''Unit''"
| "type_name (VGrant _) = ''Grant''"
| "type_name (VSession _) = ''Session''"
| "type_name (VDuplex _) = ''Duplex''"
| "type_name (VMemory _) = ''Memory''"
| "type_name (VSecret _) = ''Secret''"
| "type_name (VOther t) = t"

text \<open>\<open>args.get(i)\<close>.\<close>

definition arg_at :: "runtime_value list \<Rightarrow> nat \<Rightarrow> runtime_value option" where
  "arg_at args i = (if i < length args then Some (args ! i) else None)"

end
