(* ===== verification/Deny.thy ===== *)
theory Deny
  imports Refusal_Algebra Values
begin

text \<open>
  \<open>src/deny.rs\<close>: the vocabulary of the \<open>on_deny\<close> handlers, the event value a refusal carries, and
  the selection of the handler that receives it.
\<close>

definition SINK_CLASSES :: "string list" where
  "SINK_CLASSES = [''voice'', ''exec'', ''vcs'', ''network'', ''output'', ''file'', ''memory'', ''db'']"

definition DENY_ALL :: string where
  "DENY_ALL = ''*''"

definition is_valid_class :: "string \<Rightarrow> bool" where
  "is_valid_class word \<longleftrightarrow> word = DENY_ALL \<or> word \<in> set SINK_CLASSES"

definition is_known_reason :: "string \<Rightarrow> bool" where
  "is_known_reason word \<longleftrightarrow> word \<in> set DENY_REASONS"

definition uncovered_reasons :: "string list \<Rightarrow> string list" where
  "uncovered_reasons covered = filter (\<lambda>r. \<not> (\<exists>c \<in> set covered. c = r)) DENY_REASONS"

definition make_event ::
  "string \<Rightarrow> string \<Rightarrow> string \<Rightarrow> string \<Rightarrow> string \<Rightarrow> f64 \<Rightarrow> string \<Rightarrow> runtime_value"
where
  "make_event reason sink class argument label line human =
     (let reason_word = (case Verdict_deny reason of
            Some (Deny code cause) \<Rightarrow> r_word cause | _ \<Rightarrow> reason)
      in VStruct ''DenyEvent''
           [''reason'' \<mapsto> VString reason_word, ''sink'' \<mapsto> VString sink, ''class'' \<mapsto> VString class,
            ''argument'' \<mapsto> VString argument, ''label'' \<mapsto> VString label, ''line'' \<mapsto> VFloat line,
            ''human'' \<mapsto> VString human])"

text \<open>\<open>Iterator::rposition\<close>.\<close>

fun rposition :: "('a \<Rightarrow> bool) \<Rightarrow> 'a list \<Rightarrow> nat option" where
  "rposition P [] = None"
| "rposition P (x # xs) =
     (case rposition P xs of Some i \<Rightarrow> Some (Suc i) | None \<Rightarrow> if P x then Some 0 else None)"

definition select_handler :: "(string \<times> 'h) list \<Rightarrow> string \<Rightarrow> nat option" where
  "select_handler handlers class =
     (case rposition (\<lambda>(c, _). c = class) handlers of
        Some i \<Rightarrow> Some i | None \<Rightarrow> rposition (\<lambda>(c, _). c = DENY_ALL) handlers)"

lemma rposition_Some:
  "rposition P xs = Some i \<longleftrightarrow> i < length xs \<and> P (xs ! i) \<and> (\<forall>j. i < j \<and> j < length xs \<longrightarrow> \<not> P (xs ! j))"
proof (induction xs arbitrary: i)
  case (Cons x xs)
  show ?case
  proof (cases "rposition P xs")
    case None
    then have "\<forall>j < length xs. \<not> P (xs ! j)"
    proof (induction xs)
      case (Cons y ys)
      then show ?case by (auto simp: nth_Cons split: option.splits if_splits nat.splits)
    qed simp
    with None show ?thesis by (cases i) (auto simp: nth_Cons gr0_conv_Suc split: nat.splits)
  next
    case (Some k)
    with Cons.IH show ?thesis by (cases i) (auto simp: nth_Cons split: nat.splits)
  qed
qed simp

lemma rposition_None: "rposition P xs = None \<longleftrightarrow> (\<forall>x \<in> set xs. \<not> P x)"
  by (induction xs) (auto split: option.splits)

text \<open>
  Handler selection: the chosen handler is the last one declared for exactly this sink class;
  only when there is none, the last wildcard handler; and a refusal goes unhandled only when
  neither kind is declared. A refusal event carries the reason word it was raised with.
\<close>

theorem select_handler_most_specific:
  "(select_handler hs class = Some i \<longleftrightarrow> i < length hs
      \<and> (if class \<in> fst ` set hs
         then fst (hs ! i) = class \<and> (\<forall>j. i < j \<and> j < length hs \<longrightarrow> fst (hs ! j) \<noteq> class)
         else fst (hs ! i) = DENY_ALL \<and> (\<forall>j. i < j \<and> j < length hs \<longrightarrow> fst (hs ! j) \<noteq> DENY_ALL)))
   \<and> (select_handler hs class = None \<longleftrightarrow> class \<notin> fst ` set hs \<and> DENY_ALL \<notin> fst ` set hs)
   \<and> (\<exists>fields. make_event reason sink class argument label line human = VStruct ''DenyEvent'' fields
        \<and> fields ''reason'' = Some (VString reason) \<and> fields ''class'' = Some (VString class))"
proof (intro conjI)
  have exact: "rposition (\<lambda>(c, _). c = w) hs = None \<longleftrightarrow> w \<notin> fst ` set hs" for w
    unfolding rposition_None by force
  show "select_handler hs class = Some i \<longleftrightarrow> i < length hs
      \<and> (if class \<in> fst ` set hs
         then fst (hs ! i) = class \<and> (\<forall>j. i < j \<and> j < length hs \<longrightarrow> fst (hs ! j) \<noteq> class)
         else fst (hs ! i) = DENY_ALL \<and> (\<forall>j. i < j \<and> j < length hs \<longrightarrow> fst (hs ! j) \<noteq> DENY_ALL))"
  proof (cases "rposition (\<lambda>(c, _). c = class) hs")
    case None
    then have "class \<notin> fst ` set hs" using exact by simp
    with None show ?thesis
      by (simp add: select_handler_def rposition_Some case_prod_beta)
  next
    case (Some k)
    then have "class \<in> fst ` set hs" using exact by (metis option.distinct(1))
    then show ?thesis
      using Some rposition_Some [of "\<lambda>(c, _). c = class" hs i]
      by (simp add: select_handler_def case_prod_beta)
  qed
  show "select_handler hs class = None \<longleftrightarrow> class \<notin> fst ` set hs \<and> DENY_ALL \<notin> fst ` set hs"
    unfolding select_handler_def exact [symmetric] by (auto split: option.splits)
  have "r_word cause = reason" if "Verdict_deny reason = Some (Deny code cause)" for code cause
    using that by (auto simp: Verdict_deny_def Reason_parse_Some)
  then show "\<exists>fields. make_event reason sink class argument label line human = VStruct ''DenyEvent'' fields
        \<and> fields ''reason'' = Some (VString reason) \<and> fields ''class'' = Some (VString class)"
    by (auto simp: make_event_def Let_def split: option.splits verdict.splits)
qed

theorem select_handler_most_specific_witness:
  "select_handler [(''db'', 1 :: nat), (''*'', 2), (''db'', 3), (''*'', 4)] ''db'' = Some 2"
  using select_handler_most_specific [of "[(''db'', 1 :: nat), (''*'', 2), (''db'', 3), (''*'', 4)]" "''db''" 2]
  by (auto simp: nth_Cons less_Suc_eq split: nat.splits)

end
