(* ===== verification/Grants.thy ===== *)
theory Grants
  imports Values Ledger_Runtime "HOL-Library.Char_ord" "HOL-Library.List_Lexorder"
begin

text \<open>
  \<open>src/grants.rs\<close>: capability grants over an in-process table. Issuing, attenuating, using and
  revoking a grant, the scope algebra, the lookup of a covering grant and the introspection
  functions. The two SQLite tables are lists of rows (\<open>None\<close> when initialization failed), every
  lifecycle event also lands in the action ledger, and the handle a program holds is only a cache:
  each operation reads the table.

  A call reads the clock several times; \<open>clk i\<close> is its reading at program point \<open>i\<close>. The typed
  refusals are constructors that carry the values their text interpolates. Sums of seconds wrap as
  in a release build, and a \<open>u64\<close> written to a column is stored as an \<open>i64\<close>.
\<close>

section \<open>Classes and handles\<close>

datatype grant_error =
  GrantUnavailable
| GrantEmptyScope
| GrantUnknownClass string
| GrantWrite
| GRANT_MISSING string
| GRANT_REVOKED string
| GRANT_REUSED string
| GRANT_EXPIRED string u64
| GRANT_EXHAUSTED string grant_class
| GRANT_ESCALATION_SCOPE string string string
| GRANT_ESCALATION_TTL u64 string u64
| GRANT_ESCALATION_CLASS grant_class grant_class string
| GRANT_ESCALATION_QUOTA i64 string i64

definition GrantClass_parse :: "string \<Rightarrow> (grant_error, grant_class) result" where
  "GrantClass_parse word =
     (let w = to_ascii_lowercase (trim word)
      in if w = ''once'' then Inr Once
         else if w = ''n'' then Inr (GrantN 0)
         else if w = ''unlimited'' then Inr Unlimited
         else Inl (GrantUnknownClass w))"

fun class_power :: "grant_class \<Rightarrow> nat" where
  "class_power Once = 0"
| "class_power (GrantN _) = 1"
| "class_power Unlimited = 2"

fun as_ledger_str :: "grant_class \<Rightarrow> string" where
  "as_ledger_str Once = ''once''"
| "as_ledger_str (GrantN k) = ''n:'' @ show_dec k"
| "as_ledger_str Unlimited = ''unlimited''"

definition from_ledger_str :: "string \<Rightarrow> grant_class" where
  "from_ledger_str s =
     (case strip_prefix ''n:'' s of
        Some k \<Rightarrow> GrantN (case parse_u64 k of None \<Rightarrow> 0 | Some n \<Rightarrow> n)
      | None \<Rightarrow> if s = ''unlimited'' then Unlimited else Once)"

fun initial_remaining :: "grant_class \<Rightarrow> i64" where
  "initial_remaining Once = 1"
| "initial_remaining (GrantN k) = as_i64 k"
| "initial_remaining Unlimited = -1"

text \<open>The tombstone that deserializing any grant gives.\<close>

definition deserialize_grant :: "string \<Rightarrow> grant_handle" where
  "deserialize_grant text =
     \<lparr>gh_grant_id = ''deserialized'', gh_scope = [], gh_class = Once, gh_expires_at = 0, gh_issuer = []\<rparr>"

definition next_grant_id :: "nat \<Rightarrow> u64 \<Rightarrow> string" where
  "next_grant_id nanos seq = ''g-'' @ show_hex nanos @ ''-'' @ show_hex seq"

section \<open>The tables\<close>

record grant_row =
  gr_id :: string
  gr_parent_id :: "string option"
  gr_scope :: string
  gr_class :: string
  gr_remaining :: i64
  gr_issued_at :: i64
  gr_expires_at :: i64
  gr_issuer :: string
  gr_state :: string

record grant_event =
  ge_kind :: string
  ge_grant_id :: string
  ge_scope :: string
  ge_class :: string
  ge_remaining_after :: i64
  ge_note :: string
  ge_ts :: i64

record grants_db =
  gd_rows :: "grant_row list"
  gd_events :: "grant_event list"

text \<open>The process state these operations touch.\<close>

record grants_world =
  w_ledger :: ledger_state
  w_grants :: "grants_db option"
  w_grant_seq :: u64

record grant_record =
  rec_id :: string
  rec_parent_id :: "string option"
  rec_scope :: string
  rec_class :: grant_class
  rec_remaining :: i64
  rec_expires_at :: u64
  rec_state :: string

definition with_grants ::
  "(grants_db \<Rightarrow> (grant_error, 'r) result \<times> 'a grants_world_scheme) \<Rightarrow> 'a grants_world_scheme
     \<Rightarrow> (grant_error, 'r) result \<times> 'a grants_world_scheme"
where
  "with_grants f w = (case w_grants w of None \<Rightarrow> (Inl GrantUnavailable, w) | Some db \<Rightarrow> f db)"

text \<open>\<open>record_event\<close>: the event row, and the action ledger entry with its own clock reading.\<close>

definition record_event ::
  "crypto \<Rightarrow> u64 \<Rightarrow> u64 \<Rightarrow> string \<Rightarrow> string \<Rightarrow> string \<Rightarrow> string \<Rightarrow> i64 \<Rightarrow> string
     \<Rightarrow> 'a grants_world_scheme \<Rightarrow> 'a grants_world_scheme"
where
  "record_event C t1 t2 kind grant_id scope class remaining_after note w =
     w\<lparr>w_grants := map_option (\<lambda>db. db\<lparr>gd_events := gd_events db @
           [\<lparr>ge_kind = kind, ge_grant_id = grant_id, ge_scope = scope, ge_class = class,
             ge_remaining_after = remaining_after, ge_note = note, ge_ts = as_i64 t1\<rparr>]\<rparr>) (w_grants w),
       w_ledger := record_action C t2 (''grant.'' @ kind) note scope
           (grant_id @ ''|'' @ kind @ ''|'' @ scope @ ''|'' @ class @ ''|'' @ show_int remaining_after)
           (w_ledger w)\<rparr>"

text \<open>\<open>UPDATE grant_state SET \<dots> WHERE id = ?1\<close> and \<open>INSERT INTO grant_state\<close>.\<close>

definition update_rows :: "string \<Rightarrow> (grant_row \<Rightarrow> grant_row) \<Rightarrow> grant_row list \<Rightarrow> grant_row list" where
  "update_rows gid f rows = map (\<lambda>r. if gr_id r = gid then f r else r) rows"

definition on_rows :: "(grant_row list \<Rightarrow> grant_row list) \<Rightarrow> 'a grants_world_scheme \<Rightarrow> 'a grants_world_scheme" where
  "on_rows f w = w\<lparr>w_grants := map_option (\<lambda>db. db\<lparr>gd_rows := f (gd_rows db)\<rparr>) (w_grants w)\<rparr>"

definition find_row :: "string \<Rightarrow> grant_row list \<Rightarrow> grant_row option" where
  "find_row gid rows = find (\<lambda>r. gr_id r = gid) rows"

definition record_of_row :: "grant_row \<Rightarrow> grant_record" where
  "record_of_row r =
     \<lparr>rec_id = gr_id r, rec_parent_id = gr_parent_id r, rec_scope = gr_scope r,
      rec_class = from_ledger_str (gr_class r), rec_remaining = gr_remaining r,
      rec_expires_at = as_u64 (gr_expires_at r), rec_state = gr_state r\<rparr>"

definition load_record :: "grants_db \<Rightarrow> string \<Rightarrow> (grant_error, grant_record) result" where
  "load_record db gid =
     (case find_row gid (gd_rows db) of None \<Rightarrow> Inl (GRANT_MISSING gid) | Some r \<Rightarrow> Inr (record_of_row r))"

definition check_record :: "u64 \<Rightarrow> grant_record \<Rightarrow> (grant_error, unit) result" where
  "check_record now rec =
     (if rec_state rec = ''revoked'' then Inl (GRANT_REVOKED (rec_id rec))
      else if rec_state rec = ''consumed'' then Inl (GRANT_REUSED (rec_id rec))
      else if now \<ge> rec_expires_at rec then Inl (GRANT_EXPIRED (rec_id rec) (rec_expires_at rec))
      else if rec_remaining rec = 0 then Inl (GRANT_EXHAUSTED (rec_id rec) (rec_class rec))
      else Inr ())"

section \<open>Scopes\<close>

definition scope_attenuates :: "string \<Rightarrow> string \<Rightarrow> bool" where
  "scope_attenuates parent child =
     (let p = split_on (CHR '':'') parent; c = split_on (CHR '':'') child
      in if length c > length p then False
         else list_all (\<lambda>(ps, cs). ps = ''*'' \<or> eq_ignore_ascii_case ps cs) (zip p c))"

definition scope_covers :: "string \<Rightarrow> string \<Rightarrow> string \<Rightarrow> bool" where
  "scope_covers grant_scope op table =
     scope_attenuates grant_scope (''db:'' @ op @ '':'' @ to_ascii_lowercase table)"

text \<open>The text after the first occurrence of \<open>p\<close> in \<open>s\<close>.\<close>

fun after_first :: "string \<Rightarrow> string \<Rightarrow> string option" where
  "after_first p s =
     (case strip_prefix p s of
        Some t \<Rightarrow> Some t
      | None \<Rightarrow> (case s of [] \<Rightarrow> None | c # s' \<Rightarrow> after_first p s'))"

declare after_first.simps [simp del]

definition is_alphanumeric :: "char \<Rightarrow> bool" where
  "is_alphanumeric c \<longleftrightarrow>
     (let n = (of_char c :: nat) in 48 \<le> n \<and> n \<le> 57 \<or> 65 \<le> n \<and> n \<le> 90 \<or> 97 \<le> n \<and> n \<le> 122)"

definition trim_matches :: "char \<Rightarrow> string \<Rightarrow> string" where
  "trim_matches q s = rev (dropWhile (\<lambda>c. c = q) (rev (dropWhile (\<lambda>c. c = q) s)))"

definition table_word :: "string \<Rightarrow> string" where
  "table_word tail =
     to_ascii_lowercase (trim_matches (CHR 0x27) (trim_matches (CHR 0x22)
       (takeWhile (\<lambda>c. is_alphanumeric c \<or> c = CHR ''_'' \<or> c = CHR 0x22) (dropWhile is_whitespace tail))))"

lemma after_first_length: "after_first p s = Some t \<Longrightarrow> p \<noteq> [] \<Longrightarrow> length t < length s"
proof (induction p s rule: after_first.induct)
  case (1 p s)
  show ?case
  proof (cases "strip_prefix p s")
    case (Some u)
    with 1(2,3) show ?thesis by (auto simp: after_first.simps [of p s] strip_prefix_Some)
  next
    case None
    have "after_first p s = (case s of [] \<Rightarrow> None | c # s' \<Rightarrow> after_first p s')"
      by (subst after_first.simps) (simp add: None)
    with None 1 show ?thesis by (cases s) (auto intro: less_SucI)
  qed
qed

text \<open>The inner loop of \<open>extract_destructive_ops\<close>; the prefix is never empty.\<close>

function scan_ops :: "string \<Rightarrow> string \<Rightarrow> string \<Rightarrow> (string \<times> string) list" where
  "scan_ops pre op rest =
     (if pre = [] then []
      else case after_first pre rest of
             None \<Rightarrow> []
           | Some tail \<Rightarrow>
               (let table = table_word tail
                in (if table \<noteq> [] then [(op, table)] else []) @ scan_ops pre op tail))"
  by pat_completeness auto
termination
  by (relation "measure (\<lambda>(_, _, rest). length rest)") (auto dest: after_first_length)

declare scan_ops.simps [simp del]

definition extract_destructive_ops :: "string \<Rightarrow> (string \<times> string) list" where
  "extract_destructive_ops sql =
     (let up = to_ascii_uppercase sql
      in scan_ops ''DROP TABLE '' ''drop'' up @ scan_ops ''DELETE FROM '' ''delete'' up
         @ scan_ops ''TRUNCATE '' ''truncate'' up @ scan_ops ''ALTER TABLE '' ''alter'' up)"

section \<open>Lifecycle operations\<close>

definition insert_row ::
  "grant_row \<Rightarrow> 'a grants_world_scheme \<Rightarrow> (grant_error, unit) result \<times> 'a grants_world_scheme"
where
  "insert_row r w =
     (case w_grants w of
        None \<Rightarrow> (Inl GrantUnavailable, w)
      | Some db \<Rightarrow>
          if gr_id r \<in> gr_id ` set (gd_rows db) then (Inl GrantWrite, w)
          else (Inr (), on_rows (\<lambda>rows. rows @ [r]) w))"

definition issue ::
  "crypto \<Rightarrow> (nat \<Rightarrow> u64) \<Rightarrow> nat \<Rightarrow> string \<Rightarrow> u64 \<Rightarrow> grant_class \<Rightarrow> string \<Rightarrow> 'a grants_world_scheme
     \<Rightarrow> (grant_error, grant_handle) result \<times> 'a grants_world_scheme"
where
  "issue C clk nanos scope ttl_secs class issuer w0 =
     (if trim scope = [] then (Inl GrantEmptyScope, w0)
      else
        let gid = next_grant_id nanos (w_grant_seq w0);
            w = w0\<lparr>w_grant_seq := u64_add (w_grant_seq w0) 1\<rparr>;
            expires_at = u64_add (clk 0) ttl_secs
        in case insert_row
             \<lparr>gr_id = gid, gr_parent_id = None, gr_scope = scope, gr_class = as_ledger_str class,
              gr_remaining = initial_remaining class, gr_issued_at = as_i64 (clk 1),
              gr_expires_at = as_i64 expires_at, gr_issuer = issuer, gr_state = ''active''\<rparr> w of
             (Inl e, w') \<Rightarrow> (Inl e, w')
           | (Inr _, w') \<Rightarrow>
               (Inr \<lparr>gh_grant_id = gid, gh_scope = scope, gh_class = class, gh_expires_at = expires_at,
                     gh_issuer = issuer\<rparr>,
                record_event C (clk 2) (clk 3) ''issued'' gid scope (as_ledger_str class)
                  (initial_remaining class) issuer w'))"

text \<open>The checks of \<open>subgrant\<close> against the parent's record, in order; the result is the debit and
  what the parent keeps.\<close>

definition subgrant_checks ::
  "(nat \<Rightarrow> u64) \<Rightarrow> grant_record \<Rightarrow> string \<Rightarrow> u64 \<Rightarrow> grant_class \<Rightarrow> (grant_error, i64 \<times> i64) result"
where
  "subgrant_checks clk prec scope ttl_secs class =
     (case check_record (clk 0) prec of
        Inl e \<Rightarrow> Inl e
      | Inr _ \<Rightarrow>
          if \<not> scope_attenuates (rec_scope prec) scope then
            Inl (GRANT_ESCALATION_SCOPE scope (rec_scope prec) (rec_id prec))
          else if u64_add (clk 1) ttl_secs > rec_expires_at prec then
            Inl (GRANT_ESCALATION_TTL ttl_secs (rec_id prec) (rec_expires_at prec))
          else if class_power class > class_power (rec_class prec) then
            Inl (GRANT_ESCALATION_CLASS class (rec_class prec) (rec_id prec))
          else
            (case (case class of
                Unlimited \<Rightarrow>
                  (if rec_class prec \<noteq> Unlimited
                   then Inl (GRANT_ESCALATION_CLASS class (rec_class prec) (rec_id prec)) else Inr 0)
              | Once \<Rightarrow> Inr 1
              | GrantN k \<Rightarrow> Inr (as_i64 k)) of
               Inl e \<Rightarrow> Inl e
             | Inr debit \<Rightarrow>
                 if rec_class prec = Unlimited then Inr (debit, rec_remaining prec)
                 else if debit > rec_remaining prec then
                   Inl (GRANT_ESCALATION_QUOTA debit (rec_id prec) (rec_remaining prec))
                 else Inr (debit, i64_sub (rec_remaining prec) debit)))"

text \<open>The write to the parent that precedes the child's row.\<close>

definition subgrant_parent ::
  "crypto \<Rightarrow> (nat \<Rightarrow> u64) \<Rightarrow> string \<Rightarrow> grant_record \<Rightarrow> i64 \<Rightarrow> i64 \<Rightarrow> 'a grants_world_scheme \<Rightarrow> 'a grants_world_scheme"
where
  "subgrant_parent C clk parent_id prec debit remaining_after w =
     (if rec_class prec = Once then
        record_event C (clk 2) (clk 3) ''consumed'' parent_id (rec_scope prec) ''once'' 0
          ''subgranted away (linear transfer)''
          (on_rows (update_rows parent_id (\<lambda>r. r\<lparr>gr_state := ''consumed'', gr_remaining := 0\<rparr>)) w)
      else if rec_class prec \<noteq> Unlimited then
        record_event C (clk 2) (clk 3) ''subgranted'' parent_id (rec_scope prec)
          (as_ledger_str (rec_class prec)) remaining_after (''debited '' @ show_int debit @ '' for child'')
          (on_rows (update_rows parent_id (\<lambda>r. r\<lparr>gr_remaining := remaining_after\<rparr>)) w)
      else w)"

definition subgrant ::
  "crypto \<Rightarrow> (nat \<Rightarrow> u64) \<Rightarrow> nat \<Rightarrow> grant_handle \<Rightarrow> string \<Rightarrow> u64 \<Rightarrow> grant_class \<Rightarrow> 'a grants_world_scheme
     \<Rightarrow> (grant_error, grant_handle) result \<times> 'a grants_world_scheme"
where
  "subgrant C clk nanos parent scope ttl_secs class w0 =
     (if trim scope = [] then (Inl GrantEmptyScope, w0)
      else
        let parent_id = gh_grant_id parent;
            child_id = next_grant_id nanos (w_grant_seq w0);
            w = w0\<lparr>w_grant_seq := u64_add (w_grant_seq w0) 1\<rparr>
        in with_grants (\<lambda>db.
             case load_record db parent_id of
               Inl e \<Rightarrow> (Inl e, w)
             | Inr prec \<Rightarrow>
                 (case subgrant_checks clk prec scope ttl_secs class of
                    Inl e \<Rightarrow> (Inl e, w)
                  | Inr (debit, remaining_after) \<Rightarrow>
                      (let w1 = subgrant_parent C clk parent_id prec debit remaining_after w
                       in case insert_row
                            \<lparr>gr_id = child_id, gr_parent_id = Some parent_id, gr_scope = scope,
                             gr_class = as_ledger_str class, gr_remaining = initial_remaining class,
                             gr_issued_at = as_i64 (clk 4), gr_expires_at = as_i64 (u64_add (clk 1) ttl_secs),
                             gr_issuer = gh_issuer parent, gr_state = ''active''\<rparr> w1 of
                            (Inl e, w2) \<Rightarrow> (Inl e, w2)
                          | (Inr _, w2) \<Rightarrow>
                              (Inr \<lparr>gh_grant_id = child_id, gh_scope = scope, gh_class = class,
                                    gh_expires_at = u64_add (clk 7) ttl_secs, gh_issuer = gh_issuer parent\<rparr>,
                               record_event C (clk 5) (clk 6) ''subgranted'' child_id scope
                                 (as_ledger_str class) (initial_remaining class)
                                 (''child of '' @ parent_id) w2)))) w)"

text \<open>The loop of \<open>revoke\<close>: the frontier is a stack (popped at its end), \<open>n\<close> counts the clock
  readings, \<open>cnt\<close> the grants revoked so far.\<close>

definition live_row :: "string \<Rightarrow> grant_row \<Rightarrow> bool" where
  "live_row gid r \<longleftrightarrow> gr_id r = gid \<and> gr_state r \<noteq> ''revoked''"

definition children_of :: "string \<Rightarrow> grant_row list \<Rightarrow> string list" where
  "children_of gid rows =
     map gr_id (filter (\<lambda>r. gr_parent_id r = Some gid \<and> gr_state r \<noteq> ''revoked'') rows)"

definition revoke_row :: "string \<Rightarrow> grant_row list \<Rightarrow> grant_row list" where
  "revoke_row gid rows =
     map (\<lambda>r. if gr_id r = gid \<and> gr_state r \<noteq> ''revoked'' then r\<lparr>gr_state := ''revoked''\<rparr> else r) rows"

definition world_rows :: "'a grants_world_scheme \<Rightarrow> grant_row list" where
  "world_rows w = (case w_grants w of None \<Rightarrow> [] | Some db \<Rightarrow> gd_rows db)"

definition live_count :: "grant_row list \<Rightarrow> nat" where
  "live_count rows = length (filter (\<lambda>r. gr_state r \<noteq> ''revoked'') rows)"

definition dead_count :: "string list \<Rightarrow> grant_row list \<Rightarrow> nat" where
  "dead_count frontier rows = length (filter (\<lambda>gid. \<not> (\<exists>r \<in> set rows. live_row gid r)) frontier)"

lemma world_rows_on_rows [simp]: "f [] = [] \<Longrightarrow> world_rows (on_rows f w) = f (world_rows w)"
  by (simp add: world_rows_def on_rows_def split: option.splits)

lemma world_rows_record_event [simp]:
  "world_rows (record_event C t1 t2 kind gid scope class rem note w) = world_rows w"
  by (simp add: world_rows_def record_event_def split: option.splits)

lemma live_count_revoke_row:
  assumes "\<exists>r \<in> set rows. live_row gid r"
  shows "live_count (revoke_row gid rows) < live_count rows"
proof -
  have le: "live_count (revoke_row gid rs) \<le> live_count rs" for rs
    by (induction rs) (auto simp: live_count_def revoke_row_def)
  show ?thesis
    using assms
  proof (induction rows)
    case (Cons r rows)
    with le [of rows] show ?case
      by (auto simp: live_count_def revoke_row_def live_row_def)
  qed simp
qed

lemma dead_count_children: "dead_count (children_of gid rows) rows = 0"
  by (auto simp: dead_count_def children_of_def live_row_def filter_empty_conv)

lemma dead_count_pop:
  "\<not> (\<exists>r \<in> set rows. live_row gid r) \<Longrightarrow> dead_count (rest @ [gid]) rows = Suc (dead_count rest rows)"
  by (simp add: dead_count_def)

lemma revoke_row_Nil [simp]: "revoke_row gid [] = []"
  by (simp add: revoke_row_def)

function revoke_loop ::
  "crypto \<Rightarrow> (nat \<Rightarrow> u64) \<Rightarrow> nat \<Rightarrow> string \<Rightarrow> string list \<Rightarrow> nat \<Rightarrow> 'a grants_world_scheme
     \<Rightarrow> nat \<times> 'a grants_world_scheme"
where
  "revoke_loop C clk n note frontier cnt w =
     (if frontier = [] then (cnt, w)
      else
        let gid = last frontier; rest = butlast frontier; children = children_of gid (world_rows w)
        in if \<exists>r \<in> set (world_rows w). live_row gid r then
             (let w1 = on_rows (revoke_row gid) w;
                  (scope, class) = (case find_row gid (world_rows w1) of
                     None \<Rightarrow> ([], []) | Some r \<Rightarrow> (gr_scope r, gr_class r))
              in revoke_loop C clk (n + 2) note (rest @ children) (cnt + 1)
                   (record_event C (clk n) (clk (n + 1)) ''revoked'' gid scope class (-1) note w1))
           else revoke_loop C clk n note (rest @ children) cnt w)"
  by pat_completeness auto
termination
proof (relation "measures [\<lambda>(C, clk, n, note, frontier, cnt, w). live_count (world_rows w),
    \<lambda>(C, clk, n, note, frontier, cnt, w). dead_count frontier (world_rows w)]", goal_cases)
  case 2
  then show ?case by (auto simp: live_count_revoke_row)
next
  case (3 C clk n nt frontier cnt w gid rest children)
  then have "dead_count frontier (world_rows w) = Suc (dead_count rest (world_rows w))"
    using dead_count_pop [of "world_rows w" "last frontier" "butlast frontier"] by simp
  moreover have "dead_count (rest @ children) (world_rows w) = dead_count rest (world_rows w)"
    using 3 dead_count_children [of gid "world_rows w"] by (simp add: dead_count_def)
  ultimately show ?case by simp
qed simp

declare revoke_loop.simps [simp del]

definition revoke ::
  "crypto \<Rightarrow> (nat \<Rightarrow> u64) \<Rightarrow> grant_handle \<Rightarrow> string \<Rightarrow> 'a grants_world_scheme
     \<Rightarrow> (grant_error, nat) result \<times> 'a grants_world_scheme"
where
  "revoke C clk handle note w =
     with_grants (\<lambda>db.
       case load_record db (gh_grant_id handle) of
         Inl e \<Rightarrow> (Inl e, w)
       | Inr _ \<Rightarrow>
           (case revoke_loop C clk 0 note [gh_grant_id handle] 0 w of (cnt, w') \<Rightarrow> (Inr cnt, w'))) w"

text \<open>\<open>lookup_active_covering\<close>: one pass over the active rows, keeping the best so far; row \<open>i\<close> of
  the scan reads the clock at point \<open>i\<close>.\<close>

definition lookup_better :: "(nat \<times> string \<times> grant_handle) option \<Rightarrow> nat \<Rightarrow> string \<Rightarrow> bool" where
  "lookup_better best pw gid =
     (case best of None \<Rightarrow> True | Some (p, best_id, _) \<Rightarrow> pw > p \<or> pw = p \<and> gid < best_id)"

definition lookup_step ::
  "u64 \<Rightarrow> string \<Rightarrow> grant_row \<Rightarrow> (nat \<times> string \<times> grant_handle) option \<Rightarrow> (nat \<times> string \<times> grant_handle) option"
where
  "lookup_step now action_scope r best =
     (if as_u64 (gr_expires_at r) \<le> now then best
      else if \<not> scope_attenuates (gr_scope r) action_scope then best
      else
        let class = from_ledger_str (gr_class r)
        in if class \<noteq> Unlimited \<and> gr_remaining r \<le> 0 then best
           else if lookup_better best (class_power class) (gr_id r) then
             Some (class_power class, gr_id r,
               \<lparr>gh_grant_id = gr_id r, gh_scope = gr_scope r, gh_class = class,
                gh_expires_at = as_u64 (gr_expires_at r), gh_issuer = gr_issuer r\<rparr>)
           else best)"

fun lookup_loop ::
  "(nat \<Rightarrow> u64) \<Rightarrow> nat \<Rightarrow> string \<Rightarrow> grant_row list \<Rightarrow> (nat \<times> string \<times> grant_handle) option
     \<Rightarrow> (nat \<times> string \<times> grant_handle) option"
where
  "lookup_loop clk i action_scope [] best = best"
| "lookup_loop clk i action_scope (r # rs) best =
     lookup_loop clk (Suc i) action_scope rs (lookup_step (clk i) action_scope r best)"

definition lookup_active_covering ::
  "(nat \<Rightarrow> u64) \<Rightarrow> string \<Rightarrow> 'a grants_world_scheme \<Rightarrow> grant_handle option"
where
  "lookup_active_covering clk action_scope w =
     map_option (\<lambda>(_, _, h). h)
       (lookup_loop clk 0 action_scope (filter (\<lambda>r. gr_state r = ''active'') (world_rows w)) None)"

definition grant_use ::
  "crypto \<Rightarrow> (nat \<Rightarrow> u64) \<Rightarrow> grant_handle \<Rightarrow> string \<Rightarrow> 'a grants_world_scheme
     \<Rightarrow> (grant_error, i64) result \<times> 'a grants_world_scheme"
where
  "grant_use C clk handle note w =
     (let gid = gh_grant_id handle
      in with_grants (\<lambda>db.
           case load_record db gid of
             Inl e \<Rightarrow> (Inl e, w)
           | Inr rec \<Rightarrow>
               (case check_record (clk 0) rec of
                  Inl e \<Rightarrow> (Inl e, w)
                | Inr _ \<Rightarrow>
                    (let (new_state, remaining_after) =
                           (case rec_class rec of
                              Once \<Rightarrow> (''consumed'', 0)
                            | GrantN _ \<Rightarrow> (''active'', i64_sub (rec_remaining rec) 1)
                            | Unlimited \<Rightarrow> (''active'', -1))
                     in (Inr remaining_after,
                         record_event C (clk 1) (clk 2) ''used'' gid (rec_scope rec)
                           (as_ledger_str (rec_class rec)) remaining_after note
                           (on_rows (update_rows gid
                              (\<lambda>r. r\<lparr>gr_state := new_state, gr_remaining := remaining_after\<rparr>)) w))))) w)"

definition record_of :: "string \<Rightarrow> 'a grants_world_scheme \<Rightarrow> (grant_error, grant_record) result" where
  "record_of gid w =
     (case w_grants w of None \<Rightarrow> Inl GrantUnavailable | Some db \<Rightarrow> load_record db gid)"

definition check_active ::
  "(nat \<Rightarrow> u64) \<Rightarrow> grant_handle \<Rightarrow> 'a grants_world_scheme \<Rightarrow> (grant_error, grant_record) result"
where
  "check_active clk handle w =
     (case w_grants w of
        None \<Rightarrow> Inl GrantUnavailable
      | Some db \<Rightarrow>
          (case load_record db (gh_grant_id handle) of
             Inl e \<Rightarrow> Inl e
           | Inr rec \<Rightarrow> (case check_record (clk 0) rec of Inl e \<Rightarrow> Inl e | Inr _ \<Rightarrow> Inr rec)))"

definition state_of :: "string \<Rightarrow> 'a grants_world_scheme \<Rightarrow> (string \<times> i64) option" where
  "state_of gid w =
     (case record_of gid w of Inl _ \<Rightarrow> None | Inr rec \<Rightarrow> Some (rec_state rec, rec_remaining rec))"

definition events_for :: "string \<Rightarrow> 'a grants_world_scheme \<Rightarrow> nat" where
  "events_for gid w =
     (case w_grants w of None \<Rightarrow> 0
      | Some db \<Rightarrow> length (filter (\<lambda>e. ge_grant_id e = gid) (gd_events db)))"

definition count_in_state :: "string \<Rightarrow> 'a grants_world_scheme \<Rightarrow> nat" where
  "count_in_state state w =
     (case w_grants w of None \<Rightarrow> 0
      | Some db \<Rightarrow> length (filter (\<lambda>r. gr_state r = state) (gd_rows db)))"

end
