(* ===== verification/Grants_Revocation.thy ===== *)
theory Grants_Revocation
  imports Grants
begin

text \<open>
  Scopes and revocation. Attenuation of scopes is exactly inclusion of authority, and \<open>revoke\<close>
  marks the target and its whole subtree, nothing else, although its loop walks the table with a
  stack and skips rows that are already revoked.
\<close>

section \<open>Scopes\<close>

lemma segments_trans:
  assumes "length c \<le> length p" "length a \<le> length c"
    and "list_all (\<lambda>(ps, cs). ps = ''*'' \<or> eq_ignore_ascii_case ps cs) (zip p c)"
    and "list_all (\<lambda>(ps, cs). ps = ''*'' \<or> eq_ignore_ascii_case ps cs) (zip c a)"
  shows "list_all (\<lambda>(ps, cs). ps = ''*'' \<or> eq_ignore_ascii_case ps cs) (zip p a)"
  unfolding list_all_length
proof (intro allI impI)
  fix i assume i: "i < length (zip p a)"
  then have l: "i < length p" "i < length c" "i < length a" using assms(1,2) by simp_all
  have star: "x = ''*''" if "eq_ignore_ascii_case x ''*''" for x
  proof -
    have e: "to_ascii_lowercase x = to_ascii_lowercase ''*''" using that by (simp add: eq_ignore_ascii_case_def)
    then obtain d where x: "x = [d]" and d: "ascii_lower d = ascii_lower (CHR ''*'')"
      by (cases x) (auto simp: to_ascii_lowercase_def)
    have "ascii_lower (CHR ''*'') = CHR ''*''" by (simp add: ascii_lower_def)
    with d have "d = CHR ''*''"
      by (auto simp: ascii_lower_def of_char_of split: if_splits dest: arg_cong [where f = "of_char :: char \<Rightarrow> nat"])
    with x show ?thesis by simp
  qed
  have "p ! i = ''*'' \<or> eq_ignore_ascii_case (p ! i) (c ! i)"
    "c ! i = ''*'' \<or> eq_ignore_ascii_case (c ! i) (a ! i)"
    using assms(3,4) l by (auto simp: list_all_length)
  then have "p ! i = ''*'' \<or> eq_ignore_ascii_case (p ! i) (a ! i)"
    using star eq_ignore_ascii_case_equiv(3) by metis
  then show "case zip p a ! i of (ps, cs) \<Rightarrow> ps = ''*'' \<or> eq_ignore_ascii_case ps cs"
    using l by simp
qed

lemma scope_attenuates_trans:
  "scope_attenuates p c \<Longrightarrow> scope_attenuates c a \<Longrightarrow> scope_attenuates p a"
  by (auto simp: scope_attenuates_def Let_def split: if_splits
      intro: segments_trans [of "split_on (CHR '':'') c"])

lemma scope_attenuates_refl: "scope_attenuates p p"
  by (auto simp: scope_attenuates_def Let_def list_all_length eq_ignore_ascii_case_equiv)

text \<open>
  A scope attenuates another exactly when its authority is included: a child scope is accepted
  if and only if every action the child covers is covered by the parent. In particular a chain of
  attenuations never covers an action its root does not cover.
\<close>

theorem attenuation_is_inclusion:
  "scope_attenuates parent child \<longleftrightarrow> (\<forall>action. scope_attenuates child action \<longrightarrow> scope_attenuates parent action)"
  using scope_attenuates_trans scope_attenuates_refl by blast

theorem attenuation_is_inclusion_witness:
  "scope_attenuates ''db:*:*'' ''db:delete:users'' \<and> scope_attenuates ''db:*:*'' ''DB:Delete:users''"
proof -
  have "scope_attenuates ''db:*:*'' ''db:delete:users''" "scope_attenuates ''db:delete:users'' ''DB:Delete:users''"
    by code_simp+
  with attenuation_is_inclusion [of "''db:*:*''" "''db:delete:users''"] show ?thesis by blast
qed

section \<open>The revocation loop\<close>

inductive descends :: "grant_row list \<Rightarrow> string \<Rightarrow> string \<Rightarrow> bool" for rows g where
  descends_root: "descends rows g g"
| descends_child: "descends rows g p \<Longrightarrow> r \<in> set rows \<Longrightarrow> gr_parent_id r = Some p \<Longrightarrow>
    descends rows g (gr_id r)"

definition mark :: "string set \<Rightarrow> grant_row list \<Rightarrow> grant_row list" where
  "mark S rows = map (\<lambda>r. if gr_id r \<in> S then r\<lparr>gr_state := ''revoked''\<rparr> else r) rows"

text \<open>Below a revoked grant everything is revoked, except what the frontier still holds.\<close>

definition closed_upto :: "string set \<Rightarrow> grant_row list \<Rightarrow> bool" where
  "closed_upto F rows \<longleftrightarrow> (\<forall>r \<in> set rows. \<forall>p \<in> set rows.
     gr_parent_id r = Some (gr_id p) \<and> gr_state p = ''revoked'' \<and> gr_state r \<noteq> ''revoked'' \<longrightarrow> gr_id r \<in> F)"

lemma mark_simps [simp]: "mark S [] = []" "mark {} rows = rows"
  by (simp_all add: mark_def)

lemma mark_mark: "mark S (mark T rows) = mark (S \<union> T) rows"
  by (simp add: mark_def)

lemma in_mark:
  "r \<in> set (mark S rows) \<longleftrightarrow> (\<exists>q \<in> set rows. r = (if gr_id q \<in> S then q\<lparr>gr_state := ''revoked''\<rparr> else q))"
  by (auto simp: mark_def)

lemma in_markE:
  assumes "r \<in> set (mark S rows)"
  obtains (marked) q where "q \<in> set rows" "gr_id q \<in> S" "r = q\<lparr>gr_state := ''revoked''\<rparr>"
  | (kept) "r \<in> set rows" "gr_id r \<notin> S"
  using assms unfolding in_mark by (metis (full_types))

lemma in_mark_live:
  assumes "r \<in> set (mark S rows)" "gr_state r \<noteq> ''revoked''"
  shows "r \<in> set rows \<and> gr_id r \<notin> S"
  using assms(1)
proof (cases rule: in_markE)
  case (marked q)
  with assms(2) show ?thesis by simp
qed simp

lemma revoke_row_mark: "revoke_row gid rows = mark {gid} rows"
  by (auto simp: revoke_row_def mark_def)

lemma descends_mark: "descends (mark S rows) g x \<longleftrightarrow> descends rows g x"
proof
  show "descends (mark S rows) g x \<Longrightarrow> descends rows g x"
    by (induction rule: descends.induct) (auto simp: in_mark split: if_splits intro: descends.intros)
  show "descends rows g x \<Longrightarrow> descends (mark S rows) g x"
  proof (induction rule: descends.induct)
    case (descends_child p r)
    let ?r = "if gr_id r \<in> S then r\<lparr>gr_state := ''revoked''\<rparr> else r"
    have "?r \<in> set (mark S rows)" "gr_parent_id ?r = Some p" "gr_id ?r = gr_id r"
      using descends_child by (auto simp: in_mark)
    with descends_child(4) descends.descends_child [of "mark S rows" g p ?r] show ?case by metis
  qed (rule descends_root)
qed

lemma mark_dead: "\<not> (\<exists>r \<in> set rows. live_row gid r) \<Longrightarrow> mark {gid} rows = rows"
  by (auto simp: mark_def live_row_def intro!: map_idI)

lemma children_descend:
  assumes "gid \<in> F" "c \<in> set (children_of gid rows)" "descends rows c x"
  shows "\<exists>f \<in> F. descends rows f x"
proof -
  obtain r where r: "r \<in> set rows" "gr_parent_id r = Some gid" "c = gr_id r"
    using assms(2) by (auto simp: children_of_def)
  have "descends rows gid x"
    using assms(3) by (induction rule: descends.induct) (use r in \<open>auto intro: descends.intros\<close>)
  with assms(1) show ?thesis by blast
qed

lemma closed_upto_pop:
  assumes "closed_upto (set (rest @ [gid])) rows"
  shows "closed_upto (set (rest @ children_of gid rows)) (mark {gid} rows)"
  unfolding closed_upto_def
proof (intro ballI impI, elim conjE)
  fix r p
  assume rp: "r \<in> set (mark {gid} rows)" "p \<in> set (mark {gid} rows)" "gr_parent_id r = Some (gr_id p)"
    "gr_state p = ''revoked''" "gr_state r \<noteq> ''revoked''"
  from rp(1,5) have r: "r \<in> set rows" "gr_id r \<noteq> gid" using in_mark_live by blast+
  from rp(2) show "gr_id r \<in> set (rest @ children_of gid rows)"
  proof (cases rule: in_markE)
    case (marked q)
    with r rp(3,5) show ?thesis by (auto simp: children_of_def)
  next
    case kept
    with assms r rp(3-5) have "gr_id r \<in> set (rest @ [gid])" unfolding closed_upto_def by blast
    with r show ?thesis by simp
  qed
qed

lemma live_count_mark_one:
  assumes "distinct (map gr_id rows)" "\<exists>r \<in> set rows. live_row gid r"
  shows "Suc (live_count (mark {gid} rows)) = live_count rows"
  using assms
proof (induction rows)
  case (Cons r rows)
  show ?case
  proof (cases "gr_id r = gid")
    case True
    with Cons.prems(1) have "gid \<notin> gr_id ` set rows" by simp
    then have other: "\<forall>x \<in> set rows. gr_id x \<noteq> gid" by blast
    then have "mark {gid} rows = rows" by (simp add: mark_def map_idI)
    moreover have "gr_state r \<noteq> ''revoked''"
      using Cons.prems(2) other by (auto simp: live_row_def)
    ultimately show ?thesis
      using True by (simp add: mark_def live_count_def)
  next
    case False
    with Cons show ?thesis by (auto simp: mark_def live_count_def live_row_def)
  qed
qed simp

lemma live_count_mark_le: "live_count (mark S rows) \<le> live_count rows"
  by (induction rows) (auto simp: mark_def live_count_def)

definition world_events :: "'a grants_world_scheme \<Rightarrow> grant_event list" where
  "world_events w = (case w_grants w of None \<Rightarrow> [] | Some db \<Rightarrow> gd_events db)"

lemma world_events_on_rows [simp]: "world_events (on_rows f w) = world_events w"
  by (simp add: world_events_def on_rows_def split: option.splits)

lemma distinct_mark [simp]: "map gr_id (mark S rows) = map gr_id rows"
  by (simp add: mark_def)

lemma w_grants_record_event [simp]:
  "w_grants (record_event C t1 t2 kind gid scope class rem note w) = None \<longleftrightarrow> w_grants w = None"
  by (simp add: record_event_def)

lemma w_grants_on_rows [simp]: "w_grants (on_rows f w) = None \<longleftrightarrow> w_grants w = None"
  by (simp add: on_rows_def)

lemma world_events_record_event:
  "w_grants w \<noteq> None \<Longrightarrow> \<exists>e. ge_kind e = kind \<and> ge_grant_id e = gid \<and>
     world_events (record_event C t1 t2 kind gid scope class rem note w) = world_events w @ [e]"
  by (auto simp: world_events_def record_event_def split: option.splits)

text \<open>What one run of the loop does: it marks descendants of the frontier only, it leaves the table
  closed, everything on the frontier ends up revoked, and it writes one event per marked row.\<close>

definition revoke_post ::
  "string list \<Rightarrow> nat \<Rightarrow> 'a grants_world_scheme \<Rightarrow> nat \<Rightarrow> 'a grants_world_scheme \<Rightarrow> bool"
where
  "revoke_post F cnt w cnt' w' \<longleftrightarrow>
     (\<exists>T \<subseteq> {x. \<exists>f \<in> set F. descends (world_rows w) f x}. world_rows w' = mark T (world_rows w))
   \<and> closed_upto {} (world_rows w')
   \<and> (\<forall>r \<in> set (world_rows w'). gr_id r \<in> set F \<longrightarrow> gr_state r = ''revoked'')
   \<and> (\<exists>es. world_events w' = world_events w @ es \<and> (\<forall>e \<in> set es. ge_kind e = ''revoked''))
   \<and> (distinct (map gr_id (world_rows w)) \<longrightarrow>
        cnt' + live_count (world_rows w') = cnt + live_count (world_rows w))
   \<and> (w_grants w' = None \<longleftrightarrow> w_grants w = None)"

lemma revoke_post_pop:
  assumes rows: "world_rows w2 = mark {gid} (world_rows w)"
    and ev: "world_events w2 = world_events w @ es2" "\<forall>e \<in> set es2. ge_kind e = ''revoked''"
    and cnt: "distinct (map gr_id (world_rows w)) \<Longrightarrow>
        cnt2 + live_count (world_rows w2) = cnt + live_count (world_rows w)"
    and wn: "w_grants w2 = None \<longleftrightarrow> w_grants w = None"
    and post: "revoke_post (rest @ children_of gid (world_rows w)) cnt2 w2 cnt' w'"
  shows "revoke_post (rest @ [gid]) cnt w cnt' w'"
proof -
  let ?F1 = "rest @ children_of gid (world_rows w)" and ?F = "rest @ [gid]"
  obtain T where T: "T \<subseteq> {x. \<exists>f \<in> set ?F1. descends (world_rows w) f x}"
      "world_rows w' = mark (insert gid T) (world_rows w)"
    using post by (auto simp: revoke_post_def rows descends_mark mark_mark)
  have sub: "insert gid T \<subseteq> {x. \<exists>f \<in> set ?F. descends (world_rows w) f x}"
    using T(1) children_descend [of gid "set ?F" _ "world_rows w"] by (auto intro: descends_root)
  have c3: "\<forall>r \<in> set (world_rows w'). gr_id r \<in> set ?F \<longrightarrow> gr_state r = ''revoked''"
  proof (intro ballI impI)
    fix r assume r: "r \<in> set (world_rows w')" "gr_id r \<in> set ?F"
    show "gr_state r = ''revoked''"
    proof (cases "gr_id r = gid")
      case True
      with r(1) show ?thesis using in_mark_live [of r "insert gid T"] by (auto simp: T(2))
    next
      case False
      with r post show ?thesis by (simp add: revoke_post_def)
    qed
  qed
  have c4: "\<exists>es. world_events w' = world_events w @ es \<and> (\<forall>e \<in> set es. ge_kind e = ''revoked'')"
    using post ev by (auto simp: revoke_post_def)
  have c5: "distinct (map gr_id (world_rows w)) \<longrightarrow>
      cnt' + live_count (world_rows w') = cnt + live_count (world_rows w)"
    using post cnt rows by (auto simp: revoke_post_def)
  have c1: "\<exists>T \<subseteq> {x. \<exists>f \<in> set ?F. descends (world_rows w) f x}. world_rows w' = mark T (world_rows w)"
    by (rule exI [of _ "insert gid T"]) (simp only: sub T(2) simp_thms)
  have c2: "closed_upto {} (world_rows w')" and c6: "w_grants w' = None \<longleftrightarrow> w_grants w = None"
    using post wn by (simp_all add: revoke_post_def)
  show ?thesis
    unfolding revoke_post_def by (intro conjI) (fact c1 c2 c3 c4 c5 c6)+
qed

lemma revoke_loop_post:
  assumes "closed_upto (set F) (world_rows w)"
  shows "case revoke_loop C clk n nt F cnt w of (cnt', w') \<Rightarrow> revoke_post F cnt w cnt' w'"
  using assms
proof (induction C clk n nt F cnt w rule: revoke_loop.induct)
  case (1 C clk n nt F cnt w)
  show ?case
  proof (cases "F = []")
    case True
    with 1(3) show ?thesis
      by (simp add: revoke_loop.simps [of _ _ _ _ "[]"] revoke_post_def)
  next
    case False
    define gid rest where "gid = last F" and "rest = butlast F"
    have F: "F = rest @ [gid]" using False by (simp add: gid_def rest_def)
    let ?F1 = "rest @ children_of gid (world_rows w)"
    have cl: "closed_upto (set ?F1) (mark {gid} (world_rows w))"
      using closed_upto_pop 1(3) F by simp
    show ?thesis
    proof (cases "\<exists>r \<in> set (world_rows w). live_row gid r")
      case True
      define w1 where "w1 = on_rows (revoke_row gid) w"
      obtain scope cls where sc: "(scope, cls) = (case find_row gid (world_rows w1) of
          None \<Rightarrow> ([], []) | Some r \<Rightarrow> (gr_scope r, gr_class r))"
        by (metis surj_pair)
      define w2 where "w2 = record_event C (clk n) (clk (n + 1)) ''revoked'' gid scope cls (-1) nt w1"
      have run: "revoke_loop C clk n nt F cnt w = revoke_loop C clk (n + 2) nt ?F1 (cnt + 1) w2"
        using False True sc [symmetric]
        by (simp add: revoke_loop.simps [of C clk n nt F] gid_def rest_def w1_def w2_def Let_def)
      have rows2: "world_rows w2 = mark {gid} (world_rows w)"
        by (simp add: w2_def w1_def revoke_row_mark)
      have ne: "w_grants w \<noteq> None" using True by (cases "w_grants w") (auto simp: world_rows_def)
      then obtain e where e: "ge_kind e = ''revoked''" "world_events w2 = world_events w @ [e]"
        using world_events_record_event [of w1 "''revoked''" gid C "clk n" "clk (n + 1)" scope cls "-1" nt]
        by (auto simp: w2_def w1_def)
      have "case revoke_loop C clk (n + 2) nt ?F1 (cnt + 1) w2 of (cnt', w') \<Rightarrow> revoke_post ?F1 (cnt + 1) w2 cnt' w'"
        unfolding w2_def w1_def
        by (rule 1(1) [OF False gid_def rest_def refl True refl _ sc [unfolded w1_def]])
          (use sc cl rows2 in \<open>simp_all add: w1_def w2_def\<close>)
      then show ?thesis
        unfolding run unfolding F using e ne live_count_mark_one [OF _ True]
        by (auto intro!: revoke_post_pop [OF rows2, of "[e]"] simp: rows2 w2_def w1_def revoke_row_mark)
    next
      case dead: False
      have run: "revoke_loop C clk n nt F cnt w = revoke_loop C clk n nt ?F1 cnt w"
        using False dead by (simp add: revoke_loop.simps [of C clk n nt F] gid_def rest_def Let_def)
      have rows: "world_rows w = mark {gid} (world_rows w)" by (rule mark_dead [OF dead, symmetric])
      have "case revoke_loop C clk n nt ?F1 cnt w of (cnt', w') \<Rightarrow> revoke_post ?F1 cnt w cnt' w'"
        by (rule 1(2) [OF False gid_def rest_def refl dead]) (use cl rows in simp)
      then show ?thesis
        unfolding run unfolding F by (auto intro!: revoke_post_pop [OF rows, of "[]"])
    qed
  qed
qed

lemma distinct_id_eq:
  "distinct (map gr_id rows) \<Longrightarrow> r \<in> set rows \<Longrightarrow> q \<in> set rows \<Longrightarrow> gr_id r = gr_id q \<Longrightarrow> r = q"
  by (simp add: distinct_map inj_on_def)

lemma find_row_None: "find_row gid rows = None \<longleftrightarrow> gid \<notin> gr_id ` set rows"
  unfolding find_row_def find_None_iff by blast

lemma find_row_SomeD: "find_row gid rows = Some r \<Longrightarrow> r \<in> set rows \<and> gr_id r = gid"
  by (auto simp: find_row_def find_Some_iff)

lemma find_row_unique:
  assumes "distinct (map gr_id rows)"
  shows "find_row gid rows = Some r \<longleftrightarrow> r \<in> set rows \<and> gr_id r = gid"
proof
  assume r: "r \<in> set rows \<and> gr_id r = gid"
  then obtain q where "find_row gid rows = Some q"
    using find_row_None [of gid rows] by (cases "find_row gid rows") auto
  with r distinct_id_eq [OF assms] find_row_SomeD show "find_row gid rows = Some r" by metis
qed (rule find_row_SomeD)

lemma load_record_known:
  "gid \<in> gr_id ` set (gd_rows db) \<Longrightarrow> \<exists>r \<in> set (gd_rows db). gr_id r = gid \<and> load_record db gid = Inr (record_of_row r)"
  using find_row_None [of gid "gd_rows db"] find_row_SomeD [of gid "gd_rows db"]
  by (cases "find_row gid (gd_rows db)") (auto simp: load_record_def)

lemma revoke_post_exact:
  assumes post: "revoke_post [gid] cnt w cnt' w'" and d: "distinct (map gr_id (world_rows w))"
    and ex: "gid \<in> gr_id ` set (world_rows w)"
  shows "world_rows w' = mark {x. descends (world_rows w) gid x} (world_rows w)"
proof -
  obtain T where T: "T \<subseteq> {x. descends (world_rows w) gid x}" "world_rows w' = mark T (world_rows w)"
    and cl: "closed_upto {} (world_rows w')"
    and base: "\<forall>r \<in> set (world_rows w'). gr_id r = gid \<longrightarrow> gr_state r = ''revoked''"
    using post by (auto simp: revoke_post_def)
  have ids: "gr_id ` set (world_rows w') = gr_id ` set (world_rows w)"
    by (simp only: T(2) set_map [symmetric] distinct_mark)
  have d': "distinct (map gr_id (world_rows w'))" using d by (simp add: T(2))
  have "\<exists>q \<in> set (world_rows w'). gr_id q = x \<and> gr_state q = ''revoked''"
    if "descends (world_rows w') gid x" for x
    using that
  proof (induction rule: descends.induct)
    case descends_root
    with base ex ids show ?case by (metis imageE)
  next
    case (descends_child p r)
    with cl show ?case unfolding closed_upto_def by blast
  qed
  then have rev: "gr_state r = ''revoked''"
    if "r \<in> set (world_rows w')" "descends (world_rows w) gid (gr_id r)" for r
    using that distinct_id_eq [OF d'] by (metis T(2) descends_mark)
  have "(if gr_id r \<in> T then r\<lparr>gr_state := ''revoked''\<rparr> else r)
      = (if descends (world_rows w) gid (gr_id r) then r\<lparr>gr_state := ''revoked''\<rparr> else r)"
    if r: "r \<in> set (world_rows w)" for r
  proof (cases "gr_id r \<in> T")
    case True
    with T(1) show ?thesis by auto
  next
    case False
    then have "r \<in> set (world_rows w')" using r by (auto simp: T(2) in_mark)
    with rev False show ?thesis by auto
  qed
  then show ?thesis by (simp add: T(2) mark_def)
qed

text \<open>
  C4. Revocation is exact and always ends. On a table with unique ids in which everything below a
  revoked grant is revoked, revoking a known grant returns; it marks the grant and all its
  descendants, at any depth, and changes no other row and no other column; it returns the number of
  rows that were not revoked before and are now; and the table is closed again.
\<close>

theorem revoke_exact:
  assumes db: "w_grants w = Some db" and d: "distinct (map gr_id (gd_rows db))"
    and closed: "closed_upto {} (gd_rows db)" and known: "gh_grant_id h \<in> gr_id ` set (gd_rows db)"
  shows "\<exists>cnt w' db'. revoke C clk h nt w = (Inr cnt, w') \<and> w_grants w' = Some db'
    \<and> gd_rows db' = map (\<lambda>r. if descends (gd_rows db) (gh_grant_id h) (gr_id r)
                             then r\<lparr>gr_state := ''revoked''\<rparr> else r) (gd_rows db)
    \<and> cnt + live_count (gd_rows db') = live_count (gd_rows db) \<and> closed_upto {} (gd_rows db')"
proof -
  have rows: "world_rows w = gd_rows db" by (simp add: world_rows_def db)
  obtain cnt w' where run: "revoke_loop C clk 0 nt [gh_grant_id h] 0 w = (cnt, w')" by fastforce
  have "closed_upto (set [gh_grant_id h]) (world_rows w)"
    using closed unfolding rows closed_upto_def by blast
  from revoke_loop_post [OF this, where C = C and clk = clk and n = 0 and nt = nt and cnt = 0] have post: "revoke_post [gh_grant_id h] 0 w cnt w'"
    by (simp add: run)
  then obtain db' where db': "w_grants w' = Some db'" by (auto simp: revoke_post_def db)
  then have rows': "world_rows w' = gd_rows db'" by (simp add: world_rows_def)
  from load_record_known [OF known] have "revoke C clk h nt w = (Inr cnt, w')"
    by (auto simp: revoke_def with_grants_def db run)
  moreover have "gd_rows db' = mark {x. descends (gd_rows db) (gh_grant_id h) x} (gd_rows db)"
    using revoke_post_exact [OF post] d known by (simp add: rows rows')
  moreover have "cnt + live_count (gd_rows db') = live_count (gd_rows db)" "closed_upto {} (gd_rows db')"
    using post d by (simp_all add: revoke_post_def rows rows')
  ultimately show ?thesis using db' by (simp add: mark_def)
qed

definition demo_row :: "string \<Rightarrow> string option \<Rightarrow> grant_row" where
  "demo_row gid parent = \<lparr>gr_id = gid, gr_parent_id = parent, gr_scope = ''db:*'', gr_class = ''unlimited'',
     gr_remaining = -1, gr_issued_at = 0, gr_expires_at = 100, gr_issuer = ''program'', gr_state = ''active''\<rparr>"

definition demo_db :: grants_db where
  "demo_db = \<lparr>gd_rows = [demo_row ''a'' None, demo_row ''b'' (Some ''a''), demo_row ''c'' (Some ''b''),
      demo_row ''d'' None], gd_events = []\<rparr>"

definition demo_world :: grants_world where
  "demo_world = \<lparr>w_ledger = demo_start, w_grants = Some demo_db, w_grant_seq = 4\<rparr>"

definition demo_handle :: "string \<Rightarrow> grant_handle" where
  "demo_handle gid = \<lparr>gh_grant_id = gid, gh_scope = ''db:*'', gh_class = Unlimited, gh_expires_at = 100,
     gh_issuer = ''program''\<rparr>"

lemma demo_db_facts:
  "distinct (map gr_id (gd_rows demo_db))" "closed_upto {} (gd_rows demo_db)"
  "''a'' \<in> gr_id ` set (gd_rows demo_db)" "w_grants demo_world = Some demo_db"
  by (simp_all add: demo_db_def demo_row_def closed_upto_def demo_world_def)

theorem revoke_exact_witness:
  "\<exists>cnt w' db'. revoke sample_crypto (\<lambda>_. 5) (demo_handle ''a'') [] demo_world = (Inr cnt, w')
    \<and> w_grants w' = Some db' \<and> closed_upto {} (gd_rows db')
    \<and> (\<forall>r \<in> set (gd_rows db'). gr_id r = ''c'' \<longrightarrow> gr_state r = ''revoked'')"
proof -
  have b: "demo_row ''b'' (Some ''a'') \<in> set (gd_rows demo_db)"
    and c: "demo_row ''c'' (Some ''b'') \<in> set (gd_rows demo_db)"
    by (simp_all add: demo_db_def)
  have "descends (gd_rows demo_db) ''a'' ''b''"
    using descends_child [OF descends_root b] by (simp add: demo_row_def)
  then have "descends (gd_rows demo_db) ''a'' ''c''"
    using descends_child [OF _ c] by (simp add: demo_row_def)
  then show ?thesis
    using revoke_exact [OF demo_db_facts(4,1,2), of "demo_handle ''a''" sample_crypto "\<lambda>_. 5" "[]"] demo_db_facts(3)
    by (auto simp: demo_handle_def)
qed

end
