(* ===== verification/Grants_Invariant.thy ===== *)
theory Grants_Invariant
  imports Grants_Revocation
begin

text \<open>
  The invariant of the grants table over every sequence of issue, subgrant, use and revoke calls
  (whatever the clock reads): unique ids, parents before children, revocation closed downwards,
  attenuation along every parent link, remaining uses in range, and conservation of quota. Use
  counts up to the signed 64-bit range are covered; what happens beyond is stated apart.
\<close>

section \<open>The invariant\<close>

definition class_tame :: "grant_class \<Rightarrow> bool" where
  "class_tame c \<longleftrightarrow> (\<forall>k. c = GrantN k \<longrightarrow> k < 2 ^ 63)"

definition row_class :: "grant_row \<Rightarrow> grant_class" where
  "row_class r = from_ledger_str (gr_class r)"

definition row_ok :: "grant_row \<Rightarrow> bool" where
  "row_ok r \<longleftrightarrow> class_tame (row_class r) \<and> gr_state r \<in> {''active'', ''consumed'', ''revoked''}
   \<and> (case row_class r of
        Once \<Rightarrow> gr_remaining r \<in> {0, 1} \<and> (gr_state r = ''active'' \<longrightarrow> gr_remaining r = 1)
      | GrantN k \<Rightarrow> 0 \<le> gr_remaining r \<and> gr_remaining r \<le> int k
      | Unlimited \<Rightarrow> gr_remaining r = -1)
   \<and> (gr_state r = ''consumed'' \<longrightarrow> row_class r = Once \<and> gr_remaining r = 0)"

definition parents_known :: "grant_row list \<Rightarrow> bool" where
  "parents_known rows \<longleftrightarrow>
     (\<forall>xs r ys p. rows = xs @ r # ys \<and> gr_parent_id r = Some p \<longrightarrow> p \<in> gr_id ` set xs)"

definition attenuated :: "grant_row \<Rightarrow> grant_row \<Rightarrow> bool" where
  "attenuated p c \<longleftrightarrow> scope_attenuates (gr_scope p) (gr_scope c)
   \<and> as_u64 (gr_expires_at c) \<le> as_u64 (gr_expires_at p)
   \<and> class_power (row_class c) \<le> class_power (row_class p)"

definition uses_of :: "grant_event list \<Rightarrow> string \<Rightarrow> nat" where
  "uses_of events gid = length (filter (\<lambda>e. ge_kind e = ''used'' \<and> ge_grant_id e = gid) events)"

text \<open>The quota handed to the children of a grant.\<close>

definition carved :: "grant_row list \<Rightarrow> string \<Rightarrow> int" where
  "carved rows gid = (\<Sum>r \<leftarrow> filter (\<lambda>r. gr_parent_id r = Some gid) rows. initial_remaining (row_class r))"

definition balanced :: "grant_row list \<Rightarrow> grant_event list \<Rightarrow> grant_row \<Rightarrow> bool" where
  "balanced rows events r \<longleftrightarrow> (row_class r \<noteq> Unlimited \<longrightarrow>
     gr_remaining r + int (uses_of events (gr_id r)) + carved rows (gr_id r) \<le> initial_remaining (row_class r))"

definition static_ok :: "grant_row list \<Rightarrow> bool" where
  "static_ok rows \<longleftrightarrow> distinct (map gr_id rows) \<and> parents_known rows
   \<and> (\<forall>p \<in> set rows. \<forall>c \<in> set rows. gr_parent_id c = Some (gr_id p) \<longrightarrow> attenuated p c)"

definition grants_ok :: "grant_row list \<Rightarrow> grant_event list \<Rightarrow> bool" where
  "grants_ok rows events \<longleftrightarrow> static_ok rows \<and> closed_upto {} rows
   \<and> (\<forall>r \<in> set rows. row_ok r \<and> balanced rows events r)
   \<and> (\<forall>gid. gid \<notin> gr_id ` set rows \<longrightarrow> uses_of events gid = 0)"

lemma class_roundtrip: "class_tame c \<Longrightarrow> from_ledger_str (as_ledger_str c) = c"
proof (cases c)
  case (GrantN k)
  assume "class_tame c"
  with GrantN have "is_u64 k" by (simp add: class_tame_def is_u64_def)
  with GrantN show ?thesis by (simp add: from_ledger_str_def parse_u64_show)
qed (simp_all add: from_ledger_str_def)

section \<open>Updates that keep the static columns\<close>

definition same_static :: "(grant_row \<Rightarrow> grant_row) \<Rightarrow> bool" where
  "same_static f \<longleftrightarrow> (\<forall>r. gr_id (f r) = gr_id r \<and> gr_parent_id (f r) = gr_parent_id r \<and> gr_scope (f r) = gr_scope r
     \<and> gr_class (f r) = gr_class r \<and> gr_expires_at (f r) = gr_expires_at r)"

lemma same_static_simps:
  assumes "same_static f"
  shows "gr_id (f r) = gr_id r" "gr_parent_id (f r) = gr_parent_id r" "row_class (f r) = row_class r"
    "attenuated (f p) (f c) = attenuated p c"
  using assms by (simp_all add: same_static_def row_class_def attenuated_def)

lemma static_ok_map:
  assumes f: "same_static f" and ok: "static_ok rows"
  shows "static_ok (map f rows)"
proof -
  note [simp] = same_static_simps [OF f]
  have "parents_known (map f rows)"
    unfolding parents_known_def
  proof (intro allI impI, elim conjE)
    fix xs r ys p assume "map f rows = xs @ r # ys" "gr_parent_id r = Some p"
    then obtain us q vs where "rows = us @ q # vs" "xs = map f us" "r = f q"
      by (auto simp: map_eq_append_conv map_eq_Cons_conv)
    with ok \<open>gr_parent_id r = Some p\<close> have "p \<in> gr_id ` set us"
      unfolding static_ok_def parents_known_def by auto
    then show "p \<in> gr_id ` set xs" by (auto simp: \<open>xs = map f us\<close> image_iff)
  qed
  with ok show ?thesis by (auto simp: static_ok_def comp_def)
qed

lemma carved_map: "same_static f \<Longrightarrow> carved (map f rows) gid = carved rows gid"
  by (induction rows) (simp_all add: carved_def same_static_simps)

lemma grants_ok_map:
  assumes f: "same_static f" and ok: "grants_ok rows events"
    and cl: "closed_upto {} (map f rows)" and row: "\<And>r. r \<in> set rows \<Longrightarrow> row_ok (f r)"
    and bal: "\<And>r. r \<in> set rows \<Longrightarrow> row_class r \<noteq> Unlimited \<Longrightarrow>
        gr_remaining (f r) + int (uses_of events' (gr_id r)) \<le> gr_remaining r + int (uses_of events (gr_id r))"
    and ev: "\<And>gid. gid \<notin> gr_id ` set rows \<Longrightarrow> uses_of events' gid = 0"
  shows "grants_ok (map f rows) events'"
proof -
  note [simp] = same_static_simps [OF f] carved_map [OF f]
  have "balanced (map f rows) events' (f r)" if "r \<in> set rows" for r
    using ok bal [OF that] that by (fastforce simp: grants_ok_def balanced_def)
  moreover have "gr_id ` set (map f rows) = gr_id ` set rows" by (simp add: image_comp comp_def)
  ultimately show ?thesis
    using ok static_ok_map [OF f] cl row ev by (auto simp: grants_ok_def)
qed

lemma grants_okD:
  assumes "grants_ok rows events"
  shows "distinct (map gr_id rows)" "closed_upto {} rows" "parents_known rows"
    and "r \<in> set rows \<Longrightarrow> row_ok r" "r \<in> set rows \<Longrightarrow> balanced rows events r"
    and "p \<in> set rows \<Longrightarrow> c \<in> set rows \<Longrightarrow> gr_parent_id c = Some (gr_id p) \<Longrightarrow> attenuated p c"
    and "gid \<notin> gr_id ` set rows \<Longrightarrow> uses_of events gid = 0"
  using assms by (simp_all add: grants_ok_def static_ok_def)

lemma update_ok:
  assumes ok: "grants_ok rows events" and r: "r \<in> set rows" "gr_id r = gid" "gr_state r \<noteq> ''revoked''"
    and s: "s \<noteq> ''revoked''" "row_ok (r\<lparr>gr_state := s, gr_remaining := m\<rparr>)"
    and bal: "row_class r \<noteq> Unlimited \<Longrightarrow> m + int d \<le> gr_remaining r"
    and ev: "\<And>x. uses_of events' x = uses_of events x + (if x = gid then d else 0)"
  shows "grants_ok (update_rows gid (\<lambda>r. r\<lparr>gr_state := s, gr_remaining := m\<rparr>) rows) events'"
proof -
  let ?f = "\<lambda>r. if gr_id r = gid then r\<lparr>gr_state := s, gr_remaining := m\<rparr> else r"
  have only: "q = r" if "q \<in> set rows" "gr_id q = gid" for q
    using distinct_id_eq [OF grants_okD(1) [OF ok]] that r by metis
  have rev: "gr_state (?f q) = ''revoked'' \<longleftrightarrow> gr_state q = ''revoked''" if "q \<in> set rows" for q
    using only [OF that] r(3) s(1) by auto
  have "closed_upto {} (map ?f rows)"
    unfolding closed_upto_def
  proof (intro ballI impI, elim conjE)
    fix c p assume "c \<in> set (map ?f rows)" "p \<in> set (map ?f rows)"
    then obtain c' p' where c: "c' \<in> set rows" "c = ?f c'" and p: "p' \<in> set rows" "p = ?f p'" by auto
    assume a: "gr_parent_id c = Some (gr_id p)" "gr_state p = ''revoked''" "gr_state c \<noteq> ''revoked''"
    then have "gr_parent_id c' = Some (gr_id p')" using c(2) p(2) by (auto split: if_splits)
    with a rev [OF c(1)] rev [OF p(1)] c p grants_okD(2) [OF ok] show "gr_id c \<in> {}"
      unfolding closed_upto_def by blast
  qed
  moreover have "row_ok (?f q)" if "q \<in> set rows" for q
    using only [OF that] s(2) grants_okD(4) [OF ok that] by auto
  moreover have "gr_remaining (?f q) + int (uses_of events' (gr_id q)) \<le> gr_remaining q + int (uses_of events (gr_id q))"
    if "q \<in> set rows" "row_class q \<noteq> Unlimited" for q
    using only [OF that(1)] bal that(2) by (auto simp: ev)
  ultimately have "grants_ok (map ?f rows) events'"
    using grants_okD(7) [OF ok] r
    by (intro grants_ok_map [OF _ ok]) (auto simp: same_static_def ev)
  then show ?thesis by (simp add: update_rows_def)
qed

lemma carved_append:
  "carved (rows @ [c]) x = carved rows x + (if gr_parent_id c = Some x then initial_remaining (row_class c) else 0)"
  by (simp add: carved_def)

lemma parents_knownD:
  assumes "parents_known rows" "r \<in> set rows" "gr_parent_id r = Some p"
  shows "p \<in> gr_id ` set rows"
proof -
  from split_list [OF assms(2)] obtain xs ys where rows: "rows = xs @ r # ys" by blast
  with assms(1,3) have "p \<in> gr_id ` set xs" unfolding parents_known_def by blast
  with rows show ?thesis by auto
qed

lemma carved_fresh:
  assumes "parents_known rows" "gid \<notin> gr_id ` set rows"
  shows "carved rows gid = 0"
proof -
  have "gr_parent_id r \<noteq> Some gid" if "r \<in> set rows" for r
    using parents_knownD [OF assms(1) that] assms(2) by blast
  then have "filter (\<lambda>r. gr_parent_id r = Some gid) rows = []" by (simp add: filter_empty_conv)
  then show ?thesis by (simp add: carved_def)
qed

lemma parents_known_append:
  assumes "parents_known rows" "\<And>p. gr_parent_id c = Some p \<Longrightarrow> p \<in> gr_id ` set rows"
  shows "parents_known (rows @ [c])"
  unfolding parents_known_def
proof (intro allI impI, elim conjE)
  fix xs r ys p assume e: "rows @ [c] = xs @ r # ys" "gr_parent_id r = Some p"
  show "p \<in> gr_id ` set xs"
  proof (cases ys rule: rev_cases)
    case Nil
    with e assms(2) show ?thesis by simp
  next
    case (snoc zs z)
    with e(1) have "rows = xs @ r # zs" by simp
    with assms(1) e(2) show ?thesis unfolding parents_known_def by blast
  qed
qed

lemma add_row_ok:
  assumes ok: "grants_ok rows events" and fresh: "gr_id c \<notin> gr_id ` set rows"
    and c: "row_ok c" "gr_state c = ''active''" "gr_remaining c = initial_remaining (row_class c)"
    and parent: "gr_parent_id c = None \<or> (\<exists>p \<in> set rows. gr_parent_id c = Some (gr_id p) \<and> attenuated p c
        \<and> gr_state p \<noteq> ''revoked'' \<and> (row_class p \<noteq> Unlimited \<longrightarrow>
          gr_remaining p + int (uses_of events (gr_id p)) + carved rows (gr_id p) + initial_remaining (row_class c)
            \<le> initial_remaining (row_class p)))"
    and ev: "\<And>x. uses_of events' x = uses_of events x"
  shows "grants_ok (rows @ [c]) events'"
proof -
  note d = grants_okD [OF ok]
  have pk: "p \<in> gr_id ` set rows" if "gr_parent_id c = Some p" for p
    using parent that by auto
  have par: "attenuated p c \<and> gr_state p \<noteq> ''revoked'' \<and> (row_class p \<noteq> Unlimited \<longrightarrow>
          gr_remaining p + int (uses_of events (gr_id p)) + carved rows (gr_id p) + initial_remaining (row_class c)
            \<le> initial_remaining (row_class p))"
    if "p \<in> set rows" "gr_parent_id c = Some (gr_id p)" for p
  proof -
    from that(2) have "gr_parent_id c \<noteq> None" by simp
    with parent obtain q where q: "q \<in> set rows" "gr_parent_id c = Some (gr_id q)" "attenuated q c \<and>
        gr_state q \<noteq> ''revoked'' \<and> (row_class q \<noteq> Unlimited \<longrightarrow>
          gr_remaining q + int (uses_of events (gr_id q)) + carved rows (gr_id q) + initial_remaining (row_class c)
            \<le> initial_remaining (row_class q))"
      by blast
    with that have "gr_id q = gr_id p" by simp
    then have "q = p" by (rule distinct_id_eq [OF d(1) q(1) that(1)])
    with q show ?thesis by simp
  qed
  have no_child: "gr_parent_id r \<noteq> Some (gr_id c)" if "r \<in> set (rows @ [c])" for r
  proof
    assume a: "gr_parent_id r = Some (gr_id c)"
    have "gr_id c \<in> gr_id ` set rows"
    proof (cases "r = c")
      case True
      with pk a show ?thesis by simp
    next
      case False
      with that have "r \<in> set rows" by simp
      from parents_knownD [OF d(3) this a] show ?thesis .
    qed
    with fresh show False by simp
  qed
  have link: "attenuated p r \<and> \<not> (gr_state p = ''revoked'' \<and> gr_state r \<noteq> ''revoked'')"
    if r: "r \<in> set (rows @ [c])" and p: "p \<in> set (rows @ [c])" and e: "gr_parent_id r = Some (gr_id p)" for r p
  proof -
    have "p \<noteq> c" using no_child [OF r] e by auto
    with p have p': "p \<in> set rows" by simp
    show ?thesis
    proof (cases "r = c")
      case True
      with par [OF p'] e show ?thesis by simp
    next
      case False
      with r have "r \<in> set rows" by simp
      with d(2) d(6) [OF p' this e] p' e show ?thesis unfolding closed_upto_def by blast
    qed
  qed
  have cl: "closed_upto {} (rows @ [c])"
    unfolding closed_upto_def using link by blast
  have st: "static_ok (rows @ [c])"
    unfolding static_ok_def using d(1) fresh link parents_known_append [OF d(3) pk] by simp
  have "balanced (rows @ [c]) events' r" if r: "r \<in> set rows" for r
  proof (cases "gr_parent_id c = Some (gr_id r)")
    case True
    with par [OF r] show ?thesis by (simp add: balanced_def carved_append ev add.assoc)
  next
    case False
    with d(5) [OF r] show ?thesis by (simp add: balanced_def carved_append ev)
  qed
  moreover have "balanced (rows @ [c]) events' c"
    using c(3) d(7) [OF fresh] carved_fresh [OF d(3) fresh] no_child [of c]
    by (simp add: balanced_def carved_append ev)
  ultimately show ?thesis
    using st cl c(1) d(4,7) by (auto simp: grants_ok_def ev)
qed

section \<open>Every operation keeps the invariant\<close>

definition world_ok :: "'a grants_world_scheme \<Rightarrow> bool" where
  "world_ok w \<longleftrightarrow> grants_ok (world_rows w) (world_events w)"

lemma uses_of_append [simp]:
  "uses_of (events @ es) gid = uses_of events gid + length (filter (\<lambda>e. ge_kind e = ''used'' \<and> ge_grant_id e = gid) es)"
  by (simp add: uses_of_def)

lemma on_rows_append:
  "w_grants w \<noteq> None \<Longrightarrow> world_rows (on_rows (\<lambda>rows. rows @ [r]) w) = world_rows w @ [r]"
  by (auto simp: world_rows_def on_rows_def)

lemma update_rows_Nil [simp]: "update_rows gid f [] = []"
  by (simp add: update_rows_def)

lemma row_ok_fresh:
  assumes "class_tame c" "gr_class r = as_ledger_str c" "gr_remaining r = initial_remaining c" "gr_state r = ''active''"
  shows "row_ok r \<and> row_class r = c"
proof -
  have "row_class r = c" using assms(1,2) by (simp add: row_class_def class_roundtrip)
  with assms show ?thesis
    by (cases c) (simp_all add: row_ok_def class_tame_def as_i64_small)
qed

lemma insert_row_cases:
  assumes "insert_row r w = (res, w')"
  obtains (failed) e where "res = Inl e" "w' = w"
  | (stored) "res = Inr ()" "w_grants w \<noteq> None" "gr_id r \<notin> gr_id ` set (world_rows w)"
      "w' = on_rows (\<lambda>rows. rows @ [r]) w"
  using assms by (auto simp: insert_row_def world_rows_def split: option.splits if_splits)

lemma world_seq [simp]:
  "world_rows (w\<lparr>w_grant_seq := s\<rparr>) = world_rows w" "world_events (w\<lparr>w_grant_seq := s\<rparr>) = world_events w"
  by (simp_all add: world_rows_def world_events_def)

lemma issue_ok:
  assumes ok: "world_ok w" and tame: "class_tame class"
  shows "world_ok (snd (issue C clk nanos scope ttl class issuer w))"
proof (cases "trim scope = []")
  case False
  let ?w = "w\<lparr>w_grant_seq := u64_add (w_grant_seq w) 1\<rparr>"
  let ?gid = "next_grant_id nanos (w_grant_seq w)"
  define r where "r = \<lparr>gr_id = ?gid, gr_parent_id = None, gr_scope = scope, gr_class = as_ledger_str class,
              gr_remaining = initial_remaining class, gr_issued_at = as_i64 (clk 1),
              gr_expires_at = as_i64 (u64_add (clk 0) ttl), gr_issuer = issuer, gr_state = ''active''\<rparr>"
  obtain res w' where ins: "insert_row r ?w = (res, w')" by fastforce
  then show ?thesis
  proof (cases rule: insert_row_cases)
    case failed
    with ins False ok show ?thesis by (simp add: issue_def Let_def r_def world_ok_def)
  next
    case stored
    have ne: "w_grants w' \<noteq> None" using stored(2,4) by simp
    obtain e where e: "ge_kind e = ''issued''"
      "world_events (record_event C (clk 2) (clk 3) ''issued'' ?gid scope (as_ledger_str class)
         (initial_remaining class) issuer w') = world_events w' @ [e]"
      using world_events_record_event [OF ne] by blast
    have "row_ok r \<and> row_class r = class" by (rule row_ok_fresh [OF tame]) (simp_all add: r_def)
    then have "grants_ok (world_rows w @ [r]) (world_events w @ [e])"
      using stored(3) e(1) by (intro add_row_ok [OF ok [unfolded world_ok_def]]) (simp_all add: r_def)
    with ins stored e False show ?thesis
      by (simp add: issue_def Let_def r_def world_ok_def on_rows_append)
  qed
qed (use ok in \<open>simp add: issue_def\<close>)

lemma record_of_row_simps [simp]:
  "rec_id (record_of_row r) = gr_id r" "rec_scope (record_of_row r) = gr_scope r"
  "rec_class (record_of_row r) = row_class r" "rec_remaining (record_of_row r) = gr_remaining r"
  "rec_expires_at (record_of_row r) = as_u64 (gr_expires_at r)" "rec_state (record_of_row r) = gr_state r"
  by (simp_all add: record_of_row_def row_class_def)

lemma check_record_ok:
  "check_record now rec = Inr () \<longleftrightarrow> rec_state rec \<noteq> ''revoked'' \<and> rec_state rec \<noteq> ''consumed''
     \<and> now < rec_expires_at rec \<and> rec_remaining rec \<noteq> 0"
  by (auto simp: check_record_def)

text \<open>The state and the remaining uses that one use of a grant leaves behind.\<close>

lemma used_row_ok:
  assumes "row_ok r" "gr_state r \<noteq> ''revoked''" "gr_state r \<noteq> ''consumed''" "gr_remaining r \<noteq> 0"
    and "(s, m) = (case row_class r of Once \<Rightarrow> (''consumed'', 0) | GrantN _ \<Rightarrow> (''active'', i64_sub (gr_remaining r) 1)
           | Unlimited \<Rightarrow> (''active'', -1))"
  shows "row_ok (r\<lparr>gr_state := s, gr_remaining := m\<rparr>) \<and> s \<noteq> ''revoked''
    \<and> (row_class r \<noteq> Unlimited \<longrightarrow> m + 1 \<le> gr_remaining r)"
proof (cases "row_class r")
  case Once
  then have "row_class (r\<lparr>gr_state := s, gr_remaining := m\<rparr>) = Once" by (simp add: row_class_def)
  with Once assms show ?thesis by (auto simp: row_ok_def)
next
  case (GrantN k)
  then have "row_class (r\<lparr>gr_state := s, gr_remaining := m\<rparr>) = GrantN k" by (simp add: row_class_def)
  moreover have "0 < gr_remaining r" "gr_remaining r \<le> int k" "k < 2 ^ 63"
    using assms(1,4) GrantN by (auto simp: row_ok_def class_tame_def)
  moreover from this have "i64_sub (gr_remaining r) 1 = gr_remaining r - 1"
    by (simp add: i64_sub_def wrap_i64_id)
  ultimately show ?thesis using GrantN assms(5) by (auto simp: row_ok_def class_tame_def)
next
  case Unlimited
  then have "row_class (r\<lparr>gr_state := s, gr_remaining := m\<rparr>) = Unlimited" by (simp add: row_class_def)
  with Unlimited assms(5) show ?thesis by (auto simp: row_ok_def class_tame_def)
qed

lemma grant_use_cases:
  obtains (refused) e where "grant_use C clk h nt w = (Inl e, w)"
  | (used) db r s m where "w_grants w = Some db" "find_row (gh_grant_id h) (world_rows w) = Some r"
      "check_record (clk 0) (record_of_row r) = Inr ()"
      "(s, m) = (case row_class r of Once \<Rightarrow> (''consumed'', 0)
        | GrantN _ \<Rightarrow> (''active'', i64_sub (gr_remaining r) 1) | Unlimited \<Rightarrow> (''active'', -1))"
      "grant_use C clk h nt w = (Inr m, record_event C (clk 1) (clk 2) ''used'' (gh_grant_id h) (gr_scope r)
         (as_ledger_str (row_class r)) m nt
         (on_rows (update_rows (gh_grant_id h) (\<lambda>r. r\<lparr>gr_state := s, gr_remaining := m\<rparr>)) w))"
proof (cases "w_grants w")
  case None
  then show ?thesis by (intro refused) (simp add: grant_use_def with_grants_def)
next
  case (Some db)
  show ?thesis
  proof (cases "find_row (gh_grant_id h) (gd_rows db)")
    case None
    with Some show ?thesis
      by (intro refused) (simp add: grant_use_def with_grants_def load_record_def)
  next
    case r: (Some r)
    show ?thesis
    proof (cases "check_record (clk 0) (record_of_row r)")
      case (Inl e)
      with Some r show ?thesis
        by (intro refused) (simp add: grant_use_def with_grants_def load_record_def)
    next
      case (Inr u)
      obtain s m where sm: "(s, m) = (case row_class r of Once \<Rightarrow> (''consumed'', 0)
        | GrantN _ \<Rightarrow> (''active'', i64_sub (gr_remaining r) 1) | Unlimited \<Rightarrow> (''active'', -1))"
        by (metis surj_pair)
      with Some r Inr show ?thesis
        by (intro used [of db r s m]; cases "row_class r")
          (simp_all add: grant_use_def with_grants_def load_record_def world_rows_def Let_def)
    qed
  qed
qed

lemma use_ok:
  assumes ok: "world_ok w"
  shows "world_ok (snd (grant_use C clk h nt w))"
proof (cases rule: grant_use_cases [of C clk h nt w])
  case refused
  with ok show ?thesis by simp
next
  case (used db r s m)
  let ?gid = "gh_grant_id h"
  note r = find_row_SomeD [OF used(2)]
  define w1 where "w1 = on_rows (update_rows ?gid (\<lambda>r. r\<lparr>gr_state := s, gr_remaining := m\<rparr>)) w"
  define w2 where "w2 = record_event C (clk 1) (clk 2) ''used'' ?gid (gr_scope r) (as_ledger_str (row_class r)) m nt w1"
  have ne: "w_grants w1 \<noteq> None" using used(1) by (simp add: w1_def)
  obtain e where e: "ge_kind e = ''used''" "ge_grant_id e = ?gid" "world_events w2 = world_events w @ [e]"
    using world_events_record_event [OF ne] unfolding w2_def w1_def world_events_on_rows by blast
  have c: "gr_state r \<noteq> ''revoked''" "gr_state r \<noteq> ''consumed''" "gr_remaining r \<noteq> 0"
    using used(3) by (simp_all add: check_record_ok)
  note u = used_row_ok [OF grants_okD(4) [OF ok [unfolded world_ok_def] conjunct1 [OF r]] c used(4)]
  have "grants_ok (update_rows ?gid (\<lambda>r. r\<lparr>gr_state := s, gr_remaining := m\<rparr>) (world_rows w)) (world_events w2)"
    by (rule update_ok [OF ok [unfolded world_ok_def] conjunct1 [OF r] conjunct2 [OF r] c(1), where d = 1])
      (use u e in auto)
  then show ?thesis by (simp add: used(5) world_ok_def w2_def w1_def)
qed

lemma row_ok_revoked: "row_ok r \<Longrightarrow> row_ok (r\<lparr>gr_state := ''revoked''\<rparr>)"
  by (auto simp: row_ok_def row_class_def split: grant_class.splits)

lemma revoke_ok:
  assumes ok: "world_ok w"
  shows "world_ok (snd (revoke C clk h nt w))"
proof (cases "\<exists>db rec. w_grants w = Some db \<and> load_record db (gh_grant_id h) = Inr rec")
  case False
  with ok show ?thesis by (auto simp: revoke_def with_grants_def split: option.splits sum.splits)
next
  case True
  obtain cnt w' where run: "revoke_loop C clk 0 nt [gh_grant_id h] 0 w = (cnt, w')" by fastforce
  have res: "snd (revoke C clk h nt w) = w'"
    using True run by (auto simp: revoke_def with_grants_def)
  have "closed_upto (set [gh_grant_id h]) (world_rows w)"
    using grants_okD(2) [OF ok [unfolded world_ok_def]] unfolding closed_upto_def by blast
  from revoke_loop_post [OF this, where C = C and clk = clk and n = 0 and nt = nt and cnt = 0]
  have post: "revoke_post [gh_grant_id h] 0 w cnt w'" by (simp add: run)
  then obtain T es where T: "world_rows w' = mark T (world_rows w)" "closed_upto {} (world_rows w')"
    and es: "world_events w' = world_events w @ es" "\<forall>e \<in> set es. ge_kind e = ''revoked''"
    unfolding revoke_post_def by blast
  have "uses_of (world_events w') gid = uses_of (world_events w) gid" for gid
    using es by (auto simp: filter_empty_conv)
  then have "grants_ok (mark T (world_rows w)) (world_events w')"
    using T grants_okD(4,7) [OF ok [unfolded world_ok_def]] unfolding mark_def
    by (intro grants_ok_map [OF _ ok [unfolded world_ok_def]]) (auto simp: same_static_def row_ok_revoked)
  then show ?thesis unfolding res world_ok_def T(1) .
qed

lemma subgrant_checks_ok:
  assumes "subgrant_checks clk (record_of_row p) scope ttl class = Inr (debit, left)"
  shows "gr_state p \<noteq> ''revoked''" "gr_state p \<noteq> ''consumed''" "gr_remaining p \<noteq> 0"
    and "scope_attenuates (gr_scope p) scope" "u64_add (clk 1) ttl \<le> as_u64 (gr_expires_at p)"
    and "class_power class \<le> class_power (row_class p)"
    and "row_class p \<noteq> Unlimited \<Longrightarrow> class \<noteq> Unlimited \<and> debit = initial_remaining class
           \<and> debit \<le> gr_remaining p \<and> left = i64_sub (gr_remaining p) debit"
  using assms unfolding subgrant_checks_def check_record_def
  by (auto split: if_splits sum.splits grant_class.splits)

text \<open>The write to the parent keeps the invariant and leaves room for the child's quota.\<close>

definition room_for :: "string \<Rightarrow> grant_class \<Rightarrow> 'a grants_world_scheme \<Rightarrow> bool" where
  "room_for gid class w \<longleftrightarrow> (\<forall>p \<in> set (world_rows w). gr_id p = gid \<longrightarrow> gr_state p \<noteq> ''revoked''
     \<and> (row_class p \<noteq> Unlimited \<longrightarrow>
          gr_remaining p + int (uses_of (world_events w) gid) + carved (world_rows w) gid + initial_remaining class
            \<le> initial_remaining (row_class p)))"

lemma in_update_rows:
  "q \<in> set (update_rows gid f rows) \<longleftrightarrow> (\<exists>r \<in> set rows. q = (if gr_id r = gid then f r else r))"
  unfolding update_rows_def set_map image_iff ..

lemma update_rows_mem: "r \<in> set rows \<Longrightarrow> f r \<in> set (update_rows (gr_id r) f rows)"
  unfolding in_update_rows by (rule bexI [of _ r]) simp_all

lemma keep_state: "gr_state r = s \<Longrightarrow> r\<lparr>gr_remaining := m\<rparr> = r\<lparr>gr_state := s, gr_remaining := m\<rparr>"
  by (cases r) simp

lemma debit_ok:
  assumes ok: "world_ok w" and p: "p \<in> set (world_rows w)" "gr_state p \<noteq> ''revoked''" "row_class p \<noteq> Unlimited"
    and s: "s \<noteq> ''revoked''" "row_ok (p\<lparr>gr_state := s, gr_remaining := m\<rparr>)"
    and m: "m + initial_remaining class \<le> gr_remaining p" "m \<le> gr_remaining p"
    and w1: "world_rows w1 = update_rows (gr_id p) (\<lambda>r. r\<lparr>gr_state := s, gr_remaining := m\<rparr>) (world_rows w)"
    and ev: "world_events w1 = world_events w @ [e]" "ge_kind e \<noteq> ''used''"
  shows "world_ok w1 \<and> room_for (gr_id p) class w1"
proof -
  note ok' = ok [unfolded world_ok_def]
  have us: "uses_of (world_events w1) x = uses_of (world_events w) x" for x using ev by simp
  have "world_ok w1"
    unfolding world_ok_def w1
    by (rule update_ok [OF ok' p(1) refl p(2) s, where d = 0]) (use m us in auto)
  moreover have "carved (world_rows w1) x = carved (world_rows w) x" for x
    unfolding w1 update_rows_def by (rule carved_map) (simp add: same_static_def)
  moreover have "q = p\<lparr>gr_state := s, gr_remaining := m\<rparr>" if "q \<in> set (world_rows w1)" "gr_id q = gr_id p" for q
    using that distinct_id_eq [OF grants_okD(1) [OF ok'], of _ p] p(1)
    unfolding w1 in_update_rows by (auto split: if_splits)
  moreover have "row_class (p\<lparr>gr_state := s, gr_remaining := m\<rparr>) = row_class p" by (simp add: row_class_def)
  ultimately show ?thesis
    using grants_okD(5) [OF ok' p(1)] s(1) p(3) m us by (fastforce simp: room_for_def balanced_def)
qed

lemma subgrant_parent_ok:
  assumes ok: "world_ok w" and db: "w_grants w = Some db" and p: "p \<in> set (world_rows w)"
    and chk: "subgrant_checks clk (record_of_row p) scope ttl class = Inr (debit, left)" and tame: "class_tame class"
    and w1: "w1 = subgrant_parent C clk (gr_id p) (record_of_row p) debit left w"
  shows "world_ok w1 \<and> room_for (gr_id p) class w1"
proof -
  note ok' = ok [unfolded world_ok_def] and c = subgrant_checks_ok [OF chk]
  note pok = grants_okD(4) [OF ok' p]
  show ?thesis
  proof (cases "row_class p")
    case Once
    have "class = Once" using c(6) Once by (cases "class") simp_all
    with Once c pok have "gr_remaining p = 1" by (auto simp: row_ok_def)
    moreover have "row_ok (p\<lparr>gr_state := ''consumed'', gr_remaining := 0\<rparr>)"
      using Once by (simp add: row_ok_def row_class_def class_tame_def)
    moreover have "w_grants (on_rows (update_rows (gr_id p) (\<lambda>r. r\<lparr>gr_state := ''consumed'', gr_remaining := 0\<rparr>)) w) \<noteq> None"
      using db by simp
    from world_events_record_event [OF this, of "''consumed''" "gr_id p" C "clk 2" "clk 3" "gr_scope p" "''once''" 0
        "''subgranted away (linear transfer)''"]
    obtain e where "ge_kind e = ''consumed''" "world_events w1 = world_events w @ [e]"
      using Once by (auto simp: w1 subgrant_parent_def)
    ultimately show ?thesis
      using Once \<open>class = Once\<close> c(1)
      by (intro debit_ok [OF ok p, where s = "''consumed''" and m = 0 and e = e]) (simp_all add: w1 subgrant_parent_def)
  next
    case (GrantN k)
    have rng: "0 \<le> gr_remaining p" "gr_remaining p < 2 ^ 63" and act: "gr_state p = ''active''"
      using pok GrantN c(1,2) by (auto simp: row_ok_def class_tame_def)
    have d: "debit = initial_remaining class" "0 \<le> debit" "debit \<le> gr_remaining p"
      using c(7) GrantN tame by (cases "class"; simp add: class_tame_def as_i64_small)+
    have left: "left = gr_remaining p - debit"
      using c(7) GrantN d rng by (simp add: i64_sub_def wrap_i64_id)
    have row: "row_ok (p\<lparr>gr_state := ''active'', gr_remaining := left\<rparr>)"
      using pok GrantN left d by (simp add: row_ok_def row_class_def)
    have rows: "update_rows (gr_id p) (\<lambda>r. r\<lparr>gr_remaining := left\<rparr>) (world_rows w)
        = update_rows (gr_id p) (\<lambda>r. r\<lparr>gr_state := ''active'', gr_remaining := left\<rparr>) (world_rows w)"
      unfolding update_rows_def using distinct_id_eq [OF grants_okD(1) [OF ok'] _ p] act
      by (intro map_cong refl) (metis keep_state)
    have "w_grants (on_rows (update_rows (gr_id p) (\<lambda>r. r\<lparr>gr_remaining := left\<rparr>)) w) \<noteq> None" using db by simp
    from world_events_record_event [OF this, of "''subgranted''" "gr_id p" C "clk 2" "clk 3" "gr_scope p"
        "as_ledger_str (row_class p)" left "''debited '' @ show_int debit @ '' for child''"]
    obtain e where "ge_kind e = ''subgranted''" "world_events w1 = world_events w @ [e]"
      using GrantN by (auto simp: w1 subgrant_parent_def)
    with GrantN c(1) row left d rows show ?thesis
      by (intro debit_ok [OF ok p, where s = "''active''" and m = left and e = e]) (simp_all add: w1 subgrant_parent_def)
  next
    case Unlimited
    then have "w1 = w" by (simp add: w1 subgrant_parent_def)
    moreover have "q = p" if "q \<in> set (world_rows w)" "gr_id q = gr_id p" for q
      using distinct_id_eq [OF grants_okD(1) [OF ok'] that(1) p that(2)] .
    ultimately show ?thesis using ok Unlimited c(1) by (auto simp: room_for_def)
  qed
qed

lemma subgrant_cases:
  obtains (refused) e where "fst (subgrant C clk nanos parent scope ttl class w) = Inl e"
      "world_rows (snd (subgrant C clk nanos parent scope ttl class w)) = world_rows w"
      "world_events (snd (subgrant C clk nanos parent scope ttl class w)) = world_events w"
  | (written) db p debit left w1 res w2 where "w_grants w = Some db"
      "find_row (gh_grant_id parent) (world_rows w) = Some p"
      "subgrant_checks clk (record_of_row p) scope ttl class = Inr (debit, left)"
      "w1 = subgrant_parent C clk (gr_id p) (record_of_row p) debit left (w\<lparr>w_grant_seq := u64_add (w_grant_seq w) 1\<rparr>)"
      "insert_row \<lparr>gr_id = next_grant_id nanos (w_grant_seq w), gr_parent_id = Some (gr_id p), gr_scope = scope,
         gr_class = as_ledger_str class, gr_remaining = initial_remaining class,
         gr_issued_at = as_i64 (clk 4), gr_expires_at = as_i64 (u64_add (clk 1) ttl),
         gr_issuer = gh_issuer parent, gr_state = ''active''\<rparr> w1 = (res, w2)"
      "subgrant C clk nanos parent scope ttl class w = (case res of Inl e \<Rightarrow> (Inl e, w2)
        | Inr _ \<Rightarrow> (Inr \<lparr>gh_grant_id = next_grant_id nanos (w_grant_seq w), gh_scope = scope, gh_class = class,
                       gh_expires_at = u64_add (clk 7) ttl, gh_issuer = gh_issuer parent\<rparr>,
            record_event C (clk 5) (clk 6) ''subgranted'' (next_grant_id nanos (w_grant_seq w)) scope
              (as_ledger_str class) (initial_remaining class) (''child of '' @ gr_id p) w2))"
proof (cases "w_grants w")
  case None
  then show ?thesis
    by (cases "trim scope = []"; intro refused) (simp_all add: subgrant_def with_grants_def Let_def)
next
  case db: (Some db)
  consider "trim scope = []" | (sc) "trim scope \<noteq> []" by blast
  then show ?thesis
  proof cases
    case 1
    then show ?thesis by (intro refused) (simp_all add: subgrant_def)
  next
    case sc
    show ?thesis
  proof (cases "find_row (gh_grant_id parent) (gd_rows db)")
    case None
    with db sc show ?thesis
      by (intro refused) (simp_all add: subgrant_def with_grants_def load_record_def Let_def)
  next
    case (Some p)
    then have pid: "gh_grant_id parent = gr_id p" using find_row_SomeD by metis
    show ?thesis
    proof (cases "subgrant_checks clk (record_of_row p) scope ttl class")
      case (Inl e)
      with db sc Some show ?thesis
        by (intro refused) (simp_all add: subgrant_def with_grants_def load_record_def Let_def)
    next
      case (Inr dl)
      obtain debit left where dl: "dl = (debit, left)" by (cases dl)
      define w1 where "w1 = subgrant_parent C clk (gr_id p) (record_of_row p) debit left
          (w\<lparr>w_grant_seq := u64_add (w_grant_seq w) 1\<rparr>)"
      define r where "r = \<lparr>gr_id = next_grant_id nanos (w_grant_seq w), gr_parent_id = Some (gr_id p),
         gr_scope = scope, gr_class = as_ledger_str class, gr_remaining = initial_remaining class,
         gr_issued_at = as_i64 (clk 4), gr_expires_at = as_i64 (u64_add (clk 1) ttl),
         gr_issuer = gh_issuer parent, gr_state = ''active''\<rparr>"
      obtain res w2 where ins: "insert_row r w1 = (res, w2)" by fastforce
      show ?thesis
        using db sc Some Inr dl ins pid
        by (intro written [of db p debit left w1 res w2])
          (simp_all add: w1_def r_def world_rows_def subgrant_def with_grants_def load_record_def Let_def)
    qed
  qed
  qed
qed

lemma subgrant_ok:
  assumes ok: "world_ok w" and tame: "class_tame class"
  shows "world_ok (snd (subgrant C clk nanos parent scope ttl class w))"
proof (cases rule: subgrant_cases [of C clk nanos parent scope ttl "class" w])
  case refused
  with ok show ?thesis by (simp add: world_ok_def)
next
  case (written db p debit left w1 res w2)
  let ?w = "w\<lparr>w_grant_seq := u64_add (w_grant_seq w) 1\<rparr>"
  have ok0: "world_ok ?w" using ok by (simp add: world_ok_def)
  have p: "p \<in> set (world_rows ?w)" using find_row_SomeD [OF written(2)] by simp
  have ok1: "world_ok w1" and room: "room_for (gr_id p) class w1"
    using subgrant_parent_ok [OF ok0 _ p written(3) tame written(4)] written(1) by simp_all
  define q where "q = (if row_class p = Once then p\<lparr>gr_state := ''consumed'', gr_remaining := 0\<rparr>
      else if row_class p \<noteq> Unlimited then p\<lparr>gr_remaining := left\<rparr> else p)"
  have "p \<in> set (world_rows w)" using p by simp
  from p update_rows_mem [OF this, of "\<lambda>r. r\<lparr>gr_remaining := left\<rparr>"]
    update_rows_mem [OF this, of "\<lambda>r. r\<lparr>gr_state := ''consumed'', gr_remaining := 0\<rparr>"]
  have "q \<in> set (world_rows w1)"
    unfolding q_def written(4) subgrant_parent_def by simp
  then have q: "q \<in> set (world_rows w1)" "gr_id q = gr_id p" "gr_scope q = gr_scope p"
    "gr_expires_at q = gr_expires_at p" "gr_class q = gr_class p" by (simp_all add: q_def)
  from written(5) show ?thesis
  proof (cases rule: insert_row_cases)
    case failed
    with written(6) ok1 show ?thesis by simp
  next
    case stored
    define r where "r = \<lparr>gr_id = next_grant_id nanos (w_grant_seq w), gr_parent_id = Some (gr_id p),
         gr_scope = scope, gr_class = as_ledger_str class, gr_remaining = initial_remaining class,
         gr_issued_at = as_i64 (clk 4), gr_expires_at = as_i64 (u64_add (clk 1) ttl),
         gr_issuer = gh_issuer parent, gr_state = ''active''\<rparr>"
    have ne: "w_grants w2 \<noteq> None" using stored(2,4) by simp
    define w3 where "w3 = record_event C (clk 5) (clk 6) ''subgranted'' (next_grant_id nanos (w_grant_seq w)) scope
              (as_ledger_str class) (initial_remaining class) (''child of '' @ gr_id p) w2"
    obtain e where e: "ge_kind e = ''subgranted''" "world_events w3 = world_events w2 @ [e]"
      using world_events_record_event [OF ne] unfolding w3_def by blast
    have r: "row_ok r \<and> row_class r = class" by (rule row_ok_fresh [OF tame]) (simp_all add: r_def)
    have att: "attenuated q r"
      using subgrant_checks_ok(4-6) [OF written(3)] q r as_u64_as_i64 [of "u64_add (clk 1) ttl"]
      by (simp add: attenuated_def r_def row_class_def is_u64_def u64_add_def)
    have rf: "gr_id r = next_grant_id nanos (w_grant_seq w)" "gr_state r = ''active''"
      "gr_remaining r = initial_remaining class" "gr_parent_id r = Some (gr_id q)"
      by (simp_all add: r_def q(2))
    have rm: "gr_state q \<noteq> ''revoked'' \<and> (row_class q \<noteq> Unlimited \<longrightarrow>
        gr_remaining q + int (uses_of (world_events w1) (gr_id q)) + carved (world_rows w1) (gr_id q)
          + initial_remaining class \<le> initial_remaining (row_class q))"
      using room q(1,2) unfolding room_for_def by simp
    have "grants_ok (world_rows w1 @ [r]) (world_events w1 @ [e])"
    proof (rule add_row_ok [OF ok1 [unfolded world_ok_def]])
      show "gr_id r \<notin> gr_id ` set (world_rows w1)" using stored(3) rf(1) by simp
      show "gr_parent_id r = None \<or> (\<exists>p \<in> set (world_rows w1). gr_parent_id r = Some (gr_id p) \<and> attenuated p r
        \<and> gr_state p \<noteq> ''revoked'' \<and> (row_class p \<noteq> Unlimited \<longrightarrow>
          gr_remaining p + int (uses_of (world_events w1) (gr_id p)) + carved (world_rows w1) (gr_id p)
            + initial_remaining (row_class r) \<le> initial_remaining (row_class p)))"
        using rm r att rf(4) q(1) by (intro disjI2 bexI [of _ q]) simp_all
    qed (use r rf e(1) in simp_all)
    with stored e written(6) show ?thesis
      by (simp add: world_ok_def on_rows_append w3_def [symmetric] r_def [symmetric]) (simp add: w3_def on_rows_append r_def)
  qed
qed

section \<open>Runs\<close>

definition grants_start :: "'a grants_world_scheme \<Rightarrow> bool" where
  "grants_start w \<longleftrightarrow> world_rows w = [] \<and> world_events w = []"

inductive grants_step :: "crypto \<Rightarrow> 'a grants_world_scheme \<Rightarrow> 'a grants_world_scheme \<Rightarrow> bool" for C where
  step_issue: "class_tame class \<Longrightarrow> grants_step C w (snd (issue C clk nanos scope ttl class issuer w))"
| step_subgrant: "class_tame class \<Longrightarrow> grants_step C w (snd (subgrant C clk nanos parent scope ttl class w))"
| step_use: "grants_step C w (snd (grant_use C clk h nt w))"
| step_revoke: "grants_step C w (snd (revoke C clk h nt w))"

abbreviation grants_run :: "crypto \<Rightarrow> 'a grants_world_scheme \<Rightarrow> bool" where
  "grants_run C \<equiv> reach grants_start (grants_step C)"

interpretation grants_system: invariant_system grants_start "grants_step C" world_ok for C
proof
  show "grants_start w \<Longrightarrow> world_ok w" for w :: "'a grants_world_scheme"
    by (simp add: grants_start_def world_ok_def grants_ok_def static_ok_def parents_known_def closed_upto_def uses_of_def)
  show "world_ok w \<Longrightarrow> grants_step C w w' \<Longrightarrow> world_ok w'" for w w' :: "'a grants_world_scheme"
    by (erule grants_step.cases) (simp_all add: issue_ok subgrant_ok use_ok revoke_ok)
qed

section \<open>Attenuation and conservation along the whole tree\<close>

lemma attenuated_trans: "attenuated p q \<Longrightarrow> attenuated q r \<Longrightarrow> attenuated p r"
  unfolding attenuated_def using scope_attenuates_trans [of "gr_scope p" "gr_scope q" "gr_scope r"] by auto

lemma descends_attenuated:
  assumes ok: "world_ok w" and g: "g \<in> set (world_rows w)"
  shows "descends (world_rows w) (gr_id g) x \<Longrightarrow>
    \<exists>r \<in> set (world_rows w). gr_id r = x \<and> attenuated g r \<and> (gr_state g = ''revoked'' \<longrightarrow> gr_state r = ''revoked'')"
proof (induction rule: descends.induct)
  case descends_root
  with g show ?case by (auto simp: attenuated_def scope_attenuates_refl)
next
  case (descends_child p r)
  then obtain q where q: "q \<in> set (world_rows w)" "gr_id q = p" "attenuated g q"
    "gr_state g = ''revoked'' \<longrightarrow> gr_state q = ''revoked''" by blast
  note ok' = ok [unfolded world_ok_def]
  have par: "gr_parent_id r = Some (gr_id q)" using q(2) descends_child(3) by simp
  have "attenuated q r" by (rule grants_okD(6) [OF ok' q(1) descends_child(2) par])
  with q(3) have "attenuated g r" by (rule attenuated_trans)
  moreover have "gr_state q = ''revoked'' \<longrightarrow> gr_state r = ''revoked''"
    using grants_okD(2) [OF ok'] q(1) descends_child(2) par unfolding closed_upto_def by blast
  ultimately show ?case using q(4) descends_child(2) by blast
qed

lemma descends_row_attenuated:
  assumes ok: "world_ok w" and g: "g \<in> set (world_rows w)" and r: "r \<in> set (world_rows w)"
    and d: "descends (world_rows w) (gr_id g) (gr_id r)"
  shows "attenuated g r" "gr_state g = ''revoked'' \<Longrightarrow> gr_state r = ''revoked''"
  using descends_attenuated [OF ok g d] distinct_id_eq [OF grants_okD(1) [OF ok [unfolded world_ok_def]] _ r]
  by auto

end
