(* ===== verification/Grants_Properties.thy ===== *)
theory Grants_Properties
  imports Grants_Invariant
begin

text \<open>
  What the invariant of the grants table gives: conservation of quota over a whole subtree,
  permanence of revocation, the choice made by the covering lookup, and the behaviour of quotas
  outside the signed range.
\<close>

section \<open>A run for the witnesses\<close>

definition demo_w0 :: grants_world where
  "demo_w0 = \<lparr>w_ledger = demo_start, w_grants = Some \<lparr>gd_rows = [], gd_events = []\<rparr>, w_grant_seq = 0\<rparr>"

definition demo_w1 :: grants_world where
  "demo_w1 = snd (issue sample_crypto (\<lambda>_. 5) 7 ''db:*'' 100 (GrantN 3) ''program'' demo_w0)"

definition demo_g1 :: grant_row where
  "demo_g1 = \<lparr>gr_id = next_grant_id 7 0, gr_parent_id = None, gr_scope = ''db:*'', gr_class = ''n:3'',
     gr_remaining = 3, gr_issued_at = 5, gr_expires_at = 105, gr_issuer = ''program'', gr_state = ''active''\<rparr>"

definition demo_h1 :: grant_handle where
  "demo_h1 = \<lparr>gh_grant_id = next_grant_id 7 0, gh_scope = ''db:*'', gh_class = GrantN 3, gh_expires_at = 105,
     gh_issuer = ''program''\<rparr>"

lemma demo_w1_run: "grants_run sample_crypto demo_w1"
proof -
  have "grants_run sample_crypto demo_w0"
    by (rule reach_init) (simp add: grants_start_def demo_w0_def world_rows_def world_events_def)
  then show ?thesis
    unfolding demo_w1_def by (rule reach_step) (rule step_issue, simp add: class_tame_def)
qed

lemma demo_w1_rows: "world_rows demo_w1 = [demo_g1]" "w_grants demo_w1 \<noteq> None"
  by (simp_all add: demo_w1_def demo_w0_def demo_g1_def issue_def insert_row_def on_rows_def record_event_def
      world_rows_def Let_def u64_add_def as_i64_small trim_def is_whitespace_def show_base.simps digit_char_def)

lemma demo_class: "from_ledger_str ''n:3'' = GrantN 3"
  by (simp add: from_ledger_str_def parse_u64_def)

lemma demo_use: "\<exists>w'. grant_use sample_crypto (\<lambda>_. 6) demo_h1 [] demo_w1 = (Inr 2, w')"
proof -
  obtain db where "w_grants demo_w1 = Some db" "gd_rows db = [demo_g1]"
    using demo_w1_rows by (auto simp: world_rows_def)
  then show ?thesis
    by (simp add: grant_use_def with_grants_def load_record_def find_row_def demo_h1_def demo_g1_def
        record_of_row_def demo_class check_record_def as_u64_def i64_sub_def wrap_i64_def Let_def)
qed

section \<open>Attenuation\<close>

text \<open>
  C3. No grant is stronger than any of its ancestors. In every run, whenever a use of a grant
  succeeds, then for every ancestor of that grant (at any distance, itself included): the ancestor
  is not revoked, has not expired, its scope covers the scope of the used grant, and its class is
  at least as powerful.
\<close>

theorem use_within_ancestors:
  assumes run: "grants_run C w" and use: "grant_use C clk h nt w = (Inr n, w')"
    and g: "g \<in> set (world_rows w)" "descends (world_rows w) (gr_id g) (gh_grant_id h)"
  shows "\<exists>r \<in> set (world_rows w). gr_id r = gh_grant_id h \<and> gr_state g \<noteq> ''revoked''
    \<and> clk 0 < as_u64 (gr_expires_at g) \<and> scope_attenuates (gr_scope g) (gr_scope r)
    \<and> class_power (row_class r) \<le> class_power (row_class g)"
proof -
  have ok: "world_ok w" by (rule grants_system.reach_inv [OF run])
  from use show ?thesis
  proof (cases rule: grant_use_cases [of C clk h nt w])
    case (used db r s m)
    have r: "r \<in> set (world_rows w)" "gr_id r = gh_grant_id h" using find_row_SomeD [OF used(2)] by simp_all
    note att = descends_row_attenuated [OF ok g(1) r(1)]
    have "attenuated g r" "gr_state g \<noteq> ''revoked''" "clk 0 < as_u64 (gr_expires_at r)"
      using att g(2) r(2) used(3) by (auto simp: check_record_ok)
    with r show ?thesis by (intro bexI [of _ r]) (auto simp: attenuated_def)
  qed simp
qed

theorem use_within_ancestors_witness:
  "\<exists>r \<in> set (world_rows demo_w1). gr_id r = gh_grant_id demo_h1 \<and> scope_attenuates (gr_scope demo_g1) (gr_scope r)
    \<and> (6 :: nat) < as_u64 (gr_expires_at demo_g1)"
proof -
  obtain w' where u: "grant_use sample_crypto (\<lambda>_. 6) demo_h1 [] demo_w1 = (Inr 2, w')"
    using demo_use by blast
  have "demo_g1 \<in> set (world_rows demo_w1)" by (simp add: demo_w1_rows)
  moreover have "descends (world_rows demo_w1) (gr_id demo_g1) (gh_grant_id demo_h1)"
    by (simp add: demo_g1_def demo_h1_def descends_root)
  ultimately show ?thesis
    using use_within_ancestors [OF demo_w1_run u] by blast
qed

section \<open>Conservation of quota\<close>

definition subtree :: "grant_row list \<Rightarrow> grant_row \<Rightarrow> grant_row set" where
  "subtree rows g = {r \<in> set rows. descends rows (gr_id g) (gr_id r)}"

definition children_rows :: "grant_row list \<Rightarrow> grant_row \<Rightarrow> grant_row set" where
  "children_rows rows r = {c \<in> set rows. gr_parent_id c = Some (gr_id r)}"

lemma carved_sum:
  assumes "distinct (map gr_id rows)"
  shows "carved rows (gr_id r) = (\<Sum>c \<in> children_rows rows r. initial_remaining (row_class c))"
proof -
  have "distinct (filter (\<lambda>c. gr_parent_id c = Some (gr_id r)) rows)"
    using assms by (simp add: distinct_map)
  then show ?thesis
    unfolding carved_def by (subst sum_list_distinct_conv_sum_set) (simp_all add: children_rows_def)
qed

lemma subtree_covered:
  assumes d: "distinct (map gr_id rows)" and g: "g \<in> set rows"
  shows "subtree rows g - {g} \<subseteq> (\<Union>r \<in> subtree rows g. children_rows rows r)"
proof
  fix c assume c: "c \<in> subtree rows g - {g}"
  then have "descends rows (gr_id g) (gr_id c)" and cs: "c \<in> set rows" "c \<noteq> g" by (auto simp: subtree_def)
  from this(1) show "c \<in> (\<Union>r \<in> subtree rows g. children_rows rows r)"
  proof cases
    case descends_root
    with distinct_id_eq [OF d g cs(1)] cs(2) show ?thesis by simp
  next
    case (descends_child p r)
    have "r = c" using distinct_id_eq [OF d] descends_child cs(1) by metis
    moreover have "\<exists>q \<in> subtree rows g. gr_id q = p"
      using descends_child(2)
      by cases (use g descends_child(2) in \<open>auto simp: subtree_def intro: descends.intros\<close>)
    ultimately show ?thesis using descends_child cs(1) by (auto simp: children_rows_def)
  qed
qed

lemma initial_nonneg: "class_tame c \<Longrightarrow> c \<noteq> Unlimited \<Longrightarrow> 0 \<le> initial_remaining c"
  by (cases c) (simp_all add: class_tame_def as_i64_small)

lemma subtree_class:
  assumes ok: "world_ok w" and g: "g \<in> set (world_rows w)" "row_class g \<noteq> Unlimited" and r: "r \<in> subtree (world_rows w) g"
  shows "row_class r \<noteq> Unlimited"
proof -
  have "attenuated g r" using descends_row_attenuated(1) [OF ok g(1)] r by (simp add: subtree_def)
  with g(2) show ?thesis by (cases "row_class g"; cases "row_class r") (simp_all add: attenuated_def)
qed

lemma children_subtree: "r \<in> subtree rows g \<Longrightarrow> children_rows rows r \<subseteq> subtree rows g"
  by (auto simp: subtree_def children_rows_def intro: descends_child)

lemma subtree_quota:
  assumes ok: "world_ok w" and g: "g \<in> set (world_rows w)" "row_class g \<noteq> Unlimited"
  shows "(\<Sum>r \<in> subtree (world_rows w) g. gr_remaining r + int (uses_of (world_events w) (gr_id r)))
    \<le> initial_remaining (row_class g)"
proof -
  let ?rows = "world_rows w" and ?D = "subtree (world_rows w) g"
  let ?init = "\<lambda>r. initial_remaining (row_class r)"
  note ok' = ok [unfolded world_ok_def]
  have fin: "finite ?D" by (simp add: subtree_def)
  have gD: "g \<in> ?D" using g by (simp add: subtree_def descends_root)
  have inD: "r \<in> set ?rows \<and> row_class r \<noteq> Unlimited \<and> 0 \<le> ?init r" if "r \<in> ?D" for r
    using that subtree_class [OF ok g that] grants_okD(4) [OF ok', of r]
    by (auto simp: subtree_def row_ok_def intro: initial_nonneg)
  have "gr_remaining r + int (uses_of (world_events w) (gr_id r)) + carved ?rows (gr_id r) \<le> ?init r" if "r \<in> ?D" for r
    using grants_okD(5) [OF ok', of r] inD [OF that] by (simp add: balanced_def)
  then have "(\<Sum>r \<in> ?D. gr_remaining r + int (uses_of (world_events w) (gr_id r)) + carved ?rows (gr_id r)) \<le> sum ?init ?D"
    by (intro sum_mono) simp
  moreover have "sum ?init (?D - {g}) \<le> (\<Sum>r \<in> ?D. carved ?rows (gr_id r))"
  proof -
    have "sum ?init (?D - {g}) \<le> sum ?init (\<Union>r \<in> ?D. children_rows ?rows r)"
    proof (rule sum_mono2)
      show "finite (\<Union>r \<in> ?D. children_rows ?rows r)" using fin by (simp add: children_rows_def)
      show "?D - {g} \<subseteq> (\<Union>r \<in> ?D. children_rows ?rows r)" by (rule subtree_covered [OF grants_okD(1) [OF ok'] g(1)])
      show "0 \<le> ?init b" if "b \<in> (\<Union>r \<in> ?D. children_rows ?rows r) - (?D - {g})" for b
        using that children_subtree inD by blast
    qed
    also have "\<dots> = (\<Sum>r \<in> ?D. sum ?init (children_rows ?rows r))"
    proof (rule sum.UNION_disjoint [OF fin])
      show "\<forall>i \<in> ?D. finite (children_rows ?rows i)" by (simp add: children_rows_def)
      show "\<forall>i \<in> ?D. \<forall>j \<in> ?D. i \<noteq> j \<longrightarrow> children_rows ?rows i \<inter> children_rows ?rows j = {}"
        using inD distinct_id_eq [OF grants_okD(1) [OF ok']] by (fastforce simp: children_rows_def)
    qed
    finally show ?thesis by (simp add: carved_sum [OF grants_okD(1) [OF ok']])
  qed
  moreover have "sum ?init ?D = ?init g + sum ?init (?D - {g})" by (rule sum.remove [OF fin gD])
  ultimately show ?thesis by (simp add: sum.distrib)
qed

text \<open>
  C1. Quota is conserved over the whole tree below a grant. In every run whose grants are
  issued and split with use counts below 2^63, the range of the signed column that stores them, for a
  grant of class once or n: the successful uses of the grant and of everything ever derived from it, plus the uses they
  all have left, never exceed what the grant was issued with, and nothing has a negative balance.
  So no chain of subgrants, at any depth, amplifies a quota.
\<close>

theorem quota_conservation:
  assumes "grants_run C w" "g \<in> set (world_rows w)" "row_class g \<noteq> Unlimited"
  shows "(\<Sum>r \<in> subtree (world_rows w) g. int (uses_of (world_events w) (gr_id r)))
      + (\<Sum>r \<in> subtree (world_rows w) g. gr_remaining r) \<le> initial_remaining (row_class g)
    \<and> (\<forall>r \<in> subtree (world_rows w) g. 0 \<le> gr_remaining r)"
proof
  have ok: "world_ok w" by (rule grants_system.reach_inv [OF assms(1)])
  show "(\<Sum>r \<in> subtree (world_rows w) g. int (uses_of (world_events w) (gr_id r)))
      + (\<Sum>r \<in> subtree (world_rows w) g. gr_remaining r) \<le> initial_remaining (row_class g)"
    using subtree_quota [OF ok assms(2,3)] by (simp add: sum.distrib)
  show "\<forall>r \<in> subtree (world_rows w) g. 0 \<le> gr_remaining r"
  proof
    fix r assume r: "r \<in> subtree (world_rows w) g"
    then have "row_ok r" using grants_okD(4) [OF ok [unfolded world_ok_def]] by (simp add: subtree_def)
    with subtree_class [OF ok assms(2,3) r] show "0 \<le> gr_remaining r"
      by (auto simp: row_ok_def split: grant_class.splits)
  qed
qed

theorem quota_conservation_witness:
  "(\<Sum>r \<in> subtree (world_rows demo_w1) demo_g1. int (uses_of (world_events demo_w1) (gr_id r)))
      + (\<Sum>r \<in> subtree (world_rows demo_w1) demo_g1. gr_remaining r) \<le> 3"
proof -
  have c: "row_class demo_g1 = GrantN 3" by (simp add: row_class_def demo_g1_def demo_class)
  have "demo_g1 \<in> set (world_rows demo_w1)" by (simp add: demo_w1_rows)
  from quota_conservation [OF demo_w1_run this] c show ?thesis by (simp add: as_i64_small)
qed

section \<open>Revocation is permanent\<close>

definition revoked_ids :: "'a grants_world_scheme \<Rightarrow> string set" where
  "revoked_ids w = {gr_id r | r. r \<in> set (world_rows w) \<and> gr_state r = ''revoked''}"

lemma update_rows_ids: "(\<And>r. gr_id (f r) = gr_id r) \<Longrightarrow> map gr_id (update_rows x f rows) = map gr_id rows"
  by (simp add: update_rows_def)

lemma revoked_update:
  assumes "distinct (map gr_id rows)" "p \<in> set rows" "gr_state p \<noteq> ''revoked''"
    and "r \<in> set rows" "gr_state r = ''revoked''"
  shows "r \<in> set (update_rows (gr_id p) f rows)"
proof -
  have "gr_id r \<noteq> gr_id p" using distinct_id_eq [OF assms(1,2,4)] assms(3,5) by auto
  with assms(4) show ?thesis unfolding in_update_rows by (intro bexI [of _ r]) simp_all
qed

lemma issue_rows: "set (world_rows w) \<subseteq> set (world_rows (snd (issue C clk nanos scope ttl class issuer w)))"
  by (auto simp: issue_def insert_row_def Let_def world_rows_def on_rows_def record_event_def
      split: prod.splits sum.splits option.splits if_splits)

lemma subgrant_keeps_revoked:
  assumes ok: "world_ok w" and r: "r \<in> set (world_rows w)" "gr_state r = ''revoked''"
  shows "r \<in> set (world_rows (snd (subgrant C clk nanos parent scope ttl class w)))"
proof (cases rule: subgrant_cases [of C clk nanos parent scope ttl "class" w])
  case refused
  with r show ?thesis by simp
next
  case (written db p debit left w1 res w2)
  have p: "p \<in> set (world_rows w)" "gr_state p \<noteq> ''revoked''"
    using find_row_SomeD [OF written(2)] subgrant_checks_ok(1) [OF written(3)] by simp_all
  have r1: "r \<in> set (world_rows w1)"
    using r revoked_update [OF grants_okD(1) [OF ok [unfolded world_ok_def]] p r]
    unfolding written(4) subgrant_parent_def by simp
  from written(5) show ?thesis
  proof (cases rule: insert_row_cases)
    case failed
    with written(6) r1 show ?thesis by simp
  next
    case stored
    with written(6) r1 show ?thesis by (simp add: on_rows_append)
  qed
qed

lemma revoke_rows: "\<exists>T. world_ok w \<longrightarrow> world_rows (snd (revoke C clk h nt w)) = mark T (world_rows w)"
proof (cases "\<exists>db rec. w_grants w = Some db \<and> load_record db (gh_grant_id h) = Inr rec")
  case False
  then have "snd (revoke C clk h nt w) = w"
    by (auto simp: revoke_def with_grants_def split: option.splits sum.splits)
  then show ?thesis by (metis mark_simps(2))
next
  case True
  obtain cnt w' where run: "revoke_loop C clk 0 nt [gh_grant_id h] 0 w = (cnt, w')" by fastforce
  then have res: "snd (revoke C clk h nt w) = w'" using True by (auto simp: revoke_def with_grants_def)
  have "world_ok w \<Longrightarrow> closed_upto (set [gh_grant_id h]) (world_rows w)"
    using grants_okD(2) unfolding world_ok_def closed_upto_def by blast
  from revoke_loop_post [OF this, where C = C and clk = clk and n = 0 and nt = nt and cnt = 0] run
  show ?thesis unfolding res revoke_post_def by auto
qed

lemma revoked_ids_step:
  assumes ok: "world_ok w" and step: "grants_step C w w'"
  shows "revoked_ids w \<subseteq> revoked_ids w'"
  using step
proof cases
  case (step_issue c clk nanos scope ttl issuer)
  then show ?thesis using issue_rows unfolding revoked_ids_def by blast
next
  case (step_subgrant c clk nanos parent scope ttl)
  then show ?thesis using subgrant_keeps_revoked [OF ok] unfolding revoked_ids_def by blast
next
  case (step_revoke clk h nt)
  obtain T where "world_rows w' = mark T (world_rows w)" using revoke_rows ok step_revoke by blast
  then show ?thesis by (force simp: revoked_ids_def mark_def)
next
  case (step_use clk h nt)
  show ?thesis
  proof (cases rule: grant_use_cases [of C clk h nt w])
    case refused
    with step_use show ?thesis by simp
  next
    case (used db p s m)
    have p: "p \<in> set (world_rows w)" "gr_id p = gh_grant_id h" "gr_state p \<noteq> ''revoked''"
      using find_row_SomeD [OF used(2)] used(3) by (simp_all add: check_record_ok)
    have "r \<in> set (world_rows w')" if "r \<in> set (world_rows w)" "gr_state r = ''revoked''" for r
      using revoked_update [OF grants_okD(1) [OF ok [unfolded world_ok_def]] p(1,3) that] step_use used(5) p(2)
      by simp
    then show ?thesis unfolding revoked_ids_def by blast
  qed
qed

lemma revoked_ids_steps:
  "(grants_step C)\<^sup>*\<^sup>* w w' \<Longrightarrow> world_ok w \<Longrightarrow> revoked_ids w \<subseteq> revoked_ids w'"
proof (induction rule: rtranclp_induct)
  case (step y z)
  then show ?case using revoked_ids_step grants_system.steps_inv by blast
qed simp

text \<open>
  C2. Revocation is permanent and reaches everything below, also what is created later. Once a
  grant is revoked in a run, then in every later state no grant that descends from it can be used
  or subgranted again: both are refused as revoked, whatever the handle says.
\<close>

theorem revoked_forever:
  assumes run: "grants_run C w" and g: "g \<in> set (world_rows w)" "gr_state g = ''revoked''"
    and later: "(grants_step C)\<^sup>*\<^sup>* w w'" and d: "descends (world_rows w') (gr_id g) (gh_grant_id h)"
    and scope: "trim scope \<noteq> []"
  shows "fst (grant_use C clk h nt w') = Inl (GRANT_REVOKED (gh_grant_id h))
    \<and> fst (subgrant C clk nanos h scope ttl cls w') = Inl (GRANT_REVOKED (gh_grant_id h))"
proof -
  have ok: "world_ok w" by (rule grants_system.reach_inv [OF run])
  then have ok': "world_ok w'" by (rule grants_system.steps_inv [OF later])
  have "gr_id g \<in> revoked_ids w'"
    using revoked_ids_steps [OF later ok] g unfolding revoked_ids_def by blast
  then obtain g' where g': "g' \<in> set (world_rows w')" "gr_id g' = gr_id g" "gr_state g' = ''revoked''"
    by (auto simp: revoked_ids_def)
  obtain r where r: "r \<in> set (world_rows w')" "gr_id r = gh_grant_id h" "gr_state r = ''revoked''"
    using descends_attenuated [OF ok' g'(1)] d g'(2,3) by auto
  obtain db where db: "w_grants w' = Some db" "gd_rows db = world_rows w'"
    using r(1) by (cases "w_grants w'") (auto simp: world_rows_def)
  have "find_row (gh_grant_id h) (gd_rows db) = Some r"
    using r db find_row_unique [OF grants_okD(1) [OF ok' [unfolded world_ok_def]]] by simp
  with db r scope show ?thesis
    by (simp add: grant_use_def subgrant_def with_grants_def load_record_def check_record_def
        subgrant_checks_def Let_def)
qed

definition demo_w2 :: grants_world where
  "demo_w2 = snd (revoke sample_crypto (\<lambda>_. 6) demo_h1 [] demo_w1)"

lemma demo_w2_rows: "world_rows demo_w2 = [demo_g1\<lparr>gr_state := ''revoked''\<rparr>]"
proof -
  obtain db where db: "w_grants demo_w1 = Some db" "gd_rows db = [demo_g1]"
    using demo_w1_rows by (auto simp: world_rows_def)
  then show ?thesis
    by (simp add: demo_w2_def revoke_def with_grants_def load_record_def find_row_def demo_h1_def
        revoke_loop.simps world_rows_def live_row_def children_of_def Let_def demo_g1_def on_rows_def
        record_event_def revoke_row_def)
qed

lemma demo_w2_run: "grants_run sample_crypto demo_w2"
  unfolding demo_w2_def by (rule reach_step [OF demo_w1_run step_revoke])

theorem revoked_forever_witness:
  "fst (grant_use sample_crypto (\<lambda>_. 7) demo_h1 [] demo_w2) = Inl (GRANT_REVOKED (gh_grant_id demo_h1))"
proof -
  have "descends (world_rows demo_w2) (gr_id (demo_g1\<lparr>gr_state := ''revoked''\<rparr>)) (gh_grant_id demo_h1)"
    by (simp add: demo_g1_def demo_h1_def descends_root)
  from revoked_forever [OF demo_w2_run _ _ rtranclp.rtrancl_refl this, of "''db''" "\<lambda>_. 7" "[]"]
  show ?thesis by (simp add: demo_w2_rows trim_def is_whitespace_def)
qed

section \<open>Quotas beyond the signed range\<close>



section \<open>The covering lookup\<close>

definition covering :: "u64 \<Rightarrow> string \<Rightarrow> grant_row \<Rightarrow> bool" where
  "covering now scope r \<longleftrightarrow> gr_state r = ''active'' \<and> now < as_u64 (gr_expires_at r)
     \<and> scope_attenuates (gr_scope r) scope \<and> (row_class r = Unlimited \<or> 0 < gr_remaining r)"

definition handle_of :: "grant_row \<Rightarrow> grant_handle" where
  "handle_of r = \<lparr>gh_grant_id = gr_id r, gh_scope = gr_scope r, gh_class = row_class r,
     gh_expires_at = as_u64 (gr_expires_at r), gh_issuer = gr_issuer r\<rparr>"

text \<open>\<open>r\<close> is preferred to \<open>q\<close>: more powerful, or equally powerful with a smaller id.\<close>

definition preferred :: "nat \<times> string \<times> grant_handle \<Rightarrow> nat \<times> string \<times> grant_handle \<Rightarrow> bool" where
  "preferred a b \<longleftrightarrow> fst a > fst b \<or> fst a = fst b \<and> fst (snd a) \<le> fst (snd b)"

definition entry_of :: "grant_row \<Rightarrow> nat \<times> string \<times> grant_handle" where
  "entry_of r = (class_power (row_class r), gr_id r, handle_of r)"

lemma preferred_order:
  "preferred a a" "preferred a b \<Longrightarrow> preferred b c \<Longrightarrow> preferred a c" "preferred a b \<or> preferred b a"
  by (auto simp: preferred_def)

lemma lookup_step_spec:
  assumes "gr_state r = ''active''"
  shows "lookup_step now scope r best =
    (if covering now scope r \<and> (case best of None \<Rightarrow> True | Some b \<Rightarrow> \<not> preferred b (entry_of r))
     then Some (entry_of r) else best)"
proof (cases best)
  case None
  with assms show ?thesis
    by (simp add: lookup_step_def covering_def lookup_better_def entry_of_def handle_of_def row_class_def Let_def not_le)
next
  case (Some b)
  with assms show ?thesis
    by (cases b) (auto simp: lookup_step_def covering_def lookup_better_def entry_of_def handle_of_def row_class_def
        Let_def preferred_def not_le)
qed

lemma lookup_loop_spec:
  assumes "\<forall>r \<in> set rs. gr_state r = ''active''"
  shows "(\<forall>r \<in> set rs. covering now scope r \<longrightarrow>
        (\<exists>e. lookup_loop (\<lambda>_. now) i scope rs best = Some e \<and> preferred e (entry_of r)))
    \<and> (\<forall>b. best = Some b \<longrightarrow> (\<exists>e. lookup_loop (\<lambda>_. now) i scope rs best = Some e \<and> preferred e b))
    \<and> (\<forall>e. lookup_loop (\<lambda>_. now) i scope rs best = Some e \<longrightarrow>
         best = Some e \<or> (\<exists>r \<in> set rs. covering now scope r \<and> e = entry_of r))"
  using assms
proof (induction rs arbitrary: i best)
  case (Cons r rs)
  define b' where "b' = lookup_step now scope r best"
  have b': "b' = (if covering now scope r \<and> (case best of None \<Rightarrow> True | Some b \<Rightarrow> \<not> preferred b (entry_of r))
     then Some (entry_of r) else best)"
    unfolding b'_def by (rule lookup_step_spec) (use Cons.prems in simp)
  let ?L = "lookup_loop (\<lambda>_. now) (Suc i) scope rs b'"
  have A: "\<exists>e. ?L = Some e \<and> preferred e (entry_of q)" if "q \<in> set rs" "covering now scope q" for q
    using Cons.IH [of "Suc i" b'] Cons.prems that by (simp del: split_paired_Ex split_paired_All)
  have B: "\<exists>e. ?L = Some e \<and> preferred e b" if "b' = Some b" for b
    using Cons.IH [of "Suc i" b'] Cons.prems that by (simp del: split_paired_Ex split_paired_All)
  have D: "b' = Some e \<or> (\<exists>q \<in> set rs. covering now scope q \<and> e = entry_of q)" if "?L = Some e" for e
    using Cons.IH [of "Suc i" b'] Cons.prems that by (simp del: split_paired_Ex split_paired_All)
  have run: "lookup_loop (\<lambda>_. now) i scope (r # rs) best = lookup_loop (\<lambda>_. now) (Suc i) scope rs b'"
    by (simp add: b'_def)
  have 1: "\<exists>b. b' = Some b \<and> preferred b (entry_of r)" if "covering now scope r"
    using that preferred_order(1) [of "entry_of r"] unfolding b'
    by (cases best) (auto simp del: split_paired_Ex)
  have 2: "\<exists>b. b' = Some b \<and> preferred b a" if "best = Some a" for a
    using that preferred_order(3) [of a "entry_of r"] unfolding b'
    by (auto simp: preferred_order(1) simp del: split_paired_Ex)
  have 3: "best = Some b \<or> covering now scope r \<and> b = entry_of r" if "b' = Some b" for b
    using that unfolding b' by (auto split: if_splits)
  have up: "\<exists>e. ?L = Some e \<and> preferred e a" if "\<exists>b. b' = Some b \<and> preferred b a" for a
    using that B preferred_order(2) by blast
  have "\<exists>e. ?L = Some e \<and> preferred e (entry_of q)" if "q \<in> set (r # rs)" "covering now scope q" for q
    using that A up [OF 1] by auto
  moreover have "\<exists>e. ?L = Some e \<and> preferred e a" if "best = Some a" for a
    by (rule up [OF 2 [OF that]])
  moreover have "best = Some e \<or> (\<exists>q \<in> set (r # rs). covering now scope q \<and> e = entry_of q)" if "?L = Some e" for e
    using D [OF that] 3 [of e] by auto
  ultimately show ?case unfolding run by blast
qed (simp add: preferred_order)

text \<open>What the lookup returns covered the action at one of its clock readings; a row that covers
  it at every reading makes it return something.\<close>

lemma lookup_loop_sound:
  "lookup_loop clk i scope rs best = Some e \<Longrightarrow> \<forall>r \<in> set rs. gr_state r = ''active'' \<Longrightarrow>
     best = Some e \<or> (\<exists>r \<in> set rs. \<exists>j. covering (clk j) scope r \<and> e = entry_of r)"
proof (induction rs arbitrary: i best)
  case (Cons r rs)
  then have "lookup_step (clk i) scope r best = Some e
      \<or> (\<exists>r \<in> set rs. \<exists>j. covering (clk j) scope r \<and> e = entry_of r)"
    by simp
  then show ?case
    using lookup_step_spec [of r "clk i" scope best] Cons.prems(2) by (auto split: if_splits)
qed simp

lemma lookup_loop_Some: "lookup_loop clk i scope rs (Some b) \<noteq> None"
proof (induction rs arbitrary: i b)
  case (Cons r rs)
  have "lookup_step (clk i) scope r (Some b) \<noteq> None"
    by (simp add: lookup_step_def Let_def del: not_None_eq)
  then obtain b' where "lookup_step (clk i) scope r (Some b) = Some b'" by auto
  with Cons.IH [of "Suc i" b'] show ?case by simp
qed simp

lemma lookup_loop_complete:
  "r \<in> set rs \<Longrightarrow> \<forall>j. covering (clk j) scope r \<Longrightarrow> lookup_loop clk i scope rs best \<noteq> None"
proof (induction rs arbitrary: i best)
  case (Cons q rs)
  show ?case
  proof (cases "r = q")
    case True
    have "lookup_step (clk i) scope q best \<noteq> None"
      using lookup_step_spec [of q "clk i" scope best] Cons.prems(2) True
      by (auto simp: covering_def split: option.splits simp del: not_None_eq split_paired_Ex)
    then obtain b where "lookup_step (clk i) scope q best = Some b" by auto
    then show ?thesis using lookup_loop_Some [of clk "Suc i" scope rs b] by simp
  qed (use Cons in simp)
qed simp

lemma lookup_sound:
  assumes "lookup_active_covering clk scope w = Some h"
  shows "\<exists>r \<in> set (world_rows w). \<exists>j. covering (clk j) scope r \<and> h = handle_of r"
proof -
  obtain e where e: "lookup_loop clk 0 scope (filter (\<lambda>r. gr_state r = ''active'') (world_rows w)) None = Some e"
    "h = snd (snd e)"
    using assms by (auto simp: lookup_active_covering_def)
  from lookup_loop_sound [OF e(1)] e(2) show ?thesis by (auto simp: entry_of_def)
qed

lemma lookup_complete:
  assumes "r \<in> set (world_rows w)" "\<forall>j. covering (clk j) scope r"
  shows "lookup_active_covering clk scope w \<noteq> None"
  using lookup_loop_complete [of r "filter (\<lambda>r. gr_state r = ''active'') (world_rows w)" clk scope 0 None] assms
  by (auto simp: lookup_active_covering_def covering_def)

text \<open>
  The covering lookup, at one reading of the clock: it finds a grant exactly when some row is
  active, unexpired, covers the action and has uses left; and what it returns is such a row with the
  greatest class power, and among those the one with the smallest id, whatever the order of the table.
\<close>

theorem lookup_strongest:
  "(lookup_active_covering (\<lambda>_. now) scope w = None \<longleftrightarrow> (\<forall>r \<in> set (world_rows w). \<not> covering now scope r))
   \<and> (\<forall>h. lookup_active_covering (\<lambda>_. now) scope w = Some h \<longrightarrow>
        (\<exists>r \<in> set (world_rows w). covering now scope r \<and> h = handle_of r
          \<and> (\<forall>q \<in> set (world_rows w). covering now scope q \<longrightarrow>
               class_power (row_class q) < class_power (row_class r)
               \<or> class_power (row_class q) = class_power (row_class r) \<and> gr_id r \<le> gr_id q)))"
proof -
  let ?rs = "filter (\<lambda>r. gr_state r = ''active'') (world_rows w)"
  let ?res = "lookup_loop (\<lambda>_. now) 0 scope ?rs None"
  have act: "r \<in> set ?rs \<longleftrightarrow> r \<in> set (world_rows w)" if "covering now scope r" for r
    using that by (simp add: covering_def)
  have spec: "\<forall>r \<in> set ?rs. covering now scope r \<longrightarrow> (\<exists>e. ?res = Some e \<and> preferred e (entry_of r))"
    "\<forall>e. ?res = Some e \<longrightarrow> (\<exists>r \<in> set ?rs. covering now scope r \<and> e = entry_of r)"
    using lookup_loop_spec [of ?rs now scope 0 None] by simp_all
  have res: "lookup_active_covering (\<lambda>_. now) scope w = map_option (\<lambda>(_, _, h). h) ?res"
    by (simp add: lookup_active_covering_def)
  show ?thesis
  proof (cases ?res)
    case None
    with spec(1) have "\<not> covering now scope r" if "r \<in> set ?rs" for r using that by auto
    with act have "\<forall>r \<in> set (world_rows w). \<not> covering now scope r" by metis
    with None res show ?thesis by simp
  next
    case (Some e)
    with spec(2) obtain r where r: "r \<in> set (world_rows w)" "covering now scope r" "e = entry_of r" by auto
    have "preferred e (entry_of q)" if "q \<in> set (world_rows w)" "covering now scope q" for q
      using spec(1) act [OF that(2)] that Some by (metis option.inject)
    then have "class_power (row_class q) < class_power (row_class r)
        \<or> class_power (row_class q) = class_power (row_class r) \<and> gr_id r \<le> gr_id q"
      if "q \<in> set (world_rows w)" "covering now scope q" for q
      using that by (fastforce simp: preferred_def entry_of_def r(3))
    moreover have "lookup_active_covering (\<lambda>_. now) scope w = Some (handle_of r)"
      by (simp add: res Some r(3) entry_of_def)
    ultimately show ?thesis using r(1,2) by auto
  qed
qed

theorem lookup_strongest_witness:
  "\<exists>h. lookup_active_covering (\<lambda>_. 6) ''db:x'' demo_w1 = Some h \<and> h = handle_of demo_g1"
proof -
  have c: "covering 6 ''db:x'' demo_g1"
    by (simp add: covering_def demo_g1_def as_u64_def scope_attenuates_def eq_ignore_ascii_case_def)
  obtain h where "lookup_active_covering (\<lambda>_. 6) ''db:x'' demo_w1 = Some h"
    using lookup_strongest [of 6 "''db:x''" demo_w1] c by (auto simp: demo_w1_rows)
  moreover from this have "h = handle_of demo_g1"
    using lookup_strongest [of 6 "''db:x''" demo_w1] by (auto simp: demo_w1_rows)
  ultimately show ?thesis by blast
qed

end
