(* ===== verification/Approval.thy ===== *)
theory Approval
  imports Refusal_Algebra Grants
begin

text \<open>
  \<open>src/approval.rs\<close>: the typed mandate of a human decision, the in-process mandate store and the
  gate that lets a human-oversight carrier run only while a mandate is live. The store is a list;
  a poisoned lock is \<open>None\<close>. The clock reading of a call is an argument.
\<close>

section \<open>Mandates\<close>

record typed_approval =
  ta_actor :: string
  ta_target_digest :: string
  ta_granted_at :: u64
  ta_expires_at :: u64
  ta_revoked :: bool

definition MANDATE_DENY_WORD :: string where
  "MANDATE_DENY_WORD = ''IRREVERSIBLE_NO_GRANT''"

text \<open>The lookup of the frozen word never fails; the panic branch is unreachable (see
  \<open>mandate_deny_word\<close> below).\<close>

definition mandate_deny :: verdict where
  "mandate_deny = the (Verdict_deny MANDATE_DENY_WORD)"

definition TypedApproval_issue :: "string \<Rightarrow> string \<Rightarrow> u64 \<Rightarrow> u64 \<Rightarrow> typed_approval" where
  "TypedApproval_issue actor target_digest granted_at ttl_seconds =
     \<lparr>ta_actor = actor, ta_target_digest = target_digest, ta_granted_at = granted_at,
      ta_expires_at = (if ttl_seconds = 0 then u64_max else u64_saturating_add granted_at ttl_seconds),
      ta_revoked = False\<rparr>"

definition TypedApproval_verify :: "typed_approval \<Rightarrow> u64 \<Rightarrow> string \<Rightarrow> verdict" where
  "TypedApproval_verify m now target_digest =
     (if ta_revoked m \<or> ta_target_digest m \<noteq> target_digest \<or> now < ta_granted_at m \<or> now \<ge> ta_expires_at m
      then mandate_deny else Allow)"

definition TypedApproval_revoke :: "typed_approval \<Rightarrow> typed_approval" where
  "TypedApproval_revoke m = m\<lparr>ta_revoked := True\<rparr>"

text \<open>\<open>format!("{:02x}", byte)\<close> for each byte of the digest.\<close>

definition hex_byte :: "char \<Rightarrow> string" where
  "hex_byte b = (let h = show_hex (of_char b) in if length h < 2 then CHR ''0'' # h else h)"

definition target_digest :: "crypto \<Rightarrow> string list \<Rightarrow> string" where
  "target_digest C parts = concat (map hex_byte (sha256 C (join_with [CHR 0x1F] parts)))"

section \<open>The store and the gate\<close>

definition HUMAN_OVERSIGHT :: "string list" where
  "HUMAN_OVERSIGHT = [''cron_run'']"

definition carrier_target :: "string \<Rightarrow> string" where
  "carrier_target name = ''carrier:'' @ name"

record approval_world = grants_world +
  w_mandates :: "typed_approval list option"

datatype approval_error = MandateLock | ApprovalRefused string | ApprovalStoreUnavailable string

definition mandate_issue ::
  "crypto \<Rightarrow> u64 \<Rightarrow> string \<Rightarrow> string \<Rightarrow> u64 \<Rightarrow> 'a approval_world_scheme
     \<Rightarrow> (approval_error, typed_approval) result \<times> 'a approval_world_scheme"
where
  "mandate_issue C now actor target ttl_seconds w =
     (let mandate = TypedApproval_issue actor (target_digest C [target]) now ttl_seconds
      in case w_mandates w of
           None \<Rightarrow> (Inl MandateLock, w)
         | Some store \<Rightarrow> (Inr mandate, w\<lparr>w_mandates := Some (store @ [mandate])\<rparr>))"

text \<open>The loop of \<open>mandate_revoke\<close> over the store, with the number it revokes.\<close>

fun revoke_live :: "u64 \<Rightarrow> string \<Rightarrow> typed_approval list \<Rightarrow> typed_approval list \<times> nat" where
  "revoke_live now digest [] = ([], 0)"
| "revoke_live now digest (m # ms) =
     (let (ms', n) = revoke_live now digest ms
      in if ta_target_digest m = digest \<and> TypedApproval_verify m now digest = Allow
         then (TypedApproval_revoke m # ms', n + 1) else (m # ms', n))"

definition mandate_revoke ::
  "crypto \<Rightarrow> u64 \<Rightarrow> string \<Rightarrow> 'a approval_world_scheme
     \<Rightarrow> (approval_error, nat) result \<times> 'a approval_world_scheme"
where
  "mandate_revoke C now target w =
     (let digest = target_digest C [target]
      in case w_mandates w of
           None \<Rightarrow> (Inl MandateLock, w)
         | Some store \<Rightarrow>
             (let (store', n) = revoke_live now digest store
              in (Inr n, w\<lparr>w_mandates := Some store'\<rparr>)))"

definition mandate_live_count :: "crypto \<Rightarrow> u64 \<Rightarrow> string \<Rightarrow> 'a approval_world_scheme \<Rightarrow> nat" where
  "mandate_live_count C now target w =
     (case w_mandates w of
        None \<Rightarrow> 0
      | Some store \<Rightarrow>
          (let digest = target_digest C [target]
           in length (filter (\<lambda>m. TypedApproval_verify m now digest = Allow) store)))"

definition mandate_store_reset :: "'a approval_world_scheme \<Rightarrow> 'a approval_world_scheme" where
  "mandate_store_reset w = w\<lparr>w_mandates := map_option (\<lambda>_. []) (w_mandates w)\<rparr>"

definition authorize_overseen_call ::
  "crypto \<Rightarrow> u64 \<Rightarrow> string \<Rightarrow> 'a approval_world_scheme \<Rightarrow> (approval_error, unit) result"
where
  "authorize_overseen_call C now name w =
     (if name \<notin> set HUMAN_OVERSIGHT then Inr ()
      else
        let digest = target_digest C [carrier_target name]
        in case w_mandates w of
             Some store \<Rightarrow>
               (if \<exists>m \<in> set store. TypedApproval_verify m now digest = Allow then Inr ()
                else Inl (ApprovalRefused name))
           | None \<Rightarrow> Inl (ApprovalStoreUnavailable name))"

section \<open>Live mandates\<close>

lemma mandate_deny_word: "\<exists>cause. Verdict_deny MANDATE_DENY_WORD = Some (Deny MANDATE_DENY_WORD cause)
    \<and> mandate_deny = Deny MANDATE_DENY_WORD cause"
proof -
  have "MANDATE_DENY_WORD \<in> set DENY_REASONS" by (simp add: MANDATE_DENY_WORD_def DENY_REASONS_def)
  then obtain i where "index_of MANDATE_DENY_WORD DENY_REASONS = Some i"
    using index_of_None [of MANDATE_DENY_WORD DENY_REASONS] by auto
  then show ?thesis
    using index_of_Some [of MANDATE_DENY_WORD DENY_REASONS i]
    by (auto simp: mandate_deny_def Verdict_deny_def Reason_parse_def)
qed

lemma verify_Allow:
  "TypedApproval_verify m now digest = Allow \<longleftrightarrow>
     \<not> ta_revoked m \<and> ta_target_digest m = digest \<and> ta_granted_at m \<le> now \<and> now < ta_expires_at m"
  using mandate_deny_word by (auto simp: TypedApproval_verify_def)

lemma issue_window:
  "is_u64 t \<Longrightarrow> now \<le> t \<Longrightarrow> t < ta_expires_at (TypedApproval_issue a d now ttl) \<longleftrightarrow>
     t < u64_max \<and> (ttl = 0 \<or> t < now + ttl)"
  by (auto simp: TypedApproval_issue_def u64_saturating_add_def)

section \<open>The gate against the history of decisions\<close>

datatype mandate_op = MIssue u64 string string u64 | MRevoke u64 string

fun run_mandate_op :: "crypto \<Rightarrow> mandate_op \<Rightarrow> 'a approval_world_scheme \<Rightarrow> 'a approval_world_scheme" where
  "run_mandate_op C (MIssue now actor target ttl) w = snd (mandate_issue C now actor target ttl w)"
| "run_mandate_op C (MRevoke now target) w = snd (mandate_revoke C now target w)"

text \<open>A revocation of the same target at a moment inside the window of the mandate.\<close>

definition withdrawn :: "crypto \<Rightarrow> typed_approval \<Rightarrow> mandate_op list \<Rightarrow> bool" where
  "withdrawn C m ops \<longleftrightarrow> (\<exists>r target. MRevoke r target \<in> set ops \<and> target_digest C [target] = ta_target_digest m
     \<and> ta_granted_at m \<le> r \<and> r < ta_expires_at m)"

definition settle :: "crypto \<Rightarrow> mandate_op list \<Rightarrow> typed_approval \<Rightarrow> typed_approval" where
  "settle C ops m = (if withdrawn C m ops then TypedApproval_revoke m else m)"

fun settled :: "crypto \<Rightarrow> mandate_op list \<Rightarrow> typed_approval list" where
  "settled C [] = []"
| "settled C (MIssue now actor target ttl # ops) =
     settle C ops (TypedApproval_issue actor (target_digest C [target]) now ttl) # settled C ops"
| "settled C (MRevoke now target # ops) = settled C ops"

lemma settle_simps [simp]:
  "ta_target_digest (settle C ops m) = ta_target_digest m" "ta_granted_at (settle C ops m) = ta_granted_at m"
  "ta_expires_at (settle C ops m) = ta_expires_at m" "ta_revoked (settle C ops m) \<longleftrightarrow> ta_revoked m \<or> withdrawn C m ops"
  by (auto simp: settle_def TypedApproval_revoke_def)

lemma settle_Nil [simp]: "settle C [] m = m"
  by (simp add: settle_def withdrawn_def)

lemma settle_issue [simp]: "settle C (MIssue now actor target ttl # ops) m = settle C ops m"
  by (simp add: settle_def withdrawn_def)

lemma revoke_live_settle:
  "fst (revoke_live now (target_digest C [target]) ms) = map (settle C [MRevoke now target]) ms"
proof (induction ms)
  case (Cons m ms)
  have "settle C [MRevoke now target] m =
    (if ta_target_digest m = target_digest C [target] \<and> TypedApproval_verify m now (target_digest C [target]) = Allow
     then TypedApproval_revoke m else m)"
    by (cases m) (auto simp: settle_def withdrawn_def verify_Allow TypedApproval_revoke_def)
  with Cons show ?case by (auto split: prod.splits)
qed simp

lemma settle_Cons:
  "settle C ops (settle C [a] m) = settle C (a # ops) m"
  by (cases m) (auto simp: settle_def withdrawn_def TypedApproval_revoke_def)

lemma mandate_store_history:
  "w_mandates w = Some st \<Longrightarrow>
     w_mandates (fold (run_mandate_op C) ops w) = Some (map (settle C ops) st @ settled C ops)"
proof (induction ops arbitrary: w st)
  case Nil
  then show ?case by (simp add: map_idI)
next
  case (Cons a ops)
  show ?case
  proof (cases a)
    case (MIssue now actor target ttl)
    let ?m = "TypedApproval_issue actor (target_digest C [target]) now ttl"
    have "w_mandates (run_mandate_op C a w) = Some (st @ [?m])"
      using Cons.prems MIssue by (simp add: mandate_issue_def Let_def)
    with Cons.IH MIssue show ?thesis by simp
  next
    case (MRevoke now target)
    have "w_mandates (run_mandate_op C a w) = Some (map (settle C [a]) st)"
      using Cons.prems MRevoke revoke_live_settle [of now C target st]
      by (auto simp: mandate_revoke_def Let_def split: prod.splits)
    with Cons.IH MRevoke show ?thesis by (simp add: settle_Cons comp_def)
  qed
qed

lemma settled_split:
  "settle C ys (TypedApproval_issue actor (target_digest C [target]) now ttl)
     \<in> set (settled C (xs @ MIssue now actor target ttl # ys))"
proof (induction xs)
  case (Cons a xs)
  then show ?case by (cases a) simp_all
qed simp

lemma settledD:
  "m \<in> set (settled C ops) \<Longrightarrow> \<exists>xs now actor target ttl ys. ops = xs @ MIssue now actor target ttl # ys
     \<and> m = settle C ys (TypedApproval_issue actor (target_digest C [target]) now ttl)"
proof (induction ops)
  case (Cons a ops)
  show ?case
  proof (cases "m \<in> set (settled C ops)")
    case True
    with Cons.IH show ?thesis by (metis append_Cons)
  next
    case False
    with Cons.prems show ?thesis by (cases a) (simp_all, metis append_Nil)
  qed
qed simp

lemma in_settled:
  "m \<in> set (settled C ops) \<longleftrightarrow> (\<exists>xs now actor target ttl ys. ops = xs @ MIssue now actor target ttl # ys
     \<and> m = settle C ys (TypedApproval_issue actor (target_digest C [target]) now ttl))"
  using settledD settled_split by metis

text \<open>
  C12. The human-oversight gate against the history of decisions. On a fresh store, after any
  sequence of mandates issued and withdrawn, the gate lets an overseen carrier run at time \<open>t\<close>
  exactly when some human issued a mandate for this carrier whose window contains \<open>t\<close> and nobody
  withdrew it at a moment inside that window since. With the store unavailable it refuses; carriers
  outside the roster pass.
\<close>

theorem overseen_gate_history:
  assumes "w_mandates w = Some []" "name \<in> set HUMAN_OVERSIGHT" "w_mandates v = None" "other \<notin> set HUMAN_OVERSIGHT"
  shows "(authorize_overseen_call C t name (fold (run_mandate_op C) ops w) = Inr () \<longleftrightarrow>
      (\<exists>xs now actor target ttl ys. ops = xs @ MIssue now actor target ttl # ys
         \<and> target_digest C [target] = target_digest C [carrier_target name]
         \<and> now \<le> t \<and> t < (if ttl = 0 then u64_max else min (now + ttl) u64_max)
         \<and> \<not> withdrawn C (TypedApproval_issue actor (target_digest C [target]) now ttl) ys))
    \<and> authorize_overseen_call C t name v = Inl (ApprovalStoreUnavailable name)
    \<and> authorize_overseen_call C t other u = Inr ()"
proof -
  let ?d = "target_digest C [carrier_target name]"
  have "authorize_overseen_call C t name (fold (run_mandate_op C) ops w) = Inr () \<longleftrightarrow>
      (\<exists>m \<in> set (settled C ops). TypedApproval_verify m t ?d = Allow)"
    using mandate_store_history [OF assms(1), of C ops] assms(2)
    by (simp add: authorize_overseen_call_def Let_def)
  also have "\<dots> \<longleftrightarrow> (\<exists>xs now actor target ttl ys. ops = xs @ MIssue now actor target ttl # ys
         \<and> target_digest C [target] = ?d
         \<and> now \<le> t \<and> t < (if ttl = 0 then u64_max else min (now + ttl) u64_max)
         \<and> \<not> withdrawn C (TypedApproval_issue actor (target_digest C [target]) now ttl) ys)"
  proof -
    have "TypedApproval_verify (settle C ys (TypedApproval_issue actor (target_digest C [target]) now ttl)) t ?d = Allow \<longleftrightarrow>
        target_digest C [target] = ?d \<and> now \<le> t \<and> t < (if ttl = 0 then u64_max else min (now + ttl) u64_max)
         \<and> \<not> withdrawn C (TypedApproval_issue actor (target_digest C [target]) now ttl) ys" for ys actor target now ttl
      by (auto simp: verify_Allow TypedApproval_issue_def u64_saturating_add_def)
    then show ?thesis unfolding Bex_def in_settled by metis
  qed
  finally show ?thesis
    using assms by (simp add: authorize_overseen_call_def Let_def)
qed

definition demo_mandates :: "typed_approval list option \<Rightarrow> approval_world" where
  "demo_mandates st = \<lparr>w_ledger = demo_start, w_grants = Some \<lparr>gd_rows = [], gd_events = []\<rparr>, w_grant_seq = 0,
     w_mandates = st\<rparr>"

theorem overseen_gate_history_witness:
  "authorize_overseen_call sample_crypto 20 ''cron_run''
     (fold (run_mandate_op sample_crypto) [MIssue 10 ''owner'' ''carrier:cron_run'' 60] (demo_mandates (Some []))) = Inr ()
   \<and> authorize_overseen_call sample_crypto 20 ''cron_run''
     (fold (run_mandate_op sample_crypto) [MIssue 10 ''owner'' ''carrier:cron_run'' 60, MRevoke 15 ''carrier:cron_run'']
       (demo_mandates (Some []))) \<noteq> Inr ()"
proof
  have w: "w_mandates (demo_mandates (Some [])) = Some []" "w_mandates (demo_mandates None) = None"
    "''cron_run'' \<in> set HUMAN_OVERSIGHT" "''print'' \<notin> set HUMAN_OVERSIGHT"
    by (simp_all add: demo_mandates_def HUMAN_OVERSIGHT_def)
  note gate = overseen_gate_history [OF w(1,3,2,4), of sample_crypto 20]
  have t: "carrier_target ''cron_run'' = ''carrier:cron_run''" by (simp add: carrier_target_def)
  show "authorize_overseen_call sample_crypto 20 ''cron_run''
     (fold (run_mandate_op sample_crypto) [MIssue 10 ''owner'' ''carrier:cron_run'' 60] (demo_mandates (Some []))) = Inr ()"
    by (subst conjunct1 [OF gate]) (simp add: t Cons_eq_append_conv withdrawn_def u64_max_def)
  show "authorize_overseen_call sample_crypto 20 ''cron_run''
     (fold (run_mandate_op sample_crypto) [MIssue 10 ''owner'' ''carrier:cron_run'' 60, MRevoke 15 ''carrier:cron_run'']
       (demo_mandates (Some []))) \<noteq> Inr ()"
    by (subst conjunct1 [OF gate])
      (auto simp: t Cons_eq_append_conv withdrawn_def u64_max_def TypedApproval_issue_def u64_saturating_add_def)
qed

end
