(* ===== verification/Classification.thy ===== *)
theory Classification
  imports Prelude
begin

text \<open>
  \<open>src/builtins_classification.rs\<close>: the static classification of every registered builtin by role,
  default label and reversibility, and the positions of SQL template arguments. The table is
  transcribed entry by entry, in four pieces; of the rationale, which is prose, the model keeps
  whether it is present.
\<close>

datatype class_label = LabelPublic | LabelInternal | LabelSecret | LabelNetwork

datatype role = RolePure | RoleSource | RoleLift | RoleSink

datatype reversibility = RevPure | Reversible | Irreversible

fun label_as_str :: "class_label \<Rightarrow> string" where
  "label_as_str LabelPublic = ''public''"
| "label_as_str LabelInternal = ''internal''"
| "label_as_str LabelSecret = ''secret''"
| "label_as_str LabelNetwork = ''network''"

fun role_as_str :: "role \<Rightarrow> string" where
  "role_as_str RolePure = ''pure''"
| "role_as_str RoleSource = ''source''"
| "role_as_str RoleLift = ''lift''"
| "role_as_str RoleSink = ''sink''"

fun reversibility_as_str :: "reversibility \<Rightarrow> string" where
  "reversibility_as_str RevPure = ''pure''"
| "reversibility_as_str Reversible = ''reversible''"
| "reversibility_as_str Irreversible = ''irreversible''"

record built_class =
  bc_role :: role
  bc_default_label :: class_label
  bc_reversibility :: reversibility
  bc_has_rationale :: bool

abbreviation built :: "string \<Rightarrow> role \<Rightarrow> class_label \<Rightarrow> reversibility \<Rightarrow> bool \<Rightarrow> string \<times> built_class" where
  "built n r l v d \<equiv> (n, \<lparr>bc_role = r, bc_default_label = l, bc_reversibility = v, bc_has_rationale = d\<rparr>)"

definition BUILTIN_CLASSES_1 :: "(string \<times> built_class) list" where
  "BUILTIN_CLASSES_1 =
    [built ''upper'' RolePure LabelPublic RevPure False,
     built ''lower'' RolePure LabelPublic RevPure False,
     built ''len'' RolePure LabelPublic RevPure False,
     built ''str'' RolePure LabelPublic RevPure False,
     built ''contains'' RolePure LabelPublic RevPure False,
     built ''index_of'' RolePure LabelPublic RevPure False,
     built ''substring'' RolePure LabelPublic RevPure False,
     built ''char_at'' RolePure LabelPublic RevPure False,
     built ''starts_with'' RolePure LabelPublic RevPure False,
     built ''ends_with'' RolePure LabelPublic RevPure False,
     built ''trim'' RolePure LabelPublic RevPure False,
     built ''replace'' RolePure LabelPublic RevPure False,
     built ''split'' RolePure LabelPublic RevPure False,
     built ''join'' RolePure LabelPublic RevPure False,
     built ''length'' RolePure LabelPublic RevPure False,
     built ''reverse'' RolePure LabelPublic RevPure False,
     built ''escape_html'' RoleLift LabelPublic RevPure True,
     built ''escape_json'' RoleLift LabelPublic RevPure True,
     built ''redact'' RoleLift LabelPublic RevPure True,
     built ''escape_js'' RoleLift LabelPublic RevPure True,
     built ''fuzzy_match'' RolePure LabelPublic RevPure False,
     built ''strip'' RolePure LabelPublic RevPure False,
     built ''chomp'' RolePure LabelPublic RevPure False,
     built ''repeat'' RolePure LabelPublic RevPure False,
     built ''pad_left'' RolePure LabelPublic RevPure False,
     built ''pad_right'' RolePure LabelPublic RevPure False,
     built ''lines'' RolePure LabelPublic RevPure False,
     built ''words'' RolePure LabelPublic RevPure False,
     built ''token_count'' RolePure LabelPublic RevPure False,
     built ''type_of'' RolePure LabelPublic RevPure False,
     built ''format'' RolePure LabelPublic RevPure False,
     built ''trim_start'' RolePure LabelPublic RevPure False,
     built ''trim_end'' RolePure LabelPublic RevPure False,
     built ''truncate'' RolePure LabelPublic RevPure False,
     built ''slugify'' RolePure LabelPublic RevPure False,
     built ''word_wrap'' RolePure LabelPublic RevPure False,
     built ''capitalize'' RolePure LabelPublic RevPure False,
     built ''title_case'' RolePure LabelPublic RevPure False,
     built ''__trim'' RolePure LabelPublic RevPure False,
     built ''__replace'' RolePure LabelPublic RevPure False,
     built ''__split'' RolePure LabelPublic RevPure False,
     built ''__join'' RolePure LabelPublic RevPure False,
     built ''__abs'' RolePure LabelPublic RevPure False,
     built ''__min'' RolePure LabelPublic RevPure False,
     built ''__max'' RolePure LabelPublic RevPure False,
     built ''__clamp'' RolePure LabelPublic RevPure False,
     built ''__round'' RolePure LabelPublic RevPure False,
     built ''__first'' RolePure LabelPublic RevPure False,
     built ''__last'' RolePure LabelPublic RevPure False,
     built ''abs'' RolePure LabelPublic RevPure False,
     built ''min'' RolePure LabelPublic RevPure False,
     built ''max'' RolePure LabelPublic RevPure False,
     built ''clamp'' RolePure LabelPublic RevPure False,
     built ''round'' RolePure LabelPublic RevPure False,
     built ''exp'' RolePure LabelPublic RevPure False,
     built ''ln'' RolePure LabelPublic RevPure False,
     built ''sqrt'' RolePure LabelPublic RevPure False,
     built ''pow'' RolePure LabelPublic RevPure False,
     built ''tanh'' RolePure LabelPublic RevPure False,
     built ''sigmoid'' RolePure LabelPublic RevPure False,
     built ''softmax'' RolePure LabelPublic RevPure False,
     built ''random_seed'' RolePure LabelPublic RevPure False,
     built ''random'' RolePure LabelPublic RevPure False,
     built ''newline'' RolePure LabelPublic RevPure False,
     built ''stdin'' RoleSource LabelInternal RevPure True,
     built ''split_tokens'' RolePure LabelPublic RevPure False,
     built ''if_eq'' RolePure LabelPublic RevPure False,
     built ''is_string_token'' RolePure LabelPublic RevPure False,
     built ''db_insert'' RoleSink LabelInternal Irreversible True,
     built ''float'' RolePure LabelPublic RevPure False,
     built ''to_string'' RolePure LabelPublic RevPure False,
     built ''to_float'' RolePure LabelPublic RevPure False,
     built ''print'' RoleSink LabelPublic Irreversible True,
     built ''read_file'' RoleSource LabelInternal RevPure True,
     built ''write_file'' RoleSink LabelInternal Reversible True,
     built ''append_file'' RoleSink LabelInternal Reversible True,
     built ''delete_file'' RoleSink LabelInternal Irreversible True,
     built ''file_exists'' RoleSource LabelInternal RevPure True,
     built ''list_dir'' RoleSource LabelInternal RevPure True,
     built ''exec'' RoleSink LabelInternal Irreversible True,
     built ''exec_argv'' RoleSink LabelInternal Irreversible True,
     built ''git_push'' RoleSink LabelNetwork Irreversible True,
     built ''mcp_call'' RoleSource LabelNetwork RevPure True,
     built ''mcp_list_tools'' RoleSource LabelNetwork RevPure True,
     built ''get'' RolePure LabelPublic RevPure False,
     built ''push'' RolePure LabelPublic RevPure False,
     built ''slice'' RolePure LabelPublic RevPure False,
     built ''zip'' RolePure LabelPublic RevPure False,
     built ''sort_by'' RolePure LabelPublic RevPure False,
     built ''filter'' RolePure LabelPublic RevPure False,
     built ''reduce'' RolePure LabelPublic RevPure False,
     built ''dedup'' RolePure LabelPublic RevPure False,
     built ''condense'' RolePure LabelPublic RevPure False,
     built ''unique'' RolePure LabelPublic RevPure False,
     built ''chunk'' RolePure LabelPublic RevPure False,
     built ''sort'' RolePure LabelPublic RevPure False,
     built ''first'' RolePure LabelPublic RevPure False,
     built ''last'' RolePure LabelPublic RevPure False,
     built ''make_list'' RolePure LabelPublic RevPure False,
     built ''matches_any'' RolePure LabelPublic RevPure False,
     built ''parse_json'' RolePure LabelPublic RevPure False,
     built ''json_encode'' RolePure LabelPublic RevPure False,
     built ''json_get'' RolePure LabelPublic RevPure False,
     built ''has_field'' RolePure LabelPublic RevPure False,
     built ''dict_get'' RolePure LabelPublic RevPure False,
     built ''dict_set'' RolePure LabelPublic RevPure False,
     built ''dict_has'' RolePure LabelPublic RevPure False,
     built ''dict_keys'' RolePure LabelPublic RevPure False,
     built ''dict_values'' RolePure LabelPublic RevPure False,
     built ''respond'' RoleSink LabelPublic Irreversible True,
     built ''respond_html'' RoleSink LabelPublic Irreversible True,
     built ''respond_html_status'' RoleSink LabelPublic Irreversible True,
     built ''respond_html_doc'' RoleSink LabelPublic Irreversible True,
     built ''set_header'' RolePure LabelInternal RevPure False,
     built ''form_data'' RoleSource LabelInternal RevPure True,
     built ''json_body'' RoleSource LabelInternal RevPure True,
     built ''query_param'' RoleSource LabelInternal RevPure True,
     built ''request_header'' RoleSource LabelInternal RevPure True,
     built ''html_select'' RoleSource LabelInternal RevPure True,
     built ''html_text'' RoleSource LabelInternal RevPure True,
     built ''html_links'' RoleSource LabelInternal RevPure True,
     built ''feed_parse'' RoleSource LabelInternal RevPure True,
     built ''sitemap_parse'' RoleSource LabelInternal RevPure True,
     built ''xml_parse'' RoleSource LabelInternal RevPure True,
     built ''render'' RoleLift LabelPublic RevPure True,
     built ''http_get'' RoleSource LabelNetwork RevPure True,
     built ''http_post'' RoleSink LabelNetwork Irreversible True,
     built ''http_post_multipart'' RoleSink LabelNetwork Irreversible True,
     built ''http_download'' RoleSource LabelNetwork Reversible True,
     built ''require'' RoleSource LabelInternal RevPure True,
     built ''request_body'' RoleSource LabelInternal RevPure True,
     built ''web_search'' RoleSource LabelNetwork RevPure True,
     built ''geo_ip'' RoleSource LabelNetwork RevPure True]"

definition BUILTIN_CLASSES_2 :: "(string \<times> built_class) list" where
  "BUILTIN_CLASSES_2 =
    [built ''weather'' RoleSource LabelNetwork RevPure True,
     built ''geo_distance'' RolePure LabelPublic RevPure False,
     built ''weather_forecast'' RoleSource LabelNetwork RevPure True,
     built ''hash_password'' RoleLift LabelPublic RevPure True,
     built ''verify_password'' RolePure LabelSecret RevPure False,
     built ''ct_eq'' RolePure LabelInternal RevPure False,
     built ''encrypt'' RoleLift LabelPublic RevPure True,
     built ''decrypt'' RolePure LabelSecret RevPure False,
     built ''generate_key'' RoleSource LabelSecret RevPure True,
     built ''base64_encode'' RolePure LabelPublic RevPure False,
     built ''base64_decode'' RolePure LabelPublic RevPure False,
     built ''authenticate'' RolePure LabelSecret RevPure False,
     built ''session_login'' RoleSink LabelInternal Reversible True,
     built ''session_logout'' RoleSink LabelInternal Reversible True,
     built ''session_duty_enter'' RoleSink LabelInternal Reversible True,
     built ''session_duty_exit'' RoleSink LabelInternal Reversible True,
     built ''session_wake'' RoleSink LabelInternal Reversible True,
     built ''session_poll_wake'' RoleSource LabelInternal RevPure True,
     built ''session_interrupt'' RoleSink LabelInternal Reversible True,
     built ''session_take_interrupt'' RoleSource LabelInternal RevPure True,
     built ''session_clear'' RoleSink LabelInternal Irreversible True,
     built ''send_message'' RoleSink LabelNetwork Irreversible True,
     built ''send_photo'' RoleSink LabelNetwork Irreversible True,
     built ''answer_callback_query'' RoleSink LabelNetwork Irreversible True,
     built ''edit_message_text'' RoleSink LabelNetwork Reversible True,
     built ''whisper_transcribe'' RoleSource LabelNetwork RevPure True,
     built ''tts_send'' RoleSink LabelNetwork Irreversible True,
     built ''tts_generate'' RoleSource LabelNetwork RevPure True,
     built ''env'' RoleSource LabelSecret RevPure True,
     built ''env_or'' RoleSource LabelSecret RevPure True,
     built ''query'' RoleSource LabelInternal RevPure True,
     built ''db_execute'' RoleSink LabelInternal Irreversible True,
     built ''call_llm'' RoleSource LabelNetwork RevPure True,
     built ''call_claude'' RoleSource LabelNetwork RevPure True,
     built ''llm_usage'' RoleSource LabelInternal RevPure True,
     built ''call_llm_schema'' RoleSource LabelNetwork RevPure True,
     built ''kv_set'' RoleSink LabelInternal Reversible True,
     built ''kv_get'' RoleSource LabelInternal RevPure True,
     built ''kv_delete'' RoleSink LabelInternal Irreversible True,
     built ''kv_exists'' RoleSource LabelInternal RevPure True,
     built ''kv_list'' RoleSource LabelInternal RevPure True,
     built ''mem_set'' RoleSink LabelInternal Reversible True,
     built ''mem_get'' RoleSource LabelInternal RevPure True,
     built ''mem_delete'' RoleSink LabelInternal Irreversible True,
     built ''memorize'' RoleSink LabelInternal Reversible True,
     built ''recall_top_k'' RoleSource LabelInternal RevPure True,
     built ''embed'' RolePure LabelPublic RevPure False,
     built ''vec_store'' RoleSink LabelInternal Reversible True,
     built ''vec_search'' RoleSource LabelInternal RevPure True,
     built ''recall'' RoleSource LabelInternal RevPure True,
     built ''memory_open'' RoleSource LabelInternal Reversible True,
     built ''memory_put'' RolePure LabelPublic RevPure False,
     built ''memory_read'' RoleSource LabelInternal Reversible True,
     built ''memory_keys'' RoleSource LabelInternal RevPure True,
     built ''memory_provenance'' RoleSource LabelInternal RevPure True,
     built ''memory_export'' RoleSink LabelInternal Irreversible True,
     built ''memory_cascade_preview'' RoleSource LabelInternal RevPure True,
     built ''memory_retain'' RoleSink LabelInternal Reversible True,
     built ''memory_release'' RoleSink LabelInternal Reversible True,
     built ''memory_retained'' RoleSource LabelInternal RevPure True,
     built ''memory_forget_cascade'' RoleSink LabelInternal Irreversible True,
     built ''duplex_open'' RoleSource LabelInternal Reversible True,
     built ''speak_start'' RoleSink LabelInternal Reversible True,
     built ''listen_start'' RoleSource LabelInternal Reversible True,
     built ''speak_stop'' RoleSink LabelInternal Reversible True,
     built ''listen_stop'' RoleSink LabelInternal Reversible True,
     built ''duplex_state'' RoleSource LabelInternal RevPure True,
     built ''device_open'' RoleSource LabelInternal Reversible True,
     built ''bounds_attach'' RoleSink LabelInternal Reversible True,
     built ''device_state'' RoleSource LabelInternal Reversible True,
     built ''world_state'' RoleSource LabelSecret Reversible True,
     built ''pose_make'' RoleSource LabelInternal Reversible True,
     built ''trajectory_make'' RoleSource LabelInternal Reversible True,
     built ''goal_make'' RoleSource LabelInternal Reversible True,
     built ''chunk_make'' RoleSink LabelInternal Reversible True,
     built ''proof_seal'' RoleSink LabelInternal Reversible True,
     built ''proof_verify'' RoleSource LabelInternal Reversible True,
     built ''forget'' RoleSink LabelInternal Irreversible True,
     built ''find'' RoleSource LabelInternal RevPure True,
     built ''inspect'' RoleSource LabelInternal RevPure True,
     built ''conv_start'' RoleSink LabelInternal Reversible True,
     built ''conv_add'' RoleSink LabelInternal Reversible True,
     built ''conv_history'' RoleSource LabelInternal RevPure True,
     built ''conv_context'' RoleSource LabelInternal RevPure True,
     built ''conv_end'' RoleSink LabelInternal Reversible True,
     built ''session_set'' RoleSink LabelInternal Reversible True,
     built ''session_get'' RoleSource LabelInternal RevPure True,
     built ''ref'' RoleSource LabelInternal RevPure True,
     built ''deref'' RoleSource LabelInternal RevPure True,
     built ''now'' RoleSource LabelPublic RevPure True,
     built ''sleep'' RoleSink LabelInternal Irreversible True,
     built ''time'' RoleSource LabelPublic RevPure True,
     built ''add_days'' RolePure LabelPublic RevPure False,
     built ''add_hours'' RolePure LabelPublic RevPure False,
     built ''date_parts'' RolePure LabelPublic RevPure False,
     built ''format_date'' RolePure LabelPublic RevPure False,
     built ''days_between'' RolePure LabelPublic RevPure False,
     built ''days_in_month'' RolePure LabelPublic RevPure False,
     built ''is_leap_year'' RolePure LabelPublic RevPure False,
     built ''weekday_name'' RolePure LabelPublic RevPure False,
     built ''graph_query'' RoleSource LabelInternal RevPure True,
     built ''graph_path'' RoleSource LabelInternal RevPure True,
     built ''graph_neighbors'' RoleSource LabelInternal RevPure True,
     built ''memory_decay'' RoleSink LabelInternal Reversible True,
     built ''memory_boost'' RoleSink LabelInternal Reversible True,
     built ''memory_prune'' RoleSink LabelInternal Irreversible True,
     built ''memory_revise'' RoleSink LabelInternal Reversible True,
     built ''subgraph_extract'' RoleSource LabelInternal RevPure True,
     built ''subgraph_nodes'' RolePure LabelPublic RevPure False,
     built ''subgraph_json'' RolePure LabelPublic RevPure False,
     built ''trace_start'' RoleSink LabelInternal Reversible True,
     built ''trace_end'' RoleSink LabelInternal Reversible True,
     built ''memory_score'' RolePure LabelPublic RevPure False,
     built ''mtree_summarize'' RoleSource LabelInternal RevPure True,
     built ''mtree_retrieve'' RoleSource LabelInternal RevPure True,
     built ''mtree_store'' RoleSink LabelInternal Reversible True,
     built ''mtree_stats'' RoleSource LabelInternal RevPure True,
     built ''mtree_forget'' RoleSink LabelInternal Irreversible True,
     built ''cron_mark_fired'' RoleSink LabelInternal Reversible True,
     built ''cron_add'' RoleSink LabelInternal Reversible True,
     built ''cron_list'' RoleSource LabelInternal RevPure True,
     built ''cron_remove'' RoleSink LabelInternal Irreversible True,
     built ''cron_run'' RoleSink LabelInternal Irreversible True,
     built ''event_count'' RoleSource LabelInternal RevPure True,
     built ''events_since'' RoleSource LabelInternal RevPure True,
     built ''event_sum'' RoleSource LabelInternal RevPure True,
     built ''query_scalar'' RoleSource LabelInternal RevPure True,
     built ''query_row'' RoleSource LabelInternal RevPure True,
     built ''assert_eq'' RolePure LabelPublic RevPure False,
     built ''assert_contains'' RolePure LabelPublic RevPure False,
     built ''confidence'' RolePure LabelPublic RevPure False,
     built ''toon_encode'' RolePure LabelPublic RevPure False,
     built ''toon_decode'' RolePure LabelPublic RevPure False]"

definition BUILTIN_CLASSES_3 :: "(string \<times> built_class) list" where
  "BUILTIN_CLASSES_3 =
    [built ''recipe_save'' RoleSink LabelInternal Reversible True,
     built ''recipe_search'' RoleSource LabelInternal RevPure True,
     built ''recipe_list'' RoleSource LabelInternal RevPure True,
     built ''dag_phases'' RolePure LabelPublic RevPure False,
     built ''topo_sort'' RolePure LabelPublic RevPure False,
     built ''resolve_skill_index'' RoleSource LabelInternal RevPure True,
     built ''fit_to_budget'' RolePure LabelPublic RevPure False,
     built ''map'' RolePure LabelPublic RevPure False,
     built ''fuzzy_find_best'' RolePure LabelPublic RevPure False,
     built ''hashline_read'' RolePure LabelPublic RevPure False,
     built ''hashline_edit'' RolePure LabelPublic RevPure False,
     built ''compact_list'' RolePure LabelPublic RevPure False,
     built ''budget_check'' RolePure LabelPublic RevPure False,
     built ''replay_snapshot'' RoleSource LabelInternal RevPure True,
     built ''policy_check'' RoleSource LabelInternal RevPure True,
     built ''semantic_search'' RoleSource LabelInternal RevPure True,
     built ''config_load'' RoleSource LabelInternal RevPure True,
     built ''vault_validate'' RolePure LabelPublic RevPure False,
     built ''todo_add'' RoleSink LabelInternal Reversible True,
     built ''todo_list'' RoleSource LabelInternal RevPure True,
     built ''todo_update'' RoleSink LabelInternal Reversible True,
     built ''goal_get'' RoleSource LabelInternal RevPure True,
     built ''goal_set'' RoleSink LabelInternal Reversible True,
     built ''goals_add'' RoleSink LabelInternal Reversible True,
     built ''goals_list'' RoleSource LabelInternal RevPure True,
     built ''remind'' RoleSink LabelInternal Reversible True,
     built ''get_profile'' RoleSource LabelInternal RevPure True,
     built ''human_mood'' RoleSource LabelInternal RevPure True,
     built ''ask_approval'' RoleSink LabelNetwork Irreversible True,
     built ''goal_complete'' RoleSink LabelInternal Reversible True,
     built ''goals_reflect'' RoleSink LabelInternal Reversible True,
     built ''cancel_remind'' RoleSink LabelInternal Reversible True,
     built ''check_reminders'' RoleSource LabelInternal RevPure True,
     built ''list_reminders'' RoleSource LabelInternal RevPure True,
     built ''remind_recurring'' RoleSink LabelInternal Reversible True,
     built ''human_create'' RoleSink LabelInternal Reversible True,
     built ''human_delete'' RoleSink LabelInternal Irreversible True,
     built ''human_forget'' RoleSink LabelInternal Irreversible True,
     built ''human_personas'' RoleSource LabelInternal RevPure True,
     built ''human_recall'' RoleSource LabelInternal RevPure True,
     built ''human_remember'' RoleSink LabelInternal Reversible True,
     built ''human_respond'' RoleSink LabelNetwork Irreversible True,
     built ''compress_html'' RolePure LabelPublic RevPure False,
     built ''estimate_tokens'' RolePure LabelPublic RevPure False,
     built ''extract_entities'' RolePure LabelPublic RevPure False,
     built ''extract_param'' RolePure LabelPublic RevPure False,
     built ''learn_preference'' RoleSink LabelInternal Reversible True,
     built ''read_file_tokens'' RoleSource LabelInternal RevPure True,
     built ''squeeze'' RolePure LabelPublic RevPure False,
     built ''to_int'' RolePure LabelPublic RevPure False,
     built ''pdf_classify'' RolePure LabelPublic RevPure False,
     built ''pdf_to_markdown'' RolePure LabelPublic RevPure False,
     built ''pdf_extract_regions'' RolePure LabelPublic RevPure False,
     built ''pdf_ocr'' RolePure LabelPublic RevPure False,
     built ''pdf_create'' RolePure LabelPublic RevPure False,
     built ''pdf_add_page'' RolePure LabelPublic RevPure False,
     built ''pdf_write_text'' RolePure LabelPublic RevPure False,
     built ''pdf_draw_line'' RolePure LabelPublic RevPure False,
     built ''pdf_draw_rect'' RolePure LabelPublic RevPure False,
     built ''pdf_save'' RolePure LabelPublic RevPure False,
     built ''pdf_merge'' RolePure LabelPublic RevPure False,
     built ''pdf_split'' RolePure LabelPublic RevPure False,
     built ''pdf_metadata'' RolePure LabelPublic RevPure False,
     built ''pdf_set_metadata'' RolePure LabelPublic RevPure False,
     built ''html_to_pdf'' RolePure LabelPublic RevPure False,
     built ''send_document'' RoleSink LabelNetwork Irreversible True,
     built ''sha256'' RoleLift LabelPublic RevPure True,
     built ''hmac_sha256'' RoleLift LabelPublic RevPure True,
     built ''hex_encode'' RolePure LabelPublic RevPure False,
     built ''hex_decode'' RolePure LabelPublic RevPure False,
     built ''secret'' RoleSource LabelSecret RevPure True,
     built ''regex_match'' RolePure LabelPublic RevPure False,
     built ''regex_captures'' RolePure LabelPublic RevPure False,
     built ''regex_replace'' RolePure LabelPublic RevPure False,
     built ''pdf_draw_table'' RolePure LabelPublic RevPure False,
     built ''pdf_add_image'' RolePure LabelPublic RevPure False,
     built ''pdf_set_page_header'' RolePure LabelPublic RevPure False,
     built ''pdf_set_page_footer'' RolePure LabelPublic RevPure False,
     built ''pdf_page_numbers'' RolePure LabelPublic RevPure False,
     built ''pdf_watermark'' RolePure LabelPublic RevPure False,
     built ''pdf_fill_form'' RolePure LabelPublic RevPure False,
     built ''pdf_rotate_page'' RolePure LabelPublic RevPure False,
     built ''pdf_delete_pages'' RolePure LabelPublic RevPure False,
     built ''pdf_extract_images'' RolePure LabelPublic RevPure False,
     built ''smtp_send'' RoleSink LabelNetwork Irreversible True,
     built ''smtp_send_html'' RoleSink LabelNetwork Irreversible True,
     built ''imap_list'' RoleSource LabelNetwork RevPure True,
     built ''imap_read'' RoleSource LabelNetwork RevPure True,
     built ''imap_search'' RoleSource LabelNetwork RevPure True,
     built ''imap_mark_read'' RoleSink LabelNetwork Reversible True,
     built ''imap_move'' RoleSink LabelNetwork Reversible True,
     built ''cal_connect'' RoleSource LabelNetwork RevPure True,
     built ''cal_list'' RoleSource LabelNetwork RevPure True,
     built ''cal_events'' RoleSource LabelNetwork RevPure True,
     built ''cal_read'' RoleSource LabelNetwork RevPure True,
     built ''cal_create'' RoleSink LabelNetwork Irreversible True,
     built ''cal_update'' RoleSink LabelNetwork Reversible True,
     built ''cal_delete'' RoleSink LabelNetwork Irreversible True,
     built ''cal_freebusy'' RoleSource LabelNetwork RevPure True,
     built ''ical_parse'' RolePure LabelPublic RevPure False,
     built ''ical_generate'' RolePure LabelPublic RevPure False,
     built ''card_connect'' RoleSource LabelNetwork RevPure True,
     built ''card_list'' RoleSource LabelNetwork RevPure True,
     built ''card_contacts'' RoleSource LabelNetwork RevPure True,
     built ''card_read'' RoleSource LabelNetwork RevPure True,
     built ''card_create'' RoleSink LabelNetwork Irreversible True,
     built ''card_update'' RoleSink LabelNetwork Reversible True,
     built ''card_delete'' RoleSink LabelNetwork Irreversible True,
     built ''card_search'' RoleSource LabelNetwork RevPure True,
     built ''vcard_parse'' RolePure LabelPublic RevPure False,
     built ''vcard_generate'' RolePure LabelPublic RevPure False,
     built ''svg_rect'' RolePure LabelPublic RevPure False,
     built ''svg_circle'' RolePure LabelPublic RevPure False,
     built ''svg_line'' RolePure LabelPublic RevPure False,
     built ''svg_text'' RolePure LabelPublic RevPure False,
     built ''svg_path'' RolePure LabelPublic RevPure False,
     built ''svg_group'' RolePure LabelPublic RevPure False,
     built ''svg_canvas'' RolePure LabelPublic RevPure False,
     built ''diagram_style'' RolePure LabelPublic RevPure False,
     built ''svg_sketchy_filter'' RolePure LabelPublic RevPure False,
     built ''svg_icon'' RolePure LabelPublic RevPure False,
     built ''svg_callout'' RolePure LabelPublic RevPure False,
     built ''chart_bar'' RolePure LabelPublic RevPure False,
     built ''chart_donut'' RolePure LabelPublic RevPure False,
     built ''chart_line'' RolePure LabelPublic RevPure False,
     built ''chart_scatter'' RolePure LabelPublic RevPure False,
     built ''chart_area'' RolePure LabelPublic RevPure False,
     built ''chart_radar'' RolePure LabelPublic RevPure False,
     built ''chart_heatmap'' RolePure LabelPublic RevPure False,
     built ''chart_boxplot'' RolePure LabelPublic RevPure False,
     built ''color_palette'' RolePure LabelPublic RevPure False,
     built ''svg_generate'' RolePure LabelPublic RevPure False,
     built ''svg_canvas_preset'' RolePure LabelPublic RevPure False]"

definition BUILTIN_CLASSES_4 :: "(string \<times> built_class) list" where
  "BUILTIN_CLASSES_4 =
    [built ''diagram_tree'' RolePure LabelPublic RevPure False,
     built ''diagram_org_chart'' RolePure LabelPublic RevPure False,
     built ''diagram_flowchart'' RolePure LabelPublic RevPure False,
     built ''diagram_layers'' RolePure LabelPublic RevPure False,
     built ''diagram_sequence'' RolePure LabelPublic RevPure False,
     built ''diagram_timeline'' RolePure LabelPublic RevPure False,
     built ''diagram_gantt'' RolePure LabelPublic RevPure False,
     built ''diagram_process'' RolePure LabelPublic RevPure False,
     built ''diagram_loop'' RolePure LabelPublic RevPure False,
     built ''diagram_venn'' RolePure LabelPublic RevPure False,
     built ''diagram_quadrant'' RolePure LabelPublic RevPure False,
     built ''diagram_pyramid'' RolePure LabelPublic RevPure False,
     built ''diagram_nested'' RolePure LabelPublic RevPure False,
     built ''diagram_medallion'' RolePure LabelPublic RevPure False,
     built ''diagram_er'' RolePure LabelPublic RevPure False,
     built ''diagram_state'' RolePure LabelPublic RevPure False,
     built ''diagram_swimlane'' RolePure LabelPublic RevPure False,
     built ''diagram_data_flow'' RolePure LabelPublic RevPure False,
     built ''diagram_high_level'' RolePure LabelPublic RevPure False,
     built ''diagram_architecture'' RolePure LabelPublic RevPure False,
     built ''template_render'' RoleLift LabelPublic RevPure True,
     built ''html_render'' RoleLift LabelPublic RevPure True,
     built ''infographic_qa'' RolePure LabelPublic RevPure False,
     built ''reflex_train'' RoleSink LabelInternal Reversible True,
     built ''reflex_predict'' RolePure LabelPublic RevPure False,
     built ''reflex_save'' RoleSink LabelInternal Reversible True,
     built ''reflex_load'' RoleSource LabelInternal RevPure True,
     built ''reflex_metrics'' RolePure LabelPublic RevPure False,
     built ''reflex_list'' RoleSource LabelInternal RevPure True,
     built ''attest_verify'' RoleSource LabelInternal RevPure True,
     built ''reflex_generate'' RoleSource LabelInternal RevPure True,
     built ''reflex_tokenize'' RolePure LabelPublic RevPure False,
     built ''reflex_detokenize'' RolePure LabelPublic RevPure False,
     built ''reflex_bpe_train'' RolePure LabelPublic RevPure False,
     built ''reflex_bpe_encode'' RolePure LabelPublic RevPure False,
     built ''reflex_bpe_decode'' RolePure LabelPublic RevPure False,
     built ''reflex_bpe_save'' RoleSink LabelInternal Reversible True,
     built ''reflex_bpe_load'' RoleSource LabelInternal RevPure True,
     built ''vision_generate'' RoleSink LabelInternal Reversible True,
     built ''vision_edit'' RoleSink LabelInternal Reversible True,
     built ''vision_export'' RoleSink LabelInternal Reversible True,
     built ''vision_export_raw'' RoleSink LabelInternal Reversible True,
     built ''vision_fetch_weights'' RoleSource LabelNetwork Reversible True,
     built ''vision_list'' RoleSource LabelInternal RevPure True,
     built ''vision_save'' RoleSink LabelInternal Reversible True,
     built ''vision_load'' RoleSource LabelInternal RevPure True,
     built ''vision_lora_load'' RoleSource LabelInternal RevPure True,
     built ''vision_lora_generate'' RoleSink LabelInternal Reversible True,
     built ''media_store_image'' RoleLift LabelInternal Reversible True,
     built ''media_store_audio'' RoleLift LabelInternal Reversible True,
     built ''media_store_video_frame'' RoleLift LabelInternal Reversible True,
     built ''media_store_video_segment'' RoleLift LabelInternal Reversible True,
     built ''media_save'' RoleSink LabelInternal Reversible True,
     built ''media_retain'' RolePure LabelPublic RevPure False,
     built ''media_release'' RolePure LabelPublic RevPure False,
     built ''media_meta'' RoleSource LabelPublic RevPure True,
     built ''media_source_capture'' RoleSource LabelInternal RevPure True,
     built ''media_bind_origin'' RolePure LabelPublic RevPure False,
     built ''backend_list'' RoleSource LabelPublic RevPure True,
     built ''backend_select'' RoleSource LabelInternal RevPure True,
     built ''media_manifest'' RoleSource LabelPublic RevPure True,
     built ''media_manifest_read'' RoleSource LabelInternal RevPure True,
     built ''canary_insert'' RoleSink LabelInternal Reversible True,
     built ''canary_check'' RoleSource LabelInternal RevPure True,
     built ''json_validate'' RolePure LabelPublic RevPure False,
     built ''memory_forget'' RoleSink LabelInternal Irreversible True,
     built ''user_profile'' RoleSource LabelInternal RevPure True,
     built ''text_chunk'' RolePure LabelPublic RevPure False,
     built ''llm_stream_open'' RoleSource LabelNetwork RevPure True,
     built ''llm_stream_next'' RoleSource LabelNetwork RevPure True,
     built ''llm_stream_close'' RoleSink LabelNetwork Reversible True,
     built ''server_path_param'' RoleSource LabelInternal RevPure True,
     built ''voice_enroll'' RoleSink LabelSecret Reversible True,
     built ''tts_speak'' RoleSink LabelInternal Reversible True,
     built ''audio_export'' RoleSink LabelInternal Reversible True,
     built ''voice_design'' RoleSink LabelInternal Reversible True,
     built ''voice_save'' RoleSink LabelInternal Reversible True,
     built ''voice_load'' RoleSource LabelInternal RevPure True,
     built ''video_render'' RoleSink LabelInternal Reversible True,
     built ''video_export'' RoleSink LabelInternal Reversible True,
     built ''av_mux'' RoleSink LabelInternal Reversible True,
     built ''frame_interp'' RoleSink LabelInternal Reversible True,
     built ''video_extend'' RoleSink LabelInternal Reversible True,
     built ''video_fetch_weights'' RoleSource LabelNetwork Reversible True,
     built ''video_understand'' RoleSource LabelInternal RevPure True,
     built ''stt_transcribe'' RoleSource LabelInternal RevPure True,
     built ''omni_ask'' RoleSource LabelInternal RevPure True,
     built ''vision_understand'' RoleSource LabelInternal RevPure True,
     built ''consent_grant'' RoleLift LabelPublic RevPure True,
     built ''consent_revoke'' RoleLift LabelPublic RevPure True,
     built ''quarantine_write'' RoleSink LabelInternal Reversible True,
     built ''consent_ledger_export'' RoleSink LabelInternal Reversible True,
     built ''grant_issue'' RolePure LabelPublic RevPure False,
     built ''grant_subgrant'' RolePure LabelPublic RevPure False,
     built ''grant_revoke'' RolePure LabelPublic RevPure False,
     built ''grant_use'' RolePure LabelPublic RevPure False,
     built ''db_execute_with_grant'' RolePure LabelPublic RevPure False,
     built ''deny_event'' RoleSource LabelInternal RevPure True,
     built ''deny_reason'' RoleSource LabelInternal RevPure True,
     built ''ledger_count'' RolePure LabelPublic RevPure False,
     built ''ledger_head'' RolePure LabelPublic RevPure False,
     built ''ledger_export'' RoleSink LabelInternal Reversible True,
     built ''ledger_export_intoto'' RoleSink LabelInternal Reversible True,
     built ''ledger_rotate'' RoleLift LabelPublic Irreversible True,
     built ''ledger_snapshot'' RoleLift LabelPublic Irreversible True,
     built ''likeness_challenge'' RoleLift LabelPublic RevPure True,
     built ''likeness_verify'' RoleLift LabelPublic RevPure True,
     built ''ocr_extract'' RoleSource LabelInternal RevPure True,
     built ''ledger_verify'' RoleSource LabelInternal RevPure True,
     built ''series_make'' RoleSource LabelInternal Reversible True,
     built ''series_pull'' RoleSource LabelNetwork Reversible True,
     built ''forecast_next'' RoleSource LabelInternal Reversible True,
     built ''forecast_state'' RoleSource LabelInternal RevPure True,
     built ''forecast_points'' RoleSource LabelInternal RevPure True,
     built ''memory_retain_ttl'' RoleSink LabelInternal Reversible True,
     built ''llm_last_finish_reason'' RoleSource LabelInternal RevPure True,
     built ''read_file_or'' RoleSource LabelInternal RevPure True,
     built ''to_float_or'' RolePure LabelPublic RevPure False,
     built ''to_int_or'' RolePure LabelPublic RevPure False,
     built ''voice_delete'' RoleSink LabelInternal Irreversible True,
     built ''voice_list'' RoleSource LabelInternal RevPure True,
     built ''lomb_scargle'' RolePure LabelPublic RevPure False,
     built ''spectral_peak'' RolePure LabelPublic RevPure False,
     built ''now_unix'' RoleSource LabelInternal RevPure True,
     built ''date_parse_iso'' RolePure LabelPublic RevPure False,
     built ''date_diff_days'' RolePure LabelPublic RevPure False,
     built ''date_format_iso'' RolePure LabelPublic RevPure False,
     built ''normal_sample'' RolePure LabelPublic RevPure False,
     built ''capability_state'' RoleSource LabelInternal RevPure True,
     built ''approval_issue'' RoleSink LabelInternal Reversible True,
     built ''approval_revoke'' RoleSink LabelInternal Reversible True]"

definition BUILTIN_CLASSES :: "(string \<times> built_class) list" where
  "BUILTIN_CLASSES = BUILTIN_CLASSES_1 @ BUILTIN_CLASSES_2 @ BUILTIN_CLASSES_3 @ BUILTIN_CLASSES_4"

definition classify :: "string \<Rightarrow> built_class option" where
  "classify name = map_option snd (find (\<lambda>e. fst e = name) BUILTIN_CLASSES)"

definition SQL_ARG_POSITIONS :: "(string \<times> nat) list" where
  "SQL_ARG_POSITIONS = [(''query'', 0), (''query_row'', 0), (''query_scalar'', 0), (''db_execute'', 0),
     (''db_execute_with_grant'', 1)]"

definition sql_arg_position :: "string \<Rightarrow> nat option" where
  "sql_arg_position name = map_option snd (find (\<lambda>(n, _). n = name) SQL_ARG_POSITIONS)"

end
