(* ===== verification/Exec_Gate.thy ===== *)
theory Exec_Gate
  imports Prelude
begin

text \<open>
  The execution context of \<open>src/builtins/io.rs\<close>: the thread marks set by the two guards, the
  process mode, the context they resolve to, and the gates of \<open>exec()\<close> and \<open>env()\<close> on the
  environment variables of the process. The guards are modelled by what their construction and
  their drop do to the marks of the current thread.
\<close>

section \<open>Context\<close>

datatype exec_context = Process | ServeRoute

datatype process_mode = ModeProcess | ModeServe

record host =
  ho_serve_route :: bool
  ho_toplevel :: bool
  ho_mode :: process_mode
  ho_env :: "string \<Rightarrow> string option"

definition set_process_mode :: "process_mode \<Rightarrow> host \<Rightarrow> host" where
  "set_process_mode mode H = H\<lparr>ho_mode := mode\<rparr>"

definition ServeRouteExecGuard_new :: "host \<Rightarrow> host" where
  "ServeRouteExecGuard_new H = H\<lparr>ho_serve_route := True\<rparr>"

definition ServeRouteExecGuard_drop :: "host \<Rightarrow> host" where
  "ServeRouteExecGuard_drop H = H\<lparr>ho_serve_route := False\<rparr>"

definition TopLevelRegistrationGuard_new :: "host \<Rightarrow> host" where
  "TopLevelRegistrationGuard_new H = H\<lparr>ho_toplevel := True\<rparr>"

definition TopLevelRegistrationGuard_drop :: "host \<Rightarrow> host" where
  "TopLevelRegistrationGuard_drop H = H\<lparr>ho_toplevel := False\<rparr>"

definition current_exec_context :: "host \<Rightarrow> exec_context" where
  "current_exec_context H =
     (if ho_serve_route H then ServeRoute
      else if ho_mode H = ModeServe \<and> \<not> ho_toplevel H then ServeRoute
      else Process)"

section \<open>Gates\<close>

datatype gate_refusal = EXEC_NOT_PERMITTED exec_context | ENV_NOT_PERMITTED string

text \<open>\<open>std::env::var(name).unwrap_or_default()\<close>.\<close>

definition env_or_default :: "host \<Rightarrow> string \<Rightarrow> string" where
  "env_or_default H name = (case ho_env H name of None \<Rightarrow> [] | Some v \<Rightarrow> v)"

definition exec_gate :: "host \<Rightarrow> exec_context \<Rightarrow> (gate_refusal, unit) result" where
  "exec_gate H context =
     (case context of
        ServeRoute \<Rightarrow>
          (if env_or_default H ''METALOGOS_SERVE_ALLOW_EXEC'' = ''1'' then Inr () else Inl (EXEC_NOT_PERMITTED ServeRoute))
      | Process \<Rightarrow>
          (if env_or_default H ''METALOGOS_ALLOW_EXEC'' = ''1'' then Inr () else Inl (EXEC_NOT_PERMITTED Process)))"

definition env_allowlist_contains :: "host \<Rightarrow> string \<Rightarrow> bool" where
  "env_allowlist_contains H key =
     (case ho_env H ''METALOGOS_ENV_ALLOWLIST'' of
        None \<Rightarrow> False
      | Some raw \<Rightarrow> list_ex (\<lambda>name. name \<noteq> [] \<and> name = key) (map trim (split_on CHR '','' raw)))"

definition env_gate :: "host \<Rightarrow> exec_context \<Rightarrow> string \<Rightarrow> (gate_refusal, unit) result" where
  "env_gate H context key =
     (case context of
        Process \<Rightarrow> Inr ()
      | ServeRoute \<Rightarrow>
          (if env_or_default H ''METALOGOS_SERVE_ALLOW_ENV'' = ''1'' then Inr ()
           else if env_allowlist_contains H key then Inr ()
           else Inl (ENV_NOT_PERMITTED key)))"

section \<open>Serve threads\<close>

datatype mark_op = EnterRoute | LeaveRoute | EnterTop | LeaveTop

fun run_mark :: "mark_op \<Rightarrow> host \<Rightarrow> host" where
  "run_mark EnterRoute H = ServeRouteExecGuard_new H"
| "run_mark LeaveRoute H = ServeRouteExecGuard_drop H"
| "run_mark EnterTop H = TopLevelRegistrationGuard_new H"
| "run_mark LeaveTop H = TopLevelRegistrationGuard_drop H"

lemmas guard_defs = ServeRouteExecGuard_new_def ServeRouteExecGuard_drop_def TopLevelRegistrationGuard_new_def
  TopLevelRegistrationGuard_drop_def set_process_mode_def

lemma run_mark_frame [simp]: "ho_mode (run_mark m H) = ho_mode H" "ho_env (run_mark m H) = ho_env H"
  by (cases m; simp add: guard_defs)+

lemma fold_marks_frame [simp]:
  "ho_mode (fold run_mark ms H) = ho_mode H" "ho_env (fold run_mark ms H) = ho_env H"
  by (induction ms arbitrary: H) simp_all

lemma fold_marks_toplevel:
  "\<not> ho_toplevel H \<Longrightarrow> EnterTop \<notin> set ms \<Longrightarrow> \<not> ho_toplevel (fold run_mark ms H)"
proof (induction ms arbitrary: H)
  case (Cons m ms)
  then have "\<not> ho_toplevel (run_mark m H)" by (cases m) (auto simp: guard_defs)
  with Cons show ?case by simp
qed simp

lemma exec_gate_ok:
  "exec_gate H context = Inr () \<longleftrightarrow>
     ho_env H (case context of ServeRoute \<Rightarrow> ''METALOGOS_SERVE_ALLOW_EXEC'' | Process \<Rightarrow> ''METALOGOS_ALLOW_EXEC'') = Some ''1''"
  by (auto simp: exec_gate_def env_or_default_def split: exec_context.splits option.splits)

lemma env_gate_ok:
  "env_gate H ServeRoute key = Inr () \<longleftrightarrow> ho_env H ''METALOGOS_SERVE_ALLOW_ENV'' = Some ''1'' \<or> key \<noteq> []
     \<and> (\<exists>raw. ho_env H ''METALOGOS_ENV_ALLOWLIST'' = Some raw \<and> key \<in> trim ` set (split_on CHR '','' raw))"
  by (auto simp: env_gate_def env_or_default_def env_allowlist_contains_def list_ex_iff split: option.splits)

text \<open>
  Serve threads are strict by default. In a serving process, a thread that no top-level
  registration guard has marked resolves to the route context after any sequence of route guards
  entered and left, nested or not. Such a thread may execute commands exactly when the serve flag is
  set, whatever the process flag says, and may read an environment variable exactly when reading is
  opened for routes or the name is on the allowlist.
\<close>

theorem serve_thread_strict:
  assumes "ho_mode H = ModeServe" "\<not> ho_toplevel H" "EnterTop \<notin> set ms"
  shows "let H' = fold run_mark ms H in current_exec_context H' = ServeRoute
    \<and> (exec_gate H' (current_exec_context H') = Inr () \<longleftrightarrow> ho_env H ''METALOGOS_SERVE_ALLOW_EXEC'' = Some ''1'')
    \<and> (env_gate H' (current_exec_context H') key = Inr () \<longleftrightarrow> ho_env H ''METALOGOS_SERVE_ALLOW_ENV'' = Some ''1'' \<or> key \<noteq> []
         \<and> (\<exists>raw. ho_env H ''METALOGOS_ENV_ALLOWLIST'' = Some raw \<and> key \<in> trim ` set (split_on CHR '','' raw)))"
proof -
  have "current_exec_context (fold run_mark ms H) = ServeRoute"
    using fold_marks_toplevel [OF assms(2,3)] assms(1) by (simp add: current_exec_context_def)
  then show ?thesis by (simp add: exec_gate_ok env_gate_ok)
qed

definition demo_host :: host where
  "demo_host = \<lparr>ho_serve_route = False, ho_toplevel = False, ho_mode = ModeServe,
      ho_env = [''METALOGOS_ALLOW_EXEC'' \<mapsto> ''1'', ''METALOGOS_ENV_ALLOWLIST'' \<mapsto> ''HOME, LANG'']\<rparr>"

theorem serve_thread_strict_witness:
  "let H = fold run_mark [EnterRoute, LeaveRoute] demo_host
   in exec_gate H (current_exec_context H) \<noteq> Inr () \<and> env_gate H (current_exec_context H) ''LANG'' = Inr ()"
proof -
  have "ho_mode demo_host = ModeServe" "\<not> ho_toplevel demo_host" "EnterTop \<notin> set [EnterRoute, LeaveRoute]"
    by (simp_all add: demo_host_def)
  from serve_thread_strict [OF this, of "''LANG''"] show ?thesis
    by (auto simp: Let_def demo_host_def trim_def is_whitespace_def simp del: fold_simps)
qed

end
