(* ===== verification/Capability.thy ===== *)
theory Capability
  imports Grants_Properties Approval Classification Exec_Gate
begin

text \<open>
  \<open>src/capability.rs\<close>: the typed view over a grant, the dispositions of the irreversible builtins,
  the permits a program declares, and the decision made before every builtin call. The decision
  composes the permits, the execution context, the grants table and the approval gate. Its clock
  readings are \<open>clk k i\<close>: reading \<open>i\<close> of the lookup (\<open>k = 0\<close>), of the use (\<open>k = 1\<close>) and of the
  approval gate (\<open>k = 2\<close>).
\<close>

section \<open>The view\<close>

definition CAPABILITY_TYPE :: string where
  "CAPABILITY_TYPE = ''Capability''"

definition CAPABILITY_STATE_TYPE :: string where
  "CAPABILITY_STATE_TYPE = ''CapabilityState''"

definition mint_view :: "grant_handle \<Rightarrow> i64 \<Rightarrow> runtime_value" where
  "mint_view handle remaining =
     VStruct CAPABILITY_TYPE
       [''scope'' \<mapsto> VString (gh_scope handle),
        ''class'' \<mapsto> VString (as_ledger_str (gh_class handle)),
        ''ttl'' \<mapsto> VFloat (f64_of_u64 (gh_expires_at handle)),
        ''quota'' \<mapsto> VFloat (f64_of_i64 remaining),
        ''revoked'' \<mapsto> VBool False,
        ''grant'' \<mapsto> VGrant handle]"

fun is_capability :: "runtime_value \<Rightarrow> bool" where
  "is_capability (VStruct t _) = (t = CAPABILITY_TYPE)"
| "is_capability _ = False"

fun grant_from_value :: "runtime_value \<Rightarrow> grant_handle option" where
  "grant_from_value (VGrant h) = Some h"
| "grant_from_value (VStruct t fs) =
     (if t = CAPABILITY_TYPE then (case fs ''grant'' of Some (VGrant h) \<Rightarrow> Some h | _ \<Rightarrow> None) else None)"
| "grant_from_value _ = None"

definition state_view :: "grant_handle \<Rightarrow> 'a grants_world_scheme \<Rightarrow> (grant_error, runtime_value) result" where
  "state_view handle w =
     (case record_of (gh_grant_id handle) w of
        Inl e \<Rightarrow> Inl e
      | Inr rec \<Rightarrow> Inr (VStruct CAPABILITY_STATE_TYPE
          [''scope'' \<mapsto> VString (rec_scope rec),
           ''class'' \<mapsto> VString (as_ledger_str (rec_class rec)),
           ''ttl'' \<mapsto> VFloat (f64_of_u64 (rec_expires_at rec)),
           ''quota'' \<mapsto> VFloat (f64_of_i64 (rec_remaining rec)),
           ''revoked'' \<mapsto> VBool (rec_state rec = ''revoked''),
           ''state'' \<mapsto> VString (rec_state rec)]))"

fun cap_initial_remaining :: "grant_class \<Rightarrow> i64" where
  "cap_initial_remaining Once = 1"
| "cap_initial_remaining (GrantN k) = as_i64 k"
| "cap_initial_remaining Unlimited = -1"

section \<open>Dispositions\<close>

datatype disposition = GrantAlways | ProfilePermit

definition GRANT_ALWAYS :: "string list" where
  "GRANT_ALWAYS = [''memory_forget_cascade'', ''forget'']"

definition PROFILE_PERMIT_SHARP :: "string list" where
  "PROFILE_PERMIT_SHARP =
     [''exec'', ''exec_argv'', ''delete_file'', ''git_push'', ''http_post'', ''http_post_multipart'',
      ''send_message'', ''send_photo'', ''send_document'', ''smtp_send'', ''smtp_send_html'', ''tts_send'']"

definition BASELINE_STANDARD :: "string list" where
  "BASELINE_STANDARD =
     [''print'', ''respond'', ''respond_html'', ''respond_html_status'', ''respond_html_doc'', ''human_respond'',
      ''ask_approval'', ''answer_callback_query'', ''sleep'', ''db_insert'', ''db_execute'', ''kv_delete'',
      ''mem_delete'', ''session_clear'', ''memory_export'', ''memory_prune'', ''memory_forget'', ''mtree_forget'',
      ''voice_delete'', ''human_delete'', ''human_forget'', ''cron_remove'', ''cron_run'', ''cal_create'',
      ''cal_delete'', ''card_create'', ''card_delete'', ''ledger_rotate'', ''ledger_snapshot'']"

definition disposition_of :: "string \<Rightarrow> disposition option" where
  "disposition_of name =
     (case classify name of
        None \<Rightarrow> None
      | Some cls \<Rightarrow>
          if bc_reversibility cls \<noteq> Irreversible then None
          else if name \<in> set GRANT_ALWAYS then Some GrantAlways
          else if name \<in> set PROFILE_PERMIT_SHARP then Some ProfilePermit
          else Some ProfilePermit)"

definition is_carrier_name :: "string \<Rightarrow> bool" where
  "is_carrier_name word \<longleftrightarrow> word \<in> set GRANT_ALWAYS \<or> disposition_of word \<noteq> None"

section \<open>Permits\<close>

text \<open>The permit roster is a hash set of names. Of the declarations of a program, only the profiles
  are inspected here.\<close>

type_synonym capability_permits = "string set"

record profile_decl =
  pd_name :: string
  pd_options :: "(string \<times> string) list"

datatype program_decl = DeclProfile profile_decl | DeclOther

definition allow_carrier :: "capability_permits \<Rightarrow> string \<Rightarrow> bool" where
  "allow_carrier permits name \<longleftrightarrow> name \<in> permits"

definition merge_union :: "capability_permits \<Rightarrow> capability_permits \<Rightarrow> capability_permits" where
  "merge_union self other = self \<union> other"

fun permits_of_decl :: "program_decl \<Rightarrow> string list" where
  "permits_of_decl (DeclProfile p) =
     (if pd_name p = ''capability'' then map snd (filter (\<lambda>(k, _). k = ''allow_carrier'') (pd_options p)) else [])"
| "permits_of_decl DeclOther = []"

definition permits_from_declarations :: "program_decl list \<Rightarrow> capability_permits" where
  "permits_from_declarations decls = set (concat (map permits_of_decl decls))"

section \<open>The decision\<close>

definition host_permitted :: "host \<Rightarrow> string \<Rightarrow> bool" where
  "host_permitted H name =
     (if name \<noteq> ''exec'' \<and> name \<noteq> ''exec_argv'' then False
      else case current_exec_context H of
        ServeRoute \<Rightarrow> ho_env H ''METALOGOS_SERVE_ALLOW_EXEC'' = Some ''1''
      | Process \<Rightarrow> ho_env H ''METALOGOS_ALLOW_EXEC'' = Some ''1'')"

text \<open>The refusal names the carrier and, for the exec class, the flag of the current context.\<close>

datatype call_refusal = IRREVERSIBLE_NO_GRANT string "exec_context option" | OversightRefusal approval_error

definition refusal :: "host \<Rightarrow> string \<Rightarrow> call_refusal" where
  "refusal H name =
     IRREVERSIBLE_NO_GRANT name
       (if name = ''exec'' \<or> name = ''exec_argv'' then Some (current_exec_context H) else None)"

definition builtin_scope :: "string \<Rightarrow> string" where
  "builtin_scope name = ''builtin:'' @ name"

definition consume_note :: "string \<Rightarrow> string" where
  "consume_note name = ''capability gate consume for '' @ name"

definition authorize_capability_call ::
  "crypto \<Rightarrow> (nat \<Rightarrow> nat \<Rightarrow> u64) \<Rightarrow> host \<Rightarrow> string \<Rightarrow> capability_permits \<Rightarrow> 'a grants_world_scheme
     \<Rightarrow> (call_refusal, unit) result \<times> 'a grants_world_scheme"
where
  "authorize_capability_call C clk H name permits w =
     (if disposition_of name \<noteq> Some ProfilePermit then (Inr (), w)
      else if allow_carrier permits name then (Inr (), w)
      else if host_permitted H name then (Inr (), w)
      else if name \<in> set BASELINE_STANDARD then (Inr (), w)
      else
        case lookup_active_covering (clk 0) (builtin_scope name) w of
          Some handle \<Rightarrow>
            (case grant_use C (clk 1) handle (consume_note name) w of
               (Inr _, w') \<Rightarrow> (Inr (), w')
             | (Inl _, w') \<Rightarrow> (Inl (refusal H name), w'))
        | None \<Rightarrow> (Inl (refusal H name), w))"

definition authorize_call ::
  "crypto \<Rightarrow> (nat \<Rightarrow> nat \<Rightarrow> u64) \<Rightarrow> host \<Rightarrow> string \<Rightarrow> capability_permits \<Rightarrow> 'a approval_world_scheme
     \<Rightarrow> (call_refusal, unit) result \<times> 'a approval_world_scheme"
where
  "authorize_call C clk H name permits w =
     (case authorize_capability_call C clk H name permits w of
        (Inl e, w') \<Rightarrow> (Inl e, w')
      | (Inr _, w') \<Rightarrow>
          (case authorize_overseen_call C (clk 2 0) name w' of
             Inl e \<Rightarrow> (Inl (OversightRefusal e), w')
           | Inr _ \<Rightarrow> (Inr (), w')))"

section \<open>The rosters against the classification\<close>

definition carrier_roster :: "string list" where
  "carrier_roster = GRANT_ALWAYS @ PROFILE_PERMIT_SHARP @ BASELINE_STANDARD"

lemmas roster_defs = carrier_roster_def GRANT_ALWAYS_def PROFILE_PERMIT_SHARP_def BASELINE_STANDARD_def

definition irreversible_names :: "(string \<times> built_class) list \<Rightarrow> string list" where
  "irreversible_names es = map fst (filter (\<lambda>e. bc_reversibility (snd e) = Irreversible) es)"

definition classes_agree :: "string \<times> built_class \<Rightarrow> bool" where
  "classes_agree e \<longleftrightarrow> (bc_reversibility (snd e) = Irreversible) = (fst e \<in> set carrier_roster)"

lemma roster_distinct: "distinct carrier_roster"
  by code_simp

lemma irreversible_1: "irreversible_names BUILTIN_CLASSES_1 =
    [''db_insert'', ''print'', ''delete_file'', ''exec'', ''exec_argv'', ''git_push'', ''respond'',
     ''respond_html'', ''respond_html_status'', ''respond_html_doc'', ''http_post'', ''http_post_multipart'']"
  by code_simp

lemma classes_agree_1: "list_all classes_agree BUILTIN_CLASSES_1"
  by code_simp

lemma irreversible_2: "irreversible_names BUILTIN_CLASSES_2 =
    [''session_clear'', ''send_message'', ''send_photo'', ''answer_callback_query'', ''tts_send'',
     ''db_execute'', ''kv_delete'', ''mem_delete'', ''memory_export'', ''memory_forget_cascade'', ''forget'',
     ''sleep'', ''memory_prune'', ''mtree_forget'', ''cron_remove'', ''cron_run'']"
  by code_simp

lemma classes_agree_2: "list_all classes_agree BUILTIN_CLASSES_2"
  by code_simp

lemma irreversible_3: "irreversible_names BUILTIN_CLASSES_3 =
    [''ask_approval'', ''human_delete'', ''human_forget'', ''human_respond'', ''send_document'',
     ''smtp_send'', ''smtp_send_html'', ''cal_create'', ''cal_delete'', ''card_create'', ''card_delete'']"
  by code_simp

lemma classes_agree_3: "list_all classes_agree BUILTIN_CLASSES_3"
  by code_simp

lemma irreversible_4: "irreversible_names BUILTIN_CLASSES_4 =
    [''memory_forget'', ''ledger_rotate'', ''ledger_snapshot'', ''voice_delete'']"
  by code_simp

lemma classes_agree_4: "list_all classes_agree BUILTIN_CLASSES_4"
  by code_simp

lemmas irreversible_pieces = irreversible_1 irreversible_2 irreversible_3 irreversible_4

lemmas classes_agree_pieces = classes_agree_1 classes_agree_2 classes_agree_3 classes_agree_4

lemma irreversible_names_append [simp]:
  "irreversible_names (xs @ ys) = irreversible_names xs @ irreversible_names ys"
  by (simp add: irreversible_names_def)

lemma roster_named: "set carrier_roster \<subseteq> set (irreversible_names BUILTIN_CLASSES)"
  by (simp add: BUILTIN_CLASSES_def irreversible_pieces roster_defs)

lemma roster_classified: "n \<in> set carrier_roster \<Longrightarrow> n \<in> fst ` set BUILTIN_CLASSES"
  using roster_named by (auto simp: irreversible_names_def)

lemma table_agrees: "e \<in> set BUILTIN_CLASSES \<Longrightarrow> classes_agree e"
  using classes_agree_pieces by (auto simp: BUILTIN_CLASSES_def list_all_iff)

lemma classify_Some: "classify n = Some c \<Longrightarrow> (n, c) \<in> set BUILTIN_CLASSES"
  by (auto simp: classify_def find_Some_iff) (metis fst_conv nth_mem)

lemma classify_None: "classify n = None \<longleftrightarrow> n \<notin> fst ` set BUILTIN_CLASSES"
  by (auto simp: classify_def find_None_iff image_iff)

lemma irreversible_iff_roster:
  "(\<exists>c. classify n = Some c \<and> bc_reversibility c = Irreversible) \<longleftrightarrow> n \<in> set carrier_roster"
proof
  assume "n \<in> set carrier_roster"
  moreover from this obtain c where c: "classify n = Some c"
    using roster_classified classify_None by (metis not_None_eq)
  ultimately show "\<exists>c. classify n = Some c \<and> bc_reversibility c = Irreversible"
    using table_agrees [OF classify_Some [OF c]] by (simp add: classes_agree_def)
next
  assume "\<exists>c. classify n = Some c \<and> bc_reversibility c = Irreversible"
  then obtain c where "(n, c) \<in> set BUILTIN_CLASSES" "bc_reversibility c = Irreversible"
    using classify_Some by blast
  with table_agrees [of "(n, c)"] show "n \<in> set carrier_roster" by (simp add: classes_agree_def)
qed

lemma disposition_roster:
  "disposition_of n = (if n \<in> set GRANT_ALWAYS then Some GrantAlways
     else if n \<in> set carrier_roster then Some ProfilePermit else None)"
proof (cases "n \<in> set carrier_roster")
  case True
  with irreversible_iff_roster [of n] show ?thesis by (auto simp: disposition_of_def)
next
  case False
  then have "n \<notin> set GRANT_ALWAYS" by (simp add: carrier_roster_def)
  with False irreversible_iff_roster [of n] show ?thesis
    by (auto simp: disposition_of_def split: option.splits)
qed

end
