(* ===== verification/Capability_Gate.thy ===== *)
theory Capability_Gate
  imports Capability
begin

text \<open>
  The decision before a builtin call over every run of the security kernel: grants issued, split,
  used and revoked, mandates issued and withdrawn, actions recorded in the ledger, and the decisions
  themselves, which may consume a use. The calls that change the state are the sharp carriers authorized by a grant, and no others.
\<close>

section \<open>Runs of the kernel\<close>

definition kernel_start :: "'a approval_world_scheme \<Rightarrow> bool" where
  "kernel_start w \<longleftrightarrow> grants_start w"

inductive kernel_step :: "crypto \<Rightarrow> 'a approval_world_scheme \<Rightarrow> 'a approval_world_scheme \<Rightarrow> bool" for C where
  step_grants: "grants_step C w w' \<Longrightarrow> kernel_step C w w'"
| step_mandate: "kernel_step C w (run_mandate_op C op w)"
| step_reset: "kernel_step C w (mandate_store_reset w)"
| step_gate: "kernel_step C w (snd (authorize_call C clk H name permits w))"
| step_journal: "kernel_step C w (w\<lparr>w_ledger := record_action C now action actor scope detail (w_ledger w)\<rparr>)"

abbreviation kernel_run :: "crypto \<Rightarrow> 'a approval_world_scheme \<Rightarrow> bool" where
  "kernel_run C \<equiv> reach kernel_start (kernel_step C)"

lemma w_grants_mandate [simp]:
  "w_grants (run_mandate_op C op w) = w_grants w" "w_grants (mandate_store_reset w) = w_grants w"
  by (cases op; auto simp: mandate_issue_def mandate_revoke_def mandate_store_reset_def Let_def
      split: option.splits prod.splits)+

lemma world_ok_cong: "w_grants v = w_grants w \<Longrightarrow> world_ok v = world_ok w"
  by (simp add: world_ok_def world_rows_def world_events_def)

lemma refused_use_keeps: "grant_use C clk h nt w = (Inl e, w') \<Longrightarrow> w' = w"
  by (cases rule: grant_use_cases [of C clk h nt w]) auto

lemma capability_call_trivial:
  assumes "name \<notin> set PROFILE_PERMIT_SHARP \<or> name \<in> permits \<or> host_permitted H name"
  shows "authorize_capability_call C clk H name permits w = (Inr (), w)"
proof (cases "disposition_of name = Some ProfilePermit \<and> name \<notin> permits \<and> \<not> host_permitted H name")
  case True
  with assms have "name \<notin> set PROFILE_PERMIT_SHARP" by blast
  moreover from True have "name \<in> set carrier_roster" "name \<notin> set GRANT_ALWAYS"
    by (auto simp: disposition_roster split: if_splits)
  ultimately have "name \<in> set BASELINE_STANDARD" by (simp add: carrier_roster_def)
  then show ?thesis by (simp add: authorize_capability_call_def)
next
  case False
  then show ?thesis by (auto simp: authorize_capability_call_def allow_carrier_def)
qed

lemma sharp_disposed:
  assumes "name \<in> set PROFILE_PERMIT_SHARP"
  shows "disposition_of name = Some ProfilePermit" "name \<notin> set BASELINE_STANDARD"
  using assms roster_distinct by (auto simp: disposition_roster carrier_roster_def)

lemma capability_call_sharp:
  assumes "name \<in> set PROFILE_PERMIT_SHARP" "name \<notin> permits" "\<not> host_permitted H name"
  shows "authorize_capability_call C clk H name permits w =
      (case lookup_active_covering (clk 0) (builtin_scope name) w of
         Some handle \<Rightarrow> (case grant_use C (clk 1) handle (consume_note name) w of
            (Inr _, w') \<Rightarrow> (Inr (), w') | (Inl _, _) \<Rightarrow> (Inl (refusal H name), w))
       | None \<Rightarrow> (Inl (refusal H name), w))"
  using assms sharp_disposed [OF assms(1)]
  by (auto simp: authorize_capability_call_def allow_carrier_def split: option.splits prod.splits sum.splits
      dest: refused_use_keeps)

lemma capability_call_world:
  "snd (authorize_capability_call C clk H name permits w) = w \<or>
   (\<exists>h nt. snd (authorize_capability_call C clk H name permits w) = snd (grant_use C (clk 1) h nt w))"
proof (cases "name \<in> set PROFILE_PERMIT_SHARP \<and> name \<notin> permits \<and> \<not> host_permitted H name")
  case True
  then have s: "name \<in> set PROFILE_PERMIT_SHARP" "name \<notin> permits" "\<not> host_permitted H name" by simp_all
  show ?thesis
    unfolding capability_call_sharp [OF s] by (auto split: option.split prod.split sum.split) (metis snd_conv)
qed (auto simp: capability_call_trivial)

lemma authorize_call_world:
  "snd (authorize_call C clk H name permits w) = snd (authorize_capability_call C clk H name permits w)"
  by (auto simp: authorize_call_def split: prod.splits sum.splits)

lemma kernel_step_ok:
  assumes ok: "world_ok w" and st: "kernel_step C w w'"
  shows "world_ok w'"
  using st
proof cases
  case step_grants
  with ok show ?thesis by (rule grants_system.step_inv)
next
  case (step_gate clk H name permits)
  then show ?thesis
    using ok capability_call_world [of C clk H name permits w] use_ok [OF ok, of C "clk 1"]
    by (auto simp: authorize_call_world)
qed (simp_all add: world_ok_cong ok)

interpretation kernel_system: invariant_system kernel_start "kernel_step C" world_ok for C
proof
  show "kernel_start w \<Longrightarrow> world_ok w" for w :: "'a approval_world_scheme"
    unfolding kernel_start_def by (rule grants_system.init_inv)
qed (rule kernel_step_ok)

section \<open>What a use through the gate consumes\<close>

definition spent :: "grant_row \<Rightarrow> grant_row" where
  "spent r = (case row_class r of
       Once \<Rightarrow> r\<lparr>gr_state := ''consumed'', gr_remaining := 0\<rparr>
     | GrantN _ \<Rightarrow> r\<lparr>gr_remaining := gr_remaining r - 1\<rparr>
     | Unlimited \<Rightarrow> r)"

lemma spent_eq:
  assumes "row_ok r" "gr_state r \<noteq> ''revoked''" "gr_state r \<noteq> ''consumed''" "gr_remaining r \<noteq> 0"
    "(s, m) = (case row_class r of Once \<Rightarrow> (''consumed'', 0) | GrantN _ \<Rightarrow> (''active'', i64_sub (gr_remaining r) 1)
       | Unlimited \<Rightarrow> (''active'', -1))"
  shows "r\<lparr>gr_state := s, gr_remaining := m\<rparr> = spent r"
proof -
  have act: "gr_state r = ''active''" using assms(1-3) by (auto simp: row_ok_def)
  show ?thesis
  proof (cases "row_class r")
    case Once
    with assms(5) show ?thesis by (simp add: spent_def)
  next
    case (GrantN k)
    then have "0 < gr_remaining r" "gr_remaining r \<le> int k" "k < 2 ^ 63"
      using assms(1,4) by (auto simp: row_ok_def class_tame_def)
    then have "m = gr_remaining r - 1" using assms(5) GrantN by (simp add: i64_sub_def wrap_i64_id)
    with act GrantN assms(5) show ?thesis by (cases r) (simp add: spent_def)
  next
    case Unlimited
    with assms(1) have "gr_remaining r = -1" by (simp add: row_ok_def)
    with act Unlimited assms(5) show ?thesis by (cases r) (simp add: spent_def)
  qed
qed

lemma use_effect:
  assumes ok: "world_ok w" and r: "r \<in> set (world_rows w)" "gh_grant_id h = gr_id r"
    and u: "grant_use C clk h nt w = (Inr m, w')"
  shows "clk 0 < as_u64 (gr_expires_at r) \<and> world_rows w' = map (\<lambda>q. if q = r then spent r else q) (world_rows w)
    \<and> (\<forall>x. uses_of (world_events w') x = uses_of (world_events w) x + (if x = gr_id r then 1 else 0))"
proof (cases rule: grant_use_cases [of C clk h nt w])
  case refused
  with u show ?thesis by simp
next
  case (used db q s k)
  have d: "distinct (map gr_id (world_rows w))" using ok by (auto simp: world_ok_def dest: grants_okD)
  have "q = r" using used(2) r d by (metis distinct_id_eq find_row_SomeD)
  note used = used [unfolded this]
  have "row_ok r" using ok r by (auto simp: world_ok_def dest: grants_okD)
  then have sp: "r\<lparr>gr_state := s, gr_remaining := k\<rparr> = spent r"
    by (rule spent_eq) (use used(3,4) in \<open>simp_all add: check_record_ok\<close>)
  have "(if gr_id q = gr_id r then q\<lparr>gr_state := s, gr_remaining := k\<rparr> else q) = (if q = r then spent r else q)"
    if "q \<in> set (world_rows w)" for q
    using distinct_id_eq [OF d that r(1)] sp by auto
  then have rows: "update_rows (gr_id r) (\<lambda>r. r\<lparr>gr_state := s, gr_remaining := k\<rparr>) (world_rows w)
      = map (\<lambda>q. if q = r then spent r else q) (world_rows w)"
    by (simp add: update_rows_def)
  have w': "w' = record_event C (clk 1) (clk 2) ''used'' (gr_id r) (gr_scope r)
      (as_ledger_str (row_class r)) k nt (on_rows (update_rows (gr_id r) (\<lambda>r. r\<lparr>gr_state := s, gr_remaining := k\<rparr>)) w)"
    using used(5) u r(2) by simp
  have "uses_of (world_events w') x = uses_of (world_events w) x + (if x = gr_id r then 1 else 0)" for x
  proof -
    have "w_grants (on_rows (update_rows (gr_id r) (\<lambda>r. r\<lparr>gr_state := s, gr_remaining := k\<rparr>)) w) \<noteq> None"
      using used(1) by simp
    from world_events_record_event [OF this] obtain e where
      "ge_kind e = ''used''" "ge_grant_id e = gr_id r" "world_events w' = world_events w @ [e]"
      unfolding w' world_events_on_rows by blast
    then show ?thesis by auto
  qed
  moreover have "clk 0 < as_u64 (gr_expires_at r)" using used(3) by (simp add: check_record_ok)
  ultimately show ?thesis by (simp add: w' rows)
qed

lemma covering_usable:
  assumes ok: "world_ok w" and r: "r \<in> set (world_rows w)" "covering now scope r" and t: "clk 0 = now"
  shows "\<exists>m w'. grant_use C clk (handle_of r) nt w = (Inr m, w')"
proof (cases rule: grant_use_cases [of C clk "handle_of r" nt w])
  case (refused e)
  have d: "distinct (map gr_id (world_rows w))" and "row_ok r"
    using ok r by (auto simp: world_ok_def dest: grants_okD)
  then have "check_record now (record_of_row r) = Inr ()"
    using r(2) by (auto simp: check_record_ok covering_def row_ok_def)
  moreover obtain db where "w_grants w = Some db" "gd_rows db = world_rows w"
    using r(1) by (cases "w_grants w") (simp_all add: world_rows_def)
  moreover have "find_row (gr_id r) (world_rows w) = Some r" using find_row_unique [OF d] r(1) by simp
  ultimately have "\<exists>m w'. grant_use C clk (handle_of r) nt w = (Inr m, w')"
    using t by (auto simp: grant_use_def with_grants_def load_record_def handle_of_def Let_def split: grant_class.splits)
  then show ?thesis .
qed blast

section \<open>A run for the witnesses\<close>

definition demo_k0 :: approval_world where
  "demo_k0 = demo_mandates (Some [])"

definition demo_k1 :: approval_world where
  "demo_k1 = snd (issue sample_crypto (\<lambda>_. 5) 7 ''builtin:*'' 100 (GrantN 3) ''program'' demo_k0)"

definition demo_k :: grant_row where
  "demo_k = \<lparr>gr_id = next_grant_id 7 0, gr_parent_id = None, gr_scope = ''builtin:*'', gr_class = ''n:3'',
     gr_remaining = 3, gr_issued_at = 5, gr_expires_at = 105, gr_issuer = ''program'', gr_state = ''active''\<rparr>"

definition closed_host :: host where
  "closed_host = \<lparr>ho_serve_route = False, ho_toplevel = False, ho_mode = ModeProcess, ho_env = (\<lambda>_. None)\<rparr>"

lemma demo_k1_run: "kernel_run sample_crypto demo_k1"
proof -
  have "kernel_run sample_crypto demo_k0"
    by (rule reach_init)
      (simp add: kernel_start_def grants_start_def demo_k0_def demo_mandates_def world_rows_def world_events_def)
  then show ?thesis
    unfolding demo_k1_def by (rule reach_step) (rule step_grants, rule step_issue, simp add: class_tame_def)
qed

lemma demo_k1_rows: "world_rows demo_k1 = [demo_k]"
  by (simp add: demo_k1_def demo_k0_def demo_k_def demo_mandates_def issue_def insert_row_def Let_def with_grants_def
      world_rows_def record_event_def on_rows_def find_row_def u64_add_def as_i64_def wrap_i64_def show_base.simps digit_char_def
      trim_def is_whitespace_def)

lemma demo_k_covers: "covering 6 (builtin_scope ''exec'') demo_k"
  by (simp add: covering_def demo_k_def as_u64_def scope_attenuates_def eq_ignore_ascii_case_def builtin_scope_def
      row_class_def demo_class)

lemma closed_host_shut: "\<not> host_permitted closed_host name"
  by (simp add: host_permitted_def closed_host_def split: exec_context.splits)

lemma exec_sharp: "''exec'' \<in> set PROFILE_PERMIT_SHARP" "''print'' \<notin> set PROFILE_PERMIT_SHARP"
  by (simp_all add: PROFILE_PERMIT_SHARP_def)

section \<open>The decision\<close>

lemma oversight_not_sharp: "name \<in> set PROFILE_PERMIT_SHARP \<Longrightarrow> authorize_overseen_call C t name w = Inr ()"
  by (auto simp: PROFILE_PERMIT_SHARP_def HUMAN_OVERSIGHT_def authorize_overseen_call_def)

text \<open>
  C31. Every irreversible builtin has exactly one disposition. The classification table marks a
  builtin irreversible exactly when one of the three rosters lists it, the rosters are disjoint and
  without repetition, and the disposition is the one of its roster: a grant always for the destroy
  class, a permit for the others, none for every other name.
\<close>

theorem dispositions_total_disjoint:
  "distinct (GRANT_ALWAYS @ PROFILE_PERMIT_SHARP @ BASELINE_STANDARD)
   \<and> ((\<exists>c. classify name = Some c \<and> bc_reversibility c = Irreversible) \<longleftrightarrow>
        name \<in> set (GRANT_ALWAYS @ PROFILE_PERMIT_SHARP @ BASELINE_STANDARD))
   \<and> (disposition_of name = Some GrantAlways \<longleftrightarrow> name \<in> set GRANT_ALWAYS)
   \<and> (disposition_of name = Some ProfilePermit \<longleftrightarrow> name \<in> set PROFILE_PERMIT_SHARP \<union> set BASELINE_STANDARD)
   \<and> (is_carrier_name name \<longleftrightarrow> disposition_of name \<noteq> None)"
proof -
  have d: "set GRANT_ALWAYS \<inter> (set PROFILE_PERMIT_SHARP \<union> set BASELINE_STANDARD) = {}"
    using roster_distinct by (auto simp: carrier_roster_def)
  show ?thesis
    using roster_distinct irreversible_iff_roster [of name] d
    by (auto simp: carrier_roster_def disposition_roster is_carrier_name_def)
qed

lemma sharp_decision:
  assumes ok: "world_ok w"
    and sharp: "name \<in> set PROFILE_PERMIT_SHARP" "name \<notin> permits" "\<not> host_permitted H name"
    and call: "authorize_call C clk H name permits w = (res, w')"
  shows "(res = Inr () \<longrightarrow> (\<exists>r \<in> set (world_rows w). (\<exists>i. covering (clk 0 i) (builtin_scope name) r)
        \<and> clk 1 0 < as_u64 (gr_expires_at r)
        \<and> world_rows w' = map (\<lambda>q. if q = r then spent r else q) (world_rows w)
        \<and> (\<forall>x. uses_of (world_events w') x = uses_of (world_events w) x + (if x = gr_id r then 1 else 0))))
    \<and> (res \<noteq> Inr () \<longrightarrow> res = Inl (refusal H name) \<and> w' = w)
    \<and> ((\<forall>k i. clk k i = now) \<and> (\<exists>r \<in> set (world_rows w). covering now (builtin_scope name) r) \<longrightarrow> res = Inr ())"
proof -
  note dec = capability_call_sharp [OF sharp]
  have eq: "authorize_call C clk H name permits w = authorize_capability_call C clk H name permits w"
    by (auto simp: authorize_call_def oversight_not_sharp [OF sharp(1)] split: prod.splits sum.splits)
  show ?thesis
  proof (cases "lookup_active_covering (clk 0) (builtin_scope name) w")
    case None
    have "\<not> covering now (builtin_scope name) r" if "\<forall>k i. clk k i = now" "r \<in> set (world_rows w)" for r
      using lookup_complete [OF that(2), of "clk 0" "builtin_scope name"] None that(1) by auto
    moreover have "res = Inl (refusal H name)" "w' = w"
      using call unfolding eq dec by (simp_all add: None)
    ultimately show ?thesis by blast
  next
    case (Some h)
    obtain r j where r: "r \<in> set (world_rows w)" "covering (clk 0 j) (builtin_scope name) r" "h = handle_of r"
      using lookup_sound [OF Some] by blast
    have id: "gh_grant_id h = gr_id r" by (simp add: r(3) handle_of_def)
    obtain u w1 where u: "grant_use C (clk 1) h (consume_note name) w = (u, w1)" by (metis surj_pair)
    have pos: "\<exists>m. u = Inr m" if "\<forall>k i. clk k i = now"
      using covering_usable [OF ok r(1), of now "builtin_scope name" "clk 1" C "consume_note name"] r(2,3) u that by auto
    have dec': "res = (case u of Inl _ \<Rightarrow> Inl (refusal H name) | Inr _ \<Rightarrow> Inr ())"
        "w' = (case u of Inl _ \<Rightarrow> w | Inr _ \<Rightarrow> w1)"
      using call u unfolding eq dec by (auto simp: Some split: sum.splits)
    have cov: "\<exists>i. covering (clk 0 i) (builtin_scope name) r" using r(2) by blast
    note eff = use_effect [OF ok r(1) id, of C "clk 1" "consume_note name" _ w1]
    show ?thesis
    proof (cases u)
      case (Inr m)
      with eff u have "clk 1 0 < as_u64 (gr_expires_at r)
        \<and> world_rows w1 = map (\<lambda>q. if q = r then spent r else q) (world_rows w)
        \<and> (\<forall>x. uses_of (world_events w1) x = uses_of (world_events w) x + (if x = gr_id r then 1 else 0))"
        by blast
      moreover have "res = Inr ()" "w' = w1" using dec' Inr by simp_all
      ultimately show ?thesis using r(1) cov by blast
    qed (use dec' pos in auto)
  qed
qed

text \<open>
  C8. A sharp carrier that is neither permitted by the program nor opened by the host runs on the
  authority of a grant only, in every run of the kernel. If the decision lets it through, some grant
  covers the action and is unexpired when it is used, exactly that grant loses exactly one use and
  nothing else in the table changes. If it refuses, the state is unchanged. And a grant that
  covers the action makes the decision positive when the whole call reads one time.
\<close>

theorem sharp_call_needs_grant:
  assumes run: "kernel_run C w"
    and sharp: "name \<in> set PROFILE_PERMIT_SHARP" "name \<notin> permits" "\<not> host_permitted H name"
    and call: "authorize_call C clk H name permits w = (res, w')"
  shows "(res = Inr () \<longrightarrow> (\<exists>r \<in> set (world_rows w). (\<exists>i. covering (clk 0 i) (builtin_scope name) r)
        \<and> clk 1 0 < as_u64 (gr_expires_at r)
        \<and> world_rows w' = map (\<lambda>q. if q = r then spent r else q) (world_rows w)
        \<and> (\<forall>x. uses_of (world_events w') x = uses_of (world_events w) x + (if x = gr_id r then 1 else 0))))
    \<and> (res \<noteq> Inr () \<longrightarrow> res = Inl (refusal H name) \<and> w' = w)
    \<and> ((\<forall>k i. clk k i = now) \<and> (\<exists>r \<in> set (world_rows w). covering now (builtin_scope name) r) \<longrightarrow> res = Inr ())"
  by (rule sharp_decision [OF kernel_system.reach_inv [OF run] sharp call])

theorem sharp_call_needs_grant_witness:
  "\<exists>w'. authorize_call sample_crypto (\<lambda>_ _. 6) closed_host ''exec'' {} demo_k1 = (Inr (), w')
     \<and> world_rows w' = [spent demo_k]"
proof -
  obtain res w' where c: "authorize_call sample_crypto (\<lambda>_ _. 6) closed_host ''exec'' {} demo_k1 = (res, w')"
    by (metis surj_pair)
  note th = sharp_call_needs_grant [OF demo_k1_run exec_sharp(1) _ closed_host_shut c, of 6]
  have "res = Inr ()" using th demo_k_covers by (simp add: demo_k1_rows)
  moreover from this th have "world_rows w' = [spent demo_k]" by (simp add: demo_k1_rows)
  ultimately show ?thesis using c by blast
qed

text \<open>
  Nothing else consumes: a call of a builtin that is not a sharp carrier, or that the program
  permits or the host opens, leaves the whole state as it is, and its result is that of the approval
  gate. So a baseline carrier never burns a use, and a call the approval gate refuses never did.
\<close>

theorem other_calls_consume_nothing:
  assumes "name \<notin> set PROFILE_PERMIT_SHARP \<or> name \<in> permits \<or> host_permitted H name"
  shows "authorize_call C clk H name permits w =
     ((case authorize_overseen_call C (clk 2 0) name w of Inl e \<Rightarrow> Inl (OversightRefusal e) | Inr u \<Rightarrow> Inr u), w)
   \<and> (name \<in> set PROFILE_PERMIT_SHARP \<longrightarrow> fst (authorize_call C clk H name permits w) = Inr ())"
  using capability_call_trivial [OF assms, of C clk w]
  by (auto simp: authorize_call_def oversight_not_sharp split: sum.splits)

theorem other_calls_consume_nothing_witness:
  "authorize_call sample_crypto (\<lambda>_ _. 6) closed_host ''print'' {} demo_k1 = (Inr (), demo_k1)"
  using other_calls_consume_nothing [of "''print''" "{}" closed_host sample_crypto "\<lambda>_ _. 6" demo_k1] exec_sharp(2)
  by (simp add: authorize_overseen_call_def HUMAN_OVERSIGHT_def)

text \<open>
  C36. The exec class. The host permit of the capability gate is the flag that the handlers of \<open>exec\<close>
  and \<open>exec_argv\<close> themselves demand. So a call authorized by a covering grant or by a declared permit
  without that flag is refused by the handler, and when a grant authorized it, its use is spent.
\<close>

theorem exec_grant_is_never_enough:
  assumes "name = ''exec'' \<or> name = ''exec_argv''"
  shows "(exec_gate H (current_exec_context H) = Inr () \<longleftrightarrow> host_permitted H name)
   \<and> (snd (authorize_call C clk H name permits w) \<noteq> w \<longrightarrow>
        fst (authorize_call C clk H name permits w) = Inr () \<and> exec_gate H (current_exec_context H) \<noteq> Inr ())"
proof -
  have sharp: "name \<in> set PROFILE_PERMIT_SHARP" using assms by (auto simp: PROFILE_PERMIT_SHARP_def)
  have gate: "exec_gate H (current_exec_context H) = Inr () \<longleftrightarrow> host_permitted H name"
    using assms by (auto simp: exec_gate_ok host_permitted_def split: exec_context.splits)
  have "fst (authorize_call C clk H name permits w) = Inr () \<and> \<not> host_permitted H name"
    if ch: "snd (authorize_call C clk H name permits w) \<noteq> w"
  proof -
    have "snd (authorize_capability_call C clk H name permits w) \<noteq> w" using ch by (simp add: authorize_call_world)
    then have "\<not> (name \<notin> set PROFILE_PERMIT_SHARP \<or> name \<in> permits \<or> host_permitted H name)"
      using capability_call_trivial [of name permits H C clk w] by (metis snd_conv)
    then have s: "name \<notin> permits" "\<not> host_permitted H name" by blast+
    have "fst (authorize_capability_call C clk H name permits w) = Inr ()"
      using ch unfolding authorize_call_world capability_call_sharp [OF sharp s]
      by (auto split: option.splits prod.splits sum.splits)
    then show ?thesis
      using s(2) by (auto simp: authorize_call_def oversight_not_sharp [OF sharp] split: prod.splits sum.splits)
  qed
  with gate show ?thesis by blast
qed

theorem exec_grant_is_never_enough_witness:
  "let d = authorize_call sample_crypto (\<lambda>_ _. 6) closed_host ''exec'' {} demo_k1
   in world_rows (snd d) = [spent demo_k] \<and> fst d = Inr ()
    \<and> exec_gate closed_host (current_exec_context closed_host) \<noteq> Inr ()"
proof -
  obtain res w' where c: "authorize_call sample_crypto (\<lambda>_ _. 6) closed_host ''exec'' {} demo_k1 = (res, w')"
    by (metis surj_pair)
  note dec = sharp_decision [OF kernel_system.reach_inv [OF demo_k1_run] exec_sharp(1) _ closed_host_shut c, of 6]
  have "res = Inr ()" using dec demo_k_covers by (simp add: demo_k1_rows)
  with dec have rows: "world_rows w' = [spent demo_k]" by (simp add: demo_k1_rows)
  have "spent demo_k \<noteq> demo_k" by (simp add: spent_def demo_k_def row_class_def demo_class)
  with rows have "w' \<noteq> demo_k1" using demo_k1_rows by auto
  then show ?thesis
    using exec_grant_is_never_enough [of "''exec''" closed_host sample_crypto "\<lambda>_ _. 6" "{}" demo_k1] rows c
    by (auto simp: Let_def)
qed

end
