(* ===== verification/Db_Ops.thy ===== *)
theory Db_Ops
  imports Capability_Gate
begin

text \<open>
  The destructive statement of the database group, \<open>db_execute_with_grant\<close> (\<open>src/db_ops.rs\<close>): the
  arguments, the parameter binding it shares with the other statement builtins
  (\<open>src/interpreter/db.rs\<close>), the gate before execution and the use spent after success. SQLite and
  the two owners of a connection are not part of this code: the trait \<open>DbAccess\<close> and the
  connection's \<open>execute\<close> are the fields of a record the builtin takes.
\<close>

section \<open>Parameters of a statement\<close>

datatype sql_value = SqlText string | SqlReal f64 | SqlInteger int | SqlNull

datatype db_error =
  DbMissingGrant
| DbNotGrant string
| DbMissingSql
| DbNotSql string
| DbParamsType string nat string
| DbParamValue nat string
| DbGrantRefused grant_error
| DbScopeMismatch string grant_class string string string
| DbNotOpen
| DbSqlError string

fun convert_param :: "nat \<Rightarrow> runtime_value \<Rightarrow> (db_error, sql_value) result" where
  "convert_param i (VString s) = Inr (SqlText s)"
| "convert_param i (VFloat n) = Inr (SqlReal n)"
| "convert_param i (VBool b) = Inr (SqlInteger (if b then 1 else 0))"
| "convert_param i VUnit = Inr SqlNull"
| "convert_param i v = Inl (DbParamValue (i + 1) (type_name v))"

text \<open>\<open>items.iter().enumerate().map(..).collect()\<close>: the first error ends the collection.\<close>

fun convert_params_from :: "nat \<Rightarrow> runtime_value list \<Rightarrow> (db_error, sql_value list) result" where
  "convert_params_from i [] = Inr []"
| "convert_params_from i (v # vs) =
     (case convert_param i v of
        Inl e \<Rightarrow> Inl e
      | Inr x \<Rightarrow> (case convert_params_from (i + 1) vs of Inl e \<Rightarrow> Inl e | Inr xs \<Rightarrow> Inr (x # xs)))"

definition convert_params :: "runtime_value list \<Rightarrow> (db_error, sql_value list) result" where
  "convert_params items = convert_params_from 0 items"

definition bind_params :: "string \<Rightarrow> runtime_value list \<Rightarrow> nat \<Rightarrow> (db_error, sql_value list) result" where
  "bind_params who args idx =
     (case arg_at args idx of
        None \<Rightarrow> Inr []
      | Some (VList items) \<Rightarrow> convert_params items
      | Some other \<Rightarrow> Inl (DbParamsType who (idx + 1) (type_name other)))"

section \<open>The granted statement\<close>

record 'db db_access =
  da_ensure_open :: "'db \<Rightarrow> 'db"
  da_connected :: "'db \<Rightarrow> bool"
  da_execute :: "string \<Rightarrow> sql_value list \<Rightarrow> 'db \<Rightarrow> (string, nat) result \<times> 'db"

definition NAME_DB_EXECUTE_WITH_GRANT :: string where
  "NAME_DB_EXECUTE_WITH_GRANT = ''db_execute_with_grant''"

definition LEDGER_IRREVERSIBLE_DB_EXECUTE :: string where
  "LEDGER_IRREVERSIBLE_DB_EXECUTE = ''irreversible.db_execute''"

definition grant_use_note :: "string \<Rightarrow> string" where
  "grant_use_note sql = NAME_DB_EXECUTE_WITH_GRANT @ '': '' @ sql"

text \<open>The first destructive operation of a statement that the scope of the handle does not cover.\<close>

definition uncovered_op :: "grant_handle \<Rightarrow> (string \<times> string) list \<Rightarrow> (string \<times> string) option" where
  "uncovered_op handle ops = List.find (\<lambda>(op, table). \<not> scope_covers (gh_scope handle) op table) ops"

text \<open>
  From the arguments to the end of the gate: the handle, the statement and its parameters are read,
  then the grant must be active and its scope must cover every destructive operation.
\<close>

definition db_grant_gate ::
  "(nat \<Rightarrow> u64) \<Rightarrow> runtime_value list \<Rightarrow> 'a grants_world_scheme
     \<Rightarrow> (db_error, grant_handle \<times> string \<times> sql_value list) result"
where
  "db_grant_gate clk args w =
     (case arg_at args 0 of
        None \<Rightarrow> Inl DbMissingGrant
      | Some v \<Rightarrow>
     (case grant_from_value v of
        None \<Rightarrow> Inl (DbNotGrant (type_name v))
      | Some handle \<Rightarrow>
     (case arg_at args 1 of
        None \<Rightarrow> Inl DbMissingSql
      | Some (VString sql) \<Rightarrow>
          (case bind_params NAME_DB_EXECUTE_WITH_GRANT args 2 of
             Inl e \<Rightarrow> Inl e
           | Inr params \<Rightarrow>
          (case check_active clk handle w of
             Inl e \<Rightarrow> Inl (DbGrantRefused e)
           | Inr _ \<Rightarrow>
          (case uncovered_op handle (extract_destructive_ops sql) of
             Some (op, table) \<Rightarrow>
               Inl (DbScopeMismatch (gh_grant_id handle) (gh_class handle) (gh_scope handle) op table)
           | None \<Rightarrow> Inr (handle, sql, params))))
      | Some other \<Rightarrow> Inl (DbNotSql (type_name other)))))"

definition db_execute_with_grant ::
  "crypto \<Rightarrow> (nat \<Rightarrow> nat \<Rightarrow> u64) \<Rightarrow> 'db db_access \<Rightarrow> runtime_value list \<Rightarrow> 'db \<Rightarrow> 'a grants_world_scheme
     \<Rightarrow> (db_error, runtime_value) result \<times> 'db \<times> 'a grants_world_scheme"
where
  "db_execute_with_grant C clk D args db w =
     (case db_grant_gate (clk 0) args w of
        Inl e \<Rightarrow> (Inl e, db, w)
      | Inr (handle, sql, params) \<Rightarrow>
          (let db1 = da_ensure_open D db in
           if \<not> da_connected D db1 then (Inl DbNotOpen, db1, w)
           else (case da_execute D sql params db1 of
                   (Inl e, db2) \<Rightarrow> (Inl (DbSqlError e), db2, w)
                 | (Inr affected, db2) \<Rightarrow>
                     (if extract_destructive_ops sql = [] then (Inr (VString (show_dec affected)), db2, w)
                      else (case grant_use C (clk 1) handle (grant_use_note sql) w of
                              (Inl e, w1) \<Rightarrow> (Inl (DbGrantRefused e), db2, w1)
                            | (Inr _, w1) \<Rightarrow>
                                (Inr (VString (show_dec affected)), db2,
                                 w1\<lparr>w_ledger := record_action C (clk 2 0) LEDGER_IRREVERSIBLE_DB_EXECUTE
                                      (gh_issuer handle) (gh_scope handle)
                                      (gh_grant_id handle @ ''|'' @ gh_scope handle @ ''|'' @ sql)
                                      (w_ledger w1)\<rparr>))))))"

text \<open>The generic fallback, reached when no backend owns a connection.\<close>

definition builtin_db_execute_with_grant :: "runtime_value list \<Rightarrow> (db_error, runtime_value) result" where
  "builtin_db_execute_with_grant args = Inl DbNotOpen"

section \<open>What the statement needs and what it spends\<close>

lemma convert_params_length: "convert_params_from i vs = Inr xs \<Longrightarrow> length xs = length vs"
  by (induction vs arbitrary: i xs) (auto split: sum.splits)

lemma uncovered_op_None:
  "uncovered_op h ops = None \<longleftrightarrow> (\<forall>(op, table) \<in> set ops. scope_covers (gh_scope h) op table)"
  by (auto simp: uncovered_op_def find_None_iff)

lemma db_grant_gate_passes:
  assumes "db_grant_gate clk args w = Inr (h, sql, params)"
  shows "\<exists>v. arg_at args 0 = Some v \<and> grant_from_value v = Some h" "arg_at args 1 = Some (VString sql)"
    "bind_params NAME_DB_EXECUTE_WITH_GRANT args 2 = Inr params" "is_ok (check_active clk h w)"
    "\<forall>(op, table) \<in> set (extract_destructive_ops sql). scope_covers (gh_scope h) op table"
  using assms unfolding uncovered_op_None [symmetric]
  by (auto simp: db_grant_gate_def is_ok_iff split: option.splits sum.splits runtime_value.splits prod.splits)

text \<open>
  A granted statement that succeeds had an active grant whose scope covers every destructive
  operation in it. Without such an operation the kernel is unchanged; with one, one use of the grant
  is spent and one record is appended.
\<close>

lemma db_execute_success:
  assumes x: "db_execute_with_grant C clk D args db w = (Inr r, db', w')"
  obtains h sql params n where "db_grant_gate (clk 0) args w = Inr (h, sql, params)"
    "da_execute D sql params (da_ensure_open D db) = (Inr n, db')" "r = VString (show_dec n)"
    "if extract_destructive_ops sql = [] then w' = w
     else \<exists>m w1. grant_use C (clk 1) h (grant_use_note sql) w = (Inr m, w1)
       \<and> w' = w1\<lparr>w_ledger := record_action C (clk 2 0) LEDGER_IRREVERSIBLE_DB_EXECUTE (gh_issuer h) (gh_scope h)
           (gh_grant_id h @ ''|'' @ gh_scope h @ ''|'' @ sql) (w_ledger w1)\<rparr>"
proof (cases "db_grant_gate (clk 0) args w")
  case (Inl e)
  with x show ?thesis by (simp add: db_execute_with_grant_def)
next
  case (Inr g)
  obtain h sql params where g: "g = (h, sql, params)" by (cases g) auto
  obtain n where n: "da_execute D sql params (da_ensure_open D db) = (Inr n, db')"
    using x Inr g by (auto simp: db_execute_with_grant_def Let_def split: if_splits prod.splits sum.splits)
  show ?thesis
    by (rule that [of h sql params n]; use x Inr g n in
      \<open>auto simp: db_execute_with_grant_def Let_def split: if_splits prod.splits sum.splits\<close>)
qed

text \<open>
  The use is spent after the statement has run. A grant that is active at the gate and refused at the
  use (it expired in between) gives an error although the database has changed, and neither the use nor
  the statement is recorded.
\<close>

lemma db_execute_unrecorded:
  assumes "db_grant_gate (clk 0) args w = Inr (h, sql, params)" "da_connected D (da_ensure_open D db)"
    "da_execute D sql params (da_ensure_open D db) = (Inr n, db')" "extract_destructive_ops sql \<noteq> []"
    "grant_use C (clk 1) h (grant_use_note sql) w = (Inl e, w1)"
  shows "db_execute_with_grant C clk D args db w = (Inl (DbGrantRefused e), db', w)"
  using assms refused_use_keeps [OF assms(5)] by (simp add: db_execute_with_grant_def Let_def)

text \<open>A granted statement is a use followed by a record, so the runs of the kernel contain it.\<close>

lemma db_execute_run:
  assumes run: "kernel_run C w"
  shows "kernel_run C (snd (snd (db_execute_with_grant C clk D args db w)))"
proof -
  have use: "kernel_run C w1" if "grant_use C c h nt w = (r, w1)" for c h nt r w1
    using reach_step [OF run step_grants [OF step_use [of C w c h nt]]] that by simp
  then have "kernel_run C (w1\<lparr>w_ledger := record_action C now action actor scope detail (w_ledger w1)\<rparr>)"
    if "grant_use C c h nt w = (r, w1)" for c h nt r w1 now action actor scope detail
    using reach_step [OF use [OF that] step_journal] by blast
  with use show ?thesis
    by (auto simp: db_execute_with_grant_def Let_def run split: sum.split prod.split)
qed

end
