(* ===== verification/Kernel_Builtins.thy ===== *)
theory Kernel_Builtins
  imports Db_Ops
begin

text \<open>
  The language surface of grants and approvals (\<open>src/builtins/grants.rs\<close>,
  \<open>src/builtins/approval.rs\<close>): argument checks, the class tail, and the calls into the kernel. Error
  texts are constructors that carry the values they interpolate; argument numbers are zero based.
\<close>

section \<open>Arguments\<close>

datatype builtin_error =
  ArgCount string nat
| ArgType string nat string string
| ArgMissing string nat string
| ClassUses string "string option"
| UsesWithoutN string
| EmptyText string string
| GrantFailed grant_error
| ApprovalFailed approval_error

definition expect_grant_arg :: "string \<Rightarrow> runtime_value list \<Rightarrow> nat \<Rightarrow> (builtin_error, grant_handle) result" where
  "expect_grant_arg fn_name args idx =
     (case Option.bind (arg_at args idx) grant_from_value of
        Some h \<Rightarrow> Inr h
      | None \<Rightarrow>
          (case arg_at args idx of
             Some other \<Rightarrow> Inl (ArgType fn_name idx ''Grant'' (type_name other))
           | None \<Rightarrow> Inl (ArgMissing fn_name idx ''Grant'')))"

definition expect_scope_arg :: "string \<Rightarrow> runtime_value list \<Rightarrow> nat \<Rightarrow> (builtin_error, string) result" where
  "expect_scope_arg fn_name args idx =
     (case arg_at args idx of
        Some (VString s) \<Rightarrow> Inr s
      | Some other \<Rightarrow> Inl (ArgType fn_name idx ''scope'' (type_name other))
      | None \<Rightarrow> Inl (ArgMissing fn_name idx ''scope''))"

definition expect_ttl_arg :: "string \<Rightarrow> runtime_value list \<Rightarrow> nat \<Rightarrow> (builtin_error, u64) result" where
  "expect_ttl_arg fn_name args idx =
     (case arg_at args idx of
        Some v \<Rightarrow>
          (case v of
             VFloat n \<Rightarrow> if f64_ge n 0 \<and> f64_whole n then Inr (f64_as_u64 n)
                         else Inl (ArgType fn_name idx ''ttl_seconds'' (type_name v))
           | _ \<Rightarrow> Inl (ArgType fn_name idx ''ttl_seconds'' (type_name v)))
      | None \<Rightarrow> Inl (ArgMissing fn_name idx ''ttl_seconds''))"

definition expect_string_arg :: "string \<Rightarrow> runtime_value list \<Rightarrow> nat \<Rightarrow> (builtin_error, string) result" where
  "expect_string_arg fn_name args idx =
     (case arg_at args idx of
        Some (VString s) \<Rightarrow> Inr s
      | Some other \<Rightarrow> Inl (ArgType fn_name idx ''string'' (type_name other))
      | None \<Rightarrow> Inl (ArgMissing fn_name idx ''string''))"

definition parse_class_tail :: "string \<Rightarrow> runtime_value list \<Rightarrow> nat \<Rightarrow> (builtin_error, grant_class) result" where
  "parse_class_tail fn_name args class_idx =
     (case arg_at args class_idx of
        None \<Rightarrow> Inr Once
      | Some (VString class_word) \<Rightarrow>
          (let has_uses = class_idx + 1 < length args
           in case GrantClass_parse class_word of
                Inl e \<Rightarrow> Inl (GrantFailed e)
              | Inr (GrantN _) \<Rightarrow>
                  (case arg_at args (class_idx + 1) of
                     Some v \<Rightarrow>
                       (case v of
                          VFloat n \<Rightarrow> if f64_ge n 1 \<and> f64_whole n then Inr (GrantN (f64_as_u64 n))
                                      else Inl (ClassUses fn_name (Some (type_name v)))
                        | _ \<Rightarrow> Inl (ClassUses fn_name (Some (type_name v))))
                   | None \<Rightarrow> Inl (ClassUses fn_name None))
              | Inr Once \<Rightarrow> if has_uses then Inl (UsesWithoutN fn_name) else Inr Once
              | Inr Unlimited \<Rightarrow> if has_uses then Inl (UsesWithoutN fn_name) else Inr Unlimited)
      | Some other \<Rightarrow> Inl (ArgType fn_name class_idx ''class'' (type_name other)))"

section \<open>Grants\<close>

definition builtin_grant_issue ::
  "crypto \<Rightarrow> (nat \<Rightarrow> u64) \<Rightarrow> nat \<Rightarrow> runtime_value list \<Rightarrow> 'a grants_world_scheme
     \<Rightarrow> (builtin_error, runtime_value) result \<times> 'a grants_world_scheme"
where
  "builtin_grant_issue C clk nanos args w =
     (let fn_name = ''grant_issue''
      in if length args < 2 \<or> length args > 4 then (Inl (ArgCount fn_name (length args)), w)
         else case expect_scope_arg fn_name args 0 of
           Inl e \<Rightarrow> (Inl e, w)
         | Inr scope \<Rightarrow>
             (case expect_ttl_arg fn_name args 1 of
                Inl e \<Rightarrow> (Inl e, w)
              | Inr ttl \<Rightarrow>
                  (case parse_class_tail fn_name args 2 of
                     Inl e \<Rightarrow> (Inl e, w)
                   | Inr class \<Rightarrow>
                       (case issue C clk nanos scope ttl class ''program'' w of
                          (Inl e, w') \<Rightarrow> (Inl (GrantFailed e), w')
                        | (Inr handle, w') \<Rightarrow> (Inr (mint_view handle (cap_initial_remaining class)), w')))))"

definition builtin_grant_subgrant ::
  "crypto \<Rightarrow> (nat \<Rightarrow> u64) \<Rightarrow> nat \<Rightarrow> runtime_value list \<Rightarrow> 'a grants_world_scheme
     \<Rightarrow> (builtin_error, runtime_value) result \<times> 'a grants_world_scheme"
where
  "builtin_grant_subgrant C clk nanos args w =
     (let fn_name = ''grant_subgrant''
      in if length args < 3 \<or> length args > 5 then (Inl (ArgCount fn_name (length args)), w)
         else case expect_grant_arg fn_name args 0 of
           Inl e \<Rightarrow> (Inl e, w)
         | Inr parent \<Rightarrow>
             (case expect_scope_arg fn_name args 1 of
                Inl e \<Rightarrow> (Inl e, w)
              | Inr scope \<Rightarrow>
                  (case expect_ttl_arg fn_name args 2 of
                     Inl e \<Rightarrow> (Inl e, w)
                   | Inr ttl \<Rightarrow>
                       (case parse_class_tail fn_name args 3 of
                          Inl e \<Rightarrow> (Inl e, w)
                        | Inr class \<Rightarrow>
                            (case subgrant C clk nanos parent scope ttl class w of
                               (Inl e, w') \<Rightarrow> (Inl (GrantFailed e), w')
                             | (Inr handle, w') \<Rightarrow> (Inr (mint_view handle (cap_initial_remaining class)), w'))))))"

definition builtin_grant_revoke ::
  "crypto \<Rightarrow> (nat \<Rightarrow> u64) \<Rightarrow> runtime_value list \<Rightarrow> 'a grants_world_scheme
     \<Rightarrow> (builtin_error, runtime_value) result \<times> 'a grants_world_scheme"
where
  "builtin_grant_revoke C clk args w =
     (let fn_name = ''grant_revoke''
      in if length args \<noteq> 1 then (Inl (ArgCount fn_name (length args)), w)
         else case expect_grant_arg fn_name args 0 of
           Inl e \<Rightarrow> (Inl e, w)
         | Inr handle \<Rightarrow>
             (case revoke C clk handle ''revoked by program'' w of
                (Inl e, w') \<Rightarrow> (Inl (GrantFailed e), w')
              | (Inr n, w') \<Rightarrow> (Inr (VFloat (f64_of_u64 n)), w')))"

definition builtin_grant_use ::
  "crypto \<Rightarrow> (nat \<Rightarrow> u64) \<Rightarrow> runtime_value list \<Rightarrow> 'a grants_world_scheme
     \<Rightarrow> (builtin_error, runtime_value) result \<times> 'a grants_world_scheme"
where
  "builtin_grant_use C clk args w =
     (let fn_name = ''grant_use''
      in if length args \<noteq> 1 then (Inl (ArgCount fn_name (length args)), w)
         else case expect_grant_arg fn_name args 0 of
           Inl e \<Rightarrow> (Inl e, w)
         | Inr handle \<Rightarrow>
             (case grant_use C clk handle ''grant_use()'' w of
                (Inl e, w') \<Rightarrow> (Inl (GrantFailed e), w')
              | (Inr remaining, w') \<Rightarrow> (Inr (VFloat (f64_of_i64 remaining)), w')))"

definition builtin_capability_state ::
  "runtime_value list \<Rightarrow> 'a grants_world_scheme \<Rightarrow> (builtin_error, runtime_value) result"
where
  "builtin_capability_state args w =
     (let fn_name = ''capability_state''
      in if length args \<noteq> 1 then Inl (ArgCount fn_name (length args))
         else case expect_grant_arg fn_name args 0 of
           Inl e \<Rightarrow> Inl e
         | Inr handle \<Rightarrow> (case state_view handle w of Inl e \<Rightarrow> Inl (GrantFailed e) | Inr v \<Rightarrow> Inr v))"

section \<open>Approvals\<close>

definition mandate_view :: "typed_approval \<Rightarrow> runtime_value" where
  "mandate_view m =
     VStruct ''TypedApproval''
       [''actor'' \<mapsto> VString (ta_actor m),
        ''target_digest'' \<mapsto> VString (ta_target_digest m),
        ''granted_at'' \<mapsto> VFloat (f64_of_u64 (ta_granted_at m)),
        ''expires_at'' \<mapsto> VFloat (f64_of_u64 (ta_expires_at m)),
        ''revoked'' \<mapsto> VBool (ta_revoked m)]"

definition builtin_approval_issue ::
  "crypto \<Rightarrow> u64 \<Rightarrow> runtime_value list \<Rightarrow> 'a approval_world_scheme
     \<Rightarrow> (builtin_error, runtime_value) result \<times> 'a approval_world_scheme"
where
  "builtin_approval_issue C now args w =
     (let fn_name = ''approval_issue''
      in if length args \<noteq> 3 then (Inl (ArgCount fn_name (length args)), w)
         else case expect_string_arg fn_name args 0 of
           Inl e \<Rightarrow> (Inl e, w)
         | Inr actor \<Rightarrow>
             (case expect_string_arg fn_name args 1 of
                Inl e \<Rightarrow> (Inl e, w)
              | Inr target \<Rightarrow>
                  (case expect_ttl_arg fn_name args 2 of
                     Inl e \<Rightarrow> (Inl e, w)
                   | Inr ttl \<Rightarrow>
                       if trim actor = [] then (Inl (EmptyText fn_name ''actor''), w)
                       else if trim target = [] then (Inl (EmptyText fn_name ''target''), w)
                       else (case mandate_issue C now actor target ttl w of
                               (Inl e, w') \<Rightarrow> (Inl (ApprovalFailed e), w')
                             | (Inr m, w') \<Rightarrow> (Inr (mandate_view m), w')))))"

definition builtin_approval_revoke ::
  "crypto \<Rightarrow> u64 \<Rightarrow> runtime_value list \<Rightarrow> 'a approval_world_scheme
     \<Rightarrow> (builtin_error, runtime_value) result \<times> 'a approval_world_scheme"
where
  "builtin_approval_revoke C now args w =
     (let fn_name = ''approval_revoke''
      in if length args \<noteq> 1 then (Inl (ArgCount fn_name (length args)), w)
         else case expect_string_arg fn_name args 0 of
           Inl e \<Rightarrow> (Inl e, w)
         | Inr target \<Rightarrow>
             (case mandate_revoke C now target w of
                (Inl e, w') \<Rightarrow> (Inl (ApprovalFailed e), w')
              | (Inr n, w') \<Rightarrow> (Inr (VFloat (f64_of_u64 n)), w')))"

section \<open>The ids of the grants table\<close>

definition minted_id :: "string \<Rightarrow> bool" where
  "minted_id gid \<longleftrightarrow> take 2 gid = ''g-''"

definition ids_minted :: "'a grants_world_scheme \<Rightarrow> bool" where
  "ids_minted w \<longleftrightarrow> gr_id ` set (world_rows w) \<subseteq> {gid. minted_id gid}"

lemma minted_new: "minted_id (next_grant_id nanos q)"
  by (simp add: next_grant_id_def minted_id_def)

lemma minted_ids:
  assumes "gr_id ` set (world_rows v) \<subseteq> insert (next_grant_id nanos q) (gr_id ` set (world_rows w))" "ids_minted w"
  shows "ids_minted v"
proof -
  have "insert (next_grant_id nanos q) (gr_id ` set (world_rows w)) \<subseteq> {gid. minted_id gid}"
    using assms(2) minted_new [of nanos q] unfolding ids_minted_def by blast
  with assms(1) show ?thesis unfolding ids_minted_def by (rule subset_trans)
qed

lemma same_ids: "gr_id ` set (world_rows v) = gr_id ` set (world_rows w) \<Longrightarrow> ids_minted v = ids_minted w"
  by (simp add: ids_minted_def)

lemma issue_ids:
  "gr_id ` set (world_rows (snd (issue C clk nanos scope ttl class issuer w)))
     \<subseteq> insert (next_grant_id nanos (w_grant_seq w)) (gr_id ` set (world_rows w))"
  by (auto simp: issue_def insert_row_def Let_def world_rows_def on_rows_def record_event_def
      split: prod.splits sum.splits option.splits if_splits)

lemma ids_update: "(\<And>r. gr_id (f r) = gr_id r) \<Longrightarrow> gr_id ` set (update_rows x f rows) = gr_id ` set rows"
  using update_rows_ids [of f x rows] by (metis list.set_map)

lemma subgrant_ids:
  "gr_id ` set (world_rows (snd (subgrant C clk nanos parent scope ttl class w)))
     \<subseteq> insert (next_grant_id nanos (w_grant_seq w)) (gr_id ` set (world_rows w))"
proof (cases rule: subgrant_cases [of C clk nanos parent scope ttl "class" w])
  case refused
  then show ?thesis by auto
next
  case (written db p debit left w1 res w2)
  have 1: "gr_id ` set (world_rows w1) = gr_id ` set (world_rows w)"
    unfolding written(4) subgrant_parent_def by (simp add: ids_update)
  from written(5) show ?thesis
  proof (cases rule: insert_row_cases)
    case failed
    with written(6) 1 show ?thesis by auto
  next
    case stored
    with written(6) 1 show ?thesis by (auto simp: on_rows_append)
  qed
qed

lemma use_ids: "gr_id ` set (world_rows (snd (grant_use C clk h nt w))) = gr_id ` set (world_rows w)"
  by (cases rule: grant_use_cases [of C clk h nt w]) (simp_all add: ids_update)

lemma revoke_ids:
  assumes "world_ok w"
  shows "gr_id ` set (world_rows (snd (revoke C clk h nt w))) = gr_id ` set (world_rows w)"
proof -
  obtain T where "world_rows (snd (revoke C clk h nt w)) = mark T (world_rows w)"
    using revoke_rows assms by blast
  then show ?thesis by (metis distinct_mark list.set_map)
qed

lemma kernel_step_minted:
  assumes ok: "world_ok w" "ids_minted w" and st: "kernel_step C w w'"
  shows "ids_minted w'"
  using st
proof cases
  case step_grants
  then show ?thesis
  proof cases
    case step_issue
    then show ?thesis by (simp add: minted_ids [OF issue_ids ok(2)])
  next
    case step_subgrant
    then show ?thesis by (simp add: minted_ids [OF subgrant_ids ok(2)])
  next
    case step_use
    then show ?thesis using ok(2) by (simp add: same_ids [OF use_ids])
  next
    case step_revoke
    then show ?thesis using ok(2) by (simp add: same_ids [OF revoke_ids [OF ok(1)]])
  qed
next
  case (step_gate clk H name permits)
  from capability_call_world [of C clk H name permits w]
  show ?thesis
  proof
    assume "snd (authorize_capability_call C clk H name permits w) = w"
    with step_gate ok(2) show ?thesis by (simp add: authorize_call_world)
  next
    assume "\<exists>h nt. snd (authorize_capability_call C clk H name permits w) = snd (grant_use C (clk 1) h nt w)"
    then obtain h nt where "w' = snd (grant_use C (clk 1) h nt w)"
      using step_gate by (auto simp: authorize_call_world)
    then show ?thesis using ok(2) by (simp add: same_ids [OF use_ids])
  qed
qed (use ok(2) in \<open>simp_all add: ids_minted_def world_rows_def\<close>)

interpretation minted_system: invariant_system kernel_start "kernel_step C" "\<lambda>w. world_ok w \<and> ids_minted w" for C
proof
  show "kernel_start w \<Longrightarrow> world_ok w \<and> ids_minted w" for w :: "'a approval_world_scheme"
    using kernel_system.init_inv by (auto simp: kernel_start_def grants_start_def ids_minted_def)
qed (use kernel_step_ok kernel_step_minted in blast)

section \<open>Tokens\<close>

fun field_of :: "runtime_value \<Rightarrow> string \<Rightarrow> runtime_value option" where
  "field_of (VStruct _ fs) k = fs k"
| "field_of _ _ = None"

lemma find_row_append: "gr_id r \<notin> gr_id ` set rows \<Longrightarrow> find_row (gr_id r) (rows @ [r]) = Some r"
  by (induction rows) (auto simp: find_row_def)

lemma u64_class_roundtrip: "(\<And>k. c = GrantN k \<Longrightarrow> is_u64 k) \<Longrightarrow> from_ledger_str (as_ledger_str c) = c"
  by (cases c) (simp_all add: from_ledger_str_def parse_u64_show)

lemma f64_as_u64_range: "is_u64 (f64_as_u64 x)"
  by (cases x) (auto simp: is_u64_def u64_max_def)

lemma parse_class_tail_u64: "parse_class_tail fn args i = Inr (GrantN k) \<Longrightarrow> is_u64 k"
  by (auto simp: parse_class_tail_def f64_as_u64_range Let_def split: option.splits runtime_value.splits sum.splits
      grant_class.splits if_splits)

lemma cap_initial_remaining_eq: "cap_initial_remaining c = initial_remaining c"
  by (cases c) simp_all

lemma issue_stored:
  assumes "issue C clk nanos scope ttl class issuer w = (Inr h, w')"
  shows "\<exists>r. h = \<lparr>gh_grant_id = gr_id r, gh_scope = scope, gh_class = class, gh_expires_at = u64_add (clk 0) ttl,
        gh_issuer = issuer\<rparr>
    \<and> gr_scope r = scope \<and> gr_class r = as_ledger_str class \<and> gr_remaining r = initial_remaining class
    \<and> gr_expires_at r = as_i64 (u64_add (clk 0) ttl) \<and> gr_state r = ''active''
    \<and> find_row (gr_id r) (world_rows w') = Some r \<and> w_grants w' \<noteq> None"
proof -
  let ?w = "w\<lparr>w_grant_seq := u64_add (w_grant_seq w) 1\<rparr>"
  define r where "r = \<lparr>gr_id = next_grant_id nanos (w_grant_seq w), gr_parent_id = None, gr_scope = scope,
      gr_class = as_ledger_str class, gr_remaining = initial_remaining class, gr_issued_at = as_i64 (clk 1),
      gr_expires_at = as_i64 (u64_add (clk 0) ttl), gr_issuer = issuer, gr_state = ''active''\<rparr>"
  obtain res v where ins: "insert_row r ?w = (res, v)" by fastforce
  have sc: "trim scope \<noteq> []" using assms by (auto simp: issue_def)
  from ins show ?thesis
  proof (cases rule: insert_row_cases)
    case failed
    with ins sc assms show ?thesis by (simp add: issue_def Let_def r_def)
  next
    case stored
    then have "find_row (gr_id r) (world_rows v) = Some r" "w_grants v \<noteq> None"
      by (simp_all add: on_rows_append find_row_append)
    moreover have "world_rows w' = world_rows v" "w_grants w' = None \<longleftrightarrow> w_grants v = None"
      using assms ins stored(1) sc by (auto simp: issue_def Let_def r_def)
    ultimately show ?thesis
      using assms ins stored(1) sc by (intro exI [of _ r]) (auto simp: issue_def Let_def r_def)
  qed
qed

lemma is_u64_add: "is_u64 (u64_add a b)"
  by (simp add: is_u64_def u64_add_def)

lemma issue_builtin_cases:
  assumes "builtin_grant_issue C clk nanos args w = (Inr v, w')"
  obtains scope ttl cls h where "parse_class_tail ''grant_issue'' args 2 = Inr cls"
    "issue C clk nanos scope ttl cls ''program'' w = (Inr h, w')" "v = mint_view h (initial_remaining cls)"
  using assms by (auto simp: builtin_grant_issue_def Let_def cap_initial_remaining_eq split: if_splits sum.splits prod.splits)

text \<open>
  The token a program receives from \<open>grant_issue\<close> is a typed capability that agrees with the
  grants table: asking for its live state right after the mint gives back the same scope, class,
  expiry and quota, not revoked and active. This holds for every quota and time to live, also outside
  the signed range.
\<close>

theorem minted_token_is_live:
  assumes "builtin_grant_issue C clk nanos args w = (Inr v, w')"
  shows "is_capability v
    \<and> (\<exists>st. builtin_capability_state [v] w' = Inr st
        \<and> (\<forall>k \<in> {''scope'', ''class'', ''ttl'', ''quota'', ''revoked''}. field_of st k = field_of v k \<and> field_of v k \<noteq> None)
        \<and> field_of st ''revoked'' = Some (VBool False) \<and> field_of st ''state'' = Some (VString ''active''))"
proof -
  obtain scope ttl cls h where t: "parse_class_tail ''grant_issue'' args 2 = Inr cls"
    and i: "issue C clk nanos scope ttl cls ''program'' w = (Inr h, w')" and v: "v = mint_view h (initial_remaining cls)"
    by (rule issue_builtin_cases [OF assms])
  obtain r where r: "h = \<lparr>gh_grant_id = gr_id r, gh_scope = scope, gh_class = cls, gh_expires_at = u64_add (clk 0) ttl,
        gh_issuer = ''program''\<rparr>" "gr_scope r = scope" "gr_class r = as_ledger_str cls"
      "gr_remaining r = initial_remaining cls" "gr_expires_at r = as_i64 (u64_add (clk 0) ttl)" "gr_state r = ''active''"
      "find_row (gr_id r) (world_rows w') = Some r" "w_grants w' \<noteq> None"
    using issue_stored [OF i] by blast
  have "row_class r = cls"
    unfolding row_class_def r(3) by (rule u64_class_roundtrip) (use t parse_class_tail_u64 in blast)
  moreover have "record_of (gr_id r) w' = Inr (record_of_row r)"
    using r(7,8) by (auto simp: record_of_def load_record_def world_rows_def)
  ultimately have "state_view h w' = Inr (VStruct CAPABILITY_STATE_TYPE
      [''scope'' \<mapsto> VString scope, ''class'' \<mapsto> VString (as_ledger_str cls),
       ''ttl'' \<mapsto> VFloat (f64_of_u64 (u64_add (clk 0) ttl)), ''quota'' \<mapsto> VFloat (f64_of_i64 (initial_remaining cls)),
       ''revoked'' \<mapsto> VBool False, ''state'' \<mapsto> VString ''active''])"
    by (simp add: state_view_def r(1-6) as_u64_as_i64 is_u64_add)
  moreover have "grant_from_value v = Some h" by (simp add: v mint_view_def)
  ultimately have "builtin_capability_state [v] w' = Inr (VStruct CAPABILITY_STATE_TYPE
      [''scope'' \<mapsto> VString scope, ''class'' \<mapsto> VString (as_ledger_str cls),
       ''ttl'' \<mapsto> VFloat (f64_of_u64 (u64_add (clk 0) ttl)), ''quota'' \<mapsto> VFloat (f64_of_i64 (initial_remaining cls)),
       ''revoked'' \<mapsto> VBool False, ''state'' \<mapsto> VString ''active''])"
    by (simp add: builtin_capability_state_def expect_grant_arg_def arg_at_def Let_def)
  then show ?thesis by (simp add: v mint_view_def r(1))
qed

theorem minted_token_is_live_witness:
  "\<exists>v w'. builtin_grant_issue sample_crypto (\<lambda>_. 5) 7 [VString ''db:*'', VFloat (Fin 100)] demo_w0 = (Inr v, w')
     \<and> is_capability v \<and> is_ok (builtin_capability_state [v] w')"
proof -
  have "\<exists>v w'. builtin_grant_issue sample_crypto (\<lambda>_. 5) 7 [VString ''db:*'', VFloat (Fin 100)] demo_w0 = (Inr v, w')"
    by (simp add: builtin_grant_issue_def expect_scope_arg_def expect_ttl_arg_def parse_class_tail_def arg_at_def
        issue_def insert_row_def demo_w0_def trim_def is_whitespace_def Let_def)
  then obtain v w' where i: "builtin_grant_issue sample_crypto (\<lambda>_. 5) 7 [VString ''db:*'', VFloat (Fin 100)] demo_w0 = (Inr v, w')"
    by blast
  from minted_token_is_live [OF i] i show ?thesis by (auto simp: is_ok_iff)
qed

lemma tombstone_missing: "ids_minted w \<Longrightarrow> find_row (gh_grant_id (deserialize_grant t)) (world_rows w) = None"
proof -
  have "\<not> minted_id (gh_grant_id (deserialize_grant t))" by (simp add: deserialize_grant_def minted_id_def)
  then show "ids_minted w \<Longrightarrow> ?thesis" unfolding find_row_None ids_minted_def by blast
qed

lemma missing_refused:
  assumes "find_row (gh_grant_id h) (world_rows w) = None"
  shows "\<exists>e. grant_use C clk h nt w = (Inl e, w)" "\<exists>e. revoke C clk h nt w = (Inl e, w)" "\<exists>e. state_view h w = Inl e"
    "\<exists>e w'. subgrant C clk nanos h scope ttl class w = (Inl e, w') \<and> w_grants w' = w_grants w \<and> w_ledger w' = w_ledger w"
  using assms
  by (auto simp: grant_use_def revoke_def state_view_def record_of_def subgrant_def with_grants_def load_record_def
      world_rows_def Let_def split: option.splits)

lemma missing_statement_refused:
  assumes "find_row (gh_grant_id h) (world_rows w) = None" "grant_from_value v = Some h"
  shows "\<exists>e. db_execute_with_grant C clk D (v # args) db w = (Inl e, db, w)"
proof -
  have "\<exists>e. check_active c h w = Inl e" for c
    using assms(1) by (auto simp: check_active_def load_record_def world_rows_def split: option.splits)
  then obtain e where "check_active (clk 0) h w = Inl e" by blast
  with assms(2) have "\<exists>e. db_grant_gate (clk 0) (v # args) w = Inl e"
    by (simp add: db_grant_gate_def arg_at_def [of _ 0] split: option.split runtime_value.split sum.split)
  then show ?thesis by (auto simp: db_execute_with_grant_def)
qed

text \<open>
  C11. A token without authority is powerless in every run of the kernel. A value that carries no
  handle (a forged struct, a text) and a token that went through serialization, which carries the
  tombstone handle, are refused by the five grant builtins that take a token: \<open>grant_use\<close>,
  \<open>grant_revoke\<close>, \<open>capability_state\<close>, \<open>grant_subgrant\<close> and \<open>db_execute_with_grant\<close>. Nothing is used,
  revoked, split or shown, no statement runs whatever the database and its parameters are, and
  neither the grants table nor the action ledger changes.
\<close>

theorem dead_token_powerless:
  assumes run: "kernel_run C w" and dead: "grant_from_value v \<in> {None, Some (deserialize_grant t)}"
  shows "\<exists>e1 e2 e3 e4 e5 w'. builtin_grant_use C clk [v] w = (Inl e1, w) \<and> builtin_grant_revoke C clk [v] w = (Inl e2, w)
    \<and> builtin_capability_state [v] w = Inl e3
    \<and> builtin_grant_subgrant C clk nanos (v # args) w = (Inl e4, w') \<and> w_grants w' = w_grants w \<and> w_ledger w' = w_ledger w
    \<and> db_execute_with_grant C clks D (v # args) db w = (Inl e5, db, w)"
proof (cases "grant_from_value v")
  case None
  then show ?thesis
    by (simp add: builtin_grant_use_def builtin_grant_revoke_def builtin_capability_state_def builtin_grant_subgrant_def
        db_execute_with_grant_def db_grant_gate_def expect_grant_arg_def arg_at_def Let_def)
next
  case (Some h)
  with dead have h: "h = deserialize_grant t" by simp
  have gone: "find_row (gh_grant_id h) (world_rows w) = None"
    unfolding h by (rule tombstone_missing) (use minted_system.reach_inv [OF run] in simp)
  note missing = missing_refused [OF gone]
  have arg: "expect_grant_arg fn (v # as) 0 = Inr h" for fn as
    using Some by (simp add: expect_grant_arg_def arg_at_def)
  have sub: "\<exists>e w'. builtin_grant_subgrant C clk nanos (v # args) w = (Inl e, w')
      \<and> w_grants w' = w_grants w \<and> w_ledger w' = w_ledger w"
  proof -
    have "\<exists>e w'. (case subgrant C clk nanos h scope ttl cls w of (Inl e, w') \<Rightarrow> (Inl (GrantFailed e), w')
        | (Inr h', w') \<Rightarrow> (Inr (mint_view h' (cap_initial_remaining cls)), w')) = (Inl e, w')
        \<and> w_grants w' = w_grants w \<and> w_ledger w' = w_ledger w" for scope ttl cls
      using missing(4) [of C clk nanos scope ttl cls] by auto
    then show ?thesis by (simp add: builtin_grant_subgrant_def arg Let_def split: sum.split)
  qed
  obtain e1 e2 e3 where "grant_use C clk h ''grant_use()'' w = (Inl e1, w)"
    "revoke C clk h ''revoked by program'' w = (Inl e2, w)" "state_view h w = Inl e3"
    using missing(1-3) by metis
  with sub missing_statement_refused [OF gone Some, of C clks D args db] show ?thesis
    by (auto simp add: builtin_grant_use_def builtin_grant_revoke_def builtin_capability_state_def arg Let_def)
qed

text \<open>A database without state that runs every statement.\<close>

definition open_db :: "unit db_access" where
  "open_db = \<lparr>da_ensure_open = id, da_connected = (\<lambda>_. True), da_execute = (\<lambda>sql ps db. (Inr 1, db))\<rparr>"

theorem dead_token_powerless_witness:
  "(\<exists>e. builtin_grant_use sample_crypto (\<lambda>_. 6) [VGrant (deserialize_grant ''[GRANT]'')] demo_k1 = (Inl e, demo_k1))
   \<and> (\<exists>e. db_execute_with_grant sample_crypto (\<lambda>_ _. 6) open_db
         [VGrant (deserialize_grant ''[GRANT]''), VString ''DELETE FROM t''] () demo_k1 = (Inl e, (), demo_k1))
   \<and> world_rows demo_k1 = [demo_k]"
proof -
  have "grant_from_value (VGrant (deserialize_grant ''[GRANT]'')) \<in> {None, Some (deserialize_grant ''[GRANT]'')}"
    by simp
  from dead_token_powerless [OF demo_k1_run this, of "\<lambda>_. 6" 0 "[VString ''DELETE FROM t'']" "\<lambda>_ _. 6" open_db "()"]
  show ?thesis using demo_k1_rows by metis
qed

end
