(* ===== verification/Session.thy ===== *)
theory Session
  imports Values Ledger_Runtime "HOL-Library.Multiset"
begin

text \<open>
  \<open>src/session.rs\<close> and \<open>src/builtins/session.rs\<close>: sessions, their wake queue, their prioritized
  interrupt queue and the duty flag, every transition recorded in the action ledger. The registry is
  a map from ids to states, \<open>None\<close> when its lock is poisoned; its entries are the live sessions.
  \<open>clk i\<close> is reading \<open>i\<close> of the clock inside a call, \<open>millis\<close> the reading that feeds a fresh id.
\<close>

section \<open>State\<close>

definition WAKE_SOURCES :: "string list" where
  "WAKE_SOURCES = [''keyword'', ''event'', ''schedule'']"

definition INTERRUPT_PRIORITIES :: "string list" where
  "INTERRUPT_PRIORITIES = [''low'', ''normal'', ''high'', ''critical'']"

definition priority_rank :: "string \<Rightarrow> nat option" where
  "priority_rank word = index_of word INTERRUPT_PRIORITIES"

record wake_event =
  we_source :: string
  we_payload :: string
  we_enqueued_unix :: u64

record interrupt_event =
  ie_priority :: string
  ie_rank :: nat
  ie_reason :: string
  ie_enqueued_unix :: u64

record session_state =
  ss_user :: string
  ss_duty :: bool
  ss_created_unix :: u64
  ss_wakes :: "wake_event list"
  ss_interrupts :: "interrupt_event list"

record session_world =
  sw_ledger :: ledger_state
  sw_sessions :: "(string \<rightharpoonup> session_state) option"
  sw_seq :: u64

datatype session_error =
  SessionLock
| SESSION_UNKNOWN string string
| SESSION_CONTRACT string
| SessionNoId string
| SessionArgType string nat string
| SessionArgMissing string nat
| SessionArgCount string nat

definition SessionState_new :: "u64 \<Rightarrow> string \<Rightarrow> session_state" where
  "SessionState_new now user =
     \<lparr>ss_user = user, ss_duty = False, ss_created_unix = now, ss_wakes = [], ss_interrupts = []\<rparr>"

definition fresh_session_id :: "crypto \<Rightarrow> nat \<Rightarrow> string \<Rightarrow> u64 \<Rightarrow> string" where
  "fresh_session_id C millis user seq =
     ''s-'' @ take 16 (sha256_hex C (user @ ''|'' @ show_dec millis @ ''|'' @ show_dec seq))"

definition ledger_session_event ::
  "crypto \<Rightarrow> u64 \<Rightarrow> string \<Rightarrow> string \<Rightarrow> string \<Rightarrow> 'a session_world_scheme \<Rightarrow> 'a session_world_scheme"
where
  "ledger_session_event C now kind session_id detail w =
     w\<lparr>sw_ledger := record_action C now (''session.'' @ kind) session_id ''session'' detail (sw_ledger w)\<rparr>"

definition session_value :: "string \<Rightarrow> string \<Rightarrow> bool \<Rightarrow> runtime_value" where
  "session_value sid user duty =
     VSession [''id'' \<mapsto> sid, ''user'' \<mapsto> user, ''duty'' \<mapsto> (if duty then ''1'' else ''0'')]"

definition session_id_arg :: "string \<Rightarrow> runtime_value list \<Rightarrow> nat \<Rightarrow> (session_error, string) result" where
  "session_id_arg fn_name args idx =
     (case arg_at args idx of
        Some (VSession m) \<Rightarrow>
          (case m ''id'' of
             Some sid \<Rightarrow> if sid \<noteq> [] then Inr sid else Inl (SessionNoId fn_name)
           | None \<Rightarrow> Inl (SessionNoId fn_name))
      | Some other \<Rightarrow> Inl (SessionArgType fn_name idx (type_name other))
      | None \<Rightarrow> Inl (SessionArgMissing fn_name idx))"

text \<open>\<open>with_state\<close>: the closure updates the state of a live session and returns a value.\<close>

definition with_state ::
  "string \<Rightarrow> string \<Rightarrow> (session_state \<Rightarrow> 'r \<times> session_state) \<Rightarrow> 'a session_world_scheme
     \<Rightarrow> (session_error, 'r) result \<times> 'a session_world_scheme"
where
  "with_state fn_name sid f w =
     (case sw_sessions w of
        None \<Rightarrow> (Inl SessionLock, w)
      | Some reg \<Rightarrow>
          (case reg sid of
             Some s \<Rightarrow> (case f s of (r, s') \<Rightarrow> (Inr r, w\<lparr>sw_sessions := Some (reg(sid \<mapsto> s'))\<rparr>))
           | None \<Rightarrow> (Inl (SESSION_UNKNOWN fn_name sid), w)))"

section \<open>Operations\<close>

definition session_create ::
  "crypto \<Rightarrow> (nat \<Rightarrow> u64) \<Rightarrow> nat \<Rightarrow> string \<Rightarrow> 'a session_world_scheme \<Rightarrow> runtime_value \<times> 'a session_world_scheme"
where
  "session_create C clk millis user w0 =
     (let sid = fresh_session_id C millis user (sw_seq w0);
          w = w0\<lparr>sw_seq := u64_add (sw_seq w0) 1\<rparr>;
          w1 = w\<lparr>sw_sessions := map_option (\<lambda>reg. reg(sid \<mapsto> SessionState_new (clk 0) user)) (sw_sessions w)\<rparr>
      in (session_value sid user False, ledger_session_event C (clk 1) ''create'' sid (''user='' @ user) w1))"

definition session_end ::
  "crypto \<Rightarrow> u64 \<Rightarrow> string \<Rightarrow> string \<Rightarrow> 'a session_world_scheme
     \<Rightarrow> (session_error, unit) result \<times> 'a session_world_scheme"
where
  "session_end C now fn_name sid w =
     (case sw_sessions w of
        None \<Rightarrow> (Inl SessionLock, w)
      | Some reg \<Rightarrow>
          (case reg sid of
             Some s \<Rightarrow> (Inr (), ledger_session_event C now ''end'' sid (''user='' @ ss_user s)
                         (w\<lparr>sw_sessions := Some (reg(sid := None))\<rparr>))
           | None \<Rightarrow> (Inl (SESSION_UNKNOWN fn_name sid), w)))"

definition show_bool :: "bool \<Rightarrow> string" where
  "show_bool b = (if b then ''true'' else ''false'')"

definition duty_enter ::
  "crypto \<Rightarrow> u64 \<Rightarrow> string \<Rightarrow> 'a session_world_scheme \<Rightarrow> (session_error, bool) result \<times> 'a session_world_scheme"
where
  "duty_enter C now sid w =
     (case with_state ''session_duty_enter'' sid (\<lambda>s. (\<not> ss_duty s, s\<lparr>ss_duty := True\<rparr>)) w of
        (Inl e, w') \<Rightarrow> (Inl e, w')
      | (Inr changed, w') \<Rightarrow>
          (Inr changed, ledger_session_event C now ''duty_enter'' sid (''changed='' @ show_bool changed) w'))"

definition duty_exit ::
  "crypto \<Rightarrow> u64 \<Rightarrow> string \<Rightarrow> 'a session_world_scheme \<Rightarrow> (session_error, bool) result \<times> 'a session_world_scheme"
where
  "duty_exit C now sid w =
     (case with_state ''session_duty_exit'' sid (\<lambda>s. (ss_duty s, s\<lparr>ss_duty := False\<rparr>)) w of
        (Inl e, w') \<Rightarrow> (Inl e, w')
      | (Inr changed, w') \<Rightarrow>
          (Inr changed, ledger_session_event C now ''duty_exit'' sid (''changed='' @ show_bool changed) w'))"

definition wake ::
  "crypto \<Rightarrow> (nat \<Rightarrow> u64) \<Rightarrow> string \<Rightarrow> string \<Rightarrow> string \<Rightarrow> 'a session_world_scheme
     \<Rightarrow> (session_error, unit) result \<times> 'a session_world_scheme"
where
  "wake C clk sid source payload w =
     (if source \<notin> set WAKE_SOURCES then (Inl (SESSION_CONTRACT source), w)
      else case with_state ''session_wake'' sid
          (\<lambda>s. ((), s\<lparr>ss_wakes := ss_wakes s @ [\<lparr>we_source = source, we_payload = payload, we_enqueued_unix = clk 0\<rparr>]\<rparr>)) w of
        (Inl e, w') \<Rightarrow> (Inl e, w')
      | (Inr _, w') \<Rightarrow>
          (Inr (), ledger_session_event C (clk 1) ''wake'' sid (''source='' @ source @ ''|'' @ payload) w'))"

definition poll_wake ::
  "crypto \<Rightarrow> u64 \<Rightarrow> string \<Rightarrow> 'a session_world_scheme
     \<Rightarrow> (session_error, (string \<times> string) option) result \<times> 'a session_world_scheme"
where
  "poll_wake C now sid w =
     (case with_state ''session_poll_wake'' sid
         (\<lambda>s. case ss_wakes s of [] \<Rightarrow> (None, s) | e # rest \<Rightarrow> (Some e, s\<lparr>ss_wakes := rest\<rparr>)) w of
        (Inl e, w') \<Rightarrow> (Inl e, w')
      | (Inr None, w') \<Rightarrow> (Inr None, w')
      | (Inr (Some e), w') \<Rightarrow>
          (Inr (Some (we_source e, we_payload e)),
           ledger_session_event C now ''wake_delivered'' sid (''source='' @ we_source e @ ''|'' @ we_payload e) w'))"

definition interrupt ::
  "crypto \<Rightarrow> (nat \<Rightarrow> u64) \<Rightarrow> string \<Rightarrow> string \<Rightarrow> string \<Rightarrow> 'a session_world_scheme
     \<Rightarrow> (session_error, unit) result \<times> 'a session_world_scheme"
where
  "interrupt C clk sid priority reason w =
     (case priority_rank priority of
        None \<Rightarrow> (Inl (SESSION_CONTRACT priority), w)
      | Some rank \<Rightarrow>
          (case with_state ''session_interrupt'' sid
             (\<lambda>s. ((), s\<lparr>ss_interrupts := ss_interrupts s @
                [\<lparr>ie_priority = priority, ie_rank = rank, ie_reason = reason, ie_enqueued_unix = clk 0\<rparr>]\<rparr>)) w of
             (Inl e, w') \<Rightarrow> (Inl e, w')
           | (Inr _, w') \<Rightarrow>
               (Inr (), ledger_session_event C (clk 1) ''interrupt'' sid (''priority='' @ priority @ ''|'' @ reason) w')))"

text \<open>The front scan for the highest rank, and \<open>VecDeque::remove\<close>.\<close>

definition best_interrupt :: "interrupt_event list \<Rightarrow> nat" where
  "best_interrupt q = foldl (\<lambda>best i. if ie_rank (q ! i) > ie_rank (q ! best) then i else best) 0 [0..<length q]"

definition remove_nth :: "nat \<Rightarrow> 'b list \<Rightarrow> 'b list" where
  "remove_nth i q = take i q @ drop (Suc i) q"

definition pop_interrupt :: "interrupt_event list \<Rightarrow> interrupt_event option \<times> interrupt_event list" where
  "pop_interrupt q = (if q = [] then (None, q) else let best = best_interrupt q in (Some (q ! best), remove_nth best q))"

definition take_interrupt ::
  "crypto \<Rightarrow> u64 \<Rightarrow> string \<Rightarrow> 'a session_world_scheme
     \<Rightarrow> (session_error, (string \<times> string) option) result \<times> 'a session_world_scheme"
where
  "take_interrupt C now sid w =
     (case with_state ''session_take_interrupt'' sid
         (\<lambda>s. case pop_interrupt (ss_interrupts s) of (taken, q) \<Rightarrow> (taken, s\<lparr>ss_interrupts := q\<rparr>)) w of
        (Inl e, w') \<Rightarrow> (Inl e, w')
      | (Inr None, w') \<Rightarrow> (Inr None, w')
      | (Inr (Some e), w') \<Rightarrow>
          (Inr (Some (ie_priority e, ie_reason e)),
           ledger_session_event C now ''interrupt_taken'' sid (''priority='' @ ie_priority e @ ''|'' @ ie_reason e) w'))"

definition is_live :: "string \<Rightarrow> 'a session_world_scheme \<Rightarrow> bool" where
  "is_live sid w = (case sw_sessions w of None \<Rightarrow> False | Some reg \<Rightarrow> reg sid \<noteq> None)"

section \<open>Builtins\<close>

definition expect_string :: "string \<Rightarrow> runtime_value list \<Rightarrow> nat \<Rightarrow> (session_error, string) result" where
  "expect_string fn_name args i =
     (case arg_at args i of
        Some (VString s) \<Rightarrow> Inr s
      | Some other \<Rightarrow> Inl (SessionArgType fn_name i (type_name other))
      | None \<Rightarrow> Inl (SessionArgMissing fn_name i))"

text \<open>The optional trailing text of \<open>session_wake\<close> and \<open>session_interrupt\<close>.\<close>

definition expect_optional_text :: "string \<Rightarrow> runtime_value list \<Rightarrow> nat \<Rightarrow> (session_error, string) result" where
  "expect_optional_text fn_name args i =
     (case arg_at args i of
        Some (VString s) \<Rightarrow> Inr s
      | Some VUnit \<Rightarrow> Inr []
      | None \<Rightarrow> Inr []
      | Some other \<Rightarrow> Inl (SessionArgType fn_name i (type_name other)))"

definition builtin_session_login ::
  "crypto \<Rightarrow> (nat \<Rightarrow> u64) \<Rightarrow> nat \<Rightarrow> runtime_value list \<Rightarrow> 'a session_world_scheme
     \<Rightarrow> (session_error, runtime_value) result \<times> 'a session_world_scheme"
where
  "builtin_session_login C clk millis args w =
     (let fn_name = ''session_login''
      in if length args \<noteq> 2 then (Inl (SessionArgCount fn_name (length args)), w)
         else case expect_string fn_name args 0 of
           Inl e \<Rightarrow> (Inl e, w)
         | Inr user \<Rightarrow>
             (case arg_at args 1 of
                None \<Rightarrow> (Inl (SessionArgMissing fn_name 1), w)
              | Some v \<Rightarrow>
                  if type_name v = ''String'' \<or> type_name v = ''Secret''
                  then (case session_create C clk millis user w of (s, w') \<Rightarrow> (Inr s, w'))
                  else (Inl (SessionArgType fn_name 1 (type_name v)), w)))"

text \<open>The builtins that take only the session: check the count, read the id, run the operation.\<close>

definition on_session ::
  "string \<Rightarrow> runtime_value list \<Rightarrow> (string \<Rightarrow> 'a session_world_scheme \<Rightarrow> (session_error, 'r) result \<times> 'a session_world_scheme)
     \<Rightarrow> ('r \<Rightarrow> runtime_value) \<Rightarrow> 'a session_world_scheme \<Rightarrow> (session_error, runtime_value) result \<times> 'a session_world_scheme"
where
  "on_session fn_name args f g w =
     (if length args \<noteq> 1 then (Inl (SessionArgCount fn_name (length args)), w)
      else case session_id_arg fn_name args 0 of
        Inl e \<Rightarrow> (Inl e, w)
      | Inr sid \<Rightarrow> (case f sid w of (Inl e, w') \<Rightarrow> (Inl e, w') | (Inr r, w') \<Rightarrow> (Inr (g r), w')))"

definition builtin_session_logout ::
  "crypto \<Rightarrow> u64 \<Rightarrow> runtime_value list \<Rightarrow> 'a session_world_scheme \<Rightarrow> (session_error, runtime_value) result \<times> 'a session_world_scheme"
where
  "builtin_session_logout C now args =
     on_session ''session_logout'' args (session_end C now ''session_logout'') (\<lambda>_. VUnit)"

definition builtin_session_duty_enter ::
  "crypto \<Rightarrow> u64 \<Rightarrow> runtime_value list \<Rightarrow> 'a session_world_scheme \<Rightarrow> (session_error, runtime_value) result \<times> 'a session_world_scheme"
where
  "builtin_session_duty_enter C now args = on_session ''session_duty_enter'' args (duty_enter C now) VBool"

definition builtin_session_duty_exit ::
  "crypto \<Rightarrow> u64 \<Rightarrow> runtime_value list \<Rightarrow> 'a session_world_scheme \<Rightarrow> (session_error, runtime_value) result \<times> 'a session_world_scheme"
where
  "builtin_session_duty_exit C now args = on_session ''session_duty_exit'' args (duty_exit C now) VBool"

definition builtin_session_wake ::
  "crypto \<Rightarrow> (nat \<Rightarrow> u64) \<Rightarrow> runtime_value list \<Rightarrow> 'a session_world_scheme
     \<Rightarrow> (session_error, runtime_value) result \<times> 'a session_world_scheme"
where
  "builtin_session_wake C clk args w =
     (let fn_name = ''session_wake''
      in if length args < 2 \<or> length args > 3 then (Inl (SessionArgCount fn_name (length args)), w)
         else case session_id_arg fn_name args 0 of
           Inl e \<Rightarrow> (Inl e, w)
         | Inr sid \<Rightarrow>
             (case expect_string fn_name args 1 of
                Inl e \<Rightarrow> (Inl e, w)
              | Inr source \<Rightarrow>
                  (case expect_optional_text fn_name args 2 of
                     Inl e \<Rightarrow> (Inl e, w)
                   | Inr payload \<Rightarrow>
                       (case wake C clk sid source payload w of
                          (Inl e, w') \<Rightarrow> (Inl e, w')
                        | (Inr _, w') \<Rightarrow> (Inr (VString source), w')))))"

definition builtin_session_poll_wake ::
  "crypto \<Rightarrow> u64 \<Rightarrow> runtime_value list \<Rightarrow> 'a session_world_scheme \<Rightarrow> (session_error, runtime_value) result \<times> 'a session_world_scheme"
where
  "builtin_session_poll_wake C now args =
     on_session ''session_poll_wake'' args (poll_wake C now)
       (\<lambda>r. case r of
          Some (source, payload) \<Rightarrow> VStruct ''Wake'' [''source'' \<mapsto> VString source, ''payload'' \<mapsto> VString payload]
        | None \<Rightarrow> VUnit)"

definition builtin_session_interrupt ::
  "crypto \<Rightarrow> (nat \<Rightarrow> u64) \<Rightarrow> runtime_value list \<Rightarrow> 'a session_world_scheme
     \<Rightarrow> (session_error, runtime_value) result \<times> 'a session_world_scheme"
where
  "builtin_session_interrupt C clk args w =
     (let fn_name = ''session_interrupt''
      in if length args < 2 \<or> length args > 3 then (Inl (SessionArgCount fn_name (length args)), w)
         else case session_id_arg fn_name args 0 of
           Inl e \<Rightarrow> (Inl e, w)
         | Inr sid \<Rightarrow>
             (case expect_string fn_name args 1 of
                Inl e \<Rightarrow> (Inl e, w)
              | Inr priority \<Rightarrow>
                  (case expect_optional_text fn_name args 2 of
                     Inl e \<Rightarrow> (Inl e, w)
                   | Inr reason \<Rightarrow>
                       (case interrupt C clk sid priority reason w of
                          (Inl e, w') \<Rightarrow> (Inl e, w')
                        | (Inr _, w') \<Rightarrow> (Inr (VString priority), w')))))"

definition builtin_session_take_interrupt ::
  "crypto \<Rightarrow> u64 \<Rightarrow> runtime_value list \<Rightarrow> 'a session_world_scheme \<Rightarrow> (session_error, runtime_value) result \<times> 'a session_world_scheme"
where
  "builtin_session_take_interrupt C now args =
     on_session ''session_take_interrupt'' args (take_interrupt C now)
       (\<lambda>r. case r of
          Some (priority, reason) \<Rightarrow>
            VStruct ''Interrupt'' [''priority'' \<mapsto> VString priority, ''reason'' \<mapsto> VString reason]
        | None \<Rightarrow> VUnit)"

section \<open>The interrupt queue\<close>

abbreviation urgency :: "interrupt_event \<Rightarrow> int" where
  "urgency e \<equiv> - int (ie_rank e)"

lemma best_scan:
  assumes "n < length q"
  defines "b \<equiv> foldl (\<lambda>best i. if ie_rank (q ! i) > ie_rank (q ! best) then i else best) 0 [0..<Suc n]"
  shows "b \<le> n \<and> (\<forall>i \<le> n. ie_rank (q ! i) \<le> ie_rank (q ! b)) \<and> (\<forall>i < b. ie_rank (q ! i) < ie_rank (q ! b))"
  using assms(1) unfolding b_def
proof (induction n)
  case 0
  then show ?case by simp
next
  case (Suc n)
  let ?f = "\<lambda>best i. if ie_rank (q ! i) > ie_rank (q ! best) then i else best"
  let ?b = "foldl ?f 0 [0..<Suc n]"
  have IH: "?b \<le> n" "\<forall>i \<le> n. ie_rank (q ! i) \<le> ie_rank (q ! ?b)" "\<forall>i < ?b. ie_rank (q ! i) < ie_rank (q ! ?b)"
    using Suc by simp_all
  have "foldl ?f 0 [0..<Suc (Suc n)] = ?f ?b (Suc n)" by simp
  then show ?case
    using IH by (auto simp: le_Suc_eq less_Suc_eq_le simp del: upt_Suc)
qed

lemma best_interrupt_split:
  assumes "q \<noteq> []"
  shows "\<exists>xs e ys. q = xs @ e # ys \<and> best_interrupt q = length xs
    \<and> (\<forall>x \<in> set xs. urgency e < urgency x) \<and> (\<forall>y \<in> set ys. urgency e \<le> urgency y)"
proof -
  let ?b = "best_interrupt q"
  obtain n where n: "length q = Suc n" using assms by (cases q) auto
  have b: "?b < length q" "\<forall>i < length q. ie_rank (q ! i) \<le> ie_rank (q ! ?b)" "\<forall>i < ?b. ie_rank (q ! i) < ie_rank (q ! ?b)"
    using best_scan [of n q] n unfolding best_interrupt_def n by (auto simp: less_Suc_eq_le)
  have "q = take ?b q @ q ! ?b # drop (Suc ?b) q" using b(1) by (rule id_take_nth_drop)
  moreover have "\<forall>x \<in> set (take ?b q). urgency (q ! ?b) < urgency x"
    using b(1,3) by (auto simp: in_set_conv_nth)
  moreover have "\<forall>y \<in> set (drop (Suc ?b) q). urgency (q ! ?b) \<le> urgency y"
    using b(1,2) by (auto simp: in_set_conv_nth)
  ultimately show ?thesis using b(1) by (metis length_take min.absorb2 order_less_imp_le)
qed

lemma sort_key_extract:
  "\<forall>x \<in> set xs. k e < k x \<Longrightarrow> \<forall>y \<in> set ys. k e \<le> k y \<Longrightarrow>
     sort_key k (xs @ e # ys) = e # sort_key (k :: 'b \<Rightarrow> int) (xs @ ys)"
proof (induction xs)
  case Nil
  then show ?case by (simp add: insort_is_Cons)
qed auto

lemma pop_interrupt_sorts:
  assumes "q \<noteq> []"
  shows "\<exists>e q'. pop_interrupt q = (Some e, q') \<and> sort_key urgency q = e # sort_key urgency q'
    \<and> mset q = add_mset e (mset q')"
proof -
  obtain xs e ys where q: "q = xs @ e # ys" "best_interrupt q = length xs"
    "\<forall>x \<in> set xs. urgency e < urgency x" "\<forall>y \<in> set ys. urgency e \<le> urgency y"
    using best_interrupt_split [OF assms] by blast
  have "pop_interrupt q = (Some e, xs @ ys)"
    using assms q(1,2) by (simp add: pop_interrupt_def remove_nth_def)
  with sort_key_extract [OF q(3,4)] q(1) show ?thesis by auto
qed

lemma pop_interrupt_Nil [simp]: "pop_interrupt [] = (None, [])"
  by (simp add: pop_interrupt_def)

definition session_at :: "string \<Rightarrow> 'a session_world_scheme \<Rightarrow> session_state option" where
  "session_at sid w = (case sw_sessions w of None \<Rightarrow> None | Some reg \<Rightarrow> reg sid)"

lemma session_at_event [simp]: "session_at x (ledger_session_event C now kind sid detail w) = session_at x w"
  by (simp add: session_at_def ledger_session_event_def)

lemma session_at_update [simp]:
  "session_at x (w\<lparr>sw_sessions := Some (reg(sid \<mapsto> s))\<rparr>) = (if x = sid then Some s else reg x)"
  by (simp add: session_at_def)

lemma with_state_cases:
  "with_state fn sid f w =
     (case session_at sid w of
        None \<Rightarrow> (Inl (if sw_sessions w = None then SessionLock else SESSION_UNKNOWN fn sid), w)
      | Some s \<Rightarrow> (Inr (fst (f s)), w\<lparr>sw_sessions := Some ((the (sw_sessions w))(sid \<mapsto> snd (f s)))\<rparr>))"
  by (auto simp: with_state_def session_at_def split: option.splits prod.splits)

lemma session_at_Some: "session_at sid w = Some s \<Longrightarrow> \<exists>reg. sw_sessions w = Some reg \<and> reg sid = Some s"
  by (simp add: session_at_def split: option.splits)

text \<open>Repeated takes, one per clock reading.\<close>

fun take_all ::
  "crypto \<Rightarrow> u64 list \<Rightarrow> string \<Rightarrow> 'a session_world_scheme
     \<Rightarrow> (session_error, (string \<times> string) option) result list \<times> 'a session_world_scheme"
where
  "take_all C [] sid w = ([], w)"
| "take_all C (now # nows) sid w =
     (let (r, w1) = take_interrupt C now sid w; (rs, w2) = take_all C nows sid w1 in (r # rs, w2))"

lemma take_interrupt_live:
  assumes "session_at sid w = Some s" "ss_interrupts s \<noteq> []"
  shows "\<exists>e q' w'. take_interrupt C now sid w = (Inr (Some (ie_priority e, ie_reason e)), w')
    \<and> sort_key urgency (ss_interrupts s) = e # sort_key urgency q' \<and> length (ss_interrupts s) = Suc (length q')
    \<and> session_at sid w' = Some (s\<lparr>ss_interrupts := q'\<rparr>) \<and> (\<forall>x. x \<noteq> sid \<longrightarrow> session_at x w' = session_at x w)"
proof -
  obtain e q' where p: "pop_interrupt (ss_interrupts s) = (Some e, q')"
      "sort_key urgency (ss_interrupts s) = e # sort_key urgency q'" "mset (ss_interrupts s) = add_mset e (mset q')"
    using pop_interrupt_sorts [OF assms(2)] by blast
  then have "length (ss_interrupts s) = Suc (length q')" by (metis size_add_mset size_mset)
  moreover obtain reg where "sw_sessions w = Some reg" "\<And>x. session_at x w = reg x"
    using session_at_Some [OF assms(1)] by (auto simp: session_at_def)
  ultimately show ?thesis
    using p assms(1) by (intro exI [of _ e] exI [of _ q']) (simp add: take_interrupt_def with_state_cases)
qed

text \<open>
  C29. Interrupts are never starved. On a live session with any queue of pending interrupts, as many
  takes as there are interrupts deliver all of them, the most urgent first and in the order of arrival
  within one priority (the stable sort of the queue by urgency); the next take finds nothing, and no
  other session is touched.
\<close>

theorem interrupts_drain_by_urgency:
  assumes "session_at sid w = Some s" "length nows = length (ss_interrupts s)"
  shows "\<exists>w'. take_all C nows sid w =
        (map (\<lambda>e. Inr (Some (ie_priority e, ie_reason e))) (sort_key (\<lambda>e. - int (ie_rank e)) (ss_interrupts s)), w')
    \<and> session_at sid w' = Some (s\<lparr>ss_interrupts := []\<rparr>) \<and> fst (take_interrupt C now sid w') = Inr None
    \<and> (\<forall>x. x \<noteq> sid \<longrightarrow> session_at x w' = session_at x w)"
  using assms
proof (induction nows arbitrary: w s)
  case Nil
  then have "session_at sid w = Some (s\<lparr>ss_interrupts := []\<rparr>)" by (cases s) simp
  with Nil show ?case by (simp add: take_interrupt_def with_state_cases)
next
  case (Cons t nows)
  then have "ss_interrupts s \<noteq> []" by auto
  from take_interrupt_live [OF Cons.prems(1) this, of C t] obtain e q' w1 where
    t: "take_interrupt C t sid w = (Inr (Some (ie_priority e, ie_reason e)), w1)"
      "sort_key urgency (ss_interrupts s) = e # sort_key urgency q'" "length (ss_interrupts s) = Suc (length q')"
      "session_at sid w1 = Some (s\<lparr>ss_interrupts := q'\<rparr>)" "\<forall>x. x \<noteq> sid \<longrightarrow> session_at x w1 = session_at x w"
    by blast
  with Cons.IH [OF t(4)] Cons.prems(2) obtain w2 where
    "take_all C nows sid w1 = (map (\<lambda>e. Inr (Some (ie_priority e, ie_reason e))) (sort_key urgency q'), w2)"
    "session_at sid w2 = Some (s\<lparr>ss_interrupts := []\<rparr>)" "fst (take_interrupt C now sid w2) = Inr None"
    "\<forall>x. x \<noteq> sid \<longrightarrow> session_at x w2 = session_at x w1"
    by auto
  with t show ?case by (intro exI [of _ w2]) simp
qed

definition demo_interrupts :: session_world where
  "demo_interrupts = snd (interrupt sample_crypto (\<lambda>_. 3) ''s-1'' ''critical'' ''fire''
     (snd (interrupt sample_crypto (\<lambda>_. 2) ''s-1'' ''low'' ''mail''
       \<lparr>sw_ledger = demo_start, sw_sessions = Some [''s-1'' \<mapsto> SessionState_new 1 ''ann''], sw_seq = 1\<rparr>)))"

lemma demo_interrupts_queue:
  "\<exists>s. session_at ''s-1'' demo_interrupts = Some s \<and> map ie_reason (ss_interrupts s) = [''mail'', ''fire'']
     \<and> map ie_priority (ss_interrupts s) = [''low'', ''critical''] \<and> map ie_rank (ss_interrupts s) = [0, 3]"
  by (simp add: demo_interrupts_def interrupt_def with_state_def priority_rank_def INTERRUPT_PRIORITIES_def
      ledger_session_event_def session_at_def SessionState_new_def)

theorem interrupts_drain_by_urgency_witness:
  "fst (take_all sample_crypto [4, 5] ''s-1'' demo_interrupts)
     = [Inr (Some (''critical'', ''fire'')), Inr (Some (''low'', ''mail''))]"
proof -
  obtain s a b where s: "session_at ''s-1'' demo_interrupts = Some s" "ss_interrupts s = [a, b]"
      "ie_reason a = ''mail''" "ie_reason b = ''fire''" "ie_priority a = ''low''" "ie_priority b = ''critical''"
      "ie_rank a = 0" "ie_rank b = 3"
    using demo_interrupts_queue by (auto simp: map_eq_Cons_conv)
  from interrupts_drain_by_urgency [OF s(1), of "[4, 5]" sample_crypto 6] s show ?thesis
    by (auto simp del: take_all.simps)
qed

end
