(* ===== verification/Session_Audit.thy ===== *)
theory Session_Audit
  imports Session
begin

text \<open>
  The audit trail of sessions: what a run of session operations writes to the action ledger, and
  that the ledger accounts for every interrupt. The proofs use the ledger only through the laws of
  \<open>journal\<close>.
\<close>

section \<open>Runs\<close>

datatype session_op =
  SCreate "nat \<Rightarrow> u64" nat string
| SEnd u64 string string
| SEnter u64 string
| SExit u64 string
| SWake "nat \<Rightarrow> u64" string string string
| SPoll u64 string
| SInterrupt "nat \<Rightarrow> u64" string string string
| STake u64 string

fun run_session :: "crypto \<Rightarrow> session_op \<Rightarrow> 'a session_world_scheme \<Rightarrow> 'a session_world_scheme" where
  "run_session C (SCreate clk millis user) w = snd (session_create C clk millis user w)"
| "run_session C (SEnd now fn sid) w = snd (session_end C now fn sid w)"
| "run_session C (SEnter now sid) w = snd (duty_enter C now sid w)"
| "run_session C (SExit now sid) w = snd (duty_exit C now sid w)"
| "run_session C (SWake clk sid source payload) w = snd (wake C clk sid source payload w)"
| "run_session C (SPoll now sid) w = snd (poll_wake C now sid w)"
| "run_session C (SInterrupt clk sid priority reason) w = snd (interrupt C clk sid priority reason w)"
| "run_session C (STake now sid) w = snd (take_interrupt C now sid w)"

definition session_entry :: "u64 \<Rightarrow> string \<Rightarrow> string \<Rightarrow> string \<Rightarrow> ledger_event" where
  "session_entry now kind sid detail = (now, ''session.'' @ kind, sid, ''session'', detail)"

text \<open>The events an operation is documented to record: one for a transition that happened, none for
  a refusal or an empty queue.\<close>

fun session_events :: "crypto \<Rightarrow> session_op \<Rightarrow> 'a session_world_scheme \<Rightarrow> ledger_event list" where
  "session_events C (SCreate clk millis user) w =
     [session_entry (clk 1) ''create'' (fresh_session_id C millis user (sw_seq w)) (''user='' @ user)]"
| "session_events C (SEnd now fn sid) w =
     (case session_at sid w of None \<Rightarrow> [] | Some s \<Rightarrow> [session_entry now ''end'' sid (''user='' @ ss_user s)])"
| "session_events C (SEnter now sid) w =
     (case session_at sid w of None \<Rightarrow> []
      | Some s \<Rightarrow> [session_entry now ''duty_enter'' sid (''changed='' @ show_bool (\<not> ss_duty s))])"
| "session_events C (SExit now sid) w =
     (case session_at sid w of None \<Rightarrow> []
      | Some s \<Rightarrow> [session_entry now ''duty_exit'' sid (''changed='' @ show_bool (ss_duty s))])"
| "session_events C (SWake clk sid source payload) w =
     (if source \<in> set WAKE_SOURCES \<and> session_at sid w \<noteq> None
      then [session_entry (clk 1) ''wake'' sid (''source='' @ source @ ''|'' @ payload)] else [])"
| "session_events C (SPoll now sid) w =
     (case session_at sid w of None \<Rightarrow> []
      | Some s \<Rightarrow> (case ss_wakes s of [] \<Rightarrow> []
          | e # _ \<Rightarrow> [session_entry now ''wake_delivered'' sid (''source='' @ we_source e @ ''|'' @ we_payload e)]))"
| "session_events C (SInterrupt clk sid priority reason) w =
     (if priority \<in> set INTERRUPT_PRIORITIES \<and> session_at sid w \<noteq> None
      then [session_entry (clk 1) ''interrupt'' sid (''priority='' @ priority @ ''|'' @ reason)] else [])"
| "session_events C (STake now sid) w =
     (case session_at sid w of None \<Rightarrow> []
      | Some s \<Rightarrow> (case fst (pop_interrupt (ss_interrupts s)) of None \<Rightarrow> []
          | Some e \<Rightarrow> [session_entry now ''interrupt_taken'' sid (''priority='' @ ie_priority e @ ''|'' @ ie_reason e)]))"

fun run_events :: "crypto \<Rightarrow> session_op list \<Rightarrow> 'a session_world_scheme \<Rightarrow> ledger_event list" where
  "run_events C [] w = []"
| "run_events C (a # ops) w = session_events C a w @ run_events C ops (run_session C a w)"

lemma sw_ledger_event [simp]:
  "sw_ledger (ledger_session_event C now kind sid detail w) = emit_event C (session_entry now kind sid detail) (sw_ledger w)"
  by (simp add: ledger_session_event_def emit_event_def session_entry_def)

lemma sw_sessions_event [simp]: "sw_sessions (ledger_session_event C now kind sid detail w) = sw_sessions w"
  by (simp add: ledger_session_event_def)

lemma priority_rank_known: "priority_rank p = None \<longleftrightarrow> p \<notin> set INTERRUPT_PRIORITIES"
  by (simp add: priority_rank_def index_of_None)

lemma run_session_ledger:
  "sw_ledger (run_session C a w) = fold (emit_event C) (session_events C a w) (sw_ledger w)"
proof (cases a)
  case (SInterrupt clk sid p r)
  then show ?thesis
    using priority_rank_known [of p] by (auto simp: interrupt_def with_state_cases split: option.splits)
qed (auto simp: session_create_def session_end_def duty_enter_def duty_exit_def wake_def poll_wake_def
    take_interrupt_def with_state_cases session_at_def Let_def split: option.splits list.splits prod.splits)

lemma fold_run_ledger:
  "sw_ledger (fold (run_session C) ops w) = fold (emit_event C) (run_events C ops w) (sw_ledger w)"
  by (induction ops arbitrary: w) (simp_all add: run_session_ledger)

section \<open>Accounting for interrupts\<close>

definition interrupt_text :: "interrupt_event \<Rightarrow> string" where
  "interrupt_text e = ''priority='' @ ie_priority e @ ''|'' @ ie_reason e"

definition details_of :: "string \<Rightarrow> string \<Rightarrow> ledger_event list \<Rightarrow> string list" where
  "details_of kind sid evs =
     map (\<lambda>(_, _, _, _, detail). detail) (filter (\<lambda>(_, action, actor, _, _). action = ''session.'' @ kind \<and> actor = sid) evs)"

lemma details_of_simps [simp]:
  "details_of kind sid [] = []" "details_of kind sid (es @ fs) = details_of kind sid es @ details_of kind sid fs"
  "details_of kind sid [session_entry now k x detail] = (if k = kind \<and> x = sid then [detail] else [])"
  by (auto simp: details_of_def session_entry_def)

text \<open>An operation that neither ends the session nor mints its id again.\<close>

fun keeps_session :: "crypto \<Rightarrow> string \<Rightarrow> session_op \<Rightarrow> bool" where
  "keeps_session C sid (SCreate clk millis user) = (\<forall>n. fresh_session_id C millis user n \<noteq> sid)"
| "keeps_session C sid (SEnd now fn x) = (x \<noteq> sid)"
| "keeps_session C sid _ = True"

definition balanced_queue :: "string \<Rightarrow> ledger_event list \<Rightarrow> session_state \<Rightarrow> session_state \<Rightarrow> bool" where
  "balanced_queue sid evs s s' \<longleftrightarrow>
     mset (map interrupt_text (ss_interrupts s')) + mset (details_of ''interrupt_taken'' sid evs)
     = mset (map interrupt_text (ss_interrupts s)) + mset (details_of ''interrupt'' sid evs)"

lemma balance_trans:
  fixes q q1 q2 i1 i2 t1 t2 :: "'b multiset"
  assumes "q1 + t1 = q + i1" "q2 + t2 = q1 + i2"
  shows "q2 + (t1 + t2) = q + (i1 + i2)"
proof -
  have "q2 + (t1 + t2) = (q1 + t1) + i2" using assms(2) by (simp add: ac_simps)
  also have "\<dots> = q + (i1 + i2)" using assms(1) by (simp add: ac_simps)
  finally show ?thesis .
qed

lemma live_reg: "session_at sid w = Some s \<Longrightarrow> the (sw_sessions w) y = session_at y w"
  by (auto simp: session_at_def split: option.splits)

lemma take_balanced:
  assumes "session_at sid w = Some s"
  shows "\<exists>s'. session_at sid (run_session C (STake now x) w) = Some s' \<and> balanced_queue sid (session_events C (STake now x) w) s s'"
proof (cases "session_at x w")
  case None
  with assms show ?thesis by (simp add: take_interrupt_def with_state_cases balanced_queue_def)
next
  case (Some t)
  show ?thesis
  proof (cases "ss_interrupts t = []")
    case True
    with Some assms show ?thesis
      by (auto simp: take_interrupt_def with_state_cases balanced_queue_def live_reg [OF assms])
  next
    case False
    then obtain e q' where p: "pop_interrupt (ss_interrupts t) = (Some e, q')" "mset (ss_interrupts t) = add_mset e (mset q')"
      using pop_interrupt_sorts by blast
    then have "mset (map interrupt_text (ss_interrupts t)) = add_mset (interrupt_text e) (mset (map interrupt_text q'))"
      by simp
    with Some p(1) assms show ?thesis
      by (auto simp: take_interrupt_def with_state_cases balanced_queue_def live_reg [OF assms] interrupt_text_def)
  qed
qed

lemma step_balanced:
  assumes "session_at sid w = Some s" "keeps_session C sid a"
  shows "\<exists>s'. session_at sid (run_session C a w) = Some s' \<and> balanced_queue sid (session_events C a w) s s'"
proof (cases a)
  case (STake now x)
  with take_balanced [OF assms(1)] show ?thesis by simp
next
  case (SInterrupt clk x p r)
  moreover obtain reg where "sw_sessions w = Some reg" "\<And>y. session_at y w = reg y"
    using session_at_Some [OF assms(1)] by (auto simp: session_at_def)
  ultimately show ?thesis
    using assms priority_rank_known [of p]
    by (auto simp: interrupt_def with_state_cases balanced_queue_def interrupt_text_def split: option.splits)
next
  case (SPoll now x)
  moreover obtain reg where "sw_sessions w = Some reg" "\<And>y. session_at y w = reg y"
    using session_at_Some [OF assms(1)] by (auto simp: session_at_def)
  ultimately show ?thesis
    using assms by (auto simp: poll_wake_def with_state_cases balanced_queue_def split: option.splits list.splits)
qed (use assms in \<open>auto simp: session_create_def session_end_def duty_enter_def duty_exit_def wake_def
    with_state_cases balanced_queue_def session_at_def Let_def split: option.splits\<close>)

lemma run_balanced:
  "session_at sid w = Some s \<Longrightarrow> list_all (keeps_session C sid) ops \<Longrightarrow>
     \<exists>s'. session_at sid (fold (run_session C) ops w) = Some s' \<and> balanced_queue sid (run_events C ops w) s s'"
proof (induction ops arbitrary: w s)
  case (Cons a ops)
  obtain t where t: "session_at sid (run_session C a w) = Some t" "balanced_queue sid (session_events C a w) s t"
    using step_balanced Cons.prems by fastforce
  obtain s' where "session_at sid (fold (run_session C) (a # ops) w) = Some s'"
      "balanced_queue sid (run_events C ops (run_session C a w)) t s'"
    using Cons.IH [OF t(1)] Cons.prems by auto
  moreover from this(2) t(2) have "balanced_queue sid (run_events C (a # ops) w) s s'"
    unfolding balanced_queue_def run_events.simps details_of_simps mset_append by (intro balance_trans)
  ultimately show ?case by blast
qed (simp add: balanced_queue_def)

text \<open>
  C14. The ledger accounts for every session transition. A run of session operations on a
  well-formed ledger with room appends exactly one record per transition that happened, in order, with
  its time, kind, session and the hash of its detail, and none for refusals. For a session that is
  live during the run, the interrupts still pending and those recorded as taken are together the
  interrupts that were pending before and those recorded as queued: none is lost or invented.
\<close>

theorem session_trail_complete:
  assumes "crypto_ok C" "ledger_inv C (sw_ledger w)" "list_all event_fine (run_events C ops w)"
    "ledger_room (length (run_events C ops w)) (sw_ledger w)"
  shows "map record_desc (ledger_rows (sw_ledger (fold (run_session C) ops w)))
       = map record_desc (ledger_rows (sw_ledger w)) @ map (event_key C) (run_events C ops w)
   \<and> ledger_inv C (sw_ledger (fold (run_session C) ops w))
   \<and> (session_at sid w = Some s \<and> list_all (keeps_session C sid) ops \<longrightarrow>
        (\<exists>s'. session_at sid (fold (run_session C) ops w) = Some s'
          \<and> mset (map interrupt_text (ss_interrupts s')) + mset (details_of ''interrupt_taken'' sid (run_events C ops w))
            = mset (map interrupt_text (ss_interrupts s)) + mset (details_of ''interrupt'' sid (run_events C ops w))))"
  using assms ledger_journal.emits_desc [of C "sw_ledger w" "run_events C ops w"]
    ledger_journal.emits_wf [of C "sw_ledger w" "run_events C ops w"] run_balanced [of sid w s C ops]
  by (simp add: fold_run_ledger balanced_queue_def)

definition demo_session_world :: session_world where
  "demo_session_world = \<lparr>sw_ledger = demo_start, sw_sessions = Some [''s-1'' \<mapsto> SessionState_new 1 ''ann''], sw_seq = 1\<rparr>"

definition demo_session_ops :: "session_op list" where
  "demo_session_ops =
     [SInterrupt (\<lambda>_. 2) ''s-1'' ''low'' ''mail'', SInterrupt (\<lambda>_. 3) ''s-1'' ''panic'' ''x'', STake 4 ''s-1'']"

lemma demo_session_events:
  "run_events sample_crypto demo_session_ops demo_session_world =
    [session_entry 2 ''interrupt'' ''s-1'' ''priority=low|mail'', session_entry 4 ''interrupt_taken'' ''s-1'' ''priority=low|mail'']"
  by (simp add: demo_session_ops_def interrupt_def with_state_def priority_rank_def INTERRUPT_PRIORITIES_def
      ledger_session_event_def session_at_def SessionState_new_def demo_session_world_def pop_interrupt_def
      best_interrupt_def Let_def)

theorem session_trail_complete_witness:
  "length (ledger_rows (sw_ledger (fold (run_session sample_crypto) demo_session_ops demo_session_world)))
     = length (ledger_rows demo_start) + 2"
proof -
  have "ledger_inv sample_crypto (sw_ledger demo_session_world)"
    using ledger_run_inv [OF sample_crypto_ok demo_start_run] by (simp add: demo_session_world_def)
  moreover have "list_all event_fine (run_events sample_crypto demo_session_ops demo_session_world)"
    unfolding demo_session_events by (simp add: event_fine_def session_entry_def)
  moreover have "ledger_room (length (run_events sample_crypto demo_session_ops demo_session_world)) (sw_ledger demo_session_world)"
    unfolding demo_session_events
    by (simp add: ledger_room_def demo_session_world_def demo_start_def ledger_rows_def ledger_init_def)
  ultimately have "map record_desc (ledger_rows (sw_ledger (fold (run_session sample_crypto) demo_session_ops demo_session_world)))
      = map record_desc (ledger_rows (sw_ledger demo_session_world))
        @ map (event_key sample_crypto) (run_events sample_crypto demo_session_ops demo_session_world)"
    using session_trail_complete [OF sample_crypto_ok] by blast
  from arg_cong [OF this, of length] show ?thesis
    unfolding demo_session_events length_map length_append by (simp add: demo_session_world_def)
qed

end
