(* ===== verification/Duplex.thy ===== *)
theory Duplex
  imports Session_Audit Consent
begin

text \<open>
  \<open>src/duplex.rs\<close> and \<open>src/builtins/duplex.rs\<close>: the duplex channel over a session, its two directed
  streams, the barge-in decision on the priority ladder of sessions, and the consent gate in front of
  both directions. The state extends that of sessions by the consent table, the registry of channels
  (\<open>None\<close> when its lock is poisoned) and its counter. Stream ids are opaque text from a hash; text
  outside ASCII is written as its UTF-8 bytes.
\<close>

section \<open>State\<close>

definition DUPLEX_PRIORITIES :: "string list" where
  "DUPLEX_PRIORITIES = INTERRUPT_PRIORITIES"

definition duplex_rank :: "string \<Rightarrow> nat option" where
  "duplex_rank word = index_of word DUPLEX_PRIORITIES"

datatype stream_outcome = StreamActive | StreamCompleted | InterruptedBy string nat

fun outcome_as_str :: "stream_outcome \<Rightarrow> string" where
  "outcome_as_str StreamActive = ''active''"
| "outcome_as_str StreamCompleted = ''completed''"
| "outcome_as_str (InterruptedBy _ _) = ''interrupted''"

record stream =
  st_id :: string
  st_direction :: string
  st_rank :: nat
  st_priority_word :: string
  st_outcome :: stream_outcome

record duplex_channel =
  dc_id :: string
  dc_session :: string
  dc_default_rank :: nat
  dc_listen :: "stream option"
  dc_speak :: "stream option"
  dc_listen_last :: "stream option"
  dc_speak_last :: "stream option"

record duplex_world = session_world +
  dw_consent :: consent_conn
  dw_channels :: "(string \<rightharpoonup> duplex_channel) option"
  dw_seq :: u64

datatype duplex_error =
  DuplexLock
| DuplexPriority string
| DuplexSessionUnknown string
| DUPLEX_UNKNOWN string string
| DUPLEX_BUSY string string
| DUPLEX_PREEMPT_DENIED string nat string nat
| DUPLEX_IDLE string string
| DuplexInvariantBroken string
| AUDIO_CONSENT_REQUIRED string string
| DuplexNoId string
| DuplexArgType string nat string
| DuplexArgMissing string nat
| DuplexArgCount string nat
| DuplexSessionArg session_error

definition duplex_fresh_id :: "crypto \<Rightarrow> nat \<Rightarrow> string \<Rightarrow> string \<Rightarrow> u64 \<Rightarrow> string" where
  "duplex_fresh_id C millis pre seed seq =
     pre @ ''-'' @ take 16 (sha256_hex C (seed @ ''|'' @ show_dec millis @ ''|'' @ show_dec seq @ ''|'' @ pre))"

definition bump_seq :: "'a duplex_world_scheme \<Rightarrow> 'a duplex_world_scheme" where
  "bump_seq w = w\<lparr>dw_seq := u64_add (dw_seq w) 1\<rparr>"

definition duplex_entry :: "u64 \<Rightarrow> string \<Rightarrow> string \<Rightarrow> string \<Rightarrow> ledger_event" where
  "duplex_entry now kind cid detail = (now, ''duplex.'' @ kind, cid, ''duplex'', detail)"

definition ledger_duplex_event ::
  "crypto \<Rightarrow> u64 \<Rightarrow> string \<Rightarrow> string \<Rightarrow> string \<Rightarrow> 'a duplex_world_scheme \<Rightarrow> 'a duplex_world_scheme"
where
  "ledger_duplex_event C now kind cid detail w =
     w\<lparr>sw_ledger := record_action C now (''duplex.'' @ kind) cid ''duplex'' detail (sw_ledger w)\<rparr>"

definition require_audio_consent ::
  "crypto \<Rightarrow> (nat \<Rightarrow> u64) \<Rightarrow> string \<Rightarrow> string \<Rightarrow> 'a duplex_world_scheme
     \<Rightarrow> (duplex_error, unit) result \<times> 'a duplex_world_scheme"
where
  "require_audio_consent C clk direction_flow cid w =
     (let scope = ''audio.'' @ direction_flow
      in if active_grant_for (clk 0) scope (dw_consent w) then (Inr (), w)
         else (Inl (AUDIO_CONSENT_REQUIRED direction_flow cid),
               ledger_duplex_event C (clk 1) (direction_flow @ ''_denied'') cid
                 (''no active consent grant '' @ [CHR 0x27] @ scope @ [CHR 0x27, CHR '' '', CHR 0xE2, CHR 0x80, CHR 0x94]
                  @ '' audio '' @ direction_flow @ '' refused fail-closed ('' @ [CHR 0xE2, CHR 0x84, CHR 0x96]
                  @ ''428/ADR-0174 '' @ [CHR 0xC2, CHR 0xA7] @ ''4)'') w))"

definition channel_id_arg :: "string \<Rightarrow> runtime_value list \<Rightarrow> nat \<Rightarrow> (duplex_error, string) result" where
  "channel_id_arg fn_name args idx =
     (case arg_at args idx of
        Some (VDuplex m) \<Rightarrow>
          (case m ''id'' of
             Some cid \<Rightarrow> if cid \<noteq> [] then Inr cid else Inl (DuplexNoId fn_name)
           | None \<Rightarrow> Inl (DuplexNoId fn_name))
      | Some other \<Rightarrow> Inl (DuplexArgType fn_name idx (type_name other))
      | None \<Rightarrow> Inl (DuplexArgMissing fn_name idx))"

definition channel_value :: "duplex_channel \<Rightarrow> runtime_value" where
  "channel_value c = VDuplex [''id'' \<mapsto> dc_id c, ''session'' \<mapsto> dc_session c]"

section \<open>Opening\<close>

definition duplex_open ::
  "crypto \<Rightarrow> u64 \<Rightarrow> nat \<Rightarrow> string \<Rightarrow> string \<Rightarrow> 'a duplex_world_scheme
     \<Rightarrow> (duplex_error, runtime_value) result \<times> 'a duplex_world_scheme"
where
  "duplex_open C now millis session_id default_priority w =
     (case duplex_rank default_priority of
        None \<Rightarrow> (Inl (DuplexPriority default_priority), w)
      | Some rank \<Rightarrow>
          if \<not> is_live session_id w then (Inl (DuplexSessionUnknown session_id), w)
          else
            (case dw_channels w of
               None \<Rightarrow> (Inl DuplexLock, w)
             | Some reg \<Rightarrow>
                 (let c = \<lparr>dc_id = duplex_fresh_id C millis ''dup'' session_id (dw_seq w), dc_session = session_id,
                           dc_default_rank = rank, dc_listen = None, dc_speak = None, dc_listen_last = None,
                           dc_speak_last = None\<rparr>;
                      w1 = ledger_duplex_event C now ''open'' (dc_id c)
                             (''session='' @ session_id @ ''|default_priority='' @ default_priority) (bump_seq w)
                  in (Inr (channel_value c), w1\<lparr>dw_channels := Some (reg(dc_id c \<mapsto> c))\<rparr>))))"

definition resolve_rank :: "duplex_channel \<Rightarrow> string option \<Rightarrow> (duplex_error, nat \<times> string) result" where
  "resolve_rank c explicit =
     (case explicit of
        Some word \<Rightarrow> (case duplex_rank word of None \<Rightarrow> Inl (DuplexPriority word) | Some rank \<Rightarrow> Inr (rank, word))
      | None \<Rightarrow> Inr (dc_default_rank c, DUPLEX_PRIORITIES ! dc_default_rank c))"

section \<open>Streams\<close>

text \<open>The slot of a direction, its update, and the move of an ended stream to the history slot.\<close>

definition slot_of :: "string \<Rightarrow> duplex_channel \<Rightarrow> stream option" where
  "slot_of direction c = (if direction = ''speak'' then dc_speak c else dc_listen c)"

definition set_slot :: "string \<Rightarrow> stream option \<Rightarrow> duplex_channel \<Rightarrow> duplex_channel" where
  "set_slot direction s c = (if direction = ''speak'' then c\<lparr>dc_speak := s\<rparr> else c\<lparr>dc_listen := s\<rparr>)"

definition vacate :: "string \<Rightarrow> duplex_channel \<Rightarrow> duplex_channel" where
  "vacate direction c =
     (if direction = ''speak'' then c\<lparr>dc_speak_last := dc_speak c, dc_speak := None\<rparr>
      else c\<lparr>dc_listen_last := dc_listen c, dc_listen := None\<rparr>)"

definition put_channel :: "string \<Rightarrow> duplex_channel \<Rightarrow> 'a duplex_world_scheme \<Rightarrow> 'a duplex_world_scheme" where
  "put_channel cid c w = w\<lparr>dw_channels := map_option (\<lambda>reg. reg(cid \<mapsto> c)) (dw_channels w)\<rparr>"

text \<open>The closure of \<open>start_stream\<close> on the live channel.\<close>

definition start_on ::
  "crypto \<Rightarrow> (nat \<Rightarrow> u64) \<Rightarrow> nat \<Rightarrow> string \<Rightarrow> string \<Rightarrow> string \<Rightarrow> string \<Rightarrow> nat \<Rightarrow> string \<Rightarrow> duplex_channel
     \<Rightarrow> 'a duplex_world_scheme \<Rightarrow> (duplex_error, stream \<times> stream list) result \<times> 'a duplex_world_scheme"
where
  "start_on C clk millis fn_name cid direction opposite rank word c w =
     (if slot_of direction c \<noteq> None then (Inl (DUPLEX_BUSY direction (dc_id c)), w)
      else
        let (opposite_id, opposite_rank) =
              (case slot_of opposite c of Some active \<Rightarrow> (st_id active, st_rank active) | None \<Rightarrow> ([], 0));
            incoming = \<lparr>st_id = duplex_fresh_id C millis direction cid (dw_seq w), st_direction = direction,
                        st_rank = rank, st_priority_word = word, st_outcome = StreamActive\<rparr>
        in if opposite_id \<noteq> [] then
             (if rank < opposite_rank then (Inl (DUPLEX_PREEMPT_DENIED direction rank opposite_id opposite_rank), w)
              else
                case slot_of opposite c of
                  None \<Rightarrow> (Inl (DuplexInvariantBroken fn_name), bump_seq w)
                | Some slot0 \<Rightarrow>
                    (let slot = slot0\<lparr>st_outcome := InterruptedBy (st_id incoming) rank\<rparr>;
                         c1 = set_slot direction (Some incoming) (vacate opposite (set_slot opposite (Some slot) c));
                         w1 = ledger_duplex_event C (clk 0) ''preempt'' (dc_id c)
                                (''incoming='' @ st_id incoming @ ''|direction='' @ direction @ ''|rank='' @ show_dec rank
                                 @ ''|preempted='' @ st_id slot @ ''|preempted_rank='' @ show_dec (st_rank slot)) (bump_seq w);
                         w2 = ledger_duplex_event C (clk 1) ''interrupted'' (dc_id c)
                                (''stream='' @ st_id slot @ ''|direction='' @ st_direction slot @ ''|by='' @ st_id incoming
                                 @ ''|priority='' @ show_dec rank) w1;
                         w3 = ledger_duplex_event C (clk 2) (direction @ ''_start'') (dc_id c)
                                (''stream='' @ st_id incoming @ ''|priority='' @ word @ ''|barge_in=true'') w2
                     in (Inr (incoming, [slot]), put_channel cid c1 w3)))
           else
             (Inr (incoming, []),
              put_channel cid (set_slot direction (Some incoming) c)
                (ledger_duplex_event C (clk 0) (direction @ ''_start'') (dc_id c)
                   (''stream='' @ st_id incoming @ ''|priority='' @ word @ ''|barge_in=false'') (bump_seq w))))"

definition start_stream ::
  "crypto \<Rightarrow> (nat \<Rightarrow> u64) \<Rightarrow> nat \<Rightarrow> string \<Rightarrow> string \<Rightarrow> string \<Rightarrow> string \<Rightarrow> string option
     \<Rightarrow> 'a duplex_world_scheme \<Rightarrow> (duplex_error, stream \<times> stream list) result \<times> 'a duplex_world_scheme"
where
  "start_stream C clk millis fn_name cid direction opposite explicit_priority w =
     (case dw_channels w of
        None \<Rightarrow> (Inl DuplexLock, w)
      | Some reg \<Rightarrow>
          (case reg cid of
             None \<Rightarrow> (Inl (DUPLEX_UNKNOWN fn_name cid), w)
           | Some c \<Rightarrow>
               (case resolve_rank c explicit_priority of
                  Inl e \<Rightarrow> (Inl e, w)
                | Inr (rank, word) \<Rightarrow> start_on C clk millis fn_name cid direction opposite rank word c w)))"

definition stop_stream ::
  "crypto \<Rightarrow> u64 \<Rightarrow> string \<Rightarrow> string \<Rightarrow> string \<Rightarrow> 'a duplex_world_scheme
     \<Rightarrow> (duplex_error, stream) result \<times> 'a duplex_world_scheme"
where
  "stop_stream C now fn_name cid direction w =
     (case dw_channels w of
        None \<Rightarrow> (Inl DuplexLock, w)
      | Some reg \<Rightarrow>
          (case reg cid of
             None \<Rightarrow> (Inl (DUPLEX_UNKNOWN fn_name cid), w)
           | Some c \<Rightarrow>
               (case slot_of direction c of
                  None \<Rightarrow> (Inl (DUPLEX_IDLE direction (dc_id c)), w)
                | Some s \<Rightarrow>
                    (let ended = s\<lparr>st_outcome := StreamCompleted\<rparr>
                     in (Inr ended,
                         put_channel cid (vacate direction (set_slot direction (Some ended) c))
                           (ledger_duplex_event C now ''stop'' (dc_id c)
                              (''stream='' @ st_id ended @ ''|direction='' @ st_direction ended @ ''|outcome=completed'') w))))))"

definition speak_start ::
  "crypto \<Rightarrow> (nat \<Rightarrow> u64) \<Rightarrow> nat \<Rightarrow> string \<Rightarrow> string option \<Rightarrow> 'a duplex_world_scheme
     \<Rightarrow> (duplex_error, stream \<times> stream list) result \<times> 'a duplex_world_scheme"
where
  "speak_start C clk millis cid priority w =
     (case require_audio_consent C clk ''speak'' cid w of
        (Inl e, w') \<Rightarrow> (Inl e, w')
      | (Inr _, w') \<Rightarrow> start_stream C (\<lambda>i. clk (i + 2)) millis ''speak_start'' cid ''speak'' ''listen'' priority w')"

definition listen_start ::
  "crypto \<Rightarrow> (nat \<Rightarrow> u64) \<Rightarrow> nat \<Rightarrow> string \<Rightarrow> string option \<Rightarrow> 'a duplex_world_scheme
     \<Rightarrow> (duplex_error, stream \<times> stream list) result \<times> 'a duplex_world_scheme"
where
  "listen_start C clk millis cid priority w =
     (case require_audio_consent C clk ''listen'' cid w of
        (Inl e, w') \<Rightarrow> (Inl e, w')
      | (Inr _, w') \<Rightarrow> start_stream C (\<lambda>i. clk (i + 2)) millis ''listen_start'' cid ''listen'' ''speak'' priority w')"

definition speak_stop ::
  "crypto \<Rightarrow> u64 \<Rightarrow> string \<Rightarrow> 'a duplex_world_scheme \<Rightarrow> (duplex_error, stream) result \<times> 'a duplex_world_scheme"
where
  "speak_stop C now cid = stop_stream C now ''speak_stop'' cid ''speak''"

definition listen_stop ::
  "crypto \<Rightarrow> u64 \<Rightarrow> string \<Rightarrow> 'a duplex_world_scheme \<Rightarrow> (duplex_error, stream) result \<times> 'a duplex_world_scheme"
where
  "listen_stop C now cid = stop_stream C now ''listen_stop'' cid ''listen''"

section \<open>Introspection\<close>

definition stream_value :: "stream \<Rightarrow> runtime_value" where
  "stream_value s =
     VStruct ''DuplexStream''
       ([''stream_id'' \<mapsto> VString (st_id s), ''direction'' \<mapsto> VString (st_direction s),
         ''priority'' \<mapsto> VString (st_priority_word s), ''outcome'' \<mapsto> VString (outcome_as_str (st_outcome s))]
        ++ (case st_outcome s of
              InterruptedBy by priority \<Rightarrow>
                [''interrupted_by'' \<mapsto> VString by,
                 ''interrupted_at_priority'' \<mapsto> VString (DUPLEX_PRIORITIES ! priority)]
            | _ \<Rightarrow> Map.empty))"

definition slot_value :: "stream option \<Rightarrow> runtime_value" where
  "slot_value s = (case s of None \<Rightarrow> VUnit | Some x \<Rightarrow> stream_value x)"

definition duplex_state ::
  "crypto \<Rightarrow> u64 \<Rightarrow> string \<Rightarrow> 'a duplex_world_scheme \<Rightarrow> (duplex_error, runtime_value) result \<times> 'a duplex_world_scheme"
where
  "duplex_state C now cid w =
     (case dw_channels w of
        None \<Rightarrow> (Inl DuplexLock, w)
      | Some reg \<Rightarrow>
          (case reg cid of
             None \<Rightarrow> (Inl (DUPLEX_UNKNOWN ''duplex_state'' cid), w)
           | Some c \<Rightarrow>
               (Inr (VStruct ''DuplexState''
                  [''id'' \<mapsto> VString (dc_id c), ''session'' \<mapsto> VString (dc_session c),
                   ''speak'' \<mapsto> slot_value (dc_speak c), ''listen'' \<mapsto> slot_value (dc_listen c),
                   ''speak_last'' \<mapsto> slot_value (dc_speak_last c), ''listen_last'' \<mapsto> slot_value (dc_listen_last c)]),
                ledger_duplex_event C now ''state'' (dc_id c) ''introspection'' w)))"

definition live_channel :: "string \<Rightarrow> 'a duplex_world_scheme \<Rightarrow> duplex_channel option" where
  "live_channel cid w = (case dw_channels w of None \<Rightarrow> None | Some reg \<Rightarrow> reg cid)"

definition stream_id :: "string \<Rightarrow> string \<Rightarrow> 'a duplex_world_scheme \<Rightarrow> string option" where
  "stream_id cid direction w =
     (case live_channel cid w of
        None \<Rightarrow> None
      | Some c \<Rightarrow>
          if direction = ''speak'' then map_option st_id (dc_speak c)
          else if direction = ''listen'' then map_option st_id (dc_listen c) else None)"

definition stream_outcome_of :: "string \<Rightarrow> string \<Rightarrow> 'a duplex_world_scheme \<Rightarrow> stream_outcome option" where
  "stream_outcome_of cid direction w =
     (case live_channel cid w of
        None \<Rightarrow> None
      | Some c \<Rightarrow>
          if direction = ''speak'' then map_option st_outcome (dc_speak c)
          else if direction = ''listen'' then map_option st_outcome (dc_listen c) else None)"

definition stream_last_outcome :: "string \<Rightarrow> string \<Rightarrow> 'a duplex_world_scheme \<Rightarrow> stream_outcome option" where
  "stream_last_outcome cid direction w =
     (case live_channel cid w of
        None \<Rightarrow> None
      | Some c \<Rightarrow>
          if direction = ''speak'' then map_option st_outcome (dc_speak_last c)
          else if direction = ''listen'' then map_option st_outcome (dc_listen_last c) else None)"

section \<open>Builtins\<close>

definition expect_optional_priority :: "string \<Rightarrow> runtime_value list \<Rightarrow> nat \<Rightarrow> (duplex_error, string option) result" where
  "expect_optional_priority fn_name args idx =
     (case arg_at args idx of
        None \<Rightarrow> Inr None
      | Some (VString s) \<Rightarrow> Inr (Some s)
      | Some other \<Rightarrow> Inl (DuplexArgType fn_name idx (type_name other)))"

definition start_result_value :: "stream \<Rightarrow> stream list \<Rightarrow> runtime_value" where
  "start_result_value s preempted =
     VStruct ''DuplexFlow''
       [''stream_id'' \<mapsto> VString (st_id s), ''direction'' \<mapsto> VString (st_direction s),
        ''priority'' \<mapsto> VString (st_priority_word s), ''preempted'' \<mapsto> VList (map (\<lambda>x. VString (st_id x)) preempted)]"

definition stop_result_value :: "stream \<Rightarrow> runtime_value" where
  "stop_result_value s =
     VStruct ''DuplexStopped''
       [''stream_id'' \<mapsto> VString (st_id s), ''direction'' \<mapsto> VString (st_direction s),
        ''outcome'' \<mapsto> VString (outcome_as_str (st_outcome s))]"

definition builtin_duplex_open ::
  "crypto \<Rightarrow> u64 \<Rightarrow> nat \<Rightarrow> runtime_value list \<Rightarrow> 'a duplex_world_scheme \<Rightarrow> (duplex_error, runtime_value) result \<times> 'a duplex_world_scheme"
where
  "builtin_duplex_open C now millis args w =
     (let fn_name = ''duplex_open''
      in if args = [] \<or> length args > 2 then (Inl (DuplexArgCount fn_name (length args)), w)
         else case session_id_arg fn_name args 0 of
           Inl e \<Rightarrow> (Inl (DuplexSessionArg e), w)
         | Inr session_id \<Rightarrow>
             (case expect_optional_priority fn_name args 1 of
                Inl e \<Rightarrow> (Inl e, w)
              | Inr priority \<Rightarrow>
                  duplex_open C now millis session_id (case priority of None \<Rightarrow> ''normal'' | Some p \<Rightarrow> p) w))"

definition builtin_speak_start ::
  "crypto \<Rightarrow> (nat \<Rightarrow> u64) \<Rightarrow> nat \<Rightarrow> runtime_value list \<Rightarrow> 'a duplex_world_scheme
     \<Rightarrow> (duplex_error, runtime_value) result \<times> 'a duplex_world_scheme"
where
  "builtin_speak_start C clk millis args w =
     (let fn_name = ''speak_start''
      in if length args < 2 \<or> length args > 3 then (Inl (DuplexArgCount fn_name (length args)), w)
         else case channel_id_arg fn_name args 0 of
           Inl e \<Rightarrow> (Inl e, w)
         | Inr cid \<Rightarrow>
             (case expect_string fn_name args 1 of
                Inl e \<Rightarrow> (Inl (DuplexSessionArg e), w)
              | Inr _ \<Rightarrow>
                  (case expect_optional_priority fn_name args 2 of
                     Inl e \<Rightarrow> (Inl e, w)
                   | Inr priority \<Rightarrow>
                       (case speak_start C clk millis cid priority w of
                          (Inl e, w') \<Rightarrow> (Inl e, w')
                        | (Inr (s, preempted), w') \<Rightarrow> (Inr (start_result_value s preempted), w')))))"

definition builtin_listen_start ::
  "crypto \<Rightarrow> (nat \<Rightarrow> u64) \<Rightarrow> nat \<Rightarrow> runtime_value list \<Rightarrow> 'a duplex_world_scheme
     \<Rightarrow> (duplex_error, runtime_value) result \<times> 'a duplex_world_scheme"
where
  "builtin_listen_start C clk millis args w =
     (let fn_name = ''listen_start''
      in if args = [] \<or> length args > 2 then (Inl (DuplexArgCount fn_name (length args)), w)
         else case channel_id_arg fn_name args 0 of
           Inl e \<Rightarrow> (Inl e, w)
         | Inr cid \<Rightarrow>
             (case expect_optional_priority fn_name args 1 of
                Inl e \<Rightarrow> (Inl e, w)
              | Inr priority \<Rightarrow>
                  (case listen_start C clk millis cid priority w of
                     (Inl e, w') \<Rightarrow> (Inl e, w')
                   | (Inr (s, preempted), w') \<Rightarrow> (Inr (start_result_value s preempted), w'))))"

definition on_channel ::
  "string \<Rightarrow> runtime_value list \<Rightarrow> (string \<Rightarrow> 'a duplex_world_scheme \<Rightarrow> (duplex_error, 'r) result \<times> 'a duplex_world_scheme)
     \<Rightarrow> ('r \<Rightarrow> runtime_value) \<Rightarrow> 'a duplex_world_scheme \<Rightarrow> (duplex_error, runtime_value) result \<times> 'a duplex_world_scheme"
where
  "on_channel fn_name args f g w =
     (if length args \<noteq> 1 then (Inl (DuplexArgCount fn_name (length args)), w)
      else case channel_id_arg fn_name args 0 of
        Inl e \<Rightarrow> (Inl e, w)
      | Inr cid \<Rightarrow> (case f cid w of (Inl e, w') \<Rightarrow> (Inl e, w') | (Inr r, w') \<Rightarrow> (Inr (g r), w')))"

definition builtin_speak_stop ::
  "crypto \<Rightarrow> u64 \<Rightarrow> runtime_value list \<Rightarrow> 'a duplex_world_scheme \<Rightarrow> (duplex_error, runtime_value) result \<times> 'a duplex_world_scheme"
where
  "builtin_speak_stop C now args = on_channel ''speak_stop'' args (speak_stop C now) stop_result_value"

definition builtin_listen_stop ::
  "crypto \<Rightarrow> u64 \<Rightarrow> runtime_value list \<Rightarrow> 'a duplex_world_scheme \<Rightarrow> (duplex_error, runtime_value) result \<times> 'a duplex_world_scheme"
where
  "builtin_listen_stop C now args = on_channel ''listen_stop'' args (listen_stop C now) stop_result_value"

definition builtin_duplex_state ::
  "crypto \<Rightarrow> u64 \<Rightarrow> runtime_value list \<Rightarrow> 'a duplex_world_scheme \<Rightarrow> (duplex_error, runtime_value) result \<times> 'a duplex_world_scheme"
where
  "builtin_duplex_state C now args = on_channel ''duplex_state'' args (duplex_state C now) (\<lambda>v. v)"

end
