(* ===== verification/Duplex_Properties.thy ===== *)
theory Duplex_Properties
  imports Duplex
begin

text \<open>
  The slot invariant of duplex channels over every run, and the barge-in decision with its audit
  trail.
\<close>

section \<open>Well-formed channels\<close>

definition stream_ok :: "string \<Rightarrow> stream \<Rightarrow> bool" where
  "stream_ok d s \<longleftrightarrow> st_direction s = d \<and> st_id s \<noteq> [] \<and> st_rank s < 4
     \<and> st_priority_word s = DUPLEX_PRIORITIES ! st_rank s"

definition active_ok :: "string \<Rightarrow> stream option \<Rightarrow> bool" where
  "active_ok d slot \<longleftrightarrow> (\<forall>s. slot = Some s \<longrightarrow> stream_ok d s \<and> st_outcome s = StreamActive)"

definition ended_ok :: "string \<Rightarrow> stream option \<Rightarrow> bool" where
  "ended_ok d slot \<longleftrightarrow> (\<forall>s. slot = Some s \<longrightarrow> stream_ok d s \<and>
     (case st_outcome s of StreamActive \<Rightarrow> False | StreamCompleted \<Rightarrow> True
      | InterruptedBy by p \<Rightarrow> by \<noteq> [] \<and> st_rank s \<le> p \<and> p < 4))"

definition channel_ok :: "string \<Rightarrow> duplex_channel \<Rightarrow> bool" where
  "channel_ok cid c \<longleftrightarrow> dc_id c = cid \<and> dc_default_rank c < 4
     \<and> active_ok ''speak'' (dc_speak c) \<and> active_ok ''listen'' (dc_listen c)
     \<and> ended_ok ''speak'' (dc_speak_last c) \<and> ended_ok ''listen'' (dc_listen_last c)
     \<and> (dc_speak c = None \<or> dc_listen c = None)"

definition duplex_inv :: "'a duplex_world_scheme \<Rightarrow> bool" where
  "duplex_inv w \<longleftrightarrow> (\<forall>cid c. live_channel cid w = Some c \<longrightarrow> channel_ok cid c)"

text \<open>The two directions and their opposites.\<close>

definition opposite_of :: "string \<Rightarrow> string" where
  "opposite_of d = (if d = ''speak'' then ''listen'' else ''speak'')"

definition DUPLEX_DIRECTIONS :: "string list" where
  "DUPLEX_DIRECTIONS = [''listen'', ''speak'']"

definition directed_start ::
  "crypto \<Rightarrow> (nat \<Rightarrow> u64) \<Rightarrow> nat \<Rightarrow> string \<Rightarrow> string \<Rightarrow> string option \<Rightarrow> 'a duplex_world_scheme
     \<Rightarrow> (duplex_error, stream \<times> stream list) result \<times> 'a duplex_world_scheme"
where
  "directed_start C clk millis d cid priority =
     (if d = ''speak'' then speak_start C clk millis cid priority else listen_start C clk millis cid priority)"

lemma duplex_rank_known: "duplex_rank word = Some r \<Longrightarrow> r < 4 \<and> word = DUPLEX_PRIORITIES ! r"
proof -
  have "length DUPLEX_PRIORITIES = 4" by (simp add: DUPLEX_PRIORITIES_def INTERRUPT_PRIORITIES_def)
  then show "duplex_rank word = Some r \<Longrightarrow> ?thesis" using index_of_Some by (fastforce simp: duplex_rank_def)
qed

lemma resolve_rank_ok: "channel_ok cid c \<Longrightarrow> resolve_rank c p = Inr (r, word) \<Longrightarrow> r < 4 \<and> word = DUPLEX_PRIORITIES ! r"
  using duplex_rank_known by (auto simp: resolve_rank_def channel_ok_def split: option.splits)

lemma duplex_fresh_id_not_Nil [simp]: "duplex_fresh_id C millis pre seed seq \<noteq> []"
  by (simp add: duplex_fresh_id_def)

lemma channel_frame [simp]:
  "live_channel x (ledger_duplex_event C now kind cid detail w) = live_channel x w"
  "live_channel x (bump_seq w) = live_channel x w"
  "sw_ledger (bump_seq w) = sw_ledger w" "dw_seq (ledger_duplex_event C now kind cid detail w) = dw_seq w"
  "sw_ledger (put_channel cid c w) = sw_ledger w"
  by (simp_all add: live_channel_def ledger_duplex_event_def bump_seq_def put_channel_def)

lemma sw_ledger_duplex [simp]:
  "sw_ledger (ledger_duplex_event C now kind cid detail w) = emit_event C (duplex_entry now kind cid detail) (sw_ledger w)"
  by (simp add: ledger_duplex_event_def emit_event_def duplex_entry_def)

lemma live_put:
  "live_channel cid w = Some c0 \<Longrightarrow> live_channel x (put_channel cid c w) = (if x = cid then Some c else live_channel x w)"
  by (auto simp: live_channel_def put_channel_def split: option.splits)

lemmas slot_defs = slot_of_def set_slot_def vacate_def

text \<open>The decision on a well-formed channel: busy, denied, barge-in, or a plain start. The branch of
  a vanished slot is unreachable.\<close>

definition incoming :: "crypto \<Rightarrow> nat \<Rightarrow> string \<Rightarrow> string \<Rightarrow> nat \<Rightarrow> string \<Rightarrow> u64 \<Rightarrow> stream" where
  "incoming C millis d cid rank word seq =
     \<lparr>st_id = duplex_fresh_id C millis d cid seq, st_direction = d, st_rank = rank, st_priority_word = word,
      st_outcome = StreamActive\<rparr>"

definition interrupted :: "stream \<Rightarrow> stream \<Rightarrow> stream" where
  "interrupted new old = old\<lparr>st_outcome := InterruptedBy (st_id new) (st_rank new)\<rparr>"

definition barged :: "string \<Rightarrow> stream \<Rightarrow> stream \<Rightarrow> duplex_channel \<Rightarrow> duplex_channel" where
  "barged d new old c =
     set_slot d (Some new) (vacate (opposite_of d) (set_slot (opposite_of d) (Some (interrupted new old)) c))"

lemma start_on_cases:
  assumes "channel_ok cid c" "d \<in> set DUPLEX_DIRECTIONS"
  obtains (busy) s where "slot_of d c = Some s"
      "start_on C clk millis fn cid d (opposite_of d) rank word c w = (Inl (DUPLEX_BUSY d cid), w)"
  | (denied) t where "slot_of d c = None" "slot_of (opposite_of d) c = Some t" "rank < st_rank t"
      "start_on C clk millis fn cid d (opposite_of d) rank word c w = (Inl (DUPLEX_PREEMPT_DENIED d rank (st_id t) (st_rank t)), w)"
  | (barge) t new evs w1 where "slot_of d c = None" "slot_of (opposite_of d) c = Some t" "st_rank t \<le> rank"
      "new = incoming C millis d cid rank word (dw_seq w)"
      "start_on C clk millis fn cid d (opposite_of d) rank word c w = (Inr (new, [interrupted new t]), put_channel cid (barged d new t c) w1)"
      "\<And>x. live_channel x w1 = live_channel x w" "sw_ledger w1 = fold (emit_event C) evs (sw_ledger w)"
      "map (\<lambda>(t, act, actor, _). (t, act, actor)) evs =
         [(clk 0, ''duplex.preempt'', cid), (clk 1, ''duplex.interrupted'', cid), (clk 2, ''duplex.'' @ d @ ''_start'', cid)]"
  | (plain) new evs w1 where "slot_of d c = None" "slot_of (opposite_of d) c = None"
      "new = incoming C millis d cid rank word (dw_seq w)"
      "start_on C clk millis fn cid d (opposite_of d) rank word c w = (Inr (new, []), put_channel cid (set_slot d (Some new) c) w1)"
      "\<And>x. live_channel x w1 = live_channel x w" "sw_ledger w1 = fold (emit_event C) evs (sw_ledger w)"
      "map (\<lambda>(t, act, actor, _). (t, act, actor)) evs = [(clk 0, ''duplex.'' @ d @ ''_start'', cid)]"
proof (cases "slot_of d c")
  case (Some s)
  with assms show ?thesis by (intro busy) (auto simp: start_on_def channel_ok_def)
next
  case d: None
  have cid: "dc_id c = cid" using assms by (simp add: channel_ok_def)
  let ?new = "incoming C millis d cid rank word (dw_seq w)"
  show ?thesis
  proof (cases "slot_of (opposite_of d) c")
    case None
    with d cid show ?thesis
      by (intro plain [of ?new "ledger_duplex_event C (clk 0) (d @ ''_start'') cid
           (''stream='' @ st_id ?new @ ''|priority='' @ word @ ''|barge_in=false'') (bump_seq w)"
         "[duplex_entry (clk 0) (d @ ''_start'') cid (''stream='' @ st_id ?new @ ''|priority='' @ word @ ''|barge_in=false'')]"])
        (auto simp: start_on_def incoming_def Let_def duplex_entry_def)
  next
    case (Some t)
    have ne: "st_id t \<noteq> []"
      using assms Some by (auto simp: channel_ok_def active_ok_def stream_ok_def slot_of_def split: if_splits)
    show ?thesis
    proof (cases "rank < st_rank t")
      case True
      with d Some ne show ?thesis by (intro denied) (auto simp: start_on_def Let_def)
    next
      case False
      define evs where "evs =
        [duplex_entry (clk 0) ''preempt'' cid (''incoming='' @ st_id ?new @ ''|direction='' @ d @ ''|rank='' @ show_dec rank
                                 @ ''|preempted='' @ st_id t @ ''|preempted_rank='' @ show_dec (st_rank t)),
         duplex_entry (clk 1) ''interrupted'' cid (''stream='' @ st_id t @ ''|direction='' @ st_direction t @ ''|by='' @ st_id ?new
                                 @ ''|priority='' @ show_dec rank),
         duplex_entry (clk 2) (d @ ''_start'') cid (''stream='' @ st_id ?new @ ''|priority='' @ word @ ''|barge_in=true'')]"
      show ?thesis
        using d Some ne False cid
        by (intro barge [of t ?new "ledger_duplex_event C (clk 2) (d @ ''_start'') cid (''stream='' @ st_id ?new @ ''|priority='' @ word @ ''|barge_in=true'')
             (ledger_duplex_event C (clk 1) ''interrupted'' cid (''stream='' @ st_id t @ ''|direction='' @ st_direction t @ ''|by='' @ st_id ?new
                                 @ ''|priority='' @ show_dec rank)
             (ledger_duplex_event C (clk 0) ''preempt'' cid (''incoming='' @ st_id ?new @ ''|direction='' @ d @ ''|rank='' @ show_dec rank
                                 @ ''|preempted='' @ st_id t @ ''|preempted_rank='' @ show_dec (st_rank t)) (bump_seq w)))" evs])
          (auto simp: start_on_def incoming_def interrupted_def barged_def evs_def Let_def duplex_entry_def)
    qed
  qed
qed

section \<open>The invariant over runs\<close>

lemma consent_frame:
  obtains (granted) "active_grant_for (clk 0) (''audio.'' @ d) (dw_consent w)" "require_audio_consent C clk d cid w = (Inr (), w)"
  | (refused) w1 ev where "\<not> active_grant_for (clk 0) (''audio.'' @ d) (dw_consent w)"
      "require_audio_consent C clk d cid w = (Inl (AUDIO_CONSENT_REQUIRED d cid), w1)"
      "\<And>x. live_channel x w1 = live_channel x w" "sw_ledger w1 = emit_event C ev (sw_ledger w)"
      "(\<lambda>(t, act, actor, _). (t, act, actor)) ev = (clk 1, ''duplex.'' @ d @ ''_denied'', cid)"
  by (cases "active_grant_for (clk 0) (''audio.'' @ d) (dw_consent w)")
    (auto simp: require_audio_consent_def Let_def duplex_entry_def)

lemma incoming_ok:
  "rank < 4 \<Longrightarrow> word = DUPLEX_PRIORITIES ! rank \<Longrightarrow> stream_ok d (incoming C millis d cid rank word seq)
     \<and> st_outcome (incoming C millis d cid rank word seq) = StreamActive"
  by (simp add: stream_ok_def incoming_def)

lemma channel_ok_start:
  assumes "channel_ok cid c" "d \<in> set DUPLEX_DIRECTIONS" "slot_of d c = None" "slot_of (opposite_of d) c = None"
    "stream_ok d new" "st_outcome new = StreamActive"
  shows "channel_ok cid (set_slot d (Some new) c)"
  using assms by (auto simp: channel_ok_def active_ok_def slot_defs opposite_of_def DUPLEX_DIRECTIONS_def)

lemma channel_ok_barge:
  assumes "channel_ok cid c" "d \<in> set DUPLEX_DIRECTIONS" "slot_of d c = None" "slot_of (opposite_of d) c = Some old"
    "stream_ok d new" "st_outcome new = StreamActive" "st_rank old \<le> st_rank new"
  shows "channel_ok cid (barged d new old c)"
  using assms by (auto simp: channel_ok_def active_ok_def ended_ok_def stream_ok_def barged_def interrupted_def slot_defs
      opposite_of_def DUPLEX_DIRECTIONS_def)

lemma put_inv:
  assumes "duplex_inv w" "\<And>x. live_channel x w1 = live_channel x w" "live_channel cid w = Some c0" "channel_ok cid c"
  shows "duplex_inv (put_channel cid c w1)"
proof -
  have "live_channel cid w1 = Some c0" using assms(2,3) by simp
  then show ?thesis using assms(1,2,4) by (simp add: duplex_inv_def live_put)
qed

lemma start_stream_inv:
  assumes inv: "duplex_inv w" and d: "d \<in> set DUPLEX_DIRECTIONS"
  shows "duplex_inv (snd (start_stream C clk millis fn cid d (opposite_of d) p w))"
proof (cases "live_channel cid w")
  case None
  with inv show ?thesis by (auto simp: start_stream_def live_channel_def split: option.splits)
next
  case (Some c)
  then have c: "channel_ok cid c" using inv by (simp add: duplex_inv_def)
  show ?thesis
  proof (cases "resolve_rank c p")
    case (Inl e)
    with Some inv show ?thesis by (auto simp: start_stream_def live_channel_def split: option.splits)
  next
    case (Inr rw)
    obtain rank word where rw: "rw = (rank, word)" by (cases rw)
    have run: "start_stream C clk millis fn cid d (opposite_of d) p w = start_on C clk millis fn cid d (opposite_of d) rank word c w"
      using Some Inr rw by (auto simp: start_stream_def live_channel_def split: option.splits)
    note rk = resolve_rank_ok [OF c Inr [unfolded rw]]
    note new = incoming_ok [OF conjunct1 [OF rk] conjunct2 [OF rk], of d C millis cid "dw_seq w"]
    from c d show ?thesis
    proof (cases rule: start_on_cases [of cid c d C clk millis fn rank word w])
      case (barge t nw evs w1)
      then have "channel_ok cid (barged d nw t c)"
        using new by (intro channel_ok_barge [OF c d]) (auto simp: incoming_def)
      from put_inv [OF inv barge(6) Some this] show ?thesis unfolding run barge(5) by simp
    next
      case (plain nw evs w1)
      then have "channel_ok cid (set_slot d (Some nw) c)" using new by (intro channel_ok_start [OF c d]) auto
      from put_inv [OF inv plain(5) Some this] show ?thesis unfolding run plain(4) by simp
    qed (use inv run in simp_all)
  qed
qed

lemma directed_start_eq:
  assumes "d \<in> set DUPLEX_DIRECTIONS"
  shows "directed_start C clk millis d cid p w =
    (case require_audio_consent C clk d cid w of (Inl e, w') \<Rightarrow> (Inl e, w')
     | (Inr _, w') \<Rightarrow> start_stream C (\<lambda>i. clk (i + 2)) millis (d @ ''_start'') cid d (opposite_of d) p w')"
  using assms by (auto simp: directed_start_def speak_start_def listen_start_def DUPLEX_DIRECTIONS_def opposite_of_def
      split: prod.splits sum.splits)

lemma directed_start_inv:
  assumes inv: "duplex_inv w" and d: "d \<in> set DUPLEX_DIRECTIONS"
  shows "duplex_inv (snd (directed_start C clk millis d cid p w))"
proof (cases rule: consent_frame [of clk d w C cid])
  case granted
  then show ?thesis using start_stream_inv [OF inv d] by (simp add: directed_start_eq [OF d])
next
  case (refused w1 ev)
  then show ?thesis using inv by (simp add: directed_start_eq [OF d] duplex_inv_def)
qed

lemma channel_ok_stop:
  assumes "channel_ok cid c" "d \<in> set DUPLEX_DIRECTIONS" "slot_of d c = Some s"
  shows "channel_ok cid (vacate d (set_slot d (Some (s\<lparr>st_outcome := StreamCompleted\<rparr>)) c))"
  using assms by (auto simp: channel_ok_def active_ok_def ended_ok_def stream_ok_def slot_defs DUPLEX_DIRECTIONS_def)

lemma stop_stream_inv:
  assumes inv: "duplex_inv w" and d: "d \<in> set DUPLEX_DIRECTIONS"
  shows "duplex_inv (snd (stop_stream C now fn cid d w))"
proof (cases "live_channel cid w")
  case None
  with inv show ?thesis by (auto simp: stop_stream_def live_channel_def split: option.splits)
next
  case (Some c)
  then have c: "channel_ok cid c" using inv by (simp add: duplex_inv_def)
  obtain reg where reg: "dw_channels w = Some reg" "reg cid = Some c"
    using Some by (auto simp: live_channel_def split: option.splits)
  show ?thesis
  proof (cases "slot_of d c")
    case None
    with reg inv show ?thesis by (simp add: stop_stream_def)
  next
    case s: (Some s)
    from channel_ok_stop [OF c d s] reg s inv Some show ?thesis
      by (auto simp: stop_stream_def Let_def duplex_inv_def live_put)
  qed
qed

lemma open_inv: "duplex_inv w \<Longrightarrow> duplex_inv (snd (duplex_open C now millis sid p w))"
  using duplex_rank_known [of p]
  by (auto simp: duplex_open_def Let_def duplex_inv_def live_channel_def channel_ok_def active_ok_def ended_ok_def
      ledger_duplex_event_def split: option.splits)

definition duplex_start :: "'a duplex_world_scheme \<Rightarrow> bool" where
  "duplex_start w \<longleftrightarrow> (\<forall>cid. live_channel cid w = None)"

inductive duplex_step :: "crypto \<Rightarrow> 'a duplex_world_scheme \<Rightarrow> 'a duplex_world_scheme \<Rightarrow> bool" for C where
  step_open: "duplex_step C w (snd (duplex_open C now millis sid p w))"
| step_start: "d \<in> set DUPLEX_DIRECTIONS \<Longrightarrow> duplex_step C w (snd (directed_start C clk millis d cid p w))"
| step_speak_stop: "duplex_step C w (snd (speak_stop C now cid w))"
| step_listen_stop: "duplex_step C w (snd (listen_stop C now cid w))"
| step_state: "duplex_step C w (snd (duplex_state C now cid w))"
| step_session: "duplex_step C w (run_session C op w)"
| step_grant: "duplex_step C w (w\<lparr>dw_consent := snd (record_grant now subject scope ttl (dw_consent w))\<rparr>)"
| step_revoke: "duplex_step C w (w\<lparr>dw_consent := snd (record_revoke now scope' (dw_consent w))\<rparr>)"

abbreviation duplex_run :: "crypto \<Rightarrow> 'a duplex_world_scheme \<Rightarrow> bool" where
  "duplex_run C \<equiv> reach duplex_start (duplex_step C)"

lemma dw_channels_session [simp]: "dw_channels (run_session C op w) = dw_channels w"
  by (cases op) (auto simp: session_create_def session_end_def duty_enter_def duty_exit_def wake_def poll_wake_def
      interrupt_def take_interrupt_def with_state_cases ledger_session_event_def Let_def
      split: option.splits list.splits prod.splits)

lemma state_inv: "duplex_inv w \<Longrightarrow> duplex_inv (snd (duplex_state C now cid w))"
  by (auto simp: duplex_state_def duplex_inv_def split: option.splits)

lemma duplex_inv_cong: "dw_channels v = dw_channels w \<Longrightarrow> duplex_inv v = duplex_inv w"
  by (simp add: duplex_inv_def live_channel_def)

lemma duplex_step_inv:
  assumes inv: "duplex_inv w" and st: "duplex_step C w w'"
  shows "duplex_inv w'"
  using st
proof cases
  case step_speak_stop
  then show ?thesis using stop_stream_inv [OF inv] by (simp add: speak_stop_def DUPLEX_DIRECTIONS_def)
next
  case step_listen_stop
  then show ?thesis using stop_stream_inv [OF inv] by (simp add: listen_stop_def DUPLEX_DIRECTIONS_def)
next
  case (step_session op)
  then show ?thesis using inv duplex_inv_cong [of w' w] by simp
next
  case step_grant
  then show ?thesis using inv duplex_inv_cong [of w' w] by simp
next
  case step_revoke
  then show ?thesis using inv duplex_inv_cong [of w' w] by simp
qed (simp_all add: open_inv directed_start_inv state_inv inv)

interpretation duplex_system: invariant_system duplex_start "duplex_step C" duplex_inv for C
proof
  show "duplex_start w \<Longrightarrow> duplex_inv w" for w :: "'a duplex_world_scheme"
    by (simp add: duplex_start_def duplex_inv_def)
qed (rule duplex_step_inv)

section \<open>A run for the witnesses\<close>

definition demo_consent :: consent_conn where
  "demo_consent = snd (record_grant 1 ''ann'' ''audio.speak'' 0 (snd (record_grant 1 ''ann'' ''audio.listen'' 0 (Some []))))"

definition demo_d0 :: duplex_world where
  "demo_d0 = \<lparr>sw_ledger = demo_start, sw_sessions = Some [''s-1'' \<mapsto> SessionState_new 1 ''ann''], sw_seq = 1,
     dw_consent = demo_consent, dw_channels = Some Map.empty, dw_seq = 1\<rparr>"

definition demo_d1 :: duplex_world where
  "demo_d1 = snd (duplex_open sample_crypto 2 7 ''s-1'' ''normal'' demo_d0)"

definition demo_cid :: string where
  "demo_cid = duplex_fresh_id sample_crypto 7 ''dup'' ''s-1'' 1"

definition demo_chan :: duplex_channel where
  "demo_chan = \<lparr>dc_id = demo_cid, dc_session = ''s-1'', dc_default_rank = 1, dc_listen = None, dc_speak = None,
     dc_listen_last = None, dc_speak_last = None\<rparr>"

lemma demo_d1_run: "duplex_run sample_crypto demo_d1"
proof -
  have "duplex_run sample_crypto demo_d0"
    by (rule reach_init) (simp add: duplex_start_def demo_d0_def live_channel_def)
  then show ?thesis unfolding demo_d1_def by (rule reach_step) (rule step_open)
qed

lemma demo_d1_chan: "live_channel demo_cid demo_d1 = Some demo_chan"
  by (simp add: demo_d1_def demo_d0_def duplex_open_def duplex_rank_def DUPLEX_PRIORITIES_def INTERRUPT_PRIORITIES_def
      is_live_def Let_def live_channel_def demo_chan_def demo_cid_def)

lemma demo_consent_active:
  "active_grant_for t ''audio.speak'' demo_consent" "active_grant_for t ''audio.listen'' demo_consent"
  by (simp_all add: demo_consent_def record_grant_def insert_row_def active_grant_for_def with_conn_def next_row_id_def
      last_revoke_def unexpired_def trim_def is_whitespace_def Let_def)

lemma dw_consent_start [simp]: "dw_consent (snd (start_on C clk millis fn cid d opp rank word c w)) = dw_consent w"
  by (auto simp: start_on_def Let_def ledger_duplex_event_def put_channel_def bump_seq_def split: option.splits)

lemma demo_d1_consent: "dw_consent demo_d1 = demo_consent"
  by (simp add: demo_d1_def demo_d0_def duplex_open_def duplex_rank_def DUPLEX_PRIORITIES_def INTERRUPT_PRIORITIES_def
      is_live_def Let_def ledger_duplex_event_def bump_seq_def)

text \<open>
  C30. Every channel of every run is well-formed. A stream in a slot runs in the direction of its
  slot with outcome active; an ended stream never shows as active, and an interrupted one was
  interrupted by a stream of at least its own priority; every rank indexes the ladder and matches its
  word; and at most one of the two directions is active at any moment. The branch that reports a
  broken slot is never taken.
\<close>

theorem channel_slots_typed:
  assumes run: "duplex_run C w" and live: "live_channel cid w = Some c"
  shows "dc_id c = cid \<and> dc_default_rank c < length DUPLEX_PRIORITIES \<and> (dc_speak c = None \<or> dc_listen c = None)
   \<and> (\<forall>d \<in> {''speak'', ''listen''}. \<forall>s. slot_of d c = Some s \<longrightarrow>
        st_direction s = d \<and> st_outcome s = StreamActive \<and> st_rank s < length DUPLEX_PRIORITIES
        \<and> st_priority_word s = DUPLEX_PRIORITIES ! st_rank s)
   \<and> (\<forall>s. dc_speak_last c = Some s \<or> dc_listen_last c = Some s \<longrightarrow>
        st_outcome s = StreamCompleted
        \<or> (\<exists>by p. st_outcome s = InterruptedBy by p \<and> st_rank s \<le> p \<and> p < length DUPLEX_PRIORITIES))
   \<and> (\<forall>d clk millis p. d \<in> set DUPLEX_DIRECTIONS \<longrightarrow>
        fst (directed_start C clk millis d cid p w) \<noteq> Inl (DuplexInvariantBroken (d @ ''_start'')))"
proof -
  have ok: "channel_ok cid c" using duplex_system.reach_inv [OF run] live by (simp add: duplex_inv_def)
  have len: "length DUPLEX_PRIORITIES = 4" by (simp add: DUPLEX_PRIORITIES_def INTERRUPT_PRIORITIES_def)
  have "fst (start_on C clk millis fn cid d (opposite_of d) rank word c w) \<noteq> Inl (DuplexInvariantBroken f)"
    if "d \<in> set DUPLEX_DIRECTIONS" for d clk millis fn rank word f
    using ok that by (cases rule: start_on_cases [of cid c d C clk millis fn rank word w]) simp_all
  then have "fst (start_stream C clk millis fn cid d (opposite_of d) p w) \<noteq> Inl (DuplexInvariantBroken f)"
    if "d \<in> set DUPLEX_DIRECTIONS" for d clk millis fn p f
    using that live by (auto simp: start_stream_def live_channel_def resolve_rank_def split: option.splits sum.splits)
  then have br: "fst (directed_start C clk millis d cid p w) \<noteq> Inl (DuplexInvariantBroken f)"
    if "d \<in> set DUPLEX_DIRECTIONS" for d clk millis p f
    by (cases rule: consent_frame [of clk d w C cid]) (use that in \<open>simp_all add: directed_start_eq\<close>)
  have "st_outcome s = StreamCompleted \<or> (\<exists>by p. st_outcome s = InterruptedBy by p \<and> st_rank s \<le> p \<and> p < 4)"
    if "ended_ok d slot" "slot = Some s" for d slot s
    using that by (auto simp: ended_ok_def split: stream_outcome.splits)
  then have ends: "\<forall>s. dc_speak_last c = Some s \<or> dc_listen_last c = Some s \<longrightarrow>
        st_outcome s = StreamCompleted \<or> (\<exists>by p. st_outcome s = InterruptedBy by p \<and> st_rank s \<le> p \<and> p < 4)"
    using ok unfolding channel_ok_def by blast
  have slots: "\<forall>d \<in> {''speak'', ''listen''}. \<forall>s. slot_of d c = Some s \<longrightarrow>
        st_direction s = d \<and> st_outcome s = StreamActive \<and> st_rank s < 4 \<and> st_priority_word s = DUPLEX_PRIORITIES ! st_rank s"
    using ok by (auto simp: channel_ok_def active_ok_def stream_ok_def slot_of_def)
  from ok have "dc_id c = cid" "dc_default_rank c < 4" "dc_speak c = None \<or> dc_listen c = None"
    by (simp_all add: channel_ok_def)
  with br ends slots show ?thesis unfolding len by blast
qed

theorem channel_slots_typed_witness: "dc_id demo_chan = demo_cid \<and> (dc_speak demo_chan = None \<or> dc_listen demo_chan = None)"
  using channel_slots_typed [OF demo_d1_run demo_d1_chan] by (elim conjE) (intro conjI)

section \<open>Barge-in\<close>

lemma start_stream_live:
  assumes "live_channel cid w = Some c" "resolve_rank c p = Inr (rank, word)"
  shows "start_stream C clk millis fn cid d opp p w = start_on C clk millis fn cid d opp rank word c w"
  using assms by (auto simp: start_stream_def live_channel_def split: option.splits)

text \<open>What a successful barge-in over the stream \<open>old\<close> does: the result, the channel and the trail.\<close>

definition barge_in_effect ::
  "crypto \<Rightarrow> (nat \<Rightarrow> u64) \<Rightarrow> string \<Rightarrow> string \<Rightarrow> nat \<Rightarrow> stream \<Rightarrow> 'a duplex_world_scheme
     \<Rightarrow> (duplex_error, stream \<times> stream list) result \<Rightarrow> 'a duplex_world_scheme \<Rightarrow> bool"
where
  "barge_in_effect C clk d cid rank old w res w' \<longleftrightarrow>
     (\<exists>new c' evs. res = Inr (new, [old\<lparr>st_outcome := InterruptedBy (st_id new) rank\<rparr>])
       \<and> live_channel cid w' = Some c' \<and> slot_of d c' = Some new \<and> slot_of (opposite_of d) c' = None
       \<and> (if d = ''speak'' then dc_listen_last c' else dc_speak_last c') = Some (old\<lparr>st_outcome := InterruptedBy (st_id new) rank\<rparr>)
       \<and> sw_ledger w' = fold (emit_event C) evs (sw_ledger w)
       \<and> map (\<lambda>(t, act, actor, _). (t, act, actor)) evs =
           [(clk 2, ''duplex.preempt'', cid), (clk 3, ''duplex.interrupted'', cid), (clk 4, ''duplex.'' @ d @ ''_start'', cid)])"

text \<open>
  C13. The barge-in decision in every run, for both directions. Without an active consent for the
  direction nothing starts: the channels are unchanged and one denial is recorded. With consent, an
  occupied direction is refused, and an active stream of the other direction stops the newcomer
  exactly when the newcomer ranks lower; otherwise that stream ends as interrupted by the newcomer,
  moves to the history of its direction, and the newcomer runs. A refusal changes nothing, and an
  interruption leaves three records: the decision, the end of the old stream and the start of the new.
\<close>

theorem barge_in_decision:
  assumes run: "duplex_run C w" and d: "d \<in> set DUPLEX_DIRECTIONS" and live: "live_channel cid w = Some c"
    and rank: "resolve_rank c p = Inr (rank, word)"
    and call: "directed_start C clk millis d cid p w = (res, w')"
  shows "if \<not> active_grant_for (clk 0) (''audio.'' @ d) (dw_consent w) then
      res = Inl (AUDIO_CONSENT_REQUIRED d cid) \<and> (\<forall>x. live_channel x w' = live_channel x w)
      \<and> (\<exists>detail. sw_ledger w' = emit_event C (clk 1, ''duplex.'' @ d @ ''_denied'', cid, detail) (sw_ledger w))
    else if slot_of d c \<noteq> None then res = Inl (DUPLEX_BUSY d cid) \<and> w' = w
    else case slot_of (opposite_of d) c of
        None \<Rightarrow> \<exists>new. res = Inr (new, []) \<and> live_channel cid w' = Some (set_slot d (Some new) c) \<and> st_rank new = rank
      | Some old \<Rightarrow>
          if rank < st_rank old then res = Inl (DUPLEX_PREEMPT_DENIED d rank (st_id old) (st_rank old)) \<and> w' = w
          else barge_in_effect C clk d cid rank old w res w'"
proof (cases rule: consent_frame [of clk d w C cid])
  case (refused w1 ev)
  moreover obtain t act actor detail where "ev = (t, act, actor, detail)" by (metis surj_pair)
  ultimately show ?thesis using call by (auto simp: directed_start_eq [OF d] simp del: split_paired_Ex)
next
  case granted
  have ok: "channel_ok cid c" using duplex_system.reach_inv [OF run] live by (simp add: duplex_inv_def)
  let ?clk = "\<lambda>i. clk (i + 2)"
  have run': "start_on C ?clk millis (d @ ''_start'') cid d (opposite_of d) rank word c w = (res, w')"
    using call granted by (simp add: directed_start_eq [OF d] start_stream_live [OF live rank])
  from ok d show ?thesis
  proof (cases rule: start_on_cases [of cid c d C ?clk millis "d @ ''_start''" rank word w])
    case (barge old new evs w1)
    have w': "res = Inr (new, [interrupted new old])" "w' = put_channel cid (barged d new old c) w1"
      using run' unfolding barge(5) by simp_all
    have rk: "st_rank new = rank" by (simp add: barge(4) incoming_def)
    have "live_channel cid w' = Some (barged d new old c)" unfolding w'(2) using live barge(6) by (simp add: live_put)
    moreover have "slot_of d (barged d new old c) = Some new" "slot_of (opposite_of d) (barged d new old c) = None"
      "(if d = ''speak'' then dc_listen_last (barged d new old c) else dc_speak_last (barged d new old c)) = Some (interrupted new old)"
      using d by (auto simp: barged_def slot_defs opposite_of_def DUPLEX_DIRECTIONS_def)
    moreover have "sw_ledger w' = fold (emit_event C) evs (sw_ledger w)" unfolding w'(2) using barge(7) by simp
    moreover have "map (\<lambda>(t, act, actor, _). (t, act, actor)) evs =
        [(clk 2, ''duplex.preempt'', cid), (clk 3, ''duplex.interrupted'', cid), (clk 4, ''duplex.'' @ d @ ''_start'', cid)]"
      unfolding barge(8) by (simp add: numeral_eq_Suc)
    moreover have "interrupted new old = old\<lparr>st_outcome := InterruptedBy (st_id new) rank\<rparr>" by (simp add: interrupted_def rk)
    ultimately have "barge_in_effect C clk d cid rank old w res w'" unfolding barge_in_effect_def w'(1) by metis
    then show ?thesis using granted(1) barge(1-3) by simp
  next
    case (plain new evs w1)
    have w': "res = Inr (new, [])" "w' = put_channel cid (set_slot d (Some new) c) w1" using run' unfolding plain(4) by simp_all
    have "live_channel cid w' = Some (set_slot d (Some new) c)" unfolding w'(2) using live plain(5) by (simp add: live_put)
    then show ?thesis using granted(1) plain(1-3) w'(1) by (simp add: incoming_def)
  qed (use run' granted(1) in auto)
qed

lemma demo_speaks: "''speak'' \<in> set DUPLEX_DIRECTIONS" "''listen'' \<in> set DUPLEX_DIRECTIONS"
  by (simp_all add: DUPLEX_DIRECTIONS_def)

definition demo_d2 :: duplex_world where
  "demo_d2 = snd (directed_start sample_crypto (\<lambda>_. 3) 9 ''listen'' demo_cid None demo_d1)"

lemma demo_rank: "resolve_rank (set_slot d s demo_chan) None = Inr (1, DUPLEX_PRIORITIES ! 1)"
  "resolve_rank demo_chan None = Inr (1, DUPLEX_PRIORITIES ! 1)"
  by (simp_all add: resolve_rank_def demo_chan_def set_slot_def)

lemma demo_d2_consent: "dw_consent demo_d2 = demo_consent"
  using demo_consent_active(2) [of 3] start_stream_live [OF demo_d1_chan demo_rank(2)]
  by (simp add: demo_d2_def directed_start_eq [OF demo_speaks(2)] require_audio_consent_def demo_d1_consent Let_def)

theorem barge_in_decision_witness:
  "\<exists>old res w'. directed_start sample_crypto (\<lambda>_. 4) 11 ''speak'' demo_cid None demo_d2 = (res, w')
     \<and> barge_in_effect sample_crypto (\<lambda>_. 4) ''speak'' demo_cid 1 old demo_d2 res w'"
proof -
  obtain r1 where c1: "directed_start sample_crypto (\<lambda>_. 3) 9 ''listen'' demo_cid None demo_d1 = (r1, demo_d2)"
    by (metis surj_pair demo_d2_def snd_conv)
  have sl: "slot_of ''listen'' demo_chan = None" "slot_of (opposite_of ''listen'') demo_chan = None"
    by (simp_all add: slot_of_def demo_chan_def)
  have "\<exists>new. r1 = Inr (new, []) \<and> live_channel demo_cid demo_d2 = Some (set_slot ''listen'' (Some new) demo_chan) \<and> st_rank new = 1"
    using barge_in_decision [OF demo_d1_run demo_speaks(2) demo_d1_chan demo_rank(2) c1]
    by (simp only: demo_d1_consent demo_consent_active append_Cons append_Nil sl not_True_eq_False if_False option.case simp_thms)
  then obtain old where
    old: "live_channel demo_cid demo_d2 = Some (set_slot ''listen'' (Some old) demo_chan)" "st_rank old = 1" by blast
  have "duplex_step sample_crypto demo_d1 demo_d2" unfolding demo_d2_def by (rule step_start [OF demo_speaks(2)])
  with demo_d1_run have run: "duplex_run sample_crypto demo_d2" by (rule reach_step)
  obtain res w' where c2: "directed_start sample_crypto (\<lambda>_. 4) 11 ''speak'' demo_cid None demo_d2 = (res, w')"
    by (metis surj_pair)
  from barge_in_decision [OF run demo_speaks(1) old(1) demo_rank(1) c2] have
    "barge_in_effect sample_crypto (\<lambda>_. 4) ''speak'' demo_cid 1 old demo_d2 res w'"
    using demo_consent_active(1) [of 4] old(2)
    by (simp add: demo_d2_consent slot_of_def set_slot_def demo_chan_def opposite_of_def)
  with c2 show ?thesis by blast
qed

end
