(* ===== verification/Memory_Typed.thy ===== *)
theory Memory_Typed
  imports Grants_Properties Consent "HOL-Library.AList"
begin

text \<open>
  \<open>src/memory_typed.rs\<close>: typed memory containers. A container belongs to a subject and has a label;
  the entries of a private container rest encrypted under a key derived from the subject. Entries
  record the keys they were derived from, and the container keeps the inverse index that forgetting
  walks. Opening a private container needs an active consent, forgetting needs a grant, and every
  operation lands in the action ledger.

  The persistent store is off (\<open>METALOGOS_MEMORY_DB\<close> unset): \<open>db_conn\<close> then returns no connection,
  every \<open>persist_*\<close> call returns at once and \<open>db_load_container\<close> finds nothing. A \<open>HashMap\<close> is an
  association list with distinct keys whose order is not observed: where the code iterates over a
  map, the order is the one that the call's hint \<open>mc_order\<close> picks. The AEAD cipher, the MAC, the
  rendering of floats and the keys they run on are fields of \<open>vault\<close>; clock readings, random bytes
  and iteration order are fields of \<open>mem_call\<close>, one per call. The recall lane is not here.
\<close>

section \<open>Data\<close>

datatype mem_label = MemPublic | MemPrivate

datatype stored = Plain string | Enc string

record typed_entry =
  te_stored :: stored
  te_derived_from :: "string list"
  te_created_unix :: u64
  te_priority :: f64
  te_decay_rate :: f64
  te_last_access_unix :: u64
  te_ttl_unix :: "u64 option"
  te_poisoned :: bool

type_synonym children_index = "(string \<times> string list) list"

record typed_container =
  tc_id :: string
  tc_subject :: string
  tc_label :: mem_label
  tc_created_unix :: u64
  tc_entries :: "(string \<times> typed_entry) list"
  tc_children :: children_index
  tc_retained :: "string set"

record put_opts =
  po_priority :: "f64 option"
  po_decay_rate :: "f64 option"
  po_ttl_secs :: "f64 option"

record memory_world = grants_world +
  mw_consent :: consent_conn
  mw_registry :: "(string \<times> typed_container) list option"
  mw_seq :: u64

record vault =
  va_crypto :: crypto
  va_master :: string
  va_hmac :: "string \<Rightarrow> string \<Rightarrow> string option"
  va_seal :: "string \<Rightarrow> string \<Rightarrow> string \<Rightarrow> string option"
  va_unseal :: "string \<Rightarrow> string \<Rightarrow> string \<Rightarrow> string option"
  va_show_f32 :: "f64 \<Rightarrow> string"

record mem_call =
  mc_clk :: "nat \<Rightarrow> u64"
  mc_millis :: nat
  mc_nonce :: string
  mc_order :: "string list"

datatype memory_error =
  MemLock
| MemLabelWord string
| MemSubjectEmpty
| MemKeyEmpty
| MEMORY_CONSENT_REQUIRED string
| MEMORY_UNKNOWN string string
| MEMORY_UNKNOWN_KEY string string string
| MEMORY_UNKNOWN_PARENT string string
| MemPriority f64
| MemDecayRate f64
| MemTtl f64
| MemKeyDecode
| MemKeyConversion
| MemEncryption
| MEMORY_DECRYPT_FAILED string
| MEMORY_POISONED string string string
| MEMORY_REDACT_REQUIRED string
| MEMORY_RETAIN_PROTECTED string "string list"
| MEMORY_FORGET_CONSENT_REQUIRED string string
| MemGrant grant_error
| MemGrantScope string string string
| MemNoId string
| MemArgType string nat string
| MemArgMissing string nat
| MemValueType string string

definition MemLabel_parse :: "string \<Rightarrow> (memory_error, mem_label) result" where
  "MemLabel_parse word =
     (let w = to_ascii_lowercase (trim word)
      in if w = ''public'' then Inr MemPublic
         else if w = ''private'' then Inr MemPrivate
         else Inl (MemLabelWord w))"

fun MemLabel_as_str :: "mem_label \<Rightarrow> string" where
  "MemLabel_as_str MemPublic = ''public''"
| "MemLabel_as_str MemPrivate = ''private''"

text \<open>The \<open>f32\<close> nearest to 0.01 is \<open>5368709 / 2 ^ 29\<close>.\<close>

definition TypedEntry_new :: "stored \<Rightarrow> string list \<Rightarrow> u64 \<Rightarrow> typed_entry" where
  "TypedEntry_new st derived_from created =
     \<lparr>te_stored = st, te_derived_from = derived_from, te_created_unix = created, te_priority = Fin 1,
      te_decay_rate = Fin (5368709 / 2 ^ 29), te_last_access_unix = created, te_ttl_unix = None,
      te_poisoned = False\<rparr>"

section \<open>Maps\<close>

text \<open>The iteration order of a hash map with the keys \<open>ks\<close>: any permutation, picked by the hint.\<close>

definition iter_order :: "string list \<Rightarrow> string list \<Rightarrow> string list" where
  "iter_order hint ks = filter (\<lambda>k. k \<in> set ks) (remdups hint) @ filter (\<lambda>k. k \<notin> set hint) ks"

definition kids :: "children_index \<Rightarrow> string \<Rightarrow> string list" where
  "kids ch p = (case map_of ch p of None \<Rightarrow> [] | Some ks \<Rightarrow> ks)"

text \<open>\<open>if let Some(list) = children.get_mut(p) { list.retain(|x| x != k) }\<close> and
  \<open>children.entry(p).or_default().push(k)\<close>.\<close>

definition unlink_child :: "string \<Rightarrow> string \<Rightarrow> children_index \<Rightarrow> children_index" where
  "unlink_child k p ch =
     (case map_of ch p of None \<Rightarrow> ch | Some ks \<Rightarrow> AList.update p (filter (\<lambda>x. x \<noteq> k) ks) ch)"

definition link_child :: "string \<Rightarrow> string \<Rightarrow> children_index \<Rightarrow> children_index" where
  "link_child k p ch = AList.update p (kids ch p @ [k]) ch"

definition unlink_all :: "string \<Rightarrow> string list \<Rightarrow> children_index \<Rightarrow> children_index" where
  "unlink_all k parents ch = fold (unlink_child k) parents ch"

definition link_all :: "string \<Rightarrow> string list \<Rightarrow> children_index \<Rightarrow> children_index" where
  "link_all k parents ch = fold (link_child k) parents ch"

text \<open>\<open>entries.get(k).map(|e| e.derived_from.clone()).unwrap_or_default()\<close>.\<close>

definition parents_of :: "typed_container \<Rightarrow> string \<Rightarrow> string list" where
  "parents_of c k = (case map_of (tc_entries c) k of None \<Rightarrow> [] | Some e \<Rightarrow> te_derived_from e)"

text \<open>Removal of a node from the three maps of a container.\<close>

definition remove_node :: "string \<Rightarrow> typed_container \<Rightarrow> typed_container" where
  "remove_node k c =
     c\<lparr>tc_entries := AList.delete k (tc_entries c), tc_retained := tc_retained c - {k},
       tc_children := AList.delete k (tc_children c)\<rparr>"

definition get_container ::
  "string \<Rightarrow> string \<Rightarrow> 'a memory_world_scheme \<Rightarrow> (memory_error, typed_container) result"
where
  "get_container fn_name cid w =
     (case mw_registry w of
        None \<Rightarrow> Inl MemLock
      | Some reg \<Rightarrow>
          (case map_of reg cid of None \<Rightarrow> Inl (MEMORY_UNKNOWN fn_name cid) | Some c \<Rightarrow> Inr c))"

definition put_container :: "string \<Rightarrow> typed_container \<Rightarrow> 'a memory_world_scheme \<Rightarrow> 'a memory_world_scheme" where
  "put_container cid c w = w\<lparr>mw_registry := map_option (AList.update cid c) (mw_registry w)\<rparr>"

section \<open>Keys and encryption at rest\<close>

definition memory_master :: "crypto \<Rightarrow> string option \<Rightarrow> string \<Rightarrow> string" where
  "memory_master C env random =
     (case env of
        None \<Rightarrow> random
      | Some hex_key \<Rightarrow>
          (case hex_decode C (trim hex_key) of
             None \<Rightarrow> random | Some bytes \<Rightarrow> if length bytes = 32 then bytes else random))"

definition subject_key_hex :: "vault \<Rightarrow> string \<Rightarrow> string" where
  "subject_key_hex V subject =
     (case va_hmac V (va_master V) (''memory-typed:'' @ subject) of
        None \<Rightarrow> sha256_hex (va_crypto V) (''memory-typed-fallback:'' @ subject)
      | Some mac \<Rightarrow> hex_encode (va_crypto V) mac)"

definition at_rest_key :: "vault \<Rightarrow> string \<Rightarrow> (memory_error, string) result" where
  "at_rest_key V key_hex =
     (case hex_decode (va_crypto V) key_hex of
        None \<Rightarrow> Inl MemKeyDecode
      | Some bytes \<Rightarrow> if length bytes = 32 then Inr bytes else Inl MemKeyConversion)"

definition encrypt_at_rest :: "vault \<Rightarrow> string \<Rightarrow> string \<Rightarrow> string \<Rightarrow> (memory_error, string) result" where
  "encrypt_at_rest V nonce plain key_hex =
     (case at_rest_key V key_hex of
        Inl e \<Rightarrow> Inl e
      | Inr key \<Rightarrow>
          (case va_seal V key nonce plain of None \<Rightarrow> Inl MemEncryption | Some ct \<Rightarrow> Inr (nonce @ ct)))"

text \<open>\<open>String::from_utf8\<close>: whether the bytes are well-formed UTF-8.\<close>

definition in_bytes :: "nat \<Rightarrow> nat \<Rightarrow> char \<Rightarrow> bool" where
  "in_bytes lo hi c \<longleftrightarrow> lo \<le> of_char c \<and> of_char c \<le> hi"

fun utf8_ok :: "string \<Rightarrow> bool" where
  "utf8_ok [] = True"
| "utf8_ok (a # s) =
     (if in_bytes 0 0x7F a then utf8_ok s
      else case s of
        [] \<Rightarrow> False
      | b # t \<Rightarrow>
          if in_bytes 0xC2 0xDF a then in_bytes 0x80 0xBF b \<and> utf8_ok t
          else case t of
            [] \<Rightarrow> False
          | c # u \<Rightarrow>
              if in_bytes 0xE0 0xEF a then
                (if a = CHR 0xE0 then in_bytes 0xA0 0xBF b
                 else if a = CHR 0xED then in_bytes 0x80 0x9F b else in_bytes 0x80 0xBF b)
                \<and> in_bytes 0x80 0xBF c \<and> utf8_ok u
              else case u of
                [] \<Rightarrow> False
              | d # v \<Rightarrow>
                  in_bytes 0xF0 0xF4 a
                  \<and> (if a = CHR 0xF0 then in_bytes 0x90 0xBF b
                     else if a = CHR 0xF4 then in_bytes 0x80 0x8F b else in_bytes 0x80 0xBF b)
                  \<and> in_bytes 0x80 0xBF c \<and> in_bytes 0x80 0xBF d \<and> utf8_ok v)"

definition decrypt_at_rest :: "vault \<Rightarrow> string \<Rightarrow> string \<Rightarrow> (memory_error, string) result" where
  "decrypt_at_rest V blob key_hex =
     (if length blob < 13 then Inl (MEMORY_DECRYPT_FAILED ''at-rest blob too short'')
      else
        case at_rest_key V key_hex of
          Inl e \<Rightarrow> Inl e
        | Inr key \<Rightarrow>
            (case va_unseal V key (take 12 blob) (drop 12 blob) of
               None \<Rightarrow> Inl (MEMORY_DECRYPT_FAILED ''at-rest blob does not decrypt under this subject key'')
             | Some plain \<Rightarrow>
                 if utf8_ok plain then Inr plain else Inl (MEMORY_DECRYPT_FAILED ''blob is not UTF-8'')))"

section \<open>Ledger and handles\<close>

definition ledger_memory_event ::
  "vault \<Rightarrow> u64 \<Rightarrow> string \<Rightarrow> string \<Rightarrow> string \<Rightarrow> 'a memory_world_scheme \<Rightarrow> 'a memory_world_scheme"
where
  "ledger_memory_event V now kind cid detail w =
     w\<lparr>w_ledger := record_action (va_crypto V) now (''memory.'' @ kind) cid ''memory'' detail (w_ledger w)\<rparr>"

definition memory_fresh :: "vault \<Rightarrow> string \<Rightarrow> string \<Rightarrow> nat \<Rightarrow> 'a memory_world_scheme \<Rightarrow> string" where
  "memory_fresh V pre seed millis w =
     pre @ take 16 (sha256_hex (va_crypto V) (seed @ ''|'' @ show_dec millis @ ''|'' @ show_dec (mw_seq w)))"

definition bump_mem_seq :: "'a memory_world_scheme \<Rightarrow> 'a memory_world_scheme" where
  "bump_mem_seq w = w\<lparr>mw_seq := u64_add (mw_seq w) 1\<rparr>"

text \<open>\<open>fresh_container_id\<close>, \<open>fresh_batch_id\<close>, \<open>fresh_front_batch_id\<close>; each also advances the counter.\<close>

definition fresh_container_id :: "vault \<Rightarrow> string \<Rightarrow> nat \<Rightarrow> 'a memory_world_scheme \<Rightarrow> string" where
  "fresh_container_id V subject millis w = memory_fresh V ''mem-'' subject millis w"

definition fresh_batch_id :: "vault \<Rightarrow> nat \<Rightarrow> 'a memory_world_scheme \<Rightarrow> string" where
  "fresh_batch_id V millis w = memory_fresh V ''MLOG-TFORGET-'' ''tforget'' millis w"

definition fresh_front_batch_id :: "vault \<Rightarrow> nat \<Rightarrow> 'a memory_world_scheme \<Rightarrow> string" where
  "fresh_front_batch_id V millis w = memory_fresh V ''MLOG-WFORGET-'' ''wforget'' millis w"

definition container_value :: "typed_container \<Rightarrow> runtime_value" where
  "container_value c =
     VMemory [''id'' \<mapsto> tc_id c, ''subject'' \<mapsto> tc_subject c, ''label'' \<mapsto> MemLabel_as_str (tc_label c)]"

definition container_id_arg :: "string \<Rightarrow> runtime_value list \<Rightarrow> nat \<Rightarrow> (memory_error, string) result" where
  "container_id_arg fn_name args idx =
     (case arg_at args idx of
        Some (VMemory m) \<Rightarrow>
          (case m ''id'' of
             Some cid \<Rightarrow> if cid \<noteq> [] then Inr cid else Inl (MemNoId fn_name)
           | None \<Rightarrow> Inl (MemNoId fn_name))
      | Some other \<Rightarrow> Inl (MemArgType fn_name idx (type_name other))
      | None \<Rightarrow> Inl (MemArgMissing fn_name idx))"

section \<open>The cascade plan\<close>

record cascade_plan =
  cp_root :: string
  cp_closure :: "string list"
  cp_blocked_by :: "string list"
  cp_visited_nodes :: nat
  cp_visited_edges :: nat

definition push_kid :: "string \<Rightarrow> string list \<times> string set \<Rightarrow> string list \<times> string set" where
  "push_kid k = (\<lambda>(queue, seen). if k \<in> seen then (queue, seen) else (queue @ [k], insert k seen))"

definition index_nodes :: "children_index \<Rightarrow> string set" where
  "index_nodes ch = (\<Union>(p, ks) \<in> set ch. set ks)"

lemma push_kid_apply: "push_kid k (queue, seen) = (if k \<in> seen then (queue, seen) else (queue @ [k], insert k seen))"
  by (simp add: push_kid_def)

lemma push_kids_spec:
  assumes "fold push_kid ks (queue, seen) = (queue', seen')"
  shows "\<exists>fresh. queue' = queue @ fresh \<and> seen' = seen \<union> set fresh \<and> distinct fresh
    \<and> set fresh \<inter> seen = {} \<and> set ks \<subseteq> seen' \<and> set fresh \<subseteq> set ks"
  using assms
proof (induction ks arbitrary: queue seen)
  case (Cons k ks)
  show ?case
  proof (cases "k \<in> seen")
    case True
    then have "fold push_kid ks (queue, seen) = (queue', seen')" using Cons.prems by (simp add: push_kid_apply)
    from Cons.IH [OF this] show ?thesis using True by auto
  next
    case False
    then have "fold push_kid ks (queue @ [k], insert k seen) = (queue', seen')"
      using Cons.prems by (simp add: push_kid_apply)
    from Cons.IH [OF this] obtain fresh where f:
      "queue' = (queue @ [k]) @ fresh" "seen' = insert k seen \<union> set fresh" "distinct fresh"
      "set fresh \<inter> insert k seen = {}" "set ks \<subseteq> seen'" "set fresh \<subseteq> set ks" by blast
    then show ?thesis using False by (intro exI [of _ "k # fresh"]) auto
  qed
qed simp

lemma finite_index_nodes [simp]: "finite (index_nodes ch)"
  by (auto simp: index_nodes_def)

lemma kids_in_index: "set (kids ch p) \<subseteq> index_nodes ch"
  by (cases "map_of ch p") (force simp: kids_def index_nodes_def dest: map_of_SomeD)+

text \<open>The breadth-first walk: queue, seen, closure, nodes popped, edges scanned.\<close>

function cascade_walk ::
  "children_index \<Rightarrow> string list \<Rightarrow> string set \<Rightarrow> string list \<Rightarrow> nat \<Rightarrow> nat \<Rightarrow> string list \<times> nat \<times> nat"
where
  "cascade_walk ch [] seen closure nodes edges = (closure, nodes, edges)"
| "cascade_walk ch (node # queue) seen closure nodes edges =
     (case fold push_kid (kids ch node) (queue, seen) of
        (queue', seen') \<Rightarrow>
          cascade_walk ch queue' seen' (closure @ [node]) (nodes + 1) (edges + length (kids ch node)))"
  by pat_completeness auto

lemma walk_measure:
  assumes "fold push_kid (kids ch node) (queue, seen) = (queue', seen')"
  shows "card (index_nodes ch - seen') + length queue' < Suc (card (index_nodes ch - seen) + length queue)"
proof -
  from push_kids_spec [OF assms] obtain fresh where f:
    "queue' = queue @ fresh" "seen' = seen \<union> set fresh" "distinct fresh" "set fresh \<inter> seen = {}"
    "set fresh \<subseteq> set (kids ch node)" by blast
  have sub: "set fresh \<subseteq> index_nodes ch - seen" using f kids_in_index by blast
  have "index_nodes ch - seen' = (index_nodes ch - seen) - set fresh" using f(2) by auto
  then have "card (index_nodes ch - seen') = card (index_nodes ch - seen) - length fresh"
    using sub f(3) by (simp add: card_Diff_subset distinct_card)
  moreover have "length fresh \<le> card (index_nodes ch - seen)"
    using sub f(3) by (metis card_mono distinct_card finite_Diff finite_index_nodes)
  ultimately show ?thesis using f(1) by simp
qed

termination cascade_walk
  by (relation "measure (\<lambda>(ch, queue, seen, _). card (index_nodes ch - seen) + length queue)")
    (auto simp: walk_measure)

declare cascade_walk.simps [simp del]

definition plan_cascade :: "string \<Rightarrow> children_index \<Rightarrow> string set \<Rightarrow> cascade_plan" where
  "plan_cascade rt ch retained =
     (case cascade_walk ch [rt] {rt} [] 0 0 of
        (closure0, nodes, edges) \<Rightarrow>
          let closure = sort closure0
          in \<lparr>cp_root = rt, cp_closure = closure, cp_blocked_by = filter (\<lambda>k. k \<in> retained) closure,
              cp_visited_nodes = nodes, cp_visited_edges = edges\<rparr>)"

definition descendant_closure :: "typed_container \<Rightarrow> string \<Rightarrow> (string, string list) result" where
  "descendant_closure c key =
     (if map_of (tc_entries c) key = None then Inl key
      else Inr (cp_closure (plan_cascade key (tc_children c) {})))"

section \<open>Opening and writing\<close>

definition registry_values :: "string list \<Rightarrow> (string \<times> typed_container) list \<Rightarrow> typed_container list" where
  "registry_values hint reg = List.map_filter (map_of reg) (iter_order hint (map fst reg))"

definition memory_scope :: "string \<Rightarrow> string" where
  "memory_scope subject = ''memory:'' @ subject"

definition memory_open ::
  "vault \<Rightarrow> mem_call \<Rightarrow> string \<Rightarrow> mem_label \<Rightarrow> 'a memory_world_scheme
     \<Rightarrow> (memory_error, runtime_value) result \<times> 'a memory_world_scheme"
where
  "memory_open V K subject label w =
     (if trim subject = [] then (Inl MemSubjectEmpty, w)
      else if label = MemPrivate \<and> \<not> active_grant_for (mc_clk K 0) (memory_scope subject) (mw_consent w) then
        (Inl (MEMORY_CONSENT_REQUIRED (memory_scope subject)), w)
      else
        case mw_registry w of
          None \<Rightarrow> (Inl MemLock, w)
        | Some reg \<Rightarrow>
            (case find (\<lambda>c. tc_subject c = subject \<and> tc_label c = label) (registry_values (mc_order K) reg) of
               Some existing \<Rightarrow> (Inr (container_value existing), w)
             | None \<Rightarrow>
                 (let c = \<lparr>tc_id = fresh_container_id V subject (mc_millis K) w, tc_subject = subject, tc_label = label,
                           tc_created_unix = mc_clk K 1, tc_entries = [], tc_children = [], tc_retained = {}\<rparr>;
                      w1 = ledger_memory_event V (mc_clk K 2) ''open'' (tc_id c)
                             (''subject='' @ subject @ ''|label='' @ MemLabel_as_str label) (bump_mem_seq w)
                  in (Inr (container_value c), put_container (tc_id c) c w1))))"

text \<open>The validated attributes of a put: priority, decay rate, deadline.\<close>

definition put_attributes :: "u64 \<Rightarrow> put_opts \<Rightarrow> (memory_error, f64 \<times> f64 \<times> u64 option) result" where
  "put_attributes now opts =
     (let priority = (case po_priority opts of None \<Rightarrow> Fin 1 | Some p \<Rightarrow> p);
          decay_rate = (case po_decay_rate opts of None \<Rightarrow> Fin (5368709 / 2 ^ 29) | Some d \<Rightarrow> d);
          non_negative = (\<lambda>x. case x of Fin r \<Rightarrow> r \<ge> 0 | _ \<Rightarrow> False)
      in if \<not> non_negative priority then Inl (MemPriority priority)
         else if \<not> non_negative decay_rate then Inl (MemDecayRate decay_rate)
         else
           case po_ttl_secs opts of
             None \<Rightarrow> Inr (priority, decay_rate, None)
           | Some t \<Rightarrow>
               if (case t of Fin r \<Rightarrow> r > 0 | _ \<Rightarrow> False)
               then Inr (priority, decay_rate, Some (u64_add now (f64_as_u64 t)))
               else Inl (MemTtl t))"

definition stored_form :: "vault \<Rightarrow> string \<Rightarrow> typed_container \<Rightarrow> string \<Rightarrow> (memory_error, stored) result" where
  "stored_form V nonce c text =
     (case tc_label c of
        MemPublic \<Rightarrow> Inr (Plain text)
      | MemPrivate \<Rightarrow>
          (case encrypt_at_rest V nonce text (subject_key_hex V (tc_subject c)) of
             Inl e \<Rightarrow> Inl e | Inr blob \<Rightarrow> Inr (Enc blob)))"

text \<open>Replacing the node: the edges of the old value go, those of the new one come.\<close>

definition insert_entry :: "string \<Rightarrow> typed_entry \<Rightarrow> typed_container \<Rightarrow> typed_container" where
  "insert_entry key entry c =
     c\<lparr>tc_children := link_all key (te_derived_from entry) (unlink_all key (parents_of c key) (tc_children c)),
       tc_entries := AList.update key entry (tc_entries c)\<rparr>"

definition put_detail ::
  "vault \<Rightarrow> string \<Rightarrow> mem_label \<Rightarrow> bool \<Rightarrow> typed_entry \<Rightarrow> string"
where
  "put_detail V key label overwrite e =
     ''key='' @ key @ ''|label='' @ MemLabel_as_str label
     @ ''|overwrite='' @ (if overwrite then ''true'' else ''false'')
     @ ''|parents='' @ show_dec (length (te_derived_from e)) @ ''|prio='' @ va_show_f32 V (te_priority e)
     @ ''|decay='' @ va_show_f32 V (te_decay_rate e)
     @ ''|ttl='' @ (case te_ttl_unix e of None \<Rightarrow> ''none'' | Some t \<Rightarrow> show_dec t)"

definition memory_put ::
  "vault \<Rightarrow> mem_call \<Rightarrow> string \<Rightarrow> string \<Rightarrow> string \<Rightarrow> string list \<Rightarrow> put_opts \<Rightarrow> 'a memory_world_scheme
     \<Rightarrow> (memory_error, unit) result \<times> 'a memory_world_scheme"
where
  "memory_put V K cid key text derived_from opts w =
     (case get_container ''memory_put'' cid w of
        Inl e \<Rightarrow> (Inl e, w)
      | Inr c \<Rightarrow>
          if trim key = [] then (Inl MemKeyEmpty, w)
          else
            case find (\<lambda>p. map_of (tc_entries c) p = None) derived_from of
              Some parent \<Rightarrow> (Inl (MEMORY_UNKNOWN_PARENT parent (tc_id c)), w)
            | None \<Rightarrow>
                (case put_attributes (mc_clk K 0) opts of
                   Inl e \<Rightarrow> (Inl e, w)
                 | Inr (priority, decay_rate, ttl) \<Rightarrow>
                     (case stored_form V (mc_nonce K) c text of
                        Inl e \<Rightarrow> (Inl e, w)
                      | Inr st \<Rightarrow>
                          (let overwrite = (map_of (tc_entries c) key \<noteq> None);
                               entry = (TypedEntry_new st derived_from (mc_clk K 1))
                                         \<lparr>te_priority := priority, te_decay_rate := decay_rate, te_ttl_unix := ttl\<rparr>
                           in (Inr (),
                               ledger_memory_event V (mc_clk K 2) ''put'' (tc_id c)
                                 (put_detail V key (tc_label c) overwrite entry)
                                 (put_container cid (insert_entry key entry c) w))))))"

section \<open>Expiry\<close>

definition entry_digest :: "vault \<Rightarrow> typed_entry \<Rightarrow> string" where
  "entry_digest V e =
     take 16 (sha256_hex (va_crypto V) (case te_stored e of Plain t \<Rightarrow> t | Enc b \<Rightarrow> b))"

definition digests_of :: "vault \<Rightarrow> typed_container \<Rightarrow> string list \<Rightarrow> string list" where
  "digests_of V c ks = List.map_filter (\<lambda>k. map_option (entry_digest V) (map_of (tc_entries c) k)) ks"

definition is_expired :: "u64 \<Rightarrow> typed_entry \<Rightarrow> bool" where
  "is_expired now e \<longleftrightarrow> (case te_ttl_unix e of None \<Rightarrow> False | Some t \<Rightarrow> t \<le> now)"

definition expired_keys :: "string list \<Rightarrow> u64 \<Rightarrow> typed_container \<Rightarrow> string list" where
  "expired_keys hint now c =
     filter (\<lambda>k. case map_of (tc_entries c) k of None \<Rightarrow> False | Some e \<Rightarrow> is_expired now e)
       (iter_order hint (map fst (tc_entries c)))"

text \<open>One turn of the sweep: unlink the key from its parents, then remove it.\<close>

definition drop_node :: "string \<Rightarrow> typed_container \<Rightarrow> typed_container" where
  "drop_node k c = remove_node k (c\<lparr>tc_children := unlink_all k (parents_of c k) (tc_children c)\<rparr>)"

definition sweep_expired_locked ::
  "vault \<Rightarrow> string list \<Rightarrow> u64 \<Rightarrow> u64 \<Rightarrow> string \<Rightarrow> 'a memory_world_scheme \<Rightarrow> nat \<times> 'a memory_world_scheme"
where
  "sweep_expired_locked V hint now ts cid w =
     (case mw_registry w of
        None \<Rightarrow> (0, w)
      | Some reg \<Rightarrow>
          (case map_of reg cid of
             None \<Rightarrow> (0, w)
           | Some c \<Rightarrow>
               (let expired = expired_keys hint now c
                in if expired = [] then (0, w)
                   else (length expired,
                         ledger_memory_event V ts ''ttl_expired'' (tc_id c)
                           (''count='' @ show_dec (length expired) @ ''|keys='' @ join_with '','' expired
                            @ ''|hashes='' @ join_with '','' (digests_of V c expired))
                           (put_container cid (fold drop_node expired c) w)))))"

section \<open>Reading\<close>

definition get_entry ::
  "string \<Rightarrow> typed_container \<Rightarrow> string \<Rightarrow> (memory_error, typed_entry) result"
where
  "get_entry fn_name c key =
     (case map_of (tc_entries c) key of
        None \<Rightarrow> Inl (MEMORY_UNKNOWN_KEY fn_name key (tc_id c)) | Some e \<Rightarrow> Inr e)"

definition materialize :: "vault \<Rightarrow> typed_container \<Rightarrow> typed_entry \<Rightarrow> (memory_error, runtime_value) result" where
  "materialize V c e =
     (case te_stored e of
        Plain t \<Rightarrow> Inr (VString t)
      | Enc blob \<Rightarrow>
          (case decrypt_at_rest V blob (subject_key_hex V (tc_subject c)) of
             Inl err \<Rightarrow> Inl err | Inr t \<Rightarrow> Inr (VSecret t)))"

definition set_entry :: "string \<Rightarrow> typed_entry \<Rightarrow> typed_container \<Rightarrow> typed_container" where
  "set_entry k e c = c\<lparr>tc_entries := AList.update k e (tc_entries c)\<rparr>"

definition memory_read ::
  "vault \<Rightarrow> mem_call \<Rightarrow> string \<Rightarrow> string \<Rightarrow> 'a memory_world_scheme
     \<Rightarrow> (memory_error, runtime_value) result \<times> 'a memory_world_scheme"
where
  "memory_read V K cid key w0 =
     (if mw_registry w0 = None then (Inl MemLock, w0)
      else
        let w = snd (sweep_expired_locked V (mc_order K) (mc_clk K 0) (mc_clk K 1) cid w0)
        in case get_container ''memory_read'' cid w of
             Inl e \<Rightarrow> (Inl e, w)
           | Inr c \<Rightarrow>
               (case get_entry ''memory_read'' c key of
                  Inl e \<Rightarrow> (Inl e, w)
                | Inr entry \<Rightarrow>
                    if te_poisoned entry then (Inl (MEMORY_POISONED ''memory_read'' key (tc_id c)), w)
                    else
                      (case materialize V c entry of
                         Inl e \<Rightarrow> (Inl e, w)
                       | Inr v \<Rightarrow>
                           (Inr v,
                            ledger_memory_event V (mc_clk K 3) ''read'' (tc_id c)
                              (''key='' @ key @ ''|label='' @ MemLabel_as_str (tc_label c))
                              (put_container cid
                                 (set_entry key (entry\<lparr>te_last_access_unix := mc_clk K 2\<rparr>) c) w)))))"

definition memory_keys ::
  "vault \<Rightarrow> mem_call \<Rightarrow> string \<Rightarrow> 'a memory_world_scheme
     \<Rightarrow> (memory_error, string list) result \<times> 'a memory_world_scheme"
where
  "memory_keys V K cid w0 =
     (if mw_registry w0 = None then (Inl MemLock, w0)
      else
        let w = snd (sweep_expired_locked V (mc_order K) (mc_clk K 0) (mc_clk K 1) cid w0)
        in case get_container ''memory_keys'' cid w of
             Inl e \<Rightarrow> (Inl e, w)
           | Inr c \<Rightarrow>
               (let ks = sort (map fst (tc_entries c))
                in (Inr ks, ledger_memory_event V (mc_clk K 2) ''keys'' (tc_id c) (''count='' @ show_dec (length ks)) w)))"

definition memory_provenance ::
  "vault \<Rightarrow> mem_call \<Rightarrow> string \<Rightarrow> string \<Rightarrow> 'a memory_world_scheme
     \<Rightarrow> (memory_error, string list) result \<times> 'a memory_world_scheme"
where
  "memory_provenance V K cid key w =
     (case get_container ''memory_provenance'' cid w of
        Inl e \<Rightarrow> (Inl e, w)
      | Inr c \<Rightarrow>
          (case get_entry ''memory_provenance'' c key of
             Inl e \<Rightarrow> (Inl e, w)
           | Inr entry \<Rightarrow>
               (Inr (te_derived_from entry),
                ledger_memory_event V (mc_clk K 0) ''provenance'' (tc_id c)
                  (''key='' @ key @ ''|parents='' @ show_dec (length (te_derived_from entry))) w)))"

definition memory_export ::
  "vault \<Rightarrow> mem_call \<Rightarrow> string \<Rightarrow> string \<Rightarrow> 'a memory_world_scheme
     \<Rightarrow> (memory_error, unit) result \<times> 'a memory_world_scheme"
where
  "memory_export V K cid key w =
     (case get_container ''memory_export'' cid w of
        Inl e \<Rightarrow> (Inl e, w)
      | Inr c \<Rightarrow>
          (case get_entry ''memory_export'' c key of
             Inl e \<Rightarrow> (Inl e, w)
           | Inr entry \<Rightarrow>
               if te_poisoned entry then (Inl (MEMORY_POISONED ''memory_export'' key (tc_id c)), w)
               else if tc_label c = MemPrivate then (Inl (MEMORY_REDACT_REQUIRED key), w)
               else (Inr (), ledger_memory_event V (mc_clk K 0) ''export'' (tc_id c) (''key='' @ key) w)))"

definition label_of :: "string \<Rightarrow> 'a memory_world_scheme \<Rightarrow> (memory_error, mem_label) result" where
  "label_of cid w =
     (case get_container ''memory_export'' cid w of Inl e \<Rightarrow> Inl e | Inr c \<Rightarrow> Inr (tc_label c))"

definition is_poisoned :: "string \<Rightarrow> string \<Rightarrow> 'a memory_world_scheme \<Rightarrow> (memory_error, bool) result" where
  "is_poisoned cid key w =
     (case get_container ''memory'' cid w of
        Inl e \<Rightarrow> Inl e
      | Inr c \<Rightarrow> (case get_entry ''memory'' c key of Inl e \<Rightarrow> Inl e | Inr entry \<Rightarrow> Inr (te_poisoned entry)))"

definition lookup_entry :: "string \<Rightarrow> string \<Rightarrow> 'a memory_world_scheme \<Rightarrow> (typed_container \<times> typed_entry) option" where
  "lookup_entry cid key w =
     (case get_container [] cid w of
        Inl _ \<Rightarrow> None
      | Inr c \<Rightarrow> (case map_of (tc_entries c) key of None \<Rightarrow> None | Some e \<Rightarrow> Some (c, e)))"

definition entry_is_encrypted :: "string \<Rightarrow> string \<Rightarrow> 'a memory_world_scheme \<Rightarrow> bool" where
  "entry_is_encrypted cid key w =
     (case lookup_entry cid key w of
        None \<Rightarrow> False | Some (c, e) \<Rightarrow> (case te_stored e of Plain _ \<Rightarrow> False | Enc _ \<Rightarrow> True))"

definition cross_decrypt_fails :: "vault \<Rightarrow> string \<Rightarrow> string \<Rightarrow> string \<Rightarrow> 'a memory_world_scheme \<Rightarrow> bool" where
  "cross_decrypt_fails V subject cid key w =
     (case lookup_entry cid key w of
        None \<Rightarrow> True
      | Some (c, e) \<Rightarrow>
          (case te_stored e of
             Plain _ \<Rightarrow> False
           | Enc blob \<Rightarrow> \<not> is_ok (decrypt_at_rest V blob (subject_key_hex V subject))))"

definition memory_entry_count :: "string \<Rightarrow> 'a memory_world_scheme \<Rightarrow> nat" where
  "memory_entry_count cid w =
     (case get_container [] cid w of Inl _ \<Rightarrow> 0 | Inr c \<Rightarrow> length (tc_entries c))"

definition activation_of ::
  "string \<Rightarrow> string \<Rightarrow> 'a memory_world_scheme \<Rightarrow> (memory_error, f64 \<times> f64 \<times> u64 \<times> u64 option \<times> bool) result"
where
  "activation_of cid key w =
     (case get_container ''memory_activation'' cid w of
        Inl e \<Rightarrow> Inl e
      | Inr c \<Rightarrow>
          (case get_entry ''memory_activation'' c key of
             Inl e \<Rightarrow> Inl e
           | Inr e \<Rightarrow> Inr (te_priority e, te_decay_rate e, te_last_access_unix e, te_ttl_unix e, te_poisoned e)))"

section \<open>Pins\<close>

definition memory_retain ::
  "vault \<Rightarrow> mem_call \<Rightarrow> string \<Rightarrow> string \<Rightarrow> 'a memory_world_scheme
     \<Rightarrow> (memory_error, nat) result \<times> 'a memory_world_scheme"
where
  "memory_retain V K cid key w =
     (case get_container ''memory_retain'' cid w of
        Inl e \<Rightarrow> (Inl e, w)
      | Inr c \<Rightarrow>
          (case descendant_closure c key of
             Inl k \<Rightarrow> (Inl (MEMORY_UNKNOWN_KEY ''memory_retain'' k (tc_id c)), w)
           | Inr closure \<Rightarrow>
               (let pinned = length (filter (\<lambda>k. k \<notin> tc_retained c) closure);
                    w1 = put_container cid (c\<lparr>tc_retained := tc_retained c \<union> set closure\<rparr>) w
                in (Inr (length closure),
                    if pinned > 0 then
                      ledger_memory_event V (mc_clk K 0) ''retain'' (tc_id c)
                        (''root='' @ key @ ''|pinned='' @ show_dec pinned @ ''|cascade='' @ show_dec (length closure)) w1
                    else w1))))"

definition memory_release ::
  "vault \<Rightarrow> mem_call \<Rightarrow> string \<Rightarrow> string \<Rightarrow> 'a memory_world_scheme
     \<Rightarrow> (memory_error, nat) result \<times> 'a memory_world_scheme"
where
  "memory_release V K cid key w =
     (case get_container ''memory_release'' cid w of
        Inl e \<Rightarrow> (Inl e, w)
      | Inr c \<Rightarrow>
          (case descendant_closure c key of
             Inl k \<Rightarrow> (Inl (MEMORY_UNKNOWN_KEY ''memory_release'' k (tc_id c)), w)
           | Inr closure \<Rightarrow>
               (let released = length (filter (\<lambda>k. k \<in> tc_retained c) closure);
                    w1 = put_container cid (c\<lparr>tc_retained := tc_retained c - set closure\<rparr>) w
                in (Inr (length closure),
                    if released > 0 then
                      ledger_memory_event V (mc_clk K 0) ''release'' (tc_id c)
                        (''root='' @ key @ ''|released='' @ show_dec released @ ''|cascade='' @ show_dec (length closure)) w1
                    else w1))))"

definition retained_keys ::
  "vault \<Rightarrow> mem_call \<Rightarrow> string \<Rightarrow> 'a memory_world_scheme
     \<Rightarrow> (memory_error, string list) result \<times> 'a memory_world_scheme"
where
  "retained_keys V K cid w =
     (case get_container ''memory_retained'' cid w of
        Inl e \<Rightarrow> (Inl e, w)
      | Inr c \<Rightarrow>
          (let ks = sorted_list_of_set (tc_retained c)
           in (Inr ks, ledger_memory_event V (mc_clk K 0) ''retained'' (tc_id c) (''count='' @ show_dec (length ks)) w)))"

definition cascade_preview ::
  "vault \<Rightarrow> mem_call \<Rightarrow> string \<Rightarrow> string \<Rightarrow> 'a memory_world_scheme
     \<Rightarrow> (memory_error, string list \<times> string list \<times> nat) result \<times> 'a memory_world_scheme"
where
  "cascade_preview V K cid key w =
     (case get_container ''memory_cascade_preview'' cid w of
        Inl e \<Rightarrow> (Inl e, w)
      | Inr c \<Rightarrow>
          (case get_entry ''memory_cascade_preview'' c key of
             Inl e \<Rightarrow> (Inl e, w)
           | Inr _ \<Rightarrow>
               (let plan = plan_cascade key (tc_children c) (tc_retained c)
                in (Inr (cp_closure plan, cp_blocked_by plan, cp_visited_nodes plan + cp_visited_edges plan),
                    ledger_memory_event V (mc_clk K 0) ''cascade_preview'' (tc_id c)
                      (''root='' @ key @ ''|closure='' @ show_dec (length (cp_closure plan))
                       @ ''|blocked_by='' @ show_dec (length (cp_blocked_by plan))) w))))"

definition retain_ttl ::
  "vault \<Rightarrow> mem_call \<Rightarrow> string \<Rightarrow> string \<Rightarrow> u64 \<Rightarrow> 'a memory_world_scheme
     \<Rightarrow> (memory_error, unit) result \<times> 'a memory_world_scheme"
where
  "retain_ttl V K cid key ttl_secs w0 =
     (if mw_registry w0 = None then (Inl MemLock, w0)
      else
        let w = snd (sweep_expired_locked V (mc_order K) (mc_clk K 0) (mc_clk K 1) cid w0)
        in case get_container ''memory_retain_ttl'' cid w of
             Inl e \<Rightarrow> (Inl e, w)
           | Inr c \<Rightarrow>
               (let deadline = u64_add (mc_clk K 2) ttl_secs
                in case get_entry ''memory_retain_ttl'' c key of
                     Inl e \<Rightarrow> (Inl e, w)
                   | Inr entry \<Rightarrow>
                       if te_poisoned entry then (Inl (MEMORY_POISONED ''memory_retain_ttl'' key (tc_id c)), w)
                       else
                         (Inr (),
                          ledger_memory_event V (mc_clk K 3) ''retain_ttl'' (tc_id c)
                            (''key='' @ key @ ''|ttl_secs='' @ show_dec ttl_secs @ ''|deadline='' @ show_dec deadline)
                            (put_container cid (set_entry key (entry\<lparr>te_ttl_unix := Some deadline\<rparr>) c) w))))"

definition children_pairs :: "string \<Rightarrow> 'a memory_world_scheme \<Rightarrow> (memory_error, (string \<times> string list) list) result" where
  "children_pairs cid w =
     (case get_container ''memory_children'' cid w of
        Inl e \<Rightarrow> Inl e
      | Inr c \<Rightarrow> Inr (map (\<lambda>k. (k, sort (kids (tc_children c) k))) (sort (map fst (tc_children c)))))"

section \<open>Forgetting\<close>

record forget_outcome =
  fo_root :: string
  fo_deleted :: "string list"
  fo_batch_id :: string

definition forget_scope :: "string \<Rightarrow> string" where
  "forget_scope cid = ''memory:forget:'' @ cid"

text \<open>One turn of the deletion loop, with the parents read before the loop.\<close>

definition delete_linked :: "string \<times> string list \<Rightarrow> typed_container \<Rightarrow> typed_container" where
  "delete_linked = (\<lambda>(d, parents) c.
     let c1 = remove_node d c in c1\<lparr>tc_children := unlink_all d parents (tc_children c1)\<rparr>)"

definition delete_closure :: "string list \<Rightarrow> typed_container \<Rightarrow> typed_container" where
  "delete_closure closure c = fold delete_linked (map (\<lambda>d. (d, parents_of c d)) closure) c"

definition record_irreversible ::
  "vault \<Rightarrow> u64 \<Rightarrow> grant_handle \<Rightarrow> string \<Rightarrow> 'a memory_world_scheme \<Rightarrow> 'a memory_world_scheme"
where
  "record_irreversible V now grant detail w =
     w\<lparr>w_ledger := record_action (va_crypto V) now ''irreversible.memory_forget'' (gh_issuer grant) (gh_scope grant)
                     detail (w_ledger w)\<rparr>"

text \<open>The deletion under the lock, then the consumption of the grant and the journal.\<close>

definition forget_cascade_apply ::
  "vault \<Rightarrow> mem_call \<Rightarrow> string \<Rightarrow> string \<Rightarrow> grant_handle \<Rightarrow> string \<Rightarrow> typed_container \<Rightarrow> string list
     \<Rightarrow> 'a memory_world_scheme \<Rightarrow> (memory_error, forget_outcome) result \<times> 'a memory_world_scheme"
where
  "forget_cascade_apply V K cid key grant batch c closure w =
     (let n = show_dec (length closure);
          w1 = put_container cid (delete_closure closure c) w;
          digest = sha256_hex (va_crypto V) (join_with [CHR 0x01] closure)
      in case grant_use (va_crypto V) (\<lambda>i. mc_clk K (10 + i)) grant
                (''memory_forget_cascade: container='' @ cid @ '' root='' @ key @ '' deleted='' @ n @ '' batch='' @ batch) w1 of
           (Inl e, w2) \<Rightarrow> (Inl (MemGrant e), w2)
         | (Inr _, w2) \<Rightarrow>
             (Inr \<lparr>fo_root = key, fo_deleted = closure, fo_batch_id = batch\<rparr>,
              ledger_memory_event V (mc_clk K 2) ''forget_cascade'' cid
                (''root='' @ key @ ''|deleted='' @ n @ ''|batch='' @ batch @ ''|grant='' @ gh_grant_id grant)
                (record_irreversible V (mc_clk K 1) grant
                   (gh_grant_id grant @ ''|container='' @ cid @ ''|root='' @ key @ ''|deleted='' @ n
                    @ ''|digest='' @ digest @ ''|batch='' @ batch) w2)))"

definition forget_cascade ::
  "vault \<Rightarrow> mem_call \<Rightarrow> string \<Rightarrow> string \<Rightarrow> grant_handle \<Rightarrow> 'a memory_world_scheme
     \<Rightarrow> (memory_error, forget_outcome) result \<times> 'a memory_world_scheme"
where
  "forget_cascade V K cid key grant w0 =
     (case check_active (\<lambda>_. mc_clk K 0) grant w0 of
        Inl e \<Rightarrow> (Inl (MemGrant e), w0)
      | Inr _ \<Rightarrow>
          if \<not> scope_attenuates (gh_scope grant) (forget_scope cid) then
            (Inl (MemGrantScope (gh_grant_id grant) (gh_scope grant) (forget_scope cid)), w0)
          else
            let batch = fresh_batch_id V (mc_millis K) w0;
                w = bump_mem_seq w0
            in case get_container ''memory_forget_cascade'' cid w of
                 Inl e \<Rightarrow> (Inl e, w)
               | Inr c \<Rightarrow>
                   (case get_entry ''memory_forget_cascade'' c key of
                      Inl e \<Rightarrow> (Inl e, w)
                    | Inr _ \<Rightarrow>
                        let plan = plan_cascade key (tc_children c) (tc_retained c)
                        in if cp_blocked_by plan \<noteq> [] then
                             (Inl (MEMORY_RETAIN_PROTECTED key (cp_blocked_by plan)), w)
                           else forget_cascade_apply V K cid key grant batch c (cp_closure plan) w))"

subsection \<open>The front door\<close>

record forget_front_outcome =
  ff_container :: string
  ff_root :: string
  ff_deleted :: "string list"
  ff_poisoned :: "string list"
  ff_batch_id :: string
  ff_dry_run :: bool

definition ledger_forget_denied ::
  "vault \<Rightarrow> u64 \<Rightarrow> string \<Rightarrow> string \<Rightarrow> 'a memory_world_scheme \<Rightarrow> 'a memory_world_scheme"
where
  "ledger_forget_denied V now cid reason w =
     w\<lparr>w_ledger := record_action (va_crypto V) now ''memory.forget.denied'' cid ''memory''
                     (''container='' @ cid @ ''|reason='' @ reason) (w_ledger w)\<rparr>"

definition ledger_forget ::
  "vault \<Rightarrow> u64 \<Rightarrow> string \<Rightarrow> string list \<Rightarrow> string list \<Rightarrow> string list \<Rightarrow> bool \<Rightarrow> string
     \<Rightarrow> 'a memory_world_scheme \<Rightarrow> 'a memory_world_scheme"
where
  "ledger_forget V now cid deleted digests poisoned dry_run extra w =
     w\<lparr>w_ledger := record_action (va_crypto V) now ''memory.forget'' cid ''memory''
         (''container='' @ cid @ ''|deleted='' @ join_with '','' deleted @ ''|hashes='' @ join_with '','' digests
          @ ''|poisoned='' @ join_with '','' poisoned @ ''|dry_run='' @ (if dry_run then ''true'' else ''false'')
          @ ''|'' @ extra) (w_ledger w)\<rparr>"

definition poison_entry :: "string \<Rightarrow> typed_container \<Rightarrow> typed_container" where
  "poison_entry k c =
     (case map_of (tc_entries c) k of None \<Rightarrow> c | Some e \<Rightarrow> set_entry k (e\<lparr>te_poisoned := True\<rparr>) c)"

definition forget_front_apply ::
  "vault \<Rightarrow> mem_call \<Rightarrow> string \<Rightarrow> string \<Rightarrow> grant_handle \<Rightarrow> string \<Rightarrow> typed_container \<Rightarrow> typed_entry \<Rightarrow> string list
     \<Rightarrow> 'a memory_world_scheme \<Rightarrow> (memory_error, forget_front_outcome) result \<times> 'a memory_world_scheme"
where
  "forget_front_apply V K cid key grant batch c entry derived w =
     (let root_digest = entry_digest V entry;
          c1 = drop_node key c;
          poisoned = filter (\<lambda>k. map_of (tc_entries c1) k \<noteq> None) derived;
          n = show_dec (length poisoned);
          w1 = put_container cid (fold poison_entry derived c1) w
      in case grant_use (va_crypto V) (\<lambda>i. mc_clk K (10 + i)) grant
                (''forget: container='' @ cid @ '' root='' @ key @ '' poisoned='' @ n @ '' batch='' @ batch) w1 of
           (Inl e, w2) \<Rightarrow> (Inl (MemGrant e), w2)
         | (Inr _, w2) \<Rightarrow>
             (Inr \<lparr>ff_container = cid, ff_root = key, ff_deleted = [key], ff_poisoned = poisoned,
                   ff_batch_id = batch, ff_dry_run = False\<rparr>,
              ledger_forget V (mc_clk K 6) cid [key] [root_digest] poisoned False
                (''root='' @ key @ ''|batch='' @ batch)
                (record_irreversible V (mc_clk K 5) grant
                   (gh_grant_id grant @ ''|container='' @ cid @ ''|root='' @ key @ ''|deleted=1|root_digest='' @ root_digest
                    @ ''|poisoned='' @ n @ ''|batch='' @ batch) w2)))"

text \<open>Plan and apply under one lock, after the gates.\<close>

definition forget_front_locked ::
  "vault \<Rightarrow> mem_call \<Rightarrow> string \<Rightarrow> string \<Rightarrow> grant_handle \<Rightarrow> bool \<Rightarrow> string
     \<Rightarrow> 'a memory_world_scheme \<Rightarrow> (memory_error, forget_front_outcome) result \<times> 'a memory_world_scheme"
where
  "forget_front_locked V K cid key grant dry_run batch w0 =
     (let w = snd (sweep_expired_locked V (mc_order K) (mc_clk K 2) (mc_clk K 3) cid w0)
      in case get_container ''forget'' cid w of
           Inl e \<Rightarrow> (Inl e, w)
         | Inr c \<Rightarrow>
             (case get_entry ''forget'' c key of
                Inl e \<Rightarrow> (Inl e, w)
              | Inr entry \<Rightarrow>
                  let plan = plan_cascade key (tc_children c) (tc_retained c);
                      derived = filter (\<lambda>k. k \<noteq> key) (cp_closure plan)
                  in if cp_blocked_by plan \<noteq> [] then
                       (Inl (MEMORY_RETAIN_PROTECTED key (cp_blocked_by plan)),
                        ledger_forget_denied V (mc_clk K 4) cid ''MEMORY_RETAIN_PROTECTED'' w)
                     else if dry_run then
                       (Inr \<lparr>ff_container = cid, ff_root = key, ff_deleted = [], ff_poisoned = derived,
                             ff_batch_id = batch, ff_dry_run = True\<rparr>,
                        ledger_forget V (mc_clk K 4) cid (cp_closure plan) (digests_of V c (cp_closure plan)) derived True
                          (''root='' @ key @ ''|batch='' @ batch) w)
                     else forget_front_apply V K cid key grant batch c entry derived w))"

definition forget_front ::
  "vault \<Rightarrow> mem_call \<Rightarrow> string \<Rightarrow> string \<Rightarrow> grant_handle \<Rightarrow> bool \<Rightarrow> 'a memory_world_scheme
     \<Rightarrow> (memory_error, forget_front_outcome) result \<times> 'a memory_world_scheme"
where
  "forget_front V K cid key grant dry_run w0 =
     (let batch = fresh_front_batch_id V (mc_millis K) w0;
          w = bump_mem_seq w0
      in case get_container ''forget'' cid w of
           Inl e \<Rightarrow> (Inl e, w)
         | Inr c \<Rightarrow>
             (case get_entry ''forget'' c key of
                Inl e \<Rightarrow> (Inl e, w)
              | Inr _ \<Rightarrow>
                  if tc_label c = MemPrivate
                     \<and> \<not> active_grant_for (mc_clk K 0) (memory_scope (tc_subject c)) (mw_consent w) then
                    (Inl (MEMORY_FORGET_CONSENT_REQUIRED cid (tc_subject c)),
                     ledger_forget_denied V (mc_clk K 4) cid ''MEMORY_FORGET_CONSENT_REQUIRED'' w)
                  else
                    case check_active (\<lambda>_. mc_clk K 1) grant w of
                      Inl e \<Rightarrow> (Inl (MemGrant e), ledger_forget_denied V (mc_clk K 4) cid ''GRANT_INACTIVE'' w)
                    | Inr _ \<Rightarrow>
                        if \<not> scope_attenuates (gh_scope grant) (forget_scope cid) then
                          (Inl (MemGrantScope (gh_grant_id grant) (gh_scope grant) (forget_scope cid)),
                           ledger_forget_denied V (mc_clk K 4) cid ''GRANT_SCOPE_MISMATCH'' w)
                        else forget_front_locked V K cid key grant dry_run batch w))"

subsection \<open>Withdrawal of consent\<close>

definition quarantine_entry :: "u64 \<Rightarrow> string \<Rightarrow> typed_container \<Rightarrow> typed_container" where
  "quarantine_entry now k c =
     (case map_of (tc_entries c) k of
        None \<Rightarrow> c
      | Some e \<Rightarrow>
          if te_poisoned e then c
          else set_entry k (e\<lparr>te_poisoned := True, te_last_access_unix := now\<rparr>) c)"

definition quarantine_container ::
  "vault \<Rightarrow> mem_call \<Rightarrow> nat \<times> string \<Rightarrow> 'a memory_world_scheme \<Rightarrow> 'a memory_world_scheme"
where
  "quarantine_container V K = (\<lambda>(i, cid) w0.
     let w = snd (sweep_expired_locked V (mc_order K) (mc_clk K (3 * i + 1)) (mc_clk K (3 * i + 2)) cid w0)
     in case get_container [] cid w of
          Inl _ \<Rightarrow> w
        | Inr c \<Rightarrow>
            (let ks = iter_order (mc_order K) (map fst (tc_entries c));
                 poisoned = filter (\<lambda>k. case map_of (tc_entries c) k of None \<Rightarrow> False | Some e \<Rightarrow> \<not> te_poisoned e) ks;
                 w1 = put_container cid (fold (quarantine_entry (mc_clk K 0)) ks c) w
             in if poisoned = [] then w1
                else ledger_forget V (mc_clk K (3 * i + 3)) cid [] [] poisoned False ''reason=consent-revoked'' w1))"

definition consent_revoked_cascade ::
  "vault \<Rightarrow> mem_call \<Rightarrow> string \<Rightarrow> 'a memory_world_scheme \<Rightarrow> 'a memory_world_scheme"
where
  "consent_revoked_cascade V K subject w =
     (case mw_registry w of
        None \<Rightarrow> w
      | Some reg \<Rightarrow>
          let cids = sort (map tc_id (filter (\<lambda>c. tc_label c = MemPrivate \<and> tc_subject c = subject)
                                       (registry_values (mc_order K) reg)))
          in fold (quarantine_container V K) (enumerate 0 cids) w)"

end
