(* ===== verification/Memory_Cascade.thy ===== *)
theory Memory_Cascade
  imports Memory_Typed
begin

text \<open>
  The pure side of typed memory: the cascade plan computes exactly the descendants in the children
  index, each once; and what the operations on one container do to its entries, its index and its
  pins, with the well-formedness they keep.
\<close>

section \<open>The plan\<close>

definition edge :: "children_index \<Rightarrow> (string \<times> string) set" where
  "edge ch = {(p, k). k \<in> set (kids ch p)}"

text \<open>What a node and everything derived from it are, by reachability in the index.\<close>

definition descendants :: "children_index \<Rightarrow> string \<Rightarrow> string set" where
  "descendants ch rt = (edge ch)\<^sup>* `` {rt}"

lemma descendants_refl [simp]: "rt \<in> descendants ch rt"
  by (simp add: descendants_def)

lemma descendants_step: "p \<in> descendants ch rt \<Longrightarrow> k \<in> set (kids ch p) \<Longrightarrow> k \<in> descendants ch rt"
  unfolding descendants_def edge_def by (auto intro: rtrancl_into_rtrancl)

lemma descendants_least:
  assumes "rt \<in> S" "\<And>p k. p \<in> S \<Longrightarrow> k \<in> set (kids ch p) \<Longrightarrow> k \<in> S"
  shows "descendants ch rt \<subseteq> S"
proof
  fix x assume "x \<in> descendants ch rt"
  then have "(rt, x) \<in> (edge ch)\<^sup>*" by (simp add: descendants_def)
  then show "x \<in> S" by (induction) (use assms in \<open>auto simp: edge_def\<close>)
qed

lemma cascade_walk_spec:
  assumes "cascade_walk ch queue seen closure n e = (closure', n', e')"
    and "distinct (closure @ queue)" "seen = set closure \<union> set queue"
    and "\<forall>p \<in> set closure. set (kids ch p) \<subseteq> seen" "seen \<subseteq> descendants ch rt"
    and "n = length closure" "e = (\<Sum>p\<leftarrow>closure. length (kids ch p))"
  shows "distinct closure' \<and> seen \<subseteq> set closure' \<and> (\<forall>p \<in> set closure'. set (kids ch p) \<subseteq> set closure')
    \<and> set closure' \<subseteq> descendants ch rt \<and> n' = length closure' \<and> e' = (\<Sum>p\<leftarrow>closure'. length (kids ch p))"
  using assms
proof (induction ch queue seen closure n e rule: cascade_walk.induct)
  case (2 ch node queue seen closure n e)
  obtain queue' seen' where f: "fold push_kid (kids ch node) (queue, seen) = (queue', seen')" by fastforce
  obtain fresh where q: "queue' = queue @ fresh" "seen' = seen \<union> set fresh" "distinct fresh"
    "set fresh \<inter> seen = {}" "set (kids ch node) \<subseteq> seen'" "set fresh \<subseteq> set (kids ch node)"
    using push_kids_spec [OF f] by blast
  have node: "node \<in> descendants ch rt" using "2.prems"(3,5) by auto
  have "set fresh \<subseteq> descendants ch rt" using q(6) descendants_step [OF node] by blast
  then have sub: "seen' \<subseteq> descendants ch rt" using q(2) "2.prems"(5) by simp
  have "distinct ((closure @ [node]) @ queue')" using "2.prems"(2,3) q by auto
  moreover have "seen' = set (closure @ [node]) \<union> set queue'" using "2.prems"(3) q(1,2) by auto
  moreover have "\<forall>p \<in> set (closure @ [node]). set (kids ch p) \<subseteq> seen'" using "2.prems"(4) q(2,5) by auto
  ultimately have "distinct closure' \<and> seen' \<subseteq> set closure' \<and> (\<forall>p \<in> set closure'. set (kids ch p) \<subseteq> set closure')
    \<and> set closure' \<subseteq> descendants ch rt \<and> n' = length closure' \<and> e' = (\<Sum>p\<leftarrow>closure'. length (kids ch p))"
    using "2.prems"(1,6,7) sub by (intro "2.IH" [OF f [symmetric]]) (simp_all add: cascade_walk.simps f)
  then show ?case using q(2) by blast
qed (auto simp: cascade_walk.simps)

lemma cascade_walk_root:
  assumes "cascade_walk ch [rt] {rt} [] 0 0 = (closure, n, e)"
  shows "distinct closure" "set closure = descendants ch rt" "n = length closure"
    "e = (\<Sum>p\<leftarrow>closure. length (kids ch p))"
proof -
  have s: "distinct closure \<and> {rt} \<subseteq> set closure \<and> (\<forall>p \<in> set closure. set (kids ch p) \<subseteq> set closure)
    \<and> set closure \<subseteq> descendants ch rt \<and> n = length closure \<and> e = (\<Sum>p\<leftarrow>closure. length (kids ch p))"
    using assms by (rule cascade_walk_spec) simp_all
  have "descendants ch rt \<subseteq> set closure" by (rule descendants_least) (use s in auto)
  with s show "set closure = descendants ch rt" by blast
  from s show "distinct closure" "n = length closure" "e = (\<Sum>p\<leftarrow>closure. length (kids ch p))" by simp_all
qed

lemma plan_closure:
  "set (cp_closure (plan_cascade rt ch retained)) = descendants ch rt"
  "distinct (cp_closure (plan_cascade rt ch retained))"
  "sorted (cp_closure (plan_cascade rt ch retained))"
  by (auto simp: plan_cascade_def cascade_walk_root Let_def split: prod.splits dest: cascade_walk_root(2))

lemma plan_blocked: "cp_blocked_by (plan_cascade rt ch retained) = filter (\<lambda>k. k \<in> retained) (cp_closure (plan_cascade rt ch retained))"
  by (auto simp: plan_cascade_def Let_def split: prod.splits)

lemma plan_blocked_Nil: "cp_blocked_by (plan_cascade rt ch retained) = [] \<longleftrightarrow> descendants ch rt \<inter> retained = {}"
  unfolding plan_blocked plan_closure(1) [of rt ch retained, symmetric] by (auto simp: filter_empty_conv)

lemma plan_counts:
  "cp_visited_nodes (plan_cascade rt ch retained) = card (descendants ch rt)"
  "cp_visited_edges (plan_cascade rt ch retained) = (\<Sum>p \<in> descendants ch rt. length (kids ch p))"
proof -
  obtain closure n e where wk: "cascade_walk ch [rt] {rt} [] 0 0 = (closure, n, e)" by (metis prod_cases3)
  note r = cascade_walk_root [OF wk]
  show "cp_visited_nodes (plan_cascade rt ch retained) = card (descendants ch rt)"
    using r(1,3) by (simp add: plan_cascade_def wk Let_def r(2) [symmetric] distinct_card)
  show "cp_visited_edges (plan_cascade rt ch retained) = (\<Sum>p \<in> descendants ch rt. length (kids ch p))"
    using r(1,4) by (simp add: plan_cascade_def wk Let_def r(2) [symmetric] sum_list_distinct_conv_sum_set)
qed

text \<open>
  C28. The cascade plan ends on every index, cyclic ones included, and computes exactly what is
  reachable from the root: the closure is sorted, without duplicates, and its members are the
  descendants; the blocking keys are its pinned members; and the two counters show that every
  descendant was visited once and every edge leaving one was scanned once.
\<close>

theorem plan_cascade_exact:
  "sorted (cp_closure (plan_cascade rt ch retained)) \<and> distinct (cp_closure (plan_cascade rt ch retained))
   \<and> set (cp_closure (plan_cascade rt ch retained)) = descendants ch rt
   \<and> cp_blocked_by (plan_cascade rt ch retained) = filter (\<lambda>k. k \<in> retained) (cp_closure (plan_cascade rt ch retained))
   \<and> cp_visited_nodes (plan_cascade rt ch retained) = card (descendants ch rt)
   \<and> cp_visited_edges (plan_cascade rt ch retained) = (\<Sum>p \<in> descendants ch rt. length (kids ch p))"
  using plan_closure [of rt ch retained] plan_blocked plan_counts by blast

section \<open>Entries and index\<close>

lemma map_of_update [simp]: "map_of (AList.update k v al) = (map_of al)(k \<mapsto> v)"
  by (rule update_conv')

lemma map_of_delete [simp]: "map_of (AList.delete k al) = (map_of al)(k := None)"
  by (rule delete_conv')

lemma kids_delete: "kids (AList.delete k ch) p = (if p = k then [] else kids ch p)"
  by (simp add: kids_def)

lemma kids_unlink_child: "kids (unlink_child k p ch) q = (if q = p then filter (\<lambda>x. x \<noteq> k) (kids ch q) else kids ch q)"
  by (auto simp: kids_def unlink_child_def split: option.splits)

lemma dom_unlink_child: "dom (map_of (unlink_child k p ch)) = dom (map_of ch)"
  by (auto simp: unlink_child_def split: option.splits)

lemma kids_unlink_all:
  "kids (unlink_all k ps ch) q = (if q \<in> set ps then filter (\<lambda>x. x \<noteq> k) (kids ch q) else kids ch q)"
  unfolding unlink_all_def by (induction ps arbitrary: ch) (auto simp: kids_unlink_child filter_id_conv)

lemma dom_unlink_all: "dom (map_of (unlink_all k ps ch)) = dom (map_of ch)"
  unfolding unlink_all_def by (induction ps arbitrary: ch) (simp_all add: dom_unlink_child)

lemma kids_link_child: "set (kids (link_child k p ch) q) = set (kids ch q) \<union> (if q = p then {k} else {})"
  by (auto simp: link_child_def kids_def split: option.splits)

lemma kids_link_all: "set (kids (link_all k ps ch) q) = set (kids ch q) \<union> (if q \<in> set ps then {k} else {})"
  unfolding link_all_def by (induction ps arbitrary: ch) (auto simp: kids_link_child)

lemma dom_link_all: "dom (map_of (link_all k ps ch)) = dom (map_of ch) \<union> set ps"
  unfolding link_all_def by (induction ps arbitrary: ch) (auto simp: link_child_def)

lemma distinct_unlink_all: "distinct (map fst ch) \<Longrightarrow> distinct (map fst (unlink_all k ps ch))"
  unfolding unlink_all_def
  by (induction ps arbitrary: ch) (auto simp: unlink_child_def distinct_update split: option.splits)

lemma distinct_link_all: "distinct (map fst ch) \<Longrightarrow> distinct (map fst (link_all k ps ch))"
  unfolding link_all_def by (induction ps arbitrary: ch) (auto simp: link_child_def distinct_update)

lemma iter_order_set [simp]: "set (iter_order hint ks) = set ks"
  by (auto simp: iter_order_def)

lemma iter_order_distinct: "distinct ks \<Longrightarrow> distinct (iter_order hint ks)"
  by (auto simp: iter_order_def)

section \<open>Well-formed containers\<close>

definition cell :: "typed_container \<Rightarrow> string \<Rightarrow> typed_entry option" where
  "cell c = map_of (tc_entries c)"

text \<open>The entries as a map, the index naming only live keys and only recorded derivations, pins on
  live keys only, and the form at rest that the label asks for.\<close>

definition maps_ok :: "typed_container \<Rightarrow> bool" where
  "maps_ok c \<longleftrightarrow> distinct (map fst (tc_entries c)) \<and> distinct (map fst (tc_children c))"

definition index_sound :: "typed_container \<Rightarrow> bool" where
  "index_sound c \<longleftrightarrow> dom (map_of (tc_children c)) \<subseteq> dom (cell c)
     \<and> (\<forall>p k. k \<in> set (kids (tc_children c) p) \<longrightarrow> (\<exists>e. cell c k = Some e \<and> p \<in> set (te_derived_from e)))"

definition pins_live :: "typed_container \<Rightarrow> bool" where
  "pins_live c \<longleftrightarrow> tc_retained c \<subseteq> dom (cell c)"

fun form_ok :: "mem_label \<Rightarrow> stored \<Rightarrow> bool" where
  "form_ok label (Plain _) \<longleftrightarrow> label = MemPublic"
| "form_ok label (Enc _) \<longleftrightarrow> label = MemPrivate"

definition sealed :: "typed_container \<Rightarrow> bool" where
  "sealed c \<longleftrightarrow> (\<forall>k e. cell c k = Some e \<longrightarrow> form_ok (tc_label c) (te_stored e))"

definition container_ok :: "typed_container \<Rightarrow> bool" where
  "container_ok c \<longleftrightarrow> maps_ok c \<and> index_sound c \<and> pins_live c \<and> sealed c"

lemmas container_ok_defs = container_ok_def maps_ok_def index_sound_def pins_live_def sealed_def

lemma finite_entries [simp]: "finite (dom (cell c))"
  by (simp add: cell_def finite_dom_map_of)

lemma descendants_live:
  assumes "container_ok c" "k \<in> dom (cell c)"
  shows "descendants (tc_children c) k \<subseteq> dom (cell c)"
  by (rule descendants_least) (use assms in \<open>fastforce simp: container_ok_def index_sound_def\<close>)+

lemma container_okD:
  assumes "container_ok c"
  shows "distinct (map fst (tc_entries c))" "distinct (map fst (tc_children c))"
    "dom (map_of (tc_children c)) \<subseteq> dom (cell c)" "tc_retained c \<subseteq> dom (cell c)"
    "k \<in> set (kids (tc_children c) p) \<Longrightarrow> p \<in> set (parents_of c k) \<and> k \<in> dom (cell c)"
proof -
  show "distinct (map fst (tc_entries c))" "distinct (map fst (tc_children c))"
    "dom (map_of (tc_children c)) \<subseteq> dom (cell c)" "tc_retained c \<subseteq> dom (cell c)"
    using assms by (simp_all add: container_ok_defs)
  assume "k \<in> set (kids (tc_children c) p)"
  then obtain e where "cell c k = Some e" "p \<in> set (te_derived_from e)"
    using assms unfolding container_ok_def index_sound_def by blast
  then show "p \<in> set (parents_of c k) \<and> k \<in> dom (cell c)" by (auto simp: parents_of_def cell_def)
qed

subsection \<open>Removal of nodes\<close>

definition same_identity :: "typed_container \<Rightarrow> typed_container \<Rightarrow> bool" where
  "same_identity c c' \<longleftrightarrow> tc_id c' = tc_id c \<and> tc_subject c' = tc_subject c \<and> tc_label c' = tc_label c
     \<and> tc_created_unix c' = tc_created_unix c"

text \<open>\<open>c'\<close> is \<open>c\<close> without the nodes \<open>D\<close> and without every edge that touches one.\<close>

definition without :: "string set \<Rightarrow> typed_container \<Rightarrow> typed_container \<Rightarrow> bool" where
  "without D c c' \<longleftrightarrow> same_identity c c' \<and> maps_ok c' \<and> cell c' = cell c |` (- D)
     \<and> (\<forall>q. kids (tc_children c') q = (if q \<in> D then [] else filter (\<lambda>k. k \<notin> D) (kids (tc_children c) q)))
     \<and> dom (map_of (tc_children c')) = dom (map_of (tc_children c)) - D \<and> tc_retained c' = tc_retained c - D"

lemma without_ok: "container_ok c \<Longrightarrow> without D c c' \<Longrightarrow> container_ok c'"
  by (auto simp: container_ok_defs without_def same_identity_def restrict_map_def split: if_splits)

lemma without_empty: "container_ok c \<Longrightarrow> without {} c c"
  by (auto simp: without_def same_identity_def container_ok_def restrict_map_def)

lemma without_trans: "without D c c1 \<Longrightarrow> without E c1 c2 \<Longrightarrow> without (D \<union> E) c c2"
  by (auto simp: without_def same_identity_def restrict_map_def fun_eq_iff intro!: filter_cong)

text \<open>What is derived from a key along links that do not touch the keys of \<open>D\<close>.\<close>

definition derived_avoiding :: "string set \<Rightarrow> children_index \<Rightarrow> string \<Rightarrow> string set" where
  "derived_avoiding D ch rt = (edge ch \<inter> (- D) \<times> (- D))\<^sup>* `` {rt}"

lemma without_descendants: "without D c c' \<Longrightarrow> descendants (tc_children c') rt = derived_avoiding D (tc_children c) rt"
proof -
  assume "without D c c'"
  then have "edge (tc_children c') = edge (tc_children c) \<inter> (- D) \<times> (- D)"
    by (auto simp: without_def edge_def split: if_splits)
  then show ?thesis by (simp add: descendants_def derived_avoiding_def)
qed

lemma derived_avoiding_all:
  assumes "D \<inter> descendants ch rt = {}"
  shows "derived_avoiding D ch rt = descendants ch rt"
proof -
  have "k \<in> derived_avoiding D ch rt" if "(rt, k) \<in> (edge ch)\<^sup>*" for k
    using that
  proof (induction)
    case (step p k)
    then have "p \<in> descendants ch rt" "k \<in> descendants ch rt" by (auto simp: descendants_def)
    with assms step show ?case by (auto simp: derived_avoiding_def intro: rtrancl_into_rtrancl)
  qed (simp add: derived_avoiding_def)
  moreover have "(edge ch \<inter> (- D) \<times> (- D))\<^sup>* \<subseteq> (edge ch)\<^sup>*" by (rule rtrancl_mono) blast
  ultimately show ?thesis by (auto simp: derived_avoiding_def descendants_def)
qed

lemma without_parents: "without D c c' \<Longrightarrow> k \<notin> D \<Longrightarrow> parents_of c' k = parents_of c k"
  by (simp add: without_def parents_of_def cell_def restrict_map_def fun_eq_iff)

lemma unlinked_kids:
  assumes "container_ok c"
  shows "kids (unlink_all d (parents_of c d) (tc_children c)) q = filter (\<lambda>k. k \<noteq> d) (kids (tc_children c) q)"
proof (cases "q \<in> set (parents_of c d)")
  case False
  then have "d \<notin> set (kids (tc_children c) q)" using container_okD(5) [OF assms] by blast
  then have "filter (\<lambda>k. k \<noteq> d) (kids (tc_children c) q) = kids (tc_children c) q" by (auto simp: filter_id_conv)
  with False show ?thesis by (simp add: kids_unlink_all)
qed (simp add: kids_unlink_all)

lemma drop_node_without: "container_ok c \<Longrightarrow> without {d} c (drop_node d c)"
  using container_okD [of c]
  by (auto simp: without_def drop_node_def remove_node_def same_identity_def maps_ok_def cell_def restrict_map_def
      fun_eq_iff kids_delete unlinked_kids dom_unlink_all distinct_delete distinct_unlink_all)

lemma delete_linked_without:
  assumes "container_ok c"
  shows "without {d} c (delete_linked (d, parents_of c d) c)"
proof -
  have "kids (unlink_all d ps (AList.delete d ch)) q = kids (AList.delete d (unlink_all d ps ch)) q" for ps ch q
    by (simp add: kids_unlink_all kids_delete)
  then show ?thesis using assms container_okD [OF assms]
    by (auto simp: without_def delete_linked_def remove_node_def same_identity_def maps_ok_def cell_def restrict_map_def
      fun_eq_iff kids_delete unlinked_kids dom_unlink_all distinct_delete distinct_unlink_all)
qed

lemma fold_drop_without:
  assumes "container_ok c"
  shows "without (set ds) c (fold drop_node ds c)"
  using assms
proof (induction ds arbitrary: c)
  case (Cons d ds)
  have d: "without {d} c (drop_node d c)" using Cons.prems by (rule drop_node_without)
  have "without (set ds) (drop_node d c) (fold drop_node ds (drop_node d c))"
    using Cons.IH without_ok [OF Cons.prems d] by blast
  from without_trans [OF d this] show ?case by simp
qed (simp add: without_empty)

lemma fold_delete_without:
  assumes "container_ok c" "distinct ds" "\<And>d. d \<in> set ds \<Longrightarrow> parents_of c0 d = parents_of c d"
  shows "without (set ds) c (fold delete_linked (map (\<lambda>d. (d, parents_of c0 d)) ds) c)"
  using assms
proof (induction ds arbitrary: c)
  case (Cons d ds)
  let ?c = "delete_linked (d, parents_of c0 d) c"
  have d: "without {d} c ?c" using delete_linked_without [OF Cons.prems(1)] Cons.prems(3) by simp
  have "parents_of c0 x = parents_of ?c x" if "x \<in> set ds" for x
  proof -
    have "x \<noteq> d" using that Cons.prems(2) by auto
    then have "parents_of ?c x = parents_of c x" using without_parents [OF d] by simp
    with Cons.prems(3) that show ?thesis by simp
  qed
  then have "without (set ds) ?c (fold delete_linked (map (\<lambda>d. (d, parents_of c0 d)) ds) ?c)"
    using Cons.IH [OF without_ok [OF Cons.prems(1) d]] Cons.prems(2) by simp
  from without_trans [OF d this] show ?case by simp
qed (simp add: without_empty)

lemma delete_closure_without: "container_ok c \<Longrightarrow> distinct ds \<Longrightarrow> without (set ds) c (delete_closure ds c)"
  unfolding delete_closure_def by (rule fold_delete_without) simp_all

subsection \<open>Writing\<close>

lemma insert_entry_cell: "cell (insert_entry k e c) = (cell c)(k \<mapsto> e)"
  by (simp add: insert_entry_def cell_def)

lemma insert_entry_kids:
  assumes "container_ok c"
  shows "set (kids (tc_children (insert_entry k e c)) q) =
    (set (kids (tc_children c) q) - {k}) \<union> (if q \<in> set (te_derived_from e) then {k} else {})"
  using assms by (auto simp: insert_entry_def kids_link_all unlinked_kids)

lemma insert_entry_ok:
  assumes ok: "container_ok c" and parents: "set (te_derived_from e) \<subseteq> dom (cell c)"
    and form: "form_ok (tc_label c) (te_stored e)"
  shows "container_ok (insert_entry k e c)"
proof -
  let ?c = "insert_entry k e c"
  have "maps_ok ?c" using container_okD [OF ok]
    by (simp add: maps_ok_def insert_entry_def distinct_update distinct_link_all distinct_unlink_all)
  moreover have "index_sound ?c"
    unfolding index_sound_def
  proof (intro conjI allI impI)
    show "dom (map_of (tc_children ?c)) \<subseteq> dom (cell ?c)"
      using container_okD(3) [OF ok] parents by (auto simp: insert_entry_def dom_link_all dom_unlink_all cell_def)
    fix p x assume "x \<in> set (kids (tc_children ?c) p)"
    then consider "x \<in> set (kids (tc_children c) p)" "x \<noteq> k" | "x = k" "p \<in> set (te_derived_from e)"
      unfolding insert_entry_kids [OF ok] by (auto split: if_splits)
    then show "\<exists>e'. cell ?c x = Some e' \<and> p \<in> set (te_derived_from e')"
      by cases (use ok in \<open>auto simp: insert_entry_cell container_ok_def index_sound_def\<close>)
  qed
  moreover have "pins_live ?c" using ok
    by (auto simp: container_ok_def pins_live_def insert_entry_cell) (auto simp: insert_entry_def)
  moreover have "sealed ?c" using ok form
    by (auto simp: container_ok_def sealed_def insert_entry_cell) (auto simp: insert_entry_def)
  ultimately show ?thesis by (simp add: container_ok_def)
qed

text \<open>A change of attributes keeps the container well formed.\<close>

lemma set_entry_cell [simp]: "cell (set_entry k e c) = (cell c)(k \<mapsto> e)"
  by (simp add: set_entry_def cell_def)

lemma set_entry_rest [simp]:
  "tc_children (set_entry k e c) = tc_children c" "tc_retained (set_entry k e c) = tc_retained c"
  "tc_label (set_entry k e c) = tc_label c" "tc_id (set_entry k e c) = tc_id c"
  "tc_subject (set_entry k e c) = tc_subject c" "tc_created_unix (set_entry k e c) = tc_created_unix c"
  by (simp_all add: set_entry_def)

lemma set_entry_ok:
  assumes "container_ok c" "cell c k = Some e" "te_derived_from e' = te_derived_from e" "te_stored e' = te_stored e"
  shows "container_ok (set_entry k e' c)"
proof -
  have "distinct (map fst (tc_entries (set_entry k e' c)))"
    using container_okD(1) [OF assms(1)] by (simp add: set_entry_def distinct_update)
  moreover have "\<exists>e. cell (set_entry k e' c) x = Some e \<and> p \<in> set (te_derived_from e)"
    if "x \<in> set (kids (tc_children c) p)" for x p
    using assms that by (auto simp: container_ok_def index_sound_def split: if_splits) fastforce+
  moreover have "sealed (set_entry k e' c)"
    using assms by (auto simp: container_ok_def sealed_def)
  ultimately show ?thesis using assms(1)
    by (auto simp: container_ok_def maps_ok_def index_sound_def pins_live_def)
qed

lemma retained_ok: "container_ok c \<Longrightarrow> R \<subseteq> dom (cell c) \<Longrightarrow> container_ok (c\<lparr>tc_retained := R\<rparr>)"
  unfolding container_ok_defs by (simp add: cell_def del: map_of_eq_Some_iff)

lemma fold_keeps: "(\<And>x c. P c \<Longrightarrow> P (f x c)) \<Longrightarrow> P c \<Longrightarrow> P (fold f xs c)"
  by (induction xs arbitrary: c) auto

lemma poison_entry_ok: "container_ok c \<Longrightarrow> container_ok (poison_entry k c)"
  unfolding poison_entry_def by (auto split: option.splits intro: set_entry_ok simp: cell_def)

lemma quarantine_entry_ok: "container_ok c \<Longrightarrow> container_ok (quarantine_entry now k c)"
  unfolding quarantine_entry_def by (auto split: option.splits intro: set_entry_ok simp: cell_def)

end
