(* ===== verification/Memory_Invariant.thy ===== *)
theory Memory_Invariant
  imports Memory_Cascade Capability_Gate
begin

text \<open>
  Runs of typed memory together with the grants it consumes and the consent it asks for, and the
  invariant they keep: every container is well formed and is addressed by one subject and label.
\<close>

section \<open>Frames\<close>

definition container_of :: "'a memory_world_scheme \<Rightarrow> string \<Rightarrow> typed_container option" where
  "container_of w cid = (case mw_registry w of None \<Rightarrow> None | Some reg \<Rightarrow> map_of reg cid)"

lemma get_container_Inr: "get_container fn_name cid w = Inr c \<longleftrightarrow> container_of w cid = Some c"
  by (auto simp: get_container_def container_of_def split: option.splits)

lemma get_entry_Inr: "get_entry fn_name c k = Inr e \<longleftrightarrow> cell c k = Some e"
  by (auto simp: get_entry_def cell_def split: option.splits)

lemma registry_frame [simp]:
  "mw_registry (ledger_memory_event V now kind cid detail w) = mw_registry w"
  "mw_registry (ledger_forget_denied V now cid reason w) = mw_registry w"
  "mw_registry (ledger_forget V now cid ds hs ps dry extra w) = mw_registry w"
  "mw_registry (record_irreversible V now g detail w) = mw_registry w"
  "mw_registry (bump_mem_seq w) = mw_registry w"
  "mw_registry (record_event C t1 t2 k gid sc cl m nt w) = mw_registry w"
  "mw_registry (on_rows f w) = mw_registry w"
  by (simp_all add: ledger_memory_event_def ledger_forget_denied_def ledger_forget_def record_irreversible_def
      bump_mem_seq_def record_event_def on_rows_def)

lemma grants_frame [simp]:
  "w_grants (ledger_memory_event V now kind cid detail w) = w_grants w"
  "w_grants (ledger_forget_denied V now cid reason w) = w_grants w"
  "w_grants (ledger_forget V now cid ds hs ps dry extra w) = w_grants w"
  "w_grants (record_irreversible V now g detail w) = w_grants w"
  "w_grants (bump_mem_seq w) = w_grants w"
  "w_grants (put_container cid c w) = w_grants w"
  by (simp_all add: ledger_memory_event_def ledger_forget_denied_def ledger_forget_def record_irreversible_def
      bump_mem_seq_def put_container_def)

lemma registry_insert_row [simp]: "mw_registry (snd (Grants.insert_row r w)) = mw_registry w"
  by (simp add: Grants.insert_row_def split: option.splits)

lemma registry_subgrant_parent [simp]: "mw_registry (subgrant_parent C clk p prec d m w) = mw_registry w"
  by (simp add: subgrant_parent_def)

lemma registry_use [simp]: "mw_registry (snd (grant_use C clk h nt w)) = mw_registry w"
  by (cases rule: grant_use_cases [of C clk h nt w]) simp_all

lemma registry_issue [simp]: "mw_registry (snd (issue C clk nanos scope ttl class issuer w)) = mw_registry w"
  by (simp add: issue_def Grants.insert_row_def Let_def split: option.splits)

lemma registry_subgrant [simp]: "mw_registry (snd (subgrant C clk nanos parent scope ttl class w)) = mw_registry w"
  by (auto simp: subgrant_def Grants.insert_row_def with_grants_def Let_def split: option.splits sum.splits prod.splits)

lemma registry_revoke_loop: "mw_registry (snd (revoke_loop C clk n nt stack cnt w)) = mw_registry w"
proof (induction C clk n nt stack cnt w rule: revoke_loop.induct)
  case (1 C clk n nt stack cnt w)
  then show ?case
    by (subst revoke_loop.simps) (auto simp: Let_def split: prod.splits)
qed

lemma registry_revoke [simp]: "mw_registry (snd (revoke C clk h nt w)) = mw_registry w"
  using registry_revoke_loop [of C clk 0 nt "[gh_grant_id h]" 0 w]
  by (auto simp: revoke_def with_grants_def split: option.splits sum.splits prod.splits)

lemma registry_grants_step: "grants_step C w w' \<Longrightarrow> mw_registry w' = mw_registry w"
  by (auto elim: grants_step.cases)

section \<open>The invariant\<close>

definition registry_ok :: "(string \<times> typed_container) list \<Rightarrow> bool" where
  "registry_ok reg \<longleftrightarrow> distinct (map fst reg)
     \<and> (\<forall>cid c. map_of reg cid = Some c \<longrightarrow> tc_id c = cid \<and> container_ok c)
     \<and> (\<forall>c \<in> ran (map_of reg). \<forall>c' \<in> ran (map_of reg).
          tc_subject c = tc_subject c' \<and> tc_label c = tc_label c' \<longrightarrow> c = c')"

definition memory_ok :: "'a memory_world_scheme \<Rightarrow> bool" where
  "memory_ok w \<longleftrightarrow> (case mw_registry w of None \<Rightarrow> True | Some reg \<Rightarrow> registry_ok reg)"

lemma memory_ok_cong: "mw_registry v = mw_registry w \<Longrightarrow> memory_ok v = memory_ok w"
  by (simp add: memory_ok_def)

lemma memory_okD:
  assumes "memory_ok w" "container_of w cid = Some c"
  shows "tc_id c = cid" "container_ok c"
  using assms by (auto simp: memory_ok_def container_of_def registry_ok_def split: option.splits)

lemma container_of_put [simp]:
  "container_of (put_container cid c w) = (if mw_registry w = None then Map.empty else (container_of w)(cid \<mapsto> c))"
  by (auto simp: container_of_def put_container_def fun_eq_iff)

lemma container_of_cong: "mw_registry v = mw_registry w \<Longrightarrow> container_of v = container_of w"
  by (auto simp: container_of_def fun_eq_iff)

lemma container_of_frame [simp]:
  "container_of (ledger_memory_event V now kind cid detail w) = container_of w"
  "container_of (ledger_forget_denied V now cid reason w) = container_of w"
  "container_of (ledger_forget V now cid ds hs ps dry extra w) = container_of w"
  "container_of (record_irreversible V now g detail w) = container_of w"
  "container_of (bump_mem_seq w) = container_of w"
  "container_of (snd (grant_use C clk h nt w)) = container_of w"
  by (rule container_of_cong, simp)+

lemma memory_ok_frame [simp]:
  "memory_ok (ledger_memory_event V now kind cid detail w) = memory_ok w"
  "memory_ok (ledger_forget_denied V now cid reason w) = memory_ok w"
  "memory_ok (ledger_forget V now cid ds hs ps dry extra w) = memory_ok w"
  "memory_ok (record_irreversible V now g detail w) = memory_ok w"
  "memory_ok (bump_mem_seq w) = memory_ok w"
  "memory_ok (snd (grant_use C clk h nt w)) = memory_ok w"
  "memory_ok (w\<lparr>mw_consent := conn\<rparr>) = memory_ok w"
  by (rule memory_ok_cong, simp)+

lemma ran_update: "m cid = Some c \<Longrightarrow> x \<in> ran (m(cid \<mapsto> c')) \<longleftrightarrow> x = c' \<or> (\<exists>k. k \<noteq> cid \<and> m k = Some x)"
  by (auto simp: ran_def)

lemma put_container_ok:
  assumes ok: "memory_ok w" and c: "container_of w cid = Some c"
    and same: "same_identity c c'" and ok': "container_ok c'"
  shows "memory_ok (put_container cid c' w)"
proof -
  obtain reg where reg: "mw_registry w = Some reg" "map_of reg cid = Some c" "registry_ok reg"
    using ok c by (auto simp: container_of_def memory_ok_def split: option.splits)
  have "registry_ok (AList.update cid c' reg)"
    unfolding registry_ok_def
  proof (intro conjI allI impI ballI)
    show "distinct (map fst (AList.update cid c' reg))" using reg(3) by (simp add: registry_ok_def distinct_update)
    show "tc_id y = x" "container_ok y" if "map_of (AList.update cid c' reg) x = Some y" for x y
      using that reg(2,3) same ok' by (auto simp: registry_ok_def same_identity_def split: if_splits)
    have uniq: "d = e" if "d \<in> ran (map_of reg)" "e \<in> ran (map_of reg)" "tc_subject d = tc_subject e" "tc_label d = tc_label e" for d e
      using that reg(3) unfolding registry_ok_def by blast
    have keys: "x = cid" if "map_of reg x = Some c" for x using that reg(2,3) unfolding registry_ok_def by metis
    fix d e assume d: "d \<in> ran (map_of (AList.update cid c' reg))" and e: "e \<in> ran (map_of (AList.update cid c' reg))"
      and eq: "tc_subject d = tc_subject e \<and> tc_label d = tc_label e"
    have ran: "y = c' \<or> (y \<in> ran (map_of reg) \<and> y \<noteq> c)" if "y \<in> ran (map_of (AList.update cid c' reg))" for y
      using that keys unfolding map_of_update ran_update [of "map_of reg", OF reg(2)] by (auto simp: ran_def)
    have c_ran: "c \<in> ran (map_of reg)" using reg(2) by (rule ranI)
    have other: False if "y \<in> ran (map_of reg)" "y \<noteq> c" "tc_subject c' = tc_subject y" "tc_label c' = tc_label y" for y
      using uniq [OF c_ran that(1)] that(2-4) same unfolding same_identity_def by simp
    from ran [OF d] ran [OF e] show "d = e"
    proof (elim disjE conjE)
      assume "d = c'" "e \<in> ran (map_of reg)" "e \<noteq> c"
      then show ?thesis using other [of e] eq by simp
    next
      assume "e = c'" "d \<in> ran (map_of reg)" "d \<noteq> c"
      then show ?thesis using other [of d] eq by simp
    next
      assume "d \<in> ran (map_of reg)" "e \<in> ran (map_of reg)"
      then show ?thesis using uniq eq by simp
    qed simp
  qed
  then show ?thesis using reg(1) by (simp add: memory_ok_def put_container_def)
qed

lemma put_keeps:
  assumes "memory_ok w" "container_of w cid = Some c" "same_identity c c'" "container_ok c \<Longrightarrow> container_ok c'"
  shows "memory_ok (put_container cid c' w)"
  using put_container_ok [OF assms(1-3)] assms(4) memory_okD(2) [OF assms(1,2)] by blast

lemma new_container_ok:
  assumes ok: "memory_ok w" and c: "container_ok c"
    and fresh: "\<And>cid d. container_of w cid = Some d \<Longrightarrow> \<not> (tc_subject d = tc_subject c \<and> tc_label d = tc_label c)"
  shows "memory_ok (put_container (tc_id c) c w)"
proof (cases "mw_registry w")
  case (Some reg)
  have ran: "y = c \<or> y \<in> ran (map_of reg)" if "y \<in> ran (map_of (AList.update (tc_id c) c reg))" for y
    using that unfolding map_of_update by (auto simp: ran_def split: if_splits)
  have new: False if "y \<in> ran (map_of reg)" "tc_subject y = tc_subject c" "tc_label y = tc_label c" for y
    using that fresh Some by (auto simp: ran_def container_of_def)
  have reg: "registry_ok reg" using ok Some by (simp add: memory_ok_def)
  have "registry_ok (AList.update (tc_id c) c reg)"
    unfolding registry_ok_def
  proof (intro conjI allI impI ballI)
    show "distinct (map fst (AList.update (tc_id c) c reg))" using reg by (simp add: registry_ok_def distinct_update)
    show "tc_id y = x" "container_ok y" if "map_of (AList.update (tc_id c) c reg) x = Some y" for x y
      using that reg c by (auto simp: registry_ok_def split: if_splits)
    fix d e assume "d \<in> ran (map_of (AList.update (tc_id c) c reg))" "e \<in> ran (map_of (AList.update (tc_id c) c reg))"
      and eq: "tc_subject d = tc_subject e \<and> tc_label d = tc_label e"
    from ran [OF this(1)] ran [OF this(2)] show "d = e"
    proof (elim disjE)
      assume "d \<in> ran (map_of reg)" "e \<in> ran (map_of reg)"
      then show ?thesis using reg eq unfolding registry_ok_def by blast
    qed (use eq new in auto)
  qed
  with Some show ?thesis by (simp add: memory_ok_def put_container_def)
qed (use ok in \<open>simp add: memory_ok_def put_container_def\<close>)

section \<open>Every operation keeps it\<close>

lemma same_identity_simps [simp]:
  "same_identity c (insert_entry k e c)" "same_identity c (set_entry k e c)" "same_identity c (c\<lparr>tc_retained := R\<rparr>)"
  by (simp_all add: same_identity_def insert_entry_def)

lemma same_identity_trans: "same_identity a b \<Longrightarrow> same_identity b c \<Longrightarrow> same_identity a c"
  by (simp add: same_identity_def)

lemma same_identity_fold: "(\<And>x c. same_identity c (f x c)) \<Longrightarrow> same_identity c (fold f xs c)"
  by (rule fold_keeps [of "same_identity c"]) (auto intro: same_identity_trans simp: same_identity_def)

lemma poison_same: "same_identity c (poison_entry k c)" "same_identity c (quarantine_entry now k c)"
  by (simp_all add: poison_entry_def quarantine_entry_def same_identity_def split: option.splits)

definition expired_set :: "u64 \<Rightarrow> typed_container \<Rightarrow> string set" where
  "expired_set now c = {k. \<exists>e. cell c k = Some e \<and> is_expired now e}"

lemma set_expired_keys: "set (expired_keys hint now c) = expired_set now c"
  by (auto simp: expired_keys_def expired_set_def cell_def image_iff split: option.splits dest: map_of_SomeD)
    (force dest: map_of_SomeD)

lemma sweep_absent: "container_of w cid = None \<Longrightarrow> sweep_expired_locked V hint now ts cid w = (0, w)"
  by (auto simp: sweep_expired_locked_def container_of_def split: option.splits)

lemma sweep_effect:
  assumes "memory_ok w" "container_of w cid = Some c"
  shows "\<exists>c'. container_of (snd (sweep_expired_locked V hint now ts cid w)) = (container_of w)(cid \<mapsto> c')
    \<and> without (expired_set now c) c c'"
proof -
  obtain reg where reg: "mw_registry w = Some reg" "map_of reg cid = Some c"
    using assms(2) by (auto simp: container_of_def split: option.splits)
  have wo: "without (expired_set now c) c (fold drop_node (expired_keys hint now c) c)"
    using fold_drop_without [OF memory_okD(2) [OF assms]] by (metis set_expired_keys)
  show ?thesis
  proof (cases "expired_keys hint now c = []")
    case True
    then have "container_of (snd (sweep_expired_locked V hint now ts cid w)) = container_of w"
      using reg by (simp add: sweep_expired_locked_def)
    moreover have "container_of w = (container_of w)(cid \<mapsto> c)" using assms(2) by auto
    ultimately show ?thesis using wo True by auto
  next
    case False
    then show ?thesis using reg wo by (auto simp: sweep_expired_locked_def Let_def)
  qed
qed

lemma without_same: "without D c c' \<Longrightarrow> same_identity c c'"
  by (simp add: without_def)

lemma sweep_ok:
  assumes "memory_ok w"
  shows "memory_ok (snd (sweep_expired_locked V hint now ts cid w))"
proof (cases "container_of w cid")
  case None
  then show ?thesis using assms by (simp add: sweep_absent)
next
  case (Some c)
  then obtain reg where reg: "mw_registry w = Some reg" "map_of reg cid = Some c"
    by (auto simp: container_of_def split: option.splits)
  have wo: "without (set (expired_keys hint now c)) c (fold drop_node (expired_keys hint now c) c)"
    by (rule fold_drop_without [OF memory_okD(2) [OF assms Some]])
  have "memory_ok (put_container cid (fold drop_node (expired_keys hint now c) c) w)"
    using assms Some by (rule put_keeps) (use wo in \<open>auto intro: without_ok without_same\<close>)
  then show ?thesis using reg assms by (simp add: sweep_expired_locked_def Let_def)
qed

lemma sweep_grants [simp]: "w_grants (snd (sweep_expired_locked V hint now ts cid w)) = w_grants w"
  by (simp add: sweep_expired_locked_def Let_def split: option.splits)

lemma set_map_filter: "set (List.map_filter f xs) = {y. \<exists>x \<in> set xs. f x = Some y}"
  by (induction xs) (auto simp: map_filter_simps split: option.splits)

lemma set_registry_values: "set (registry_values hint reg) = ran (map_of reg)"
  unfolding registry_values_def set_map_filter iter_order_set ran_def set_map
  by (metis (no_types, lifting) domI dom_map_of_conv_image_fst)

lemma open_ok:
  assumes "memory_ok w"
  shows "memory_ok (snd (memory_open V K subject label w))"
proof (cases "mw_registry w")
  case (Some reg)
  let ?c = "\<lparr>tc_id = fresh_container_id V subject (mc_millis K) w, tc_subject = subject, tc_label = label,
    tc_created_unix = mc_clk K 1, tc_entries = [], tc_children = [], tc_retained = {}\<rparr>"
  have c: "container_ok ?c" by (simp add: container_ok_defs cell_def kids_def)
  have new: "memory_ok (put_container (tc_id ?c) ?c v)"
    if v: "mw_registry v = mw_registry w"
      and none: "find (\<lambda>c. tc_subject c = subject \<and> tc_label c = label) (registry_values (mc_order K) reg) = None" for v :: "'a memory_world_scheme"
  proof (rule new_container_ok [OF _ c])
    show "memory_ok v" using assms memory_ok_cong [OF v] by simp
    fix cid d assume "container_of v cid = Some d"
    then have "d \<in> set (registry_values (mc_order K) reg)"
      using v Some by (auto simp: set_registry_values container_of_def ran_def)
    then show "\<not> (tc_subject d = tc_subject ?c \<and> tc_label d = tc_label ?c)"
      using none by (auto simp: find_None_iff)
  qed
  show ?thesis
    using assms new [of "ledger_memory_event V (mc_clk K 2) ''open'' (tc_id ?c)
      (''subject='' @ subject @ ''|label='' @ MemLabel_as_str label) (bump_mem_seq w)"] Some
    by (auto simp: memory_open_def Let_def split: option.splits)
qed (use assms in \<open>simp add: memory_open_def\<close>)

lemma stored_form_ok: "stored_form V nonce c text = Inr st \<Longrightarrow> form_ok (tc_label c) st"
  by (auto simp: stored_form_def split: mem_label.splits sum.splits)

lemma parents_live: "find (\<lambda>p. map_of (tc_entries c) p = None) ps = None \<Longrightarrow> set ps \<subseteq> dom (cell c)"
  by (auto simp: find_None_iff cell_def)

text \<open>A put either leaves the state alone or replaces the entry, with live parents and the form at
  rest that the label asks for.\<close>

lemma memory_put_cases:
  obtains (refused) e where "memory_put V K cid key text ps opts w = (Inl e, w)"
  | (stored) c e detail where "container_of w cid = Some c" "trim key \<noteq> []" "set ps \<subseteq> dom (cell c)"
      "stored_form V (mc_nonce K) c text = Inr (te_stored e)" "te_derived_from e = ps" "\<not> te_poisoned e"
      "put_attributes (mc_clk K 0) opts = Inr (te_priority e, te_decay_rate e, te_ttl_unix e)"
      "memory_put V K cid key text ps opts w = (Inr (), ledger_memory_event V (mc_clk K 2) ''put'' (tc_id c) detail
         (put_container cid (insert_entry key e c) w))"
proof (cases "\<exists>e. memory_put V K cid key text ps opts w = (Inl e, w)")
  case False
  then obtain c where c: "get_container ''memory_put'' cid w = Inr c"
    by (cases "get_container ''memory_put'' cid w") (auto simp: memory_put_def)
  have key: "trim key \<noteq> []" using False c by (auto simp: memory_put_def)
  have ps: "find (\<lambda>p. map_of (tc_entries c) p = None) ps = None"
    using False c key by (auto simp: memory_put_def split: option.splits)
  obtain pr d t where at: "put_attributes (mc_clk K 0) opts = Inr (pr, d, t)"
    using False c key ps by (cases "put_attributes (mc_clk K 0) opts") (auto simp: memory_put_def)
  obtain st where st: "stored_form V (mc_nonce K) c text = Inr st"
    using False c key ps at by (cases "stored_form V (mc_nonce K) c text") (auto simp: memory_put_def)
  let ?e = "(TypedEntry_new st ps (mc_clk K 1))\<lparr>te_priority := pr, te_decay_rate := d, te_ttl_unix := t\<rparr>"
  have run: "memory_put V K cid key text ps opts w = (Inr (), ledger_memory_event V (mc_clk K 2) ''put'' (tc_id c)
      (put_detail V key (tc_label c) (map_of (tc_entries c) key \<noteq> None) ?e) (put_container cid (insert_entry key ?e c) w))"
    using c key ps at st by (simp add: memory_put_def Let_def)
  show thesis
    by (rule stored [OF _ key parents_live [OF ps] _ _ _ _ run])
      (use c at st in \<open>simp_all add: get_container_Inr TypedEntry_new_def\<close>)
qed (use refused in blast)

lemma put_ok:
  assumes "memory_ok w"
  shows "memory_ok (snd (memory_put V K cid key text ps opts w))"
proof (cases rule: memory_put_cases [of V K cid key "text" ps opts w])
  case (stored c e detail)
  have "memory_ok (put_container cid (insert_entry key e c) w)"
    using assms stored(1) by (rule put_keeps) (use stored in \<open>auto intro: insert_entry_ok stored_form_ok\<close>)
  with stored show ?thesis by simp
qed (use assms in simp)

lemma read_ok:
  assumes "memory_ok w"
  shows "memory_ok (snd (memory_read V K cid key w))"
proof -
  let ?w = "snd (sweep_expired_locked V (mc_order K) (mc_clk K 0) (mc_clk K 1) cid w)"
  have ok: "memory_ok ?w" using assms by (rule sweep_ok)
  have "memory_ok (put_container cid (set_entry key (e\<lparr>te_last_access_unix := t\<rparr>) c) ?w)"
    if "container_of ?w cid = Some c" "cell c key = Some e" for c e t
    using ok that(1) by (rule put_keeps) (use that(2) in \<open>auto intro: set_entry_ok\<close>)
  then show ?thesis using assms ok
    by (auto simp: memory_read_def Let_def get_container_Inr get_entry_Inr split: sum.splits)
qed

lemma retain_ttl_ok:
  assumes "memory_ok w"
  shows "memory_ok (snd (retain_ttl V K cid key ttl w))"
proof -
  let ?w = "snd (sweep_expired_locked V (mc_order K) (mc_clk K 0) (mc_clk K 1) cid w)"
  have ok: "memory_ok ?w" using assms by (rule sweep_ok)
  have "memory_ok (put_container cid (set_entry key (e\<lparr>te_ttl_unix := t\<rparr>) c) ?w)"
    if "container_of ?w cid = Some c" "cell c key = Some e" for c e t
    using ok that(1) by (rule put_keeps) (use that(2) in \<open>auto intro: set_entry_ok\<close>)
  then show ?thesis using assms ok
    by (auto simp: retain_ttl_def Let_def get_container_Inr get_entry_Inr split: sum.splits)
qed

lemma descendant_closure_Inr:
  "descendant_closure c k = Inr closure \<longleftrightarrow> k \<in> dom (cell c) \<and> closure = cp_closure (plan_cascade k (tc_children c) {})"
  by (auto simp: descendant_closure_def cell_def)

lemma closure_live:
  assumes "container_ok c" "descendant_closure c k = Inr closure"
  shows "set closure \<subseteq> dom (cell c)"
  using assms descendants_live [OF assms(1)] by (auto simp: descendant_closure_Inr plan_closure)

lemma retain_ok:
  assumes "memory_ok w"
  shows "memory_ok (snd (memory_retain V K cid key w))" "memory_ok (snd (memory_release V K cid key w))"
proof -
  have "memory_ok (put_container cid (c\<lparr>tc_retained := R\<rparr>) w)"
    if "container_of w cid = Some c" "container_ok c \<Longrightarrow> R \<subseteq> dom (cell c)" for c R
    using assms that(1) by (rule put_keeps) (use that(2) in \<open>auto intro: retained_ok\<close>)
  moreover have "container_ok c \<Longrightarrow> tc_retained c \<union> set closure \<subseteq> dom (cell c)"
    "container_ok c \<Longrightarrow> tc_retained c - set closure \<subseteq> dom (cell c)" if "descendant_closure c key = Inr closure" for c closure
    using closure_live [OF _ that] container_okD(4) by blast+
  ultimately show "memory_ok (snd (memory_retain V K cid key w))" "memory_ok (snd (memory_release V K cid key w))"
    using assms by (auto simp: memory_retain_def memory_release_def Let_def get_container_Inr split: sum.splits)
qed

lemma audited_ok [simp]:
  assumes "memory_ok w"
  shows "memory_ok (snd (memory_keys V K cid w))" "memory_ok (snd (memory_provenance V K cid key w))"
    "memory_ok (snd (memory_export V K cid key w))" "memory_ok (snd (retained_keys V K cid w))"
    "memory_ok (snd (cascade_preview V K cid key w))"
  using assms sweep_ok [OF assms]
  by (auto simp: memory_keys_def memory_provenance_def memory_export_def retained_keys_def cascade_preview_def
      Let_def split: sum.splits)

lemma forget_cascade_apply_ok:
  assumes "memory_ok w" "container_of w cid = Some c" "distinct closure"
  shows "memory_ok (snd (forget_cascade_apply V K cid key grant batch c closure w))"
proof -
  have wo: "without (set closure) c (delete_closure closure c)"
    by (rule delete_closure_without [OF memory_okD(2) [OF assms(1,2)] assms(3)])
  have put: "memory_ok (put_container cid (delete_closure closure c) w)"
    using assms(1,2) by (rule put_keeps) (use wo in \<open>auto intro: without_ok without_same\<close>)
  have use: "memory_ok v" if "grant_use C clk h nt (put_container cid (delete_closure closure c) w) = (r, v)" for C clk h nt r v
    using put memory_ok_frame(6) [of C clk h nt "put_container cid (delete_closure closure c) w"] that by simp
  show ?thesis by (auto simp: forget_cascade_apply_def Let_def use split: prod.splits sum.splits)
qed

lemma check_active_bump [simp]: "check_active clk h (bump_mem_seq w) = check_active clk h w"
  by (simp add: check_active_def)

text \<open>The gates of the cascade: it is refused with memory and grants untouched, or goes on to apply
  the plan.\<close>

lemma forget_cascade_cases:
  obtains (refused) e v where "forget_cascade V K cid key grant w = (Inl e, v)" "mw_registry v = mw_registry w"
      "w_grants v = w_grants w"
  | (planned) c where "is_ok (check_active (\<lambda>_. mc_clk K 0) grant w)" "scope_attenuates (gh_scope grant) (forget_scope cid)"
      "container_of w cid = Some c" "key \<in> dom (cell c)" "descendants (tc_children c) key \<inter> tc_retained c = {}"
      "forget_cascade V K cid key grant w = forget_cascade_apply V K cid key grant (fresh_batch_id V (mc_millis K) w) c
         (cp_closure (plan_cascade key (tc_children c) (tc_retained c))) (bump_mem_seq w)"
proof (cases "\<exists>e v. forget_cascade V K cid key grant w = (Inl e, v) \<and> mw_registry v = mw_registry w \<and> w_grants v = w_grants w")
  case False
  then obtain r where chk: "check_active (\<lambda>_. mc_clk K 0) grant w = Inr r"
    by (cases "check_active (\<lambda>_. mc_clk K 0) grant w") (auto simp: forget_cascade_def)
  have scope: "scope_attenuates (gh_scope grant) (forget_scope cid)"
    by (rule ccontr) (use False chk in \<open>auto simp: forget_cascade_def\<close>)
  obtain c where c: "get_container ''memory_forget_cascade'' cid (bump_mem_seq w) = Inr c"
    using False chk scope
    by (cases "get_container ''memory_forget_cascade'' cid (bump_mem_seq w)") (auto simp: forget_cascade_def)
  obtain e where e: "get_entry ''memory_forget_cascade'' c key = Inr e"
    using False chk scope c by (cases "get_entry ''memory_forget_cascade'' c key") (auto simp: forget_cascade_def)
  have free: "cp_blocked_by (plan_cascade key (tc_children c) (tc_retained c)) = []"
    by (rule ccontr) (use False chk scope c e in \<open>auto simp: forget_cascade_def Let_def\<close>)
  have "forget_cascade V K cid key grant w = forget_cascade_apply V K cid key grant (fresh_batch_id V (mc_millis K) w) c
      (cp_closure (plan_cascade key (tc_children c) (tc_retained c))) (bump_mem_seq w)"
    using chk scope c e free by (simp add: forget_cascade_def Let_def)
  moreover have "container_of w cid = Some c" using c by (simp add: get_container_Inr)
  moreover have "cell c key = Some e" using e by (simp add: get_entry_Inr)
  ultimately show thesis using planned chk scope free by (auto simp: plan_blocked_Nil)
qed (use refused in blast)

lemma forget_cascade_ok:
  assumes "memory_ok w"
  shows "memory_ok (snd (forget_cascade V K cid key grant w))"
proof (cases rule: forget_cascade_cases [of V K cid key grant w])
  case (refused e v)
  then show ?thesis using assms memory_ok_cong [of v w] by simp
next
  case (planned c)
  then show ?thesis using assms by (simp add: forget_cascade_apply_ok plan_closure)
qed

lemma forget_front_apply_ok:
  assumes "memory_ok w" "container_of w cid = Some c"
  shows "memory_ok (snd (forget_front_apply V K cid key grant batch c entry derived w))"
proof -
  let ?c = "fold poison_entry derived (drop_node key c)"
  have d: "without {key} c (drop_node key c)" by (rule drop_node_without [OF memory_okD(2) [OF assms]])
  have "container_ok ?c" by (rule fold_keeps) (auto intro: poison_entry_ok without_ok [OF memory_okD(2) [OF assms] d])
  moreover have "same_identity c ?c"
    using without_same [OF d] same_identity_fold [of poison_entry] poison_same(1) same_identity_trans by blast
  ultimately have put: "memory_ok (put_container cid ?c w)" using put_container_ok [OF assms] by blast
  have use: "memory_ok v" if "grant_use C clk h nt (put_container cid ?c w) = (r, v)" for C clk h nt r v
    using put memory_ok_frame(6) [of C clk h nt "put_container cid ?c w"] that by simp
  show ?thesis by (auto simp: forget_front_apply_def Let_def use split: prod.splits sum.splits)
qed

lemma forget_front_cases:
  obtains (refused) e v where "forget_front V K cid key grant dry_run w = (Inl e, v)" "mw_registry v = mw_registry w"
      "w_grants v = w_grants w"
  | (admitted) c e where "container_of w cid = Some c" "cell c key = Some e"
      "tc_label c = MemPrivate \<Longrightarrow> active_grant_for (mc_clk K 0) (memory_scope (tc_subject c)) (mw_consent w)"
      "is_ok (check_active (\<lambda>_. mc_clk K 1) grant w)" "scope_attenuates (gh_scope grant) (forget_scope cid)"
      "forget_front V K cid key grant dry_run w =
         forget_front_locked V K cid key grant dry_run (fresh_front_batch_id V (mc_millis K) w) (bump_mem_seq w)"
proof (cases "\<exists>e v. forget_front V K cid key grant dry_run w = (Inl e, v) \<and> mw_registry v = mw_registry w \<and> w_grants v = w_grants w")
  case False
  then obtain c where c: "get_container ''forget'' cid (bump_mem_seq w) = Inr c"
    by (cases "get_container ''forget'' cid (bump_mem_seq w)") (auto simp: forget_front_def)
  obtain e where e: "get_entry ''forget'' c key = Inr e"
    using False c by (cases "get_entry ''forget'' c key") (auto simp: forget_front_def)
  have consent: "\<not> (tc_label c = MemPrivate \<and> \<not> active_grant_for (mc_clk K 0) (memory_scope (tc_subject c)) (mw_consent (bump_mem_seq w)))"
  proof
    assume "tc_label c = MemPrivate \<and> \<not> active_grant_for (mc_clk K 0) (memory_scope (tc_subject c)) (mw_consent (bump_mem_seq w))"
    with False c e show False by (auto simp: forget_front_def Let_def)
  qed
  obtain r where chk: "check_active (\<lambda>_. mc_clk K 1) grant w = Inr r"
    using False c e
    by (cases "check_active (\<lambda>_. mc_clk K 1) grant w")
      (auto simp: forget_front_def Let_def if_not_P [OF consent] simp del: One_nat_def)
  have scope: "scope_attenuates (gh_scope grant) (forget_scope cid)"
    by (rule ccontr)
      (use False c e chk in \<open>auto simp: forget_front_def Let_def if_not_P [OF consent] simp del: One_nat_def\<close>)
  have "forget_front V K cid key grant dry_run w =
      forget_front_locked V K cid key grant dry_run (fresh_front_batch_id V (mc_millis K) w) (bump_mem_seq w)"
    using c e chk scope by (simp add: forget_front_def Let_def if_not_P [OF consent] del: One_nat_def)
  moreover have "container_of w cid = Some c" using c by (simp add: get_container_Inr)
  moreover have "cell c key = Some e" using e by (simp add: get_entry_Inr)
  ultimately show thesis using admitted consent chk scope by (auto simp: bump_mem_seq_def)
qed (use refused in blast)

text \<open>Under the lock: refused or previewed with only the sweep done, or applied.\<close>

lemma forget_front_locked_cases:
  fixes w :: "'a memory_world_scheme" and V :: vault and K :: mem_call and cid :: string
  defines "s \<equiv> snd (sweep_expired_locked V (mc_order K) (mc_clk K 2) (mc_clk K 3) cid w)"
  obtains (stopped) "mw_registry (snd (forget_front_locked V K cid key grant dry_run batch w)) = mw_registry s"
      "w_grants (snd (forget_front_locked V K cid key grant dry_run batch w)) = w_grants w"
      "is_ok (fst (forget_front_locked V K cid key grant dry_run batch w)) \<Longrightarrow> dry_run"
  | (applied) c e where "container_of s cid = Some c" "cell c key = Some e" "\<not> dry_run"
      "descendants (tc_children c) key \<inter> tc_retained c = {}"
      "forget_front_locked V K cid key grant dry_run batch w = forget_front_apply V K cid key grant batch c e
         (filter (\<lambda>k. k \<noteq> key) (cp_closure (plan_cascade key (tc_children c) (tc_retained c)))) s"
proof (cases "mw_registry (snd (forget_front_locked V K cid key grant dry_run batch w)) = mw_registry s
    \<and> w_grants (snd (forget_front_locked V K cid key grant dry_run batch w)) = w_grants w
    \<and> (is_ok (fst (forget_front_locked V K cid key grant dry_run batch w)) \<longrightarrow> dry_run)")
  case False
  have sw: "w_grants s = w_grants w" by (simp add: s_def)
  obtain c where c: "get_container ''forget'' cid s = Inr c"
    using False sw by (cases "get_container ''forget'' cid s") (auto simp: forget_front_locked_def Let_def s_def [symmetric])
  obtain e where e: "get_entry ''forget'' c key = Inr e"
    using False sw c by (cases "get_entry ''forget'' c key") (auto simp: forget_front_locked_def Let_def s_def [symmetric])
  have free: "cp_blocked_by (plan_cascade key (tc_children c) (tc_retained c)) = []"
    by (rule ccontr) (use False sw c e in \<open>auto simp: forget_front_locked_def Let_def s_def [symmetric]\<close>)
  have dry: "\<not> dry_run" using False sw c e free by (auto simp: forget_front_locked_def Let_def s_def [symmetric])
  have run: "forget_front_locked V K cid key grant dry_run batch w = forget_front_apply V K cid key grant batch c e
      (filter (\<lambda>k. k \<noteq> key) (cp_closure (plan_cascade key (tc_children c) (tc_retained c)))) s"
    using c e free dry by (simp add: forget_front_locked_def Let_def s_def [symmetric])
  show thesis
    by (rule applied [OF _ _ dry _ run])
      (use c e free in \<open>simp_all add: get_container_Inr get_entry_Inr plan_blocked_Nil\<close>)
qed (use stopped in blast)

lemma forget_front_ok:
  assumes "memory_ok w"
  shows "memory_ok (snd (forget_front V K cid key grant dry_run w))"
proof (cases rule: forget_front_cases [of V K cid key grant dry_run w])
  case (refused e v)
  then show ?thesis using assms memory_ok_cong [of v w] by simp
next
  case (admitted c e)
  let ?b = "fresh_front_batch_id V (mc_millis K) w" and ?w = "bump_mem_seq w"
  let ?s = "snd (sweep_expired_locked V (mc_order K) (mc_clk K 2) (mc_clk K 3) cid ?w)"
  have ok: "memory_ok ?s" using assms by (intro sweep_ok) simp
  show ?thesis unfolding admitted(6)
  proof (cases rule: forget_front_locked_cases [of V K cid key grant dry_run ?b ?w])
    case stopped
    then show "memory_ok (snd (forget_front_locked V K cid key grant dry_run ?b ?w))"
      using ok memory_ok_cong [of _ ?s] by simp
  next
    case (applied c e)
    then show "memory_ok (snd (forget_front_locked V K cid key grant dry_run ?b ?w))"
      using ok by (simp add: forget_front_apply_ok)
  qed
qed

lemma quarantine_container_ok:
  assumes "memory_ok w"
  shows "memory_ok (quarantine_container V K p w)"
proof -
  obtain i cid where p: "p = (i, cid)" by fastforce
  let ?w = "snd (sweep_expired_locked V (mc_order K) (mc_clk K (3 * i + 1)) (mc_clk K (3 * i + 2)) cid w)"
  have ok: "memory_ok ?w" using assms by (rule sweep_ok)
  have "memory_ok (put_container cid (fold (quarantine_entry now) ks c) ?w)" if "container_of ?w cid = Some c" for c ks now
    using ok that
    by (rule put_keeps) (auto intro: same_identity_fold poison_same(2) fold_keeps [of container_ok] quarantine_entry_ok)
  then show ?thesis using ok
    by (auto simp: quarantine_container_def p Let_def get_container_Inr split: sum.splits)
qed

lemma withdrawal_ok: "memory_ok w \<Longrightarrow> memory_ok (consent_revoked_cascade V K subject w)"
  by (auto simp: consent_revoked_cascade_def Let_def split: option.splits
      intro: fold_keeps [of memory_ok] quarantine_container_ok)

section \<open>Runs\<close>

definition memory_start :: "'a memory_world_scheme \<Rightarrow> bool" where
  "memory_start w \<longleftrightarrow> grants_start w \<and> (mw_registry w = None \<or> mw_registry w = Some [])"

text \<open>Consent may change in any way between two calls.\<close>

inductive memory_step :: "vault \<Rightarrow> 'a memory_world_scheme \<Rightarrow> 'a memory_world_scheme \<Rightarrow> bool" for V where
  step_open: "memory_step V w (snd (memory_open V K subject label w))"
| step_put: "memory_step V w (snd (memory_put V K cid key txt ps opts w))"
| step_read: "memory_step V w (snd (memory_read V K cid key w))"
| step_keys: "memory_step V w (snd (memory_keys V K cid w))"
| step_provenance: "memory_step V w (snd (memory_provenance V K cid key w))"
| step_export: "memory_step V w (snd (memory_export V K cid key w))"
| step_retain: "memory_step V w (snd (memory_retain V K cid key w))"
| step_release: "memory_step V w (snd (memory_release V K cid key w))"
| step_retained: "memory_step V w (snd (retained_keys V K cid w))"
| step_preview: "memory_step V w (snd (cascade_preview V K cid key w))"
| step_retain_ttl: "memory_step V w (snd (retain_ttl V K cid key ttl w))"
| step_cascade: "memory_step V w (snd (forget_cascade V K cid key grant w))"
| step_forget: "memory_step V w (snd (forget_front V K cid key grant dry_run w))"
| step_withdrawal: "memory_step V w (consent_revoked_cascade V K subject w)"
| step_grants: "grants_step (va_crypto V) w w' \<Longrightarrow> memory_step V w w'"
| step_consent: "memory_step V w (w\<lparr>mw_consent := conn\<rparr>)"

abbreviation memory_run :: "vault \<Rightarrow> 'a memory_world_scheme \<Rightarrow> bool" where
  "memory_run V \<equiv> reach memory_start (memory_step V)"

lemmas memory_op_ok =
  open_ok put_ok read_ok audited_ok retain_ok retain_ttl_ok forget_cascade_ok forget_front_ok withdrawal_ok

text \<open>Only the two forgets touch the grants, and they do so through \<open>grant_use\<close>.\<close>

lemma op_grants [simp]:
  "w_grants (snd (memory_open V K subject label w)) = w_grants w"
  "w_grants (snd (memory_put V K cid key txt ps opts w)) = w_grants w"
  "w_grants (snd (memory_read V K cid key w)) = w_grants w"
  "w_grants (snd (memory_keys V K cid w)) = w_grants w"
  "w_grants (snd (memory_provenance V K cid key w)) = w_grants w"
  "w_grants (snd (memory_export V K cid key w)) = w_grants w"
  "w_grants (snd (memory_retain V K cid key w)) = w_grants w"
  "w_grants (snd (memory_release V K cid key w)) = w_grants w"
  "w_grants (snd (retained_keys V K cid w)) = w_grants w"
  "w_grants (snd (cascade_preview V K cid key w)) = w_grants w"
  "w_grants (snd (retain_ttl V K cid key ttl w)) = w_grants w"
  by (auto simp: memory_open_def memory_put_def memory_read_def memory_keys_def memory_provenance_def
      memory_export_def memory_retain_def memory_release_def retained_keys_def cascade_preview_def retain_ttl_def
      Let_def split: option.splits sum.splits prod.splits)

lemma withdrawal_grants [simp]: "w_grants (consent_revoked_cascade V K subject w) = w_grants w"
proof -
  have "w_grants (quarantine_container V K p v) = w_grants v" for p and v :: "'a memory_world_scheme"
    by (cases p) (simp add: quarantine_container_def Let_def split: sum.splits)
  then have "w_grants (fold (quarantine_container V K) ps w) = w_grants w" for ps
    by (intro fold_keeps [of "\<lambda>v. w_grants v = w_grants w"]) simp_all
  then show ?thesis by (simp add: consent_revoked_cascade_def Let_def split: option.splits)
qed

lemma world_ok_frame [simp]:
  "world_ok (ledger_memory_event V now kind cid detail w) = world_ok w"
  "world_ok (ledger_forget_denied V now cid reason w) = world_ok w"
  "world_ok (ledger_forget V now cid ds hs ps dry extra w) = world_ok w"
  "world_ok (record_irreversible V now g detail w) = world_ok w"
  "world_ok (bump_mem_seq w) = world_ok w"
  "world_ok (put_container cid c w) = world_ok w"
  by (rule world_ok_cong, simp)+

lemma op_world_ok [simp]:
  "world_ok (snd (memory_open V K subject label w)) = world_ok w"
  "world_ok (snd (memory_put V K cid key txt ps opts w)) = world_ok w"
  "world_ok (snd (memory_read V K cid key w)) = world_ok w"
  "world_ok (snd (memory_keys V K cid w)) = world_ok w"
  "world_ok (snd (memory_provenance V K cid key w)) = world_ok w"
  "world_ok (snd (memory_export V K cid key w)) = world_ok w"
  "world_ok (snd (memory_retain V K cid key w)) = world_ok w"
  "world_ok (snd (memory_release V K cid key w)) = world_ok w"
  "world_ok (snd (retained_keys V K cid w)) = world_ok w"
  "world_ok (snd (cascade_preview V K cid key w)) = world_ok w"
  "world_ok (snd (retain_ttl V K cid key ttl w)) = world_ok w"
  "world_ok (consent_revoked_cascade V K subject w) = world_ok w"
  "world_ok (w\<lparr>mw_consent := conn\<rparr>) = world_ok w"
  by (rule world_ok_cong, simp)+

lemma use_grants_ok: "world_ok w \<Longrightarrow> grant_use C clk h nt w = (r, v) \<Longrightarrow> world_ok v"
  using use_ok [of w C clk h nt] by simp

lemma apply_grants_ok:
  assumes "world_ok w"
  shows "world_ok (snd (forget_cascade_apply V K cid key grant batch c closure w))"
    "world_ok (snd (forget_front_apply V K cid key grant batch c entry derived w))"
proof -
  have "world_ok v" if "grant_use C clk h nt (put_container cid c' w) = (r, v)" for C clk h nt c' r v
    using use_grants_ok [OF _ that] assms by simp
  then show "world_ok (snd (forget_cascade_apply V K cid key grant batch c closure w))"
    "world_ok (snd (forget_front_apply V K cid key grant batch c entry derived w))"
    by (auto simp: forget_cascade_apply_def forget_front_apply_def Let_def split: prod.splits sum.splits)
qed

lemma forget_grants_ok:
  assumes "world_ok w"
  shows "world_ok (snd (forget_cascade V K cid key grant w))" "world_ok (snd (forget_front V K cid key grant dry_run w))"
proof -
  show "world_ok (snd (forget_cascade V K cid key grant w))"
    by (cases rule: forget_cascade_cases [of V K cid key grant w])
      (use assms world_ok_cong [of _ w] in \<open>auto simp: apply_grants_ok\<close>)
  let ?s = "snd (sweep_expired_locked V (mc_order K) (mc_clk K 2) (mc_clk K 3) cid (bump_mem_seq w))"
  have s: "world_ok ?s" using assms world_ok_cong [of ?s w] by simp
  have "world_ok (snd (forget_front_locked V K cid key grant dry_run x (bump_mem_seq w)))" for x
    by (cases rule: forget_front_locked_cases [of V K cid key grant dry_run x "bump_mem_seq w"])
      (use assms s world_ok_cong [of _ w] in \<open>auto simp: apply_grants_ok\<close>)
  then show "world_ok (snd (forget_front V K cid key grant dry_run w))"
    by (cases rule: forget_front_cases [of V K cid key grant dry_run w])
      (use assms world_ok_cong [of _ w] in auto)
qed

interpretation memory_system: invariant_system memory_start "memory_step V" "\<lambda>w. memory_ok w \<and> world_ok w" for V
proof
  show "memory_start w \<Longrightarrow> memory_ok w \<and> world_ok w" for w :: "'a memory_world_scheme"
    using grants_system.init_inv [of w] by (auto simp: memory_start_def memory_ok_def registry_ok_def)
  show "memory_ok w \<and> world_ok w \<Longrightarrow> memory_step V w w' \<Longrightarrow> memory_ok w' \<and> world_ok w'"
    for w w' :: "'a memory_world_scheme"
  proof (erule memory_step.cases)
    fix x y :: "'a memory_world_scheme"
    assume a: "memory_ok w \<and> world_ok w" "w = x" "w' = y" "grants_step (va_crypto V) x y"
    then have "memory_ok w'" using registry_grants_step memory_ok_cong by metis
    moreover have "world_ok w'" using a grants_system.step_inv by blast
    ultimately show "memory_ok w' \<and> world_ok w'" by simp
  qed (simp_all add: memory_op_ok forget_grants_ok)
qed

end
