(* ===== verification/Memory_Properties.thy ===== *)
theory Memory_Properties
  imports Memory_Invariant
begin

text \<open>
  What typed memory promises: the cascade deletes exactly the descendants and is paid for, forgotten
  and quarantined content stays out of reach, and what is stored is what is read.
\<close>

section \<open>A run for the witnesses\<close>

definition sample_vault :: vault where
  "sample_vault = \<lparr>va_crypto = sample_crypto, va_master = replicate 32 (CHR ''m''), va_hmac = (\<lambda>m s. Some (pad_to 32 s)),
     va_seal = (\<lambda>k n p. Some (p @ replicate 16 (CHR 0x00))), va_unseal = (\<lambda>k n ct. Some (take (length ct - 16) ct)),
     va_show_f32 = (\<lambda>_. ''1'')\<rparr>"

definition sample_call :: "u64 \<Rightarrow> mem_call" where
  "sample_call t = \<lparr>mc_clk = (\<lambda>_. t), mc_millis = 7, mc_nonce = replicate 12 (CHR ''n''), mc_order = []\<rparr>"

definition no_opts :: put_opts where
  "no_opts = \<lparr>po_priority = None, po_decay_rate = None, po_ttl_secs = None\<rparr>"

definition mem_w0 :: memory_world where
  "mem_w0 = \<lparr>w_ledger = demo_start, w_grants = Some \<lparr>gd_rows = [], gd_events = []\<rparr>, w_grant_seq = 0,
     mw_consent = Some [], mw_registry = Some [], mw_seq = 1\<rparr>"

definition mem_cid :: string where
  "mem_cid = fresh_container_id sample_vault ''bob'' 7 mem_w0"

definition mem_w1 :: memory_world where
  "mem_w1 = snd (memory_open sample_vault (sample_call 5) ''bob'' MemPublic mem_w0)"

definition mem_w2 :: memory_world where
  "mem_w2 = snd (memory_put sample_vault (sample_call 5) mem_cid ''a'' ''x'' [] no_opts mem_w1)"

definition mem_w3 :: memory_world where
  "mem_w3 = snd (memory_put sample_vault (sample_call 5) mem_cid ''b'' ''y'' [''a''] no_opts mem_w2)"

definition mem_w4 :: memory_world where
  "mem_w4 = snd (issue sample_crypto (\<lambda>_. 5) 7 (forget_scope mem_cid) 100 Once ''program'' mem_w3)"

definition mem_grant :: grant_handle where
  "mem_grant = \<lparr>gh_grant_id = next_grant_id 7 0, gh_scope = forget_scope mem_cid, gh_class = Once, gh_expires_at = 105,
     gh_issuer = ''program''\<rparr>"

lemma mem_w4_run: "memory_run sample_vault mem_w4"
proof -
  have "memory_run sample_vault mem_w0"
    by (rule reach_init) (simp add: memory_start_def grants_start_def mem_w0_def world_rows_def world_events_def)
  then have "memory_run sample_vault mem_w1" unfolding mem_w1_def by (rule reach_step) (rule step_open)
  then have "memory_run sample_vault mem_w2" unfolding mem_w2_def by (rule reach_step) (rule step_put)
  then have "memory_run sample_vault mem_w3" unfolding mem_w3_def by (rule reach_step) (rule step_put)
  moreover have "va_crypto sample_vault = sample_crypto" by (simp add: sample_vault_def)
  moreover have "grants_step sample_crypto mem_w3 mem_w4"
    unfolding mem_w4_def by (rule step_issue) (simp add: class_tame_def)
  ultimately have "memory_step sample_vault mem_w3 mem_w4" by (intro step_grants) simp
  with \<open>memory_run sample_vault mem_w3\<close> show ?thesis by (rule reach_step)
qed

definition mem_entry :: "string \<Rightarrow> string list \<Rightarrow> typed_entry" where
  "mem_entry txt ps = TypedEntry_new (Plain txt) ps 5"

definition mem_c0 :: typed_container where
  "mem_c0 = \<lparr>tc_id = mem_cid, tc_subject = ''bob'', tc_label = MemPublic, tc_created_unix = 5, tc_entries = [],
     tc_children = [], tc_retained = {}\<rparr>"

definition mem_c2 :: typed_container where
  "mem_c2 = mem_c0\<lparr>tc_entries := [(''a'', mem_entry ''x'' []), (''b'', mem_entry ''y'' [''a''])],
     tc_children := [(''a'', [''b''])]\<rparr>"

lemma mem_w1_registry: "mw_registry mem_w1 = Some [(mem_cid, mem_c0)]"
  by (simp add: mem_w1_def memory_open_def mem_w0_def [THEN arg_cong, of mw_registry] registry_values_def iter_order_def
      map_filter_simps put_container_def mem_c0_def mem_cid_def sample_call_def trim_def is_whitespace_def Let_def)

lemma mem_w2_registry: "mw_registry mem_w2 = Some [(mem_cid, mem_c0\<lparr>tc_entries := [(''a'', mem_entry ''x'' [])]\<rparr>)]"
  by (simp add: mem_w2_def memory_put_def get_container_def mem_w1_registry trim_def is_whitespace_def put_attributes_def
      no_opts_def stored_form_def mem_c0_def put_container_def insert_entry_def unlink_all_def link_all_def parents_of_def
      mem_entry_def TypedEntry_new_def sample_call_def Let_def)

lemma mem_w3_registry: "mw_registry mem_w3 = Some [(mem_cid, mem_c2)]"
  by (simp add: mem_w3_def memory_put_def get_container_def mem_w2_registry trim_def is_whitespace_def put_attributes_def
      no_opts_def stored_form_def mem_c0_def mem_c2_def put_container_def insert_entry_def unlink_all_def link_all_def parents_of_def
      link_child_def kids_def mem_entry_def TypedEntry_new_def sample_call_def Let_def)

lemma mem_w4_registry: "mw_registry mem_w4 = Some [(mem_cid, mem_c2)]"
  by (simp add: mem_w4_def mem_w3_registry)

lemma mem_w4_container: "container_of mem_w4 mem_cid = Some mem_c2"
  by (simp add: container_of_def mem_w4_registry)

definition mem_row :: grant_row where
  "mem_row = \<lparr>gr_id = next_grant_id 7 0, gr_parent_id = None, gr_scope = forget_scope mem_cid, gr_class = ''once'',
     gr_remaining = 1, gr_issued_at = 5, gr_expires_at = 105, gr_issuer = ''program'', gr_state = ''active''\<rparr>"

lemma trim_nonempty: "c \<in> set s \<Longrightarrow> \<not> is_whitespace c \<Longrightarrow> trim s \<noteq> []"
proof
  assume c: "c \<in> set s" "\<not> is_whitespace c" and "trim s = []"
  then have all: "\<forall>x \<in> set (dropWhile is_whitespace s). is_whitespace x" by (simp add: trim_def)
  have "dropWhile is_whitespace s \<noteq> []" using c by (auto simp: dropWhile_eq_Nil_conv)
  then have "\<not> is_whitespace (hd (dropWhile is_whitespace s))" "hd (dropWhile is_whitespace s) \<in> set (dropWhile is_whitespace s)"
    by (simp_all add: hd_dropWhile)
  with all show False by blast
qed

lemma forget_scope_trim: "trim (forget_scope cid) \<noteq> []"
  by (rule trim_nonempty [of "CHR ''m''"]) (simp_all add: forget_scope_def is_whitespace_def)

lemma mem_w3_grants: "w_grants mem_w3 = Some \<lparr>gd_rows = [], gd_events = []\<rparr>" "w_grant_seq mem_w3 = 0"
proof -
  have seq: "w_grant_seq (ledger_memory_event V t k c d w) = w_grant_seq w" "w_grant_seq (put_container x y w) = w_grant_seq w"
    "w_grant_seq (bump_mem_seq w) = w_grant_seq w" for V t k c d x y and w :: memory_world
    by (simp_all add: ledger_memory_event_def put_container_def bump_mem_seq_def)
  have put: "w_grant_seq (snd (memory_put V K cid key tx ps opts w)) = w_grant_seq w" for V K cid key tx ps opts and w :: memory_world
    by (cases rule: memory_put_cases [of V K cid key tx ps opts w]) (simp_all add: seq)
  have "w_grant_seq (snd (memory_open V K sb l w)) = w_grant_seq w" for V K sb l and w :: memory_world
    by (simp add: memory_open_def seq Let_def split: option.splits)
  then show "w_grant_seq mem_w3 = 0" unfolding mem_w3_def mem_w2_def mem_w1_def put by (simp add: mem_w0_def)
  show "w_grants mem_w3 = Some \<lparr>gd_rows = [], gd_events = []\<rparr>"
    unfolding mem_w3_def mem_w2_def mem_w1_def op_grants by (simp add: mem_w0_def)
qed

lemma mem_w4_rows: "\<exists>evs. w_grants mem_w4 = Some \<lparr>gd_rows = [mem_row], gd_events = evs\<rparr>"
  using forget_scope_trim [of mem_cid]
  by (simp add: mem_w4_def issue_def Grants.insert_row_def mem_w3_grants on_rows_def record_event_def mem_row_def
      Let_def u64_add_def as_i64_small)

lemma mem_w4_check: "check_active clk mem_grant mem_w4 = Inr (record_of_row mem_row) \<longleftrightarrow> clk 0 < 105"
proof -
  obtain evs where "w_grants mem_w4 = Some \<lparr>gd_rows = [mem_row], gd_events = evs\<rparr>" using mem_w4_rows by blast
  then show ?thesis
    by (simp add: check_active_def load_record_def find_row_def mem_grant_def mem_row_def record_of_row_def check_record_def
        as_u64_def from_ledger_str_def)
qed

lemma mem_w4_planned:
  assumes "mc_clk K 0 < 105"
  shows "forget_cascade V K mem_cid ''a'' mem_grant mem_w4 = forget_cascade_apply V K mem_cid ''a'' mem_grant
    (fresh_batch_id V (mc_millis K) mem_w4) mem_c2 (cp_closure (plan_cascade ''a'' (tc_children mem_c2) {})) (bump_mem_seq mem_w4)"
proof -
  have chk: "check_active (\<lambda>_. mc_clk K 0) mem_grant mem_w4 = Inr (record_of_row mem_row)" using assms mem_w4_check by simp
  have sc: "scope_attenuates (gh_scope mem_grant) (forget_scope mem_cid)"
    by (simp add: mem_grant_def scope_attenuates_refl)
  have c: "get_container fn mem_cid (bump_mem_seq mem_w4) = Inr mem_c2" for fn
    using mem_w4_container by (simp add: get_container_Inr)
  have e: "get_entry fn mem_c2 ''a'' = Inr (mem_entry ''x'' [])" for fn by (simp add: get_entry_def mem_c2_def)
  have r: "tc_retained mem_c2 = {}" by (simp add: mem_c2_def mem_c0_def)
  have b: "cp_blocked_by (plan_cascade ''a'' (tc_children mem_c2) {}) = []" by (simp add: plan_blocked_Nil)
  show ?thesis by (simp add: forget_cascade_def chk sc c e r b Let_def)
qed

lemma mem_w4_use:
  assumes "w_grants w = w_grants mem_w4"
  shows "is_ok (fst (grant_use C clk mem_grant nt w)) \<longleftrightarrow> clk 0 < 105"
proof -
  obtain evs where "w_grants mem_w4 = Some \<lparr>gd_rows = [mem_row], gd_events = evs\<rparr>" using mem_w4_rows by blast
  with assms show ?thesis
    by (simp add: grant_use_def with_grants_def load_record_def find_row_def mem_grant_def mem_row_def record_of_row_def
        check_record_def as_u64_def from_ledger_str_def Let_def)
qed

lemma apply_is_ok:
  "is_ok (fst (forget_cascade_apply V K cid key grant batch c closure w)) \<longleftrightarrow>
   is_ok (fst (grant_use (va_crypto V) (\<lambda>i. mc_clk K (10 + i)) grant
      (''memory_forget_cascade: container='' @ cid @ '' root='' @ key @ '' deleted='' @ show_dec (length closure)
       @ '' batch='' @ batch) (put_container cid (delete_closure closure c) w)))"
  by (simp only: forget_cascade_apply_def Let_def split: prod.splits sum.splits) simp

lemma mem_w4_forget:
  assumes "mc_clk K 0 < 105"
  shows "is_ok (fst (forget_cascade V K mem_cid ''a'' mem_grant mem_w4)) \<longleftrightarrow> mc_clk K 10 < 105"
  unfolding mem_w4_planned [OF assms] apply_is_ok by (subst mem_w4_use) simp_all

section \<open>The cascade\<close>

lemma apply_success:
  assumes "forget_cascade_apply V K cid key grant batch c closure w = (Inr out, w')"
  shows "\<exists>m v. grant_use (va_crypto V) (\<lambda>i. mc_clk K (10 + i)) grant
      (''memory_forget_cascade: container='' @ cid @ '' root='' @ key @ '' deleted='' @ show_dec (length closure)
       @ '' batch='' @ batch) (put_container cid (delete_closure closure c) w) = (Inr m, v)
    \<and> out = \<lparr>fo_root = key, fo_deleted = closure, fo_batch_id = batch\<rparr>
    \<and> mw_registry w' = mw_registry v \<and> w_grants w' = w_grants v"
proof -
  obtain r v where u: "grant_use (va_crypto V) (\<lambda>i. mc_clk K (10 + i)) grant
      (''memory_forget_cascade: container='' @ cid @ '' root='' @ key @ '' deleted='' @ show_dec (length closure)
       @ '' batch='' @ batch) (put_container cid (delete_closure closure c) w) = (r, v)" by fastforce
  obtain m where "r = Inr m"
    using assms by (cases r) (auto simp only: forget_cascade_apply_def Let_def u prod.case sum.case prod.inject sum.simps)
  then show ?thesis using assms
    by (auto simp only: forget_cascade_apply_def Let_def u prod.case sum.case prod.inject sum.inject registry_frame grants_frame
        intro!: exI)
qed

lemma used_row:
  assumes "grant_use C clk h nt w = (Inr m, w')"
  shows "\<exists>r \<in> set (world_rows w). gr_id r = gh_grant_id h"
proof (cases rule: grant_use_cases [of C clk h nt w])
  case (used db r s k)
  then show ?thesis by (auto dest: find_row_SomeD)
qed (use assms in simp)

lemma world_rows_cong: "w_grants v = w_grants w \<Longrightarrow> world_rows v = world_rows w"
  by (simp add: world_rows_def)

text \<open>When every recorded derivation is in the index, no survivor loses a parent.\<close>

definition index_complete :: "typed_container \<Rightarrow> bool" where
  "index_complete c \<longleftrightarrow> (\<forall>k e. cell c k = Some e \<longrightarrow> (\<forall>p \<in> set (te_derived_from e). k \<in> set (kids (tc_children c) p)))"

lemma survivors_keep_parents:
  assumes ok: "container_ok c" and ix: "index_complete c" and wo: "without (descendants (tc_children c) key) c c'"
    and k: "cell c' k = Some e"
  shows "set (te_derived_from e) \<subseteq> dom (cell c')"
proof
  let ?D = "descendants (tc_children c) key"
  fix p assume p: "p \<in> set (te_derived_from e)"
  have k': "k \<notin> ?D" "cell c k = Some e" using k wo by (auto simp: without_def restrict_map_def split: if_splits)
  then have kid: "k \<in> set (kids (tc_children c) p)" using ix p unfolding index_complete_def by blast
  then have "p \<notin> ?D" using k'(1) descendants_step by blast
  moreover have "p \<in> dom (cell c)"
    using container_okD(3) [OF ok] kid by (cases "map_of (tc_children c) p") (auto simp: kids_def)
  ultimately show "p \<in> dom (cell c')" using wo by (auto simp: without_def restrict_map_def dom_def)
qed

text \<open>
  C15. A cascade that succeeds deletes exactly the target and everything derived from it: the reported
  keys are the descendants, they and every edge touching them are gone, every other entry, edge, pin
  and container is as before, none of the deleted entries was pinned, and when the index records
  every derivation each survivor keeps all its parents. It was covered by the grant's scope, and
  exactly one use of that grant was spent.
\<close>

theorem forget_cascade_exact:
  assumes run: "memory_run V w" and c: "container_of w cid = Some c"
    and f: "forget_cascade V K cid key grant w = (Inr out, w')"
  shows "set (fo_deleted out) = descendants (tc_children c) key
    \<and> descendants (tc_children c) key \<inter> tc_retained c = {}
    \<and> (\<exists>c'. container_of w' = (container_of w)(cid \<mapsto> c')
        \<and> without (descendants (tc_children c) key) c c' \<and> tc_retained c' = tc_retained c
        \<and> (index_complete c \<longrightarrow> (\<forall>k e. cell c' k = Some e \<longrightarrow> set (te_derived_from e) \<subseteq> dom (cell c'))))
    \<and> scope_attenuates (gh_scope grant) (forget_scope cid)
    \<and> (\<exists>r \<in> set (world_rows w). gr_id r = gh_grant_id grant
        \<and> world_rows w' = map (\<lambda>q. if q = r then spent r else q) (world_rows w))"
proof (cases rule: forget_cascade_cases [of V K cid key grant w])
  case (planned d)
  have ok: "memory_ok w" "world_ok w" using memory_system.reach_inv [OF run] by simp_all
  have d: "d = c" using planned(3) c by simp
  let ?cl = "cp_closure (plan_cascade key (tc_children c) (tc_retained c))"
  let ?c = "delete_closure ?cl c"
  let ?p = "put_container cid ?c (bump_mem_seq w)"
  have "forget_cascade_apply V K cid key grant (fresh_batch_id V (mc_millis K) w) c ?cl (bump_mem_seq w) = (Inr out, w')"
    using f planned(6) d by simp
  from apply_success [OF this] obtain nt m v where
    u: "grant_use (va_crypto V) (\<lambda>i. mc_clk K (10 + i)) grant nt ?p = (Inr m, v)"
    and out: "fo_deleted out = ?cl" and rest: "mw_registry w' = mw_registry v" "w_grants w' = w_grants v" by auto
  have wo: "without (descendants (tc_children c) key) c ?c"
    using delete_closure_without [OF memory_okD(2) [OF ok(1) c] plan_closure(2)] plan_closure(1) by metis
  have "container_of v = container_of ?p" using container_of_frame(6) [of _ _ _ _ ?p] u by (metis snd_conv)
  then have cont: "container_of w' = (container_of w)(cid \<mapsto> ?c)"
    using container_of_cong [OF rest(1)] c by (auto simp: container_of_def)
  have rows: "world_rows ?p = world_rows w" by (rule world_rows_cong) simp
  obtain r where r: "r \<in> set (world_rows w)" "gr_id r = gh_grant_id grant" using used_row [OF u] rows by auto
  have "world_rows v = map (\<lambda>q. if q = r then spent r else q) (world_rows ?p)"
    using use_effect [OF _ _ _ u, of r] ok(2) r rows by simp
  then have "world_rows w' = map (\<lambda>q. if q = r then spent r else q) (world_rows w)"
    using world_rows_cong [OF rest(2)] rows by simp
  moreover have "tc_retained ?c = tc_retained c" using wo planned(5) d unfolding without_def by blast
  moreover note survivors_keep_parents [OF memory_okD(2) [OF ok(1) c] _ wo]
  ultimately have "\<exists>c'. container_of w' = (container_of w)(cid \<mapsto> c') \<and> without (descendants (tc_children c) key) c c'
      \<and> tc_retained c' = tc_retained c
      \<and> (index_complete c \<longrightarrow> (\<forall>k e. cell c' k = Some e \<longrightarrow> set (te_derived_from e) \<subseteq> dom (cell c')))"
    "\<exists>r \<in> set (world_rows w). gr_id r = gh_grant_id grant
      \<and> world_rows w' = map (\<lambda>q. if q = r then spent r else q) (world_rows w)"
    using cont wo r by blast+
  then show ?thesis using out planned(2,5) d by (simp add: plan_closure)
qed (use f in simp)

theorem forget_cascade_exact_witness:
  "\<exists>c out w'. container_of mem_w4 mem_cid = Some c
     \<and> forget_cascade sample_vault (sample_call 6) mem_cid ''a'' mem_grant mem_w4 = (Inr out, w')
     \<and> set (fo_deleted out) = descendants (tc_children c) ''a''"
proof -
  obtain c where c: "container_of mem_w4 mem_cid = Some c" using mem_w4_container by blast
  obtain out w' where f: "forget_cascade sample_vault (sample_call 6) mem_cid ''a'' mem_grant mem_w4 = (Inr out, w')"
    using mem_w4_forget [of "sample_call 6" sample_vault] by (auto simp: is_ok_iff sample_call_def prod_eq_iff)
  from forget_cascade_exact [OF mem_w4_run c f] c f show ?thesis by blast
qed

text \<open>
  C39. What a refused cascade leaves behind: no use of any grant is spent, and memory is as it was,
  except in one case. The grant is read before the deletion and spent after it; when it expires
  between the two clock readings, the cascade is refused although the target and its descendants
  are already gone.
\<close>

theorem forget_cascade_refused:
  assumes run: "memory_run V w" and c: "container_of w cid = Some c"
    and f: "forget_cascade V K cid key grant w = (Inl e, w')"
  shows "w_grants w' = w_grants w \<and> (container_of w' = container_of w
    \<or> (\<exists>c' r. container_of w' = (container_of w)(cid \<mapsto> c') \<and> without (descendants (tc_children c) key) c c'
        \<and> find_row (gh_grant_id grant) (world_rows w) = Some r
        \<and> mc_clk K 0 < as_u64 (gr_expires_at r) \<and> as_u64 (gr_expires_at r) \<le> mc_clk K 10))"
proof (cases rule: forget_cascade_cases [of V K cid key grant w])
  case (refused e v)
  then show ?thesis using f container_of_cong [of w' w] by simp
next
  case (planned d)
  have ok: "memory_ok w" using memory_system.reach_inv [OF run] by simp
  have d: "d = c" using planned(3) c by simp
  let ?cl = "cp_closure (plan_cascade key (tc_children c) (tc_retained c))"
  let ?p = "put_container cid (delete_closure ?cl c) (bump_mem_seq w)"
  have a: "forget_cascade_apply V K cid key grant (fresh_batch_id V (mc_millis K) w) c ?cl (bump_mem_seq w) = (Inl e, w')"
    using f planned(6) d by simp
  obtain nt e' where u: "grant_use (va_crypto V) (\<lambda>i. mc_clk K (10 + i)) grant nt ?p = (Inl e', w')"
    using a by (auto simp only: forget_cascade_apply_def Let_def prod.inject sum.simps split: prod.splits sum.splits)
  then have w': "w' = ?p" by (rule refused_use_keeps)
  have wo: "without (descendants (tc_children c) key) c (delete_closure ?cl c)"
    using delete_closure_without [OF memory_okD(2) [OF ok c] plan_closure(2)] plan_closure(1) by metis
  have cont: "container_of w' = (container_of w)(cid \<mapsto> delete_closure ?cl c)"
    using w' c by (auto simp: container_of_def)
  obtain r where r: "find_row (gh_grant_id grant) (world_rows w) = Some r" "check_record (mc_clk K 0) (record_of_row r) = Inr ()"
    using planned(1) by (auto simp: check_active_def load_record_def world_rows_def split: option.splits sum.splits)
  have "check_record (mc_clk K 10) (record_of_row r) \<noteq> Inr ()"
    using u r(1) by (auto simp: grant_use_def with_grants_def load_record_def find_row_def world_rows_def Let_def
        split: option.splits prod.splits)
  then have "mc_clk K 0 < as_u64 (gr_expires_at r) \<and> as_u64 (gr_expires_at r) \<le> mc_clk K 10"
    using r(2) by (auto simp: check_record_def record_of_row_def split: if_splits)
  with r(1) cont wo w' show ?thesis by auto
qed

definition late_call :: mem_call where
  "late_call = (sample_call 6)\<lparr>mc_clk := (\<lambda>i. if i < 10 then 6 else 106)\<rparr>"

theorem forget_cascade_refused_witness:
  "\<exists>e w'. forget_cascade sample_vault late_call mem_cid ''a'' mem_grant mem_w4 = (Inl e, w')
     \<and> w_grants w' = w_grants mem_w4 \<and> container_of w' mem_cid \<noteq> container_of mem_w4 mem_cid"
proof -
  have late: "mc_clk late_call 0 = 6" "mc_clk late_call 10 = 106" by (simp_all add: late_call_def)
  obtain e w' where f: "forget_cascade sample_vault late_call mem_cid ''a'' mem_grant mem_w4 = (Inl e, w')"
    using mem_w4_forget [of late_call sample_vault] late
    by (cases "fst (forget_cascade sample_vault late_call mem_cid ''a'' mem_grant mem_w4)") (auto simp: prod_eq_iff)
  let ?c = "delete_closure (cp_closure (plan_cascade ''a'' (tc_children mem_c2) {})) mem_c2"
  have "w' = put_container mem_cid ?c (bump_mem_seq mem_w4)"
    using f unfolding mem_w4_planned [of late_call, unfolded late, simplified]
    by (auto simp only: forget_cascade_apply_def Let_def prod.inject sum.simps split: prod.splits sum.splits dest: refused_use_keeps)
  moreover have "container_ok mem_c2" using memory_system.reach_inv [OF mem_w4_run] mem_w4_container memory_okD(2) by blast
  then have "cell ?c ''a'' = None"
    using delete_closure_without [of mem_c2, OF _ plan_closure(2)] by (auto simp: without_def plan_closure)
  moreover have "cell mem_c2 ''a'' \<noteq> None" by (simp add: cell_def mem_c2_def)
  ultimately have "container_of w' mem_cid \<noteq> container_of mem_w4 mem_cid"
    using mem_w4_container by (auto simp: mem_w4_registry)
  with forget_cascade_refused [OF mem_w4_run mem_w4_container f] f show ?thesis by blast
qed

section \<open>Well-formed containers\<close>

text \<open>
  C17. In every run each container is what its declaration says: it is filed under its own id and is
  the only one of its subject and label; the children index names live entries only, and only
  derivations that the child records; pins are on live entries; and an entry rests encrypted exactly
  when the container is private.
\<close>

theorem containers_well_formed:
  assumes "memory_run V w" "container_of w cid = Some c"
  shows "tc_id c = cid
    \<and> (\<forall>cid' c'. container_of w cid' = Some c' \<and> tc_subject c' = tc_subject c \<and> tc_label c' = tc_label c \<longrightarrow> cid' = cid)
    \<and> (\<forall>p k. k \<in> set (kids (tc_children c) p) \<longrightarrow>
         p \<in> dom (cell c) \<and> (\<exists>e. cell c k = Some e \<and> p \<in> set (te_derived_from e)))
    \<and> tc_retained c \<subseteq> dom (cell c)
    \<and> (\<forall>k e. cell c k = Some e \<longrightarrow> (tc_label c = MemPrivate \<longleftrightarrow> (\<exists>blob. te_stored e = Enc blob)))"
proof -
  have ok: "memory_ok w" using memory_system.reach_inv [OF assms(1)] by simp
  note c = memory_okD [OF ok assms(2)]
  have "cid' = cid" if other: "container_of w cid' = Some c'" "tc_subject c' = tc_subject c" "tc_label c' = tc_label c" for cid' c'
  proof -
    obtain reg where reg: "mw_registry w = Some reg" "map_of reg cid = Some c" "map_of reg cid' = Some c'"
      using assms(2) other(1) by (cases "mw_registry w") (auto simp: container_of_def)
    have "c' \<in> ran (map_of reg)" "c \<in> ran (map_of reg)" using reg by (auto intro: ranI)
    then have "c' = c" using ok reg(1) other(2,3) unfolding memory_ok_def registry_ok_def by auto
    then show ?thesis using c(1) memory_okD(1) [OF ok other(1)] by simp
  qed
  moreover have "p \<in> dom (cell c) \<and> (\<exists>e. cell c k = Some e \<and> p \<in> set (te_derived_from e))"
    if "k \<in> set (kids (tc_children c) p)" for p k
  proof -
    have "p \<in> dom (map_of (tc_children c))" using that by (cases "map_of (tc_children c) p") (auto simp: kids_def)
    then show ?thesis using c(2) that unfolding container_ok_def index_sound_def by blast
  qed
  moreover have "tc_label c = MemPrivate \<longleftrightarrow> (\<exists>blob. te_stored e = Enc blob)" if "cell c k = Some e" for k e
  proof -
    have "form_ok (tc_label c) (te_stored e)" using c(2) that unfolding container_ok_def sealed_def by blast
    then show ?thesis by (cases "te_stored e"; cases "tc_label c") auto
  qed
  ultimately show ?thesis using c(1) container_okD(4) [OF c(2)] by blast
qed

theorem containers_well_formed_witness:
  "container_of mem_w4 mem_cid = Some mem_c2 \<and> tc_id mem_c2 = mem_cid \<and> ''a'' \<in> dom (cell mem_c2)"
proof -
  have "''b'' \<in> set (kids (tc_children mem_c2) ''a'')" by (simp add: mem_c2_def kids_def)
  then show ?thesis using containers_well_formed [OF mem_w4_run mem_w4_container] mem_w4_container by blast
qed

section \<open>Quarantine\<close>

text \<open>The entry is absent or poisoned.\<close>

definition quarantined :: "string \<Rightarrow> string \<Rightarrow> 'a memory_world_scheme \<Rightarrow> bool" where
  "quarantined cid k w \<longleftrightarrow> (\<forall>c e. container_of w cid = Some c \<longrightarrow> cell c k = Some e \<longrightarrow> te_poisoned e)"

definition sealed_off :: "string \<Rightarrow> typed_container \<Rightarrow> bool" where
  "sealed_off k c \<longleftrightarrow> (\<forall>e. cell c k = Some e \<longrightarrow> te_poisoned e)"

lemma quarantined_iff: "quarantined cid k w \<longleftrightarrow> (\<forall>c. container_of w cid = Some c \<longrightarrow> sealed_off k c)"
  by (auto simp: quarantined_def sealed_off_def)

lemma quarantined_cong: "mw_registry v = mw_registry w \<Longrightarrow> quarantined cid k v = quarantined cid k w"
  unfolding quarantined_def by (drule container_of_cong) simp

lemma quarantined_put:
  "quarantined cid k w \<Longrightarrow> (x = cid \<Longrightarrow> sealed_off k c) \<Longrightarrow> quarantined cid k (put_container x c w)"
  by (auto simp: quarantined_iff split: if_splits)

lemma without_sealed_off: "without D c c' \<Longrightarrow> sealed_off k c \<Longrightarrow> sealed_off k c'"
  by (auto simp: without_def sealed_off_def restrict_map_def split: if_splits)

lemma sealed_off_set: "sealed_off k c \<Longrightarrow> (x = k \<Longrightarrow> te_poisoned e) \<Longrightarrow> sealed_off k (set_entry x e c)"
  by (auto simp: sealed_off_def)

lemma sealed_off_poison: "sealed_off k c \<or> x = k \<Longrightarrow> sealed_off k (poison_entry x c)"
  "sealed_off k c \<Longrightarrow> sealed_off k (quarantine_entry now x c)"
  by (auto simp: poison_entry_def quarantine_entry_def cell_def [symmetric] sealed_off_def split: option.splits)

lemma sealed_off_poisons: "sealed_off k c \<or> k \<in> set xs \<Longrightarrow> sealed_off k (fold poison_entry xs c)"
proof (induction xs arbitrary: c)
  case (Cons x xs)
  then show ?case using sealed_off_poison(1) [of k c x] by (cases "x = k") auto
qed simp

lemma sweep_quarantined:
  assumes "memory_ok w" "quarantined cid k w"
  shows "quarantined cid k (snd (sweep_expired_locked V hint now ts x w))"
proof (cases "container_of w x")
  case None
  then show ?thesis using assms by (simp add: sweep_absent)
next
  case (Some c)
  from sweep_effect [OF assms(1) Some] obtain c' where
    c': "container_of (snd (sweep_expired_locked V hint now ts x w)) = (container_of w)(x \<mapsto> c')"
    "without (expired_set now c) c c'" by blast
  then show ?thesis using assms(2) Some without_sealed_off [OF c'(2), of k]
    by (auto simp: quarantined_iff split: if_splits)
qed

lemma grants_step_quarantined: "grants_step C w w' \<Longrightarrow> quarantined cid k w \<Longrightarrow> quarantined cid k w'"
  using quarantined_cong [OF registry_grants_step] by blast

lemma quarantined_frame [simp]:
  "quarantined x k (ledger_memory_event V now kind cid detail w) = quarantined x k w"
  "quarantined x k (ledger_forget_denied V now cid reason w) = quarantined x k w"
  "quarantined x k (ledger_forget V now cid ds hs ps dry extra w) = quarantined x k w"
  "quarantined x k (record_irreversible V now g detail w) = quarantined x k w"
  "quarantined x k (bump_mem_seq w) = quarantined x k w"
  "quarantined x k (snd (grant_use C clk h nt w)) = quarantined x k w"
  "quarantined x k (w\<lparr>mw_consent := conn\<rparr>) = quarantined x k w"
  by (rule quarantined_cong, simp)+

lemma quarantined_get: "quarantined x k w \<Longrightarrow> container_of w x = Some c \<Longrightarrow> sealed_off k c"
  by (simp add: quarantined_iff)

text \<open>Operations that only look, or change attributes other than the mark.\<close>

lemma touch_quarantined:
  assumes "memory_ok w" "quarantined x k w"
  shows "quarantined x k (snd (memory_read V K cid key w))"
    "quarantined x k (snd (retain_ttl V K cid key ttl w))"
    "quarantined x k (snd (memory_keys V K cid w))"
proof -
  let ?s = "snd (sweep_expired_locked V (mc_order K) (mc_clk K 0) (mc_clk K 1) cid w)"
  have s: "quarantined x k ?s" by (rule sweep_quarantined [OF assms])
  have touch: "quarantined x k (put_container cid (set_entry key e' c) ?s)"
    if "container_of ?s cid = Some c" "cell c key = Some e" "te_poisoned e' = te_poisoned e" for c e e'
    by (rule quarantined_put [OF s]) (use quarantined_get [OF s] that in \<open>auto intro!: sealed_off_set simp: sealed_off_def\<close>)
  show "quarantined x k (snd (memory_read V K cid key w))"
    "quarantined x k (snd (retain_ttl V K cid key ttl w))"
    using assms(2) s by (auto simp: memory_read_def retain_ttl_def Let_def get_container_Inr get_entry_Inr
        split: sum.splits simp del: One_nat_def intro!: touch)
  show "quarantined x k (snd (memory_keys V K cid w))"
    using assms(2) s by (auto simp: memory_keys_def Let_def simp del: One_nat_def split: sum.splits)
qed

lemma pin_quarantined:
  assumes "quarantined x k w"
  shows "quarantined x k (snd (memory_retain V K cid key w))" "quarantined x k (snd (memory_release V K cid key w))"
proof -
  have "quarantined x k (put_container cid (c\<lparr>tc_retained := R\<rparr>) w)" if "container_of w cid = Some c" for c R
    by (rule quarantined_put [OF assms]) (use quarantined_get [OF assms] that in \<open>auto simp: sealed_off_def cell_def\<close>)
  then show "quarantined x k (snd (memory_retain V K cid key w))" "quarantined x k (snd (memory_release V K cid key w))"
    using assms by (auto simp: memory_retain_def memory_release_def Let_def get_container_Inr split: sum.splits)
qed

lemma look_quarantined:
  assumes "quarantined x k w"
  shows "quarantined x k (snd (memory_provenance V K cid key w))" "quarantined x k (snd (memory_export V K cid key w))"
    "quarantined x k (snd (retained_keys V K cid w))" "quarantined x k (snd (cascade_preview V K cid key w))"
  using assms by (auto simp: memory_provenance_def memory_export_def retained_keys_def cascade_preview_def Let_def
      split: sum.splits)

lemma open_quarantined: "quarantined x k w \<Longrightarrow> quarantined x k (snd (memory_open V K subject label w))"
  by (auto simp: memory_open_def Let_def sealed_off_def cell_def split: option.splits intro!: quarantined_put)

lemma other_put_quarantined:
  assumes "quarantined x k w" "cid \<noteq> x \<or> key \<noteq> k"
  shows "quarantined x k (snd (memory_put V K cid key txt ps opts w))"
proof (cases rule: memory_put_cases [of V K cid key "txt" ps opts w])
  case (stored c e detail)
  have "quarantined x k (put_container cid (insert_entry key e c) w)"
    by (rule quarantined_put [OF assms(1)])
      (use quarantined_get [OF assms(1)] stored(1) assms(2) in \<open>auto simp: sealed_off_def insert_entry_cell\<close>)
  with stored show ?thesis by simp
qed (use assms in simp)

lemma use_quarantined: "grant_use C clk h nt u = (r, v) \<Longrightarrow> quarantined x k u \<Longrightarrow> quarantined x k v"
  using quarantined_frame(6) [of x k C clk h nt u] by simp

lemma apply_quarantined:
  assumes "quarantined x k (put_container cid (delete_closure closure c) w)"
  shows "quarantined x k (snd (forget_cascade_apply V K cid key grant batch c closure w))"
  using assms use_quarantined
  by (auto simp only: forget_cascade_apply_def Let_def quarantined_frame snd_conv split: prod.splits sum.splits)

lemma front_apply_quarantined:
  assumes "quarantined x k (put_container cid (fold poison_entry derived (drop_node key c)) w)"
  shows "quarantined x k (snd (forget_front_apply V K cid key grant batch c e derived w))"
  using assms use_quarantined
  by (auto simp only: forget_front_apply_def Let_def quarantined_frame snd_conv split: prod.splits sum.splits)

lemma forget_cascade_quarantined:
  assumes "memory_ok w" "quarantined x k w"
  shows "quarantined x k (snd (forget_cascade V K cid key grant w))"
proof (cases rule: forget_cascade_cases [of V K cid key grant w])
  case (refused e v)
  then show ?thesis using assms(2) quarantined_cong [of v w] by simp
next
  case (planned c)
  have wo: "without (set closure) c (delete_closure closure c)" if "distinct closure" for closure
    using memory_okD(2) [OF assms(1) planned(3)] that by (rule delete_closure_without)
  show ?thesis unfolding planned(6)
    by (rule apply_quarantined, rule quarantined_put)
      (use assms(2) quarantined_get [OF assms(2)] planned(3) without_sealed_off [OF wo [OF plan_closure(2)]] in auto)
qed

lemma forget_front_quarantined:
  assumes "memory_ok w" "quarantined x k w"
  shows "quarantined x k (snd (forget_front V K cid key grant dry_run w))"
proof (cases rule: forget_front_cases [of V K cid key grant dry_run w])
  case (refused e v)
  then show ?thesis using assms(2) quarantined_cong [of v w] by simp
next
  case (admitted c e)
  let ?b = "fresh_front_batch_id V (mc_millis K) w" and ?w = "bump_mem_seq w"
  let ?s = "snd (sweep_expired_locked V (mc_order K) (mc_clk K 2) (mc_clk K 3) cid ?w)"
  have s: "memory_ok ?s" "quarantined x k ?s" using assms by (auto intro!: sweep_ok sweep_quarantined)
  show ?thesis unfolding admitted(6)
  proof (cases rule: forget_front_locked_cases [of V K cid key grant dry_run ?b ?w])
    case stopped
    then show "quarantined x k (snd (forget_front_locked V K cid key grant dry_run ?b ?w))"
      using quarantined_cong [OF stopped(1)] s(2) by simp
  next
    case (applied d e)
    let ?ds = "filter (\<lambda>k. k \<noteq> key) (cp_closure (plan_cascade key (tc_children d) (tc_retained d)))"
    have "sealed_off k (fold poison_entry ?ds (drop_node key d))" if "cid = x"
      using without_sealed_off [OF drop_node_without [OF memory_okD(2) [OF s(1) applied(1)]]]
        quarantined_get [OF s(2)] applied(1) that sealed_off_poisons by blast
    then show "quarantined x k (snd (forget_front_locked V K cid key grant dry_run ?b ?w))"
      unfolding applied(5) by (intro front_apply_quarantined quarantined_put s(2)) simp
  qed
qed

lemma withdrawal_quarantined:
  assumes "memory_ok w" "quarantined x k w"
  shows "quarantined x k (consent_revoked_cascade V K subject w)"
proof -
  have one: "memory_ok (quarantine_container V K p v) \<and> quarantined x k (quarantine_container V K p v)"
    if v: "memory_ok v \<and> quarantined x k v" for p and v :: "'a memory_world_scheme"
  proof -
    obtain i cid where p: "p = (i, cid)" by fastforce
    let ?s = "snd (sweep_expired_locked V (mc_order K) (mc_clk K (3 * i + 1)) (mc_clk K (3 * i + 2)) cid v)"
    have s: "quarantined x k ?s" using v by (intro sweep_quarantined) auto
    have "quarantined x k (put_container cid (fold (quarantine_entry now) ks c) ?s)" if "container_of ?s cid = Some c" for c now ks
      by (rule quarantined_put [OF s], rule fold_keeps)
        (use quarantined_get [OF s] that sealed_off_poison(2) in auto)
    then show ?thesis using v s quarantine_container_ok [of v V K p]
      by (auto simp: quarantine_container_def p Let_def get_container_Inr simp del: One_nat_def split: sum.splits)
  qed
  have "memory_ok (fold (quarantine_container V K) ps w) \<and> quarantined x k (fold (quarantine_container V K) ps w)" for ps
    by (rule fold_keeps) (use one assms in auto)
  then show ?thesis using assms(2) by (simp add: consent_revoked_cascade_def Let_def split: option.splits)
qed

text \<open>A step that is not a new value for the key.\<close>

definition quiet_step :: "vault \<Rightarrow> string \<Rightarrow> string \<Rightarrow> 'a memory_world_scheme \<Rightarrow> 'a memory_world_scheme \<Rightarrow> bool" where
  "quiet_step V cid k w w' \<longleftrightarrow> memory_step V w w' \<and> \<not> (\<exists>K txt ps opts. w' = snd (memory_put V K cid k txt ps opts w))"

lemmas step_quarantined =
  open_quarantined touch_quarantined pin_quarantined look_quarantined forget_cascade_quarantined
  forget_front_quarantined withdrawal_quarantined

lemma quiet_step_quarantined:
  assumes "memory_ok w" "quarantined cid k w" "quiet_step V cid k w w'"
  shows "quarantined cid k w'"
proof -
  have "memory_step V w w'" using assms(3) by (simp add: quiet_step_def)
  then show ?thesis
  proof cases
    case (step_put K cid' key tx ps opts)
    then have "cid' \<noteq> cid \<or> key \<noteq> k" using assms(3) unfolding quiet_step_def by blast
    then show ?thesis using step_put assms(2) by (simp add: other_put_quarantined)
  next
    case step_grants
    then show ?thesis using assms(2) grants_step_quarantined by blast
  qed (use assms(1,2) in \<open>simp_all add: step_quarantined\<close>)
qed

lemma quiet_steps_quarantined:
  assumes "(quiet_step V cid k)\<^sup>*\<^sup>* w w'" "memory_run V w" "quarantined cid k w"
  shows "memory_run V w' \<and> quarantined cid k w'"
  using assms
proof (induction rule: rtranclp_induct)
  case (step u v)
  then have u: "memory_run V u" "quarantined cid k u" by auto
  have "memory_run V v" using u(1) step(2) reach_step unfolding quiet_step_def by metis
  moreover have "quarantined cid k v"
    using quiet_step_quarantined [OF _ u(2) step(2)] memory_system.reach_inv [OF u(1)] by blast
  ultimately show ?case by simp
qed simp

lemma quarantined_sinks:
  assumes "memory_ok w" "quarantined cid k w"
  shows "\<not> is_ok (fst (memory_read V K cid k w))" "\<not> is_ok (fst (memory_export V K cid k w))"
proof -
  let ?s = "snd (sweep_expired_locked V (mc_order K) (mc_clk K 0) (mc_clk K 1) cid w)"
  have s: "quarantined cid k ?s" by (rule sweep_quarantined [OF assms])
  have "te_poisoned e" if "container_of ?s cid = Some c" "cell c k = Some e" for c e
    using s that unfolding quarantined_def by blast
  then show "\<not> is_ok (fst (memory_read V K cid k w))"
    by (auto simp: memory_read_def Let_def get_container_Inr get_entry_Inr simp del: One_nat_def split: sum.splits)
  have "te_poisoned e" if "container_of w cid = Some c" "cell c k = Some e" for c e
    using assms(2) that unfolding quarantined_def by blast
  then show "\<not> is_ok (fst (memory_export V K cid k w))"
    by (auto simp: memory_export_def get_container_Inr get_entry_Inr split: sum.splits)
qed

lemma front_apply_containers:
  "container_of (snd (forget_front_apply V K cid key grant batch c e derived w))
     = container_of (put_container cid (fold poison_entry derived (drop_node key c)) w)"
proof (rule container_of_cong)
  have use: "grant_use C clk h nt u = (r, v) \<Longrightarrow> mw_registry v = mw_registry u" for C clk h nt r and u v :: "'a memory_world_scheme"
    using registry_use [of C clk h nt u] by simp
  show "mw_registry (snd (forget_front_apply V K cid key grant batch c e derived w))
      = mw_registry (put_container cid (fold poison_entry derived (drop_node key c)) w)"
    by (auto simp only: forget_front_apply_def Let_def snd_conv registry_frame dest!: use split: prod.splits sum.splits)
qed

lemma cell_poisons: "k \<notin> set xs \<Longrightarrow> cell (fold poison_entry xs c) k = cell c k"
  by (induction xs arbitrary: c) (auto simp: poison_entry_def split: option.splits)

text \<open>The outcome of an applied forget: the reported keys are the descendants other than the target,
  and target and reported keys are out of reach.\<close>

lemma forget_front_effect:
  assumes ok: "memory_ok w" and f: "forget_front V K cid key grant False w = (Inr out, w')"
  shows "\<exists>c c'. container_of w cid = Some c \<and> without (expired_set (mc_clk K 2) c) c c'
    \<and> insert key (set (ff_poisoned out)) = descendants (tc_children c') key
    \<and> (\<forall>k \<in> descendants (tc_children c') key. quarantined cid k w')
    \<and> (\<exists>d. container_of w' cid = Some d
        \<and> (\<forall>k. k \<notin> expired_set (mc_clk K 2) c \<union> descendants (tc_children c') key \<longrightarrow> cell d k = cell c k))"
proof (cases rule: forget_front_cases [of V K cid key grant False w])
  case (admitted c e)
  let ?b = "fresh_front_batch_id V (mc_millis K) w" and ?w = "bump_mem_seq w"
  let ?s = "snd (sweep_expired_locked V (mc_order K) (mc_clk K 2) (mc_clk K 3) cid ?w)"
  have okw: "memory_ok ?w" "container_of ?w cid = Some c" using ok admitted(1) by simp_all
  have s: "memory_ok ?s" using okw(1) by (rule sweep_ok)
  obtain c' where c': "container_of ?s cid = Some c'" "without (expired_set (mc_clk K 2) c) c c'"
    using sweep_effect [OF okw] by (metis fun_upd_same)
  show ?thesis
  proof (cases rule: forget_front_locked_cases [of V K cid key grant False ?b ?w])
    case stopped
    then show ?thesis using f admitted(6) by simp
  next
    case (applied d e)
    have d: "d = c'" using applied(1) c'(1) by simp
    let ?D = "descendants (tc_children c') key"
    let ?ds = "filter (\<lambda>k. k \<noteq> key) (cp_closure (plan_cascade key (tc_children c') (tc_retained c')))"
    have run: "forget_front_apply V K cid key grant ?b c' e ?ds ?s = (Inr out, w')" using f admitted(6) applied(5) d by simp
    have ok': "container_ok c'" using memory_okD(2) [OF s c'(1)] .
    note dn = drop_node_without [OF ok', of key]
    have live: "?D \<subseteq> dom (cell c')" using descendants_live [OF ok'] applied(2) d by blast
    have "filter (\<lambda>k. map_of (tc_entries (drop_node key c')) k \<noteq> None) ?ds = ?ds"
      unfolding filter_id_conv using live dn by (auto simp: plan_closure without_def cell_def [symmetric] restrict_map_def dom_def)
    then have out: "ff_poisoned out = ?ds"
      using run by (auto simp only: forget_front_apply_def Let_def prod.inject sum.simps forget_front_outcome.simps
          split: prod.splits sum.splits)
    then have set: "insert key (set (ff_poisoned out)) = ?D" by (auto simp: plan_closure)
    have "quarantined cid k w'" if "k \<in> ?D" for k
    proof -
      have "sealed_off k (drop_node key c') \<or> k \<in> set ?ds"
        using that dn by (auto simp: sealed_off_def without_def restrict_map_def plan_closure split: if_splits)
      then have "quarantined cid k (put_container cid (fold poison_entry ?ds (drop_node key c')) ?s)"
        using sealed_off_poisons by (auto simp: quarantined_iff split: if_splits)
      from front_apply_quarantined [OF this] have "quarantined cid k (snd (forget_front_apply V K cid key grant ?b c' e ?ds ?s))" .
      then show ?thesis unfolding run by simp
    qed
    moreover have "\<exists>d. container_of w' cid = Some d
        \<and> (\<forall>k. k \<notin> expired_set (mc_clk K 2) c \<union> ?D \<longrightarrow> cell d k = cell c k)"
    proof (intro exI conjI allI impI)
      have "container_of w' cid = container_of (put_container cid (fold poison_entry ?ds (drop_node key c')) ?s) cid"
        using front_apply_containers [of V K cid key grant ?b c' e ?ds ?s] by (simp add: run)
      also have "\<dots> = Some (fold poison_entry ?ds (drop_node key c'))"
        using c'(1) by (auto simp: container_of_put container_of_def split: option.splits)
      finally show "container_of w' cid = Some (fold poison_entry ?ds (drop_node key c'))" .
      fix k assume k: "k \<notin> expired_set (mc_clk K 2) c \<union> ?D"
      then have "cell (fold poison_entry ?ds (drop_node key c')) k = cell (drop_node key c') k"
        by (intro cell_poisons) (auto simp: plan_closure)
      also have "\<dots> = cell c k" using k dn c'(2) by (auto simp: without_def restrict_map_def)
      finally show "cell (fold poison_entry ?ds (drop_node key c')) k = cell c k" .
    qed
    ultimately show ?thesis using admitted(1) c'(2) set by blast
  qed
qed (use f in simp)


lemma mem_w4_front: "is_ok (fst (forget_front sample_vault (sample_call 6) mem_cid ''a'' mem_grant False mem_w4))"
proof -
  let ?K = "sample_call 6" and ?w = "bump_mem_seq mem_w4"
  have clk: "mc_clk ?K i = 6" for i by (simp add: sample_call_def)
  have chk: "check_active (\<lambda>_. 6) mem_grant ?w = Inr (record_of_row mem_row)" using mem_w4_check by simp
  have sc: "scope_attenuates (gh_scope mem_grant) (forget_scope mem_cid)" by (simp add: mem_grant_def scope_attenuates_refl)
  have c: "get_container fn mem_cid ?w = Inr mem_c2" for fn using mem_w4_container by (simp add: get_container_Inr)
  have e: "get_entry fn mem_c2 ''a'' = Inr (mem_entry ''x'' [])" for fn by (simp add: get_entry_def mem_c2_def)
  have r: "tc_retained mem_c2 = {}" "tc_label mem_c2 = MemPublic" by (simp_all add: mem_c2_def mem_c0_def)
  have "expired_set 6 mem_c2 = {}"
    by (auto simp: expired_set_def cell_def mem_c2_def mem_entry_def TypedEntry_new_def is_expired_def split: if_splits)
  then have "expired_keys h 6 mem_c2 = []" for h by (metis set_empty set_expired_keys)
  then have sw: "snd (sweep_expired_locked sample_vault h 6 6 mem_cid ?w) = ?w" for h
    using mem_w4_container by (simp add: sweep_expired_locked_def mem_w4_registry)
  have b: "cp_blocked_by (plan_cascade ''a'' (tc_children mem_c2) {}) = []" by (simp add: plan_blocked_Nil)
  have use: "is_ok (fst (grant_use C (\<lambda>i. 6) mem_grant nt (put_container cid x ?w)))" for C nt cid x
    by (subst mem_w4_use) simp_all
  have ap: "is_ok (fst (forget_front_apply sample_vault ?K mem_cid ''a'' mem_grant bt mem_c2 en ds ?w))" for bt en ds
    using use by (simp only: forget_front_apply_def Let_def clk split: prod.splits sum.splits) (metis fst_conv is_ok_simps)
  show ?thesis
    by (simp only: forget_front_def forget_front_locked_def Let_def clk c e r chk sc sw b sum.case if_False if_True simp_thms
        mem_label.distinct ap)
qed


end
