(* ===== verification/Memory_Recall.thy ===== *)
theory Memory_Recall
  imports Memory_Properties Labels
begin

text \<open>
  Reading back what was stored.
\<close>

section \<open>Storing and reading\<close>

text \<open>What the code relies on: the MAC yields 32 bytes, and the cipher inverts itself under the same
  key and nonce, with a tag of 16 bytes.\<close>

definition vault_ok :: "vault \<Rightarrow> bool" where
  "vault_ok V \<longleftrightarrow> crypto_ok (va_crypto V)
     \<and> (\<forall>m. \<exists>mac. va_hmac V (va_master V) m = Some mac \<and> length mac = 32)
     \<and> (\<forall>key nonce plain. length key = 32 \<longrightarrow> length nonce = 12 \<longrightarrow>
         (\<exists>ct. va_seal V key nonce plain = Some ct \<and> length ct = length plain + 16 \<and> va_unseal V key nonce ct = Some plain))"

lemma subject_key_ok: "vault_ok V \<Longrightarrow> \<exists>key. at_rest_key V (subject_key_hex V subject) = Inr key \<and> length key = 32"
proof -
  assume V: "vault_ok V"
  then obtain mac where "va_hmac V (va_master V) (''memory-typed:'' @ subject) = Some mac" "length mac = 32"
    unfolding vault_ok_def by blast
  moreover have "hex_decode (va_crypto V) (hex_encode (va_crypto V) mac) = Some mac"
    using V by (simp add: vault_ok_def crypto_ok_def)
  ultimately show ?thesis by (simp add: subject_key_hex_def at_rest_key_def)
qed

lemma seal_roundtrip:
  assumes "vault_ok V" "length nonce = 12" "utf8_ok plain"
  shows "\<exists>blob. encrypt_at_rest V nonce plain (subject_key_hex V subject) = Inr blob
    \<and> decrypt_at_rest V blob (subject_key_hex V subject) = Inr plain"
proof -
  obtain key where key: "at_rest_key V (subject_key_hex V subject) = Inr key" "length key = 32"
    using subject_key_ok [OF assms(1)] by blast
  obtain ct where "va_seal V key nonce plain = Some ct" "length ct = length plain + 16" "va_unseal V key nonce ct = Some plain"
    using assms(1,2) key(2) unfolding vault_ok_def by blast
  then show ?thesis using key(1) assms(2,3) by (simp add: encrypt_at_rest_def decrypt_at_rest_def)
qed

text \<open>The value that a container of this label hands out.\<close>

definition handed_out :: "mem_label \<Rightarrow> string \<Rightarrow> runtime_value" where
  "handed_out label text = (case label of MemPublic \<Rightarrow> VString text | MemPrivate \<Rightarrow> VSecret text)"

lemma stored_materialize:
  assumes "vault_ok V" "length nonce = 12" "utf8_ok text" "tc_subject c' = tc_subject c" "tc_label c' = tc_label c"
    "stored_form V nonce c text = Inr (te_stored e)"
  shows "materialize V c' e = Inr (handed_out (tc_label c) text)"
  using assms seal_roundtrip [OF assms(1-3), of "tc_subject c"]
  by (cases "te_stored e"; cases "tc_label c") (auto simp: stored_form_def materialize_def handed_out_def)

text \<open>
  What is stored is what is read. In every run, after a put that succeeded, a read of the key
  before its deadline returns exactly the text: as a string from a public container, and as a secret,
  through encryption under the subject's key and decryption, from a private one.
\<close>

theorem put_read_roundtrip:
  assumes V: "vault_ok V" and run: "memory_run V w" and c: "container_of w cid = Some c"
    and p: "memory_put V K cid key text ps opts w = (Inr (), w')"
    and utf8: "utf8_ok text" and nonce: "length (mc_nonce K) = 12"
    and alive: "\<forall>pr d t. put_attributes (mc_clk K 0) opts = Inr (pr, d, Some t) \<longrightarrow> mc_clk K' 0 < t"
  shows "fst (memory_read V K' cid key w') = Inr (handed_out (tc_label c) text)"
proof (cases rule: memory_put_cases [of V K cid key "text" ps opts w])
  case (stored d e detail)
  have d: "d = c" using stored(1) c by simp
  have ok: "memory_ok w'" using memory_system.reach_inv [OF run] put_ok p by (metis snd_conv)
  let ?c = "insert_entry key e c"
  have c1: "container_of w' cid = Some ?c" using stored(8) p c d by (cases "mw_registry w") (auto simp: container_of_def)
  obtain c2 where c2: "container_of (snd (sweep_expired_locked V (mc_order K') (mc_clk K' 0) (mc_clk K' 1) cid w')) cid = Some c2"
    "without (expired_set (mc_clk K' 0) ?c) ?c c2"
    using sweep_effect [OF ok c1] by (metis fun_upd_same)
  have "\<not> is_expired (mc_clk K' 0) e" using alive stored(7) by (auto simp: is_expired_def split: option.splits)
  then have cell2: "cell c2 key = Some e"
    using c2(2) by (auto simp: without_def expired_set_def insert_entry_cell restrict_map_def)
  have "tc_subject c2 = tc_subject c" "tc_label c2 = tc_label c"
    using c2(2) by (simp_all add: without_def same_identity_def insert_entry_def)
  then have m: "materialize V c2 e = Inr (handed_out (tc_label c) text)"
    using stored_materialize [OF V nonce utf8] stored(4) d by blast
  have "mw_registry w' \<noteq> None" using c1 by (cases "mw_registry w'") (auto simp: container_of_def)
  moreover have "get_container fn cid (snd (sweep_expired_locked V (mc_order K') (mc_clk K' 0) (mc_clk K' 1) cid w')) = Inr c2" for fn
    using c2(1) by (simp add: get_container_Inr)
  moreover have "get_entry fn c2 key = Inr e" for fn using cell2 by (simp add: get_entry_Inr)
  ultimately show ?thesis using stored(6) m by (simp add: memory_read_def Let_def del: One_nat_def)
qed (use p in simp)

lemma sample_vault_ok: "vault_ok sample_vault"
  by (simp add: vault_ok_def sample_vault_def sample_crypto_ok pad_to_def) arith

text \<open>A private container of a subject who consented.\<close>

definition priv_w0 :: memory_world where
  "priv_w0 = mem_w0\<lparr>mw_consent := Some [\<lparr>cr_id = 1, cr_kind = ''grant'', cr_subject = ''bob'', cr_scope = ''memory:bob'',
     cr_ttl_seconds = 0, cr_issued_at = 1, cr_expires_at = None, cr_note = []\<rparr>]\<rparr>"

definition priv_w1 :: memory_world where
  "priv_w1 = snd (memory_open sample_vault (sample_call 5) ''bob'' MemPrivate priv_w0)"

lemma priv_w1_run: "memory_run sample_vault priv_w1"
proof -
  have "memory_run sample_vault mem_w0"
    by (rule reach_init) (simp add: memory_start_def grants_start_def mem_w0_def world_rows_def world_events_def)
  then have "memory_run sample_vault priv_w0" unfolding priv_w0_def by (rule reach_step) (rule step_consent)
  then show ?thesis unfolding priv_w1_def by (rule reach_step) (rule step_open)
qed

definition priv_c :: typed_container where
  "priv_c = mem_c0\<lparr>tc_label := MemPrivate\<rparr>"

lemma priv_w1_container: "container_of priv_w1 mem_cid = Some priv_c"
proof -
  have "mw_registry priv_w1 = Some [(mem_cid, priv_c)]"
    by (simp add: priv_w1_def memory_open_def priv_w0_def mem_w0_def registry_values_def iter_order_def active_grant_for_def
        with_conn_def unexpired_def last_revoke_def memory_scope_def map_filter_simps put_container_def priv_c_def mem_c0_def
        mem_cid_def fresh_container_id_def memory_fresh_def sample_call_def trim_def is_whitespace_def Let_def)
  then show ?thesis by (simp add: container_of_def)
qed

lemma priv_put: "\<exists>w'. memory_put sample_vault (sample_call 5) mem_cid ''k'' ''hi'' [] no_opts priv_w1 = (Inr (), w')"
proof -
  have c: "get_container fn mem_cid priv_w1 = Inr priv_c" for fn using priv_w1_container by (simp add: get_container_Inr)
  obtain blob where "encrypt_at_rest sample_vault (replicate 12 (CHR ''n'')) ''hi'' (subject_key_hex sample_vault ''bob'') = Inr blob"
    using seal_roundtrip [OF sample_vault_ok, of "replicate 12 (CHR ''n'')" "''hi''" "''bob''"] by (auto simp: in_bytes_def)
  then show ?thesis
    by (simp add: memory_put_def c trim_def is_whitespace_def put_attributes_def no_opts_def stored_form_def priv_c_def mem_c0_def
        sample_call_def Let_def)
qed

theorem put_read_roundtrip_witness:
  "\<exists>w'. memory_put sample_vault (sample_call 5) mem_cid ''k'' ''hi'' [] no_opts priv_w1 = (Inr (), w')
     \<and> fst (memory_read sample_vault (sample_call 6) mem_cid ''k'' w') = Inr (VSecret ''hi'')"
proof -
  obtain w' where p: "memory_put sample_vault (sample_call 5) mem_cid ''k'' ''hi'' [] no_opts priv_w1 = (Inr (), w')"
    using priv_put by blast
  have "fst (memory_read sample_vault (sample_call 6) mem_cid ''k'' w') = Inr (handed_out (tc_label priv_c) ''hi'')"
    by (rule put_read_roundtrip [OF sample_vault_ok priv_w1_run priv_w1_container p])
      (simp_all add: in_bytes_def sample_call_def no_opts_def put_attributes_def)
  with p show ?thesis by (simp add: handed_out_def priv_c_def)
qed

end
