(* ===== verification/Floats.thy ===== *)
theory Floats
  imports Values
begin

text \<open>
  Arithmetic and comparison of the doubles the language computes with: the exact rational result
  rounded to 53 significant bits, half to even, with gradual underflow and overflow to infinity,
  which is what \<open>a + b\<close>, \<open>a - b\<close>, \<open>a * b\<close> and \<open>a / b\<close> do on \<open>f64\<close>. The two zeros are one number here:
  no operation of this development tells them apart (division by zero is refused before it is
  computed). The lemmas show that the rounding stays within half a unit of the exact result and loses
  nothing on the integers below 2 to the 53rd.
\<close>

section \<open>Rounding a rational\<close>

definition pow2 :: "int \<Rightarrow> rat" where
  "pow2 k = (if 0 \<le> k then 2 ^ nat k else 1 / 2 ^ nat (- k))"

text \<open>The exponent of a positive rational: \<open>2 ^ e \<le> x < 2 ^ (e + 1)\<close>.\<close>

definition exponent :: "rat \<Rightarrow> int" where
  "exponent x =
     (let (p, q) = quotient_of x; e = int (bit_length (nat p)) - int (bit_length (nat q))
      in if pow2 e \<le> x then e else e - 1)"

definition round_half_even :: "rat \<Rightarrow> int" where
  "round_half_even x =
     (let q = \<lfloor>x\<rfloor>; r = x - of_int q
      in if r > 1 / 2 \<or> r = 1 / 2 \<and> odd q then q + 1 else q)"

text \<open>The distance of neighbouring doubles around a positive rational.\<close>

definition ulp :: "rat \<Rightarrow> rat" where
  "ulp x = pow2 (max (exponent x) (- 1022) - 52)"

definition f64_of_rat :: "rat \<Rightarrow> f64" where
  "f64_of_rat x =
     (if x = 0 then Fin 0
      else let u = ulp \<bar>x\<bar>; m = of_int (round_half_even (\<bar>x\<bar> / u)) * u
           in if m \<ge> pow2 1024 then Infinite (0 < x) else Fin (if 0 < x then m else - m))"

section \<open>Operations\<close>

fun f64_neg :: "f64 \<Rightarrow> f64" where
  "f64_neg (Fin x) = Fin (- x)"
| "f64_neg (Infinite pos) = Infinite (\<not> pos)"
| "f64_neg NaN = NaN"

fun f64_add :: "f64 \<Rightarrow> f64 \<Rightarrow> f64" where
  "f64_add (Fin x) (Fin y) = f64_of_rat (x + y)"
| "f64_add (Infinite p) (Infinite q) = (if p = q then Infinite p else NaN)"
| "f64_add (Infinite p) (Fin _) = Infinite p"
| "f64_add (Fin _) (Infinite q) = Infinite q"
| "f64_add _ _ = NaN"

definition f64_sub :: "f64 \<Rightarrow> f64 \<Rightarrow> f64" where
  "f64_sub a b = f64_add a (f64_neg b)"

fun f64_mul :: "f64 \<Rightarrow> f64 \<Rightarrow> f64" where
  "f64_mul (Fin x) (Fin y) = f64_of_rat (x * y)"
| "f64_mul (Infinite p) (Infinite q) = Infinite (p = q)"
| "f64_mul (Infinite p) (Fin y) = (if y = 0 then NaN else Infinite (p = (0 < y)))"
| "f64_mul (Fin x) (Infinite q) = (if x = 0 then NaN else Infinite ((0 < x) = q))"
| "f64_mul _ _ = NaN"

text \<open>\<open>a / b\<close> for a divisor that is not zero.\<close>

fun f64_div :: "f64 \<Rightarrow> f64 \<Rightarrow> f64" where
  "f64_div (Fin x) (Fin y) = f64_of_rat (x / y)"
| "f64_div (Infinite p) (Fin y) = Infinite (p = (0 < y))"
| "f64_div (Fin x) (Infinite _) = Fin 0"
| "f64_div _ _ = NaN"

fun f64_lt :: "f64 \<Rightarrow> f64 \<Rightarrow> bool" where
  "f64_lt (Fin x) (Fin y) = (x < y)"
| "f64_lt (Fin x) (Infinite q) = q"
| "f64_lt (Infinite p) (Fin y) = (\<not> p)"
| "f64_lt (Infinite p) (Infinite q) = (\<not> p \<and> q)"
| "f64_lt _ _ = False"

fun f64_eq :: "f64 \<Rightarrow> f64 \<Rightarrow> bool" where
  "f64_eq (Fin x) (Fin y) = (x = y)"
| "f64_eq (Infinite p) (Infinite q) = (p = q)"
| "f64_eq _ _ = False"

definition f64_le :: "f64 \<Rightarrow> f64 \<Rightarrow> bool" where
  "f64_le a b \<longleftrightarrow> f64_lt a b \<or> f64_eq a b"

text \<open>\<open>n as isize\<close>: truncation towards zero, saturating; NaN gives 0.\<close>

fun f64_as_isize :: "f64 \<Rightarrow> i64" where
  "f64_as_isize (Fin x) =
     (let t = (if x < 0 then - \<lfloor>- x\<rfloor> else \<lfloor>x\<rfloor>) in max (- (2 ^ 63)) (min t (2 ^ 63 - 1)))"
| "f64_as_isize (Infinite pos) = (if pos then 2 ^ 63 - 1 else - (2 ^ 63))"
| "f64_as_isize NaN = 0"

section \<open>What the operations keep\<close>

lemma pow2_pos [simp]: "0 < pow2 k"
  by (simp add: pow2_def)

lemma round_half_even_int [simp]: "round_half_even (of_int k) = k"
  by (simp add: round_half_even_def)

lemma round_half_even_near: "\<bar>of_int (round_half_even x) - x\<bar> \<le> 1 / 2"
proof -
  have "of_int \<lfloor>x\<rfloor> \<le> x" "x < of_int \<lfloor>x\<rfloor> + 1" by linarith+
  then show ?thesis
    by (cases "x - of_int \<lfloor>x\<rfloor> > 1 / 2 \<or> x - of_int \<lfloor>x\<rfloor> = 1 / 2 \<and> odd \<lfloor>x\<rfloor>")
       (auto simp add: round_half_even_def Let_def abs_le_iff field_simps)
qed

text \<open>A finite sum is within half a unit of the exact one.\<close>

lemma f64_of_rat_near:
  assumes "f64_of_rat x = Fin y" "x \<noteq> 0"
  shows "\<bar>y - x\<bar> \<le> ulp \<bar>x\<bar> / 2"
proof -
  define u where "u = ulp \<bar>x\<bar>"
  define m where "m = of_int (round_half_even (\<bar>x\<bar> / u)) * u"
  have "0 < u" by (simp add: u_def ulp_def)
  have "\<bar>of_int (round_half_even (\<bar>x\<bar> / u)) - \<bar>x\<bar> / u\<bar> * u \<le> 1 / 2 * u"
    using round_half_even_near \<open>0 < u\<close> by (intro mult_right_mono) auto
  moreover have "\<bar>of_int (round_half_even (\<bar>x\<bar> / u)) - \<bar>x\<bar> / u\<bar> * u = \<bar>m - \<bar>x\<bar>\<bar>"
  proof -
    have "(of_int (round_half_even (\<bar>x\<bar> / u)) - \<bar>x\<bar> / u) * u = m - \<bar>x\<bar>"
      using \<open>0 < u\<close> by (simp add: m_def left_diff_distrib)
    then show ?thesis using \<open>0 < u\<close> by (metis abs_mult abs_of_pos)
  qed
  ultimately have "\<bar>m - \<bar>x\<bar>\<bar> \<le> u / 2" by simp
  moreover have "y = (if 0 < x then m else - m)"
    using assms by (auto simp: f64_of_rat_def Let_def m_def u_def split: if_splits)
  ultimately show ?thesis by (auto simp: u_def abs_if split: if_splits)
qed

lemma f64_eq_sym: "f64_eq a b = f64_eq b a"
  by (cases a; cases b) auto

lemma f64_add_comm: "f64_add a b = f64_add b a"
  by (cases a; cases b) (auto simp: add.commute)

lemma f64_mul_comm: "f64_mul a b = f64_mul b a"
  by (cases a; cases b) (auto simp: mult.commute)

subsection \<open>Exactness on the integers\<close>

lemma bit_length_0 [simp]: "bit_length 0 = 0"
  by (simp add: bit_length.simps)

lemma bit_length_1 [simp]: "bit_length (Suc 0) = 1"
  by (simp add: bit_length.simps)

lemma bit_length_bounds: "0 < n \<Longrightarrow> 2 ^ (bit_length n - 1) \<le> n \<and> n < 2 ^ bit_length n"
proof (induction n rule: bit_length.induct)
  case (1 n)
  show ?case
  proof (cases "n div 2 = 0")
    case True
    with 1 have "n = 1" by linarith
    then show ?thesis by simp
  next
    case False
    define b where "b = bit_length (n div 2)"
    have b: "bit_length n = Suc b" using 1 by (simp add: b_def bit_length.simps)
    have ih: "2 ^ (b - 1) \<le> n div 2" "n div 2 < 2 ^ b" using 1 False by (auto simp: b_def)
    have "b \<noteq> 0" using ih(2) False by (auto intro: ccontr)
    then have "2 ^ b = 2 * (2 ^ (b - 1) :: nat)" by (cases b) auto
    with ih show ?thesis by (simp add: b) linarith
  qed
qed

lemma bit_length_le:
  assumes "n < 2 ^ k"
  shows "bit_length n \<le> k"
proof (rule ccontr)
  assume "\<not> bit_length n \<le> k"
  then have "0 < n" by (cases n) auto
  moreover have "(2 :: nat) ^ k \<le> 2 ^ (bit_length n - 1)"
    using \<open>\<not> bit_length n \<le> k\<close> by (intro power_increasing) auto
  ultimately show False using bit_length_bounds [of n] assms by linarith
qed

lemma exponent_int:
  assumes "0 < k" "k < 2 ^ 53"
  shows "0 \<le> exponent (of_int k) \<and> exponent (of_int k) \<le> 52"
proof -
  define b where "b = bit_length (nat k)"
  have b: "2 ^ (b - 1) \<le> nat k" "b \<le> 53" "0 < b"
    using assms bit_length_bounds [of "nat k"] bit_length_le [of "nat k" 53]
    by (auto simp: b_def nat_less_iff bit_length.simps)
  have "(2 :: rat) ^ (b - 1) \<le> of_nat (nat k)"
    using b(1) by (metis of_nat_le_iff of_nat_numeral of_nat_power)
  then have "pow2 (int b - 1) \<le> of_int k"
    using assms b(3) by (simp add: pow2_def nat_diff_distrib)
  then show ?thesis
    using b by (simp add: exponent_def b_def [symmetric] Let_def)
qed

text \<open>Every integer below 2 to the 53rd is a double: nothing is lost.\<close>

lemma f64_of_rat_int:
  assumes "\<bar>k\<bar> < 2 ^ 53"
  shows "f64_of_rat (of_int k) = Fin (of_int k)"
proof (cases "k = 0")
  case True
  then show ?thesis by (simp add: f64_of_rat_def)
next
  case False
  define e where "e = exponent (of_int \<bar>k\<bar>)"
  have e: "0 \<le> e" "e \<le> 52" using exponent_int [of "\<bar>k\<bar>"] False assms by (auto simp: e_def)
  define d where "d = nat (52 - e)"
  have "ulp (of_int \<bar>k\<bar>) = pow2 (e - 52)"
    using e by (simp add: ulp_def e_def [symmetric] del: of_int_abs)
  then have u: "ulp (of_int \<bar>k\<bar>) = 1 / 2 ^ d"
    using e by (auto simp: d_def pow2_def)
  have q: "of_int \<bar>k\<bar> / (1 / 2 ^ d) = (of_int (\<bar>k\<bar> * 2 ^ d) :: rat)" by simp
  have m: "of_int (round_half_even (of_int \<bar>k\<bar> / (1 / 2 ^ d))) * (1 / 2 ^ d) = (of_int \<bar>k\<bar> :: rat)"
    unfolding q round_half_even_int by simp
  have "(of_int \<bar>k\<bar> :: rat) < of_int (2 ^ 53)" using assms by (simp only: of_int_less_iff)
  also have "\<dots> \<le> 2 ^ 1024"
    using power_increasing [of 53 1024 "2 :: rat"] by simp
  finally have "\<not> of_int \<bar>k\<bar> \<ge> pow2 1024" by (simp add: pow2_def)
  moreover have "\<bar>of_int k :: rat\<bar> = of_int \<bar>k\<bar>" by simp
  ultimately have "f64_of_rat (of_int k) = Fin (if 0 < k then of_int \<bar>k\<bar> else - of_int \<bar>k\<bar>)"
    using False by (simp only: f64_of_rat_def Let_def u m of_int_0_less_iff of_int_eq_0_iff if_False)
  then show ?thesis using False by (auto simp: abs_if)
qed

lemma f64_arith_exact:
  assumes "\<bar>a + b\<bar> < 2 ^ 53"
  shows "f64_add (Fin (of_int a)) (Fin (of_int b)) = Fin (of_int (a + b))"
  using f64_of_rat_int [OF assms] by simp

end
