(* ===== verification/Lang_Values.thy ===== *)
theory Lang_Values
  imports Floats
begin

text \<open>
  What both engines of the language do with a value: the operators, the two readings of a value as
  a condition, field and index access, the result of \<open>try\<close> and the stable code of an error. The
  tree walker (\<open>src/interpreter/execution.rs\<close>) and the virtual machine (\<open>src/vm.rs\<close>) have their own
  copies of the operators; both are here, and the last section compares them.
\<close>

section \<open>Error codes\<close>

definition coded_error :: "string \<Rightarrow> string \<Rightarrow> string" where
  "coded_error code msg = ''['' @ code @ ''] '' @ msg"

definition CODE_RUNTIME_ERROR :: string where "CODE_RUNTIME_ERROR = ''RUNTIME_ERROR''"
definition CODE_TYPE_MISMATCH :: string where "CODE_TYPE_MISMATCH = ''TYPE_MISMATCH''"
definition CODE_UNDEFINED_VARIABLE :: string where "CODE_UNDEFINED_VARIABLE = ''UNDEFINED_VARIABLE''"
definition CODE_CALL_DEPTH_EXCEEDED :: string where "CODE_CALL_DEPTH_EXCEEDED = ''CALL_DEPTH_EXCEEDED''"

text \<open>The codes a subsystem may stamp on an error for \<open>try\<close> to read, in the order of the table.\<close>

definition ORIGIN_STAMPED_CODES :: "string list" where
  "ORIGIN_STAMPED_CODES =
    [''LLM_TIMEOUT'', ''LLM_PROVIDER_UNAVAILABLE'', ''SQL_ERROR'', ''SANDBOX_VIOLATION'',
     ''PRECISION_LOSS'', ''NOT_IMPLEMENTED'', ''BUILTIN_PARKED'', ''SINK_CLEARANCE_RUNTIME'',
     ''MEDIA_SEALED_EGRESS'', ''BACKEND_DEGRADED'', ''CRON_JOB_FAILED'', ''AUDIO_CONSENT_REQUIRED'',
     ''SESSION_UNKNOWN'', ''SESSION_CONTRACT'', ''MCP_SPAWN_FAILED'', ''MCP_TIMEOUT'',
     ''MCP_IO_ERROR'', ''MCP_TOOL_ERROR'', ''MCP_TOOL_NOT_FOUND'', ''EMBODIED_BACKEND_UNKNOWN'',
     ''EMBODIED_CLASS_MISMATCH'', ''EMBODIED_UNBOUNDED'', ''EMBODIED_HANDLE_UNKNOWN'',
     ''EMBODIED_PROOF_INVALID'', ''WORLD_STATE_PRIVATE'', ''FORECAST_TAINTED'',
     ''FORECAST_HANDLE_UNKNOWN'', ''MEMORY_RECALL_CONSENT_REQUIRED'',
     ''MEMORY_FORGET_CONSENT_REQUIRED'', ''MEMORY_POISONED'', ''SANDBOX_SENSITIVE_PATH'',
     ''MCP_PROTOCOL_ERROR'', ''MCP_NOT_ALLOWLISTED'', ''SPECTRAL_INPUT'', ''HTTP_TIMEOUT'',
     ''HTTP_CONNECT'', ''HTTP_STATUS'', ''HTTP_TIMEOUT_RANGE'', ''HTTP_HOST_NOT_ALLOWED'',
     ''HTTP_ROBOTS_DENIED'', ''HTTP_HEADER_NOT_ALLOWED'', ''HTTP_HEADER_INJECTION'',
     ''DATE_INVALID'', ''NORMAL_SAMPLE_STDDEV'']"

fun split_stamp :: "string list \<Rightarrow> string \<Rightarrow> (string \<times> string) option" where
  "split_stamp [] err = None"
| "split_stamp (code # codes) err =
     (case strip_prefix (''['' @ code @ ''] '') err of
        Some rest \<Rightarrow> Some (code, rest)
      | None \<Rightarrow> split_stamp codes err)"

definition split_origin_stamp :: "string \<Rightarrow> (string \<times> string) option" where
  "split_origin_stamp err = split_stamp ORIGIN_STAMPED_CODES err"

definition stable_try_error_code :: "string \<Rightarrow> string" where
  "stable_try_error_code err =
     (case split_origin_stamp err of Some (code, _) \<Rightarrow> code | None \<Rightarrow> CODE_RUNTIME_ERROR)"

definition wrap_error_preserving_code :: "string \<Rightarrow> string \<Rightarrow> string" where
  "wrap_error_preserving_code head err =
     (case split_origin_stamp err of
        Some (code, rest) \<Rightarrow> coded_error code (head @ '': '' @ rest)
      | None \<Rightarrow> head @ '': '' @ err)"

section \<open>Reading a value\<close>

fun get_field :: "runtime_value \<Rightarrow> string \<Rightarrow> string + runtime_value" where
  "get_field (VStruct _ fs) field =
     (case fs field of
        Some v \<Rightarrow> Inr v
      | None \<Rightarrow> Inl (''field '' @ [CHR 0x27] @ field @ [CHR 0x27] @ '' not found on struct''))"
| "get_field v field =
     Inl (''cannot access field '' @ [CHR 0x27] @ field @ [CHR 0x27] @ '' on non-struct value ('' @ type_name v @ '')'')"

text \<open>\<open>as_bool\<close>: the reading of a condition. Composites and opaque values are refused.\<close>

fun as_bool :: "runtime_value \<Rightarrow> string + bool" where
  "as_bool (VBool b) = Inr b"
| "as_bool (VFloat f) = Inr (\<not> f64_eq f (Fin 0))"
| "as_bool (VString s) = Inr (s \<noteq> [])"
| "as_bool VUnit = Inr False"
| "as_bool v = Inl (coded_error CODE_TYPE_MISMATCH (''cannot convert '' @ type_name v @ '' to Bool''))"

text \<open>\<open>is_truthy\<close>: the reading of an operand of \<open>and\<close> and \<open>or\<close>, the same table in both engines.\<close>

fun is_truthy :: "runtime_value \<Rightarrow> bool" where
  "is_truthy (VString s) = (s \<noteq> [])"
| "is_truthy (VFloat f) = (\<not> f64_eq f (Fin 0))"
| "is_truthy (VBool b) = b"
| "is_truthy (VList items) = (items \<noteq> [])"
| "is_truthy _ = False"

definition try_error_struct :: "string \<Rightarrow> string \<Rightarrow> runtime_value" where
  "try_error_struct code message =
     VStruct ''TryError'' [''code'' \<mapsto> VString code, ''message'' \<mapsto> VString message]"

definition try_result_struct :: "bool \<Rightarrow> runtime_value \<Rightarrow> (string \<times> string) option \<Rightarrow> runtime_value" where
  "try_result_struct ok v error =
     VStruct ''TryResult''
       [''ok'' \<mapsto> VBool ok, ''value'' \<mapsto> v,
        ''error'' \<mapsto> (case error of None \<Rightarrow> VUnit | Some (code, message) \<Rightarrow> try_error_struct code message)]"

text \<open>The two results of a \<open>try\<close>: what both engines build from the outcome of the inner expression.\<close>

definition caught :: "string + runtime_value \<Rightarrow> runtime_value" where
  "caught r =
     (case r of
        Inr v \<Rightarrow> try_result_struct True v None
      | Inl e \<Rightarrow> try_result_struct False VUnit (Some (stable_try_error_code e, e)))"

section \<open>Operators of the tree walker\<close>

datatype binop = Add | Sub | Mul | Div | Gt | Lt | Ge | Le | Eq | Ne | And | Or

text \<open>The derived \<open>Debug\<close> name of an operator.\<close>

fun binop_debug :: "binop \<Rightarrow> string" where
  "binop_debug Add = ''Add''"
| "binop_debug Sub = ''Sub''"
| "binop_debug Mul = ''Mul''"
| "binop_debug Div = ''Div''"
| "binop_debug Gt = ''Gt''"
| "binop_debug Lt = ''Lt''"
| "binop_debug Ge = ''Ge''"
| "binop_debug Le = ''Le''"
| "binop_debug Eq = ''Eq''"
| "binop_debug Ne = ''Ne''"
| "binop_debug And = ''And''"
| "binop_debug Or = ''Or''"

definition MAX_STRING_LENGTH :: nat where
  "MAX_STRING_LENGTH = 1000000"

definition is_opaque_type :: "runtime_value \<Rightarrow> bool" where
  "is_opaque_type v =
     (case v of
        VSecret _ \<Rightarrow> True
      | VOther t \<Rightarrow> List.member [''Html'', ''Query'', ''Encrypted'', ''Hash'', ''Subgraph''] t
      | _ \<Rightarrow> False)"

definition concat_limited :: "string \<Rightarrow> string \<Rightarrow> string + runtime_value" where
  "concat_limited a b =
     (let result = a @ b
      in if length result > MAX_STRING_LENGTH
         then Inl (''string length '' @ show_dec (length result) @ '' exceeds maximum allowed ''
                   @ show_dec MAX_STRING_LENGTH)
         else Inr (VString result))"

definition opaque_refusal :: "runtime_value \<Rightarrow> string" where
  "opaque_refusal v = ''cannot concatenate opaque type '' @ type_name v"

definition concat_mismatch :: "runtime_value \<Rightarrow> runtime_value \<Rightarrow> string" where
  "concat_mismatch l r =
     coded_error CODE_TYPE_MISMATCH
       (''type mismatch in string concatenation: '' @ type_name l @ '' + '' @ type_name r
        @ '' (use to_string() explicitly)'')"

definition binop_mismatch :: "runtime_value \<Rightarrow> string \<Rightarrow> runtime_value \<Rightarrow> string" where
  "binop_mismatch l name r =
     coded_error CODE_TYPE_MISMATCH
       (''type mismatch in binary operation: '' @ type_name l @ '' '' @ name @ '' '' @ type_name r)"

definition float_pair :: "runtime_value \<Rightarrow> runtime_value \<Rightarrow> (f64 \<times> f64) option" where
  "float_pair l r = (case (l, r) of (VFloat a, VFloat b) \<Rightarrow> Some (a, b) | _ \<Rightarrow> None)"

text \<open>The equality arms: the scalar pairs, then the unit value against anything.\<close>

definition scalar_eq :: "runtime_value \<Rightarrow> runtime_value \<Rightarrow> bool option" where
  "scalar_eq l r =
     (case l of
        VFloat a \<Rightarrow> (case r of VFloat b \<Rightarrow> Some (f64_eq a b) | VUnit \<Rightarrow> Some False | _ \<Rightarrow> None)
      | VString a \<Rightarrow> (case r of VString b \<Rightarrow> Some (a = b) | VUnit \<Rightarrow> Some False | _ \<Rightarrow> None)
      | VBool a \<Rightarrow> (case r of VBool b \<Rightarrow> Some (a = b) | VUnit \<Rightarrow> Some False | _ \<Rightarrow> None)
      | VUnit \<Rightarrow> (case r of VUnit \<Rightarrow> Some True | _ \<Rightarrow> Some False)
      | _ \<Rightarrow> (case r of VUnit \<Rightarrow> Some False | _ \<Rightarrow> None))"

definition tw_match_binop :: "binop \<Rightarrow> runtime_value \<Rightarrow> runtime_value \<Rightarrow> string + runtime_value" where
  "tw_match_binop op l r =
     (let mismatch = Inl (binop_mismatch l (binop_debug op) r)
      in case op of
        Add \<Rightarrow> (case (l, r) of
            (VString a, VString b) \<Rightarrow> concat_limited a b
          | (VFloat a, VFloat b) \<Rightarrow> Inr (VFloat (f64_add a b))
          | _ \<Rightarrow> Inl (concat_mismatch l r))
      | Sub \<Rightarrow> (case float_pair l r of Some (a, b) \<Rightarrow> Inr (VFloat (f64_sub a b)) | None \<Rightarrow> mismatch)
      | Mul \<Rightarrow> (case float_pair l r of Some (a, b) \<Rightarrow> Inr (VFloat (f64_mul a b)) | None \<Rightarrow> mismatch)
      | Div \<Rightarrow> (case float_pair l r of
            Some (a, b) \<Rightarrow>
              if f64_eq b (Fin 0) then Inl ''division by zero'' else Inr (VFloat (f64_div a b))
          | None \<Rightarrow> mismatch)
      | Gt \<Rightarrow> (case float_pair l r of Some (a, b) \<Rightarrow> Inr (VBool (f64_lt b a)) | None \<Rightarrow> mismatch)
      | Lt \<Rightarrow> (case float_pair l r of Some (a, b) \<Rightarrow> Inr (VBool (f64_lt a b)) | None \<Rightarrow> mismatch)
      | Ge \<Rightarrow> (case float_pair l r of Some (a, b) \<Rightarrow> Inr (VBool (f64_le b a)) | None \<Rightarrow> mismatch)
      | Le \<Rightarrow> (case float_pair l r of Some (a, b) \<Rightarrow> Inr (VBool (f64_le a b)) | None \<Rightarrow> mismatch)
      | Eq \<Rightarrow> (case scalar_eq l r of Some b \<Rightarrow> Inr (VBool b) | None \<Rightarrow> mismatch)
      | Ne \<Rightarrow> (case scalar_eq l r of Some b \<Rightarrow> Inr (VBool (\<not> b)) | None \<Rightarrow> mismatch)
      | And \<Rightarrow> mismatch
      | Or \<Rightarrow> mismatch)"

definition tw_eval_binop :: "runtime_value \<Rightarrow> binop \<Rightarrow> runtime_value \<Rightarrow> string + runtime_value" where
  "tw_eval_binop left op right =
     (if op = Add \<and> is_opaque_type left then Inl (opaque_refusal left)
      else if op = Add \<and> is_opaque_type right then Inl (opaque_refusal right)
      else tw_match_binop op left right)"

section \<open>Operators of the virtual machine\<close>

text \<open>\<open>is_opaque_value\<close> lists the same variants again.\<close>

definition is_opaque_value :: "runtime_value \<Rightarrow> bool" where
  "is_opaque_value v =
     (case v of
        VSecret _ \<Rightarrow> True
      | VOther t \<Rightarrow> List.member [''Html'', ''Query'', ''Encrypted'', ''Hash'', ''Subgraph''] t
      | _ \<Rightarrow> False)"

definition vm_match_binop :: "binop \<Rightarrow> runtime_value \<Rightarrow> runtime_value \<Rightarrow> string + runtime_value" where
  "vm_match_binop op l r =
     (let mismatch = Inl (binop_mismatch l (binop_debug op) r)
      in case op of
        Add \<Rightarrow> (case (l, r) of
            (VString a, VString b) \<Rightarrow> concat_limited a b
          | (VFloat a, VFloat b) \<Rightarrow> Inr (VFloat (f64_add a b))
          | _ \<Rightarrow> Inl (concat_mismatch l r))
      | Sub \<Rightarrow> (case float_pair l r of Some (a, b) \<Rightarrow> Inr (VFloat (f64_sub a b)) | None \<Rightarrow> mismatch)
      | Mul \<Rightarrow> (case float_pair l r of Some (a, b) \<Rightarrow> Inr (VFloat (f64_mul a b)) | None \<Rightarrow> mismatch)
      | Div \<Rightarrow> (case float_pair l r of
            Some (a, b) \<Rightarrow>
              if f64_eq b (Fin 0) then Inl ''division by zero'' else Inr (VFloat (f64_div a b))
          | None \<Rightarrow> mismatch)
      | _ \<Rightarrow> mismatch)"

definition vm_eval_binop :: "runtime_value \<Rightarrow> binop \<Rightarrow> runtime_value \<Rightarrow> string + runtime_value" where
  "vm_eval_binop left op right =
     (if op = Add \<and> is_opaque_value left then Inl (opaque_refusal left)
      else if op = Add \<and> is_opaque_value right then Inl (opaque_refusal right)
      else vm_match_binop op left right)"

datatype compare_op = CGt | CLt | CGe | CLe | CEq | CNe

fun compare_debug :: "compare_op \<Rightarrow> string" where
  "compare_debug CGt = ''Gt''"
| "compare_debug CLt = ''Lt''"
| "compare_debug CGe = ''Ge''"
| "compare_debug CLe = ''Le''"
| "compare_debug CEq = ''Eq''"
| "compare_debug CNe = ''Ne''"

definition vm_eval_cmp :: "runtime_value \<Rightarrow> runtime_value \<Rightarrow> compare_op \<Rightarrow> string + runtime_value" where
  "vm_eval_cmp l r op =
     (let mismatch = Inl (binop_mismatch l (compare_debug op) r)
      in case op of
        CEq \<Rightarrow> (case scalar_eq l r of Some b \<Rightarrow> Inr (VBool b) | None \<Rightarrow> mismatch)
      | CNe \<Rightarrow> (case scalar_eq l r of Some b \<Rightarrow> Inr (VBool (\<not> b)) | None \<Rightarrow> mismatch)
      | CGt \<Rightarrow> (case float_pair l r of Some (a, b) \<Rightarrow> Inr (VBool (f64_lt b a)) | None \<Rightarrow> mismatch)
      | CLt \<Rightarrow> (case float_pair l r of Some (a, b) \<Rightarrow> Inr (VBool (f64_lt a b)) | None \<Rightarrow> mismatch)
      | CGe \<Rightarrow> (case float_pair l r of Some (a, b) \<Rightarrow> Inr (VBool (f64_le b a)) | None \<Rightarrow> mismatch)
      | CLe \<Rightarrow> (case float_pair l r of Some (a, b) \<Rightarrow> Inr (VBool (f64_le a b)) | None \<Rightarrow> mismatch))"

text \<open>The machine computes \<open>!=\<close> by negating the result of \<open>==\<close>.\<close>

definition vm_not_equal :: "runtime_value \<Rightarrow> runtime_value \<Rightarrow> string + runtime_value" where
  "vm_not_equal l r =
     (case vm_eval_cmp l r CEq of
        Inl e \<Rightarrow> Inl e
      | Inr (VBool b) \<Rightarrow> Inr (VBool (\<not> b))
      | Inr (VFloat f) \<Rightarrow> Inr (VFloat (if f64_eq f (Fin 1) then Fin 0 else Fin 1))
      | Inr v \<Rightarrow> Inr v)"

section \<open>Index access\<close>

text \<open>
  A Rust string is UTF-8: a character is a byte that is no continuation byte with the
  continuation bytes behind it. \<open>utf8_chars\<close> is \<open>s.chars()\<close> on such a string.
\<close>

definition is_continuation :: "char \<Rightarrow> bool" where
  "is_continuation c \<longleftrightarrow> (of_char c :: nat) div 64 = 2"

function utf8_chars :: "string \<Rightarrow> string list" where
  "utf8_chars [] = []"
| "utf8_chars (c # cs) =
     (c # takeWhile is_continuation cs) # utf8_chars (dropWhile is_continuation cs)"
  by pat_completeness auto
termination
  by (relation "measure length") (auto simp: le_imp_less_Suc length_dropWhile_le)

text \<open>
  The position \<open>n\<close> names in a sequence of \<open>len\<close> elements: a negative one counts from the end, with
  \<open>len.wrapping_sub((-n) as usize)\<close>.
\<close>

definition index_position :: "nat \<Rightarrow> f64 \<Rightarrow> nat" where
  "index_position len f =
     (let i = f64_as_isize f
      in if i < 0 then nat ((int len - int (as_u64 (wrap_i64 (- i)))) mod 2 ^ 64) else nat i)"

definition tw_index :: "runtime_value \<Rightarrow> runtime_value \<Rightarrow> string + runtime_value" where
  "tw_index base idx =
     (case (base, idx) of
        (VList items, VFloat f) \<Rightarrow>
          (let i = index_position (length items) f
           in if i < length items then Inr (items ! i)
              else Inl (''list index out of bounds: '' @ show_dec i))
      | (VStruct _ fs, VString key) \<Rightarrow>
          (case fs key of
             Some v \<Rightarrow> Inr v
           | None \<Rightarrow> Inl (''struct has no field '' @ [CHR 0x27] @ key @ [CHR 0x27]))
      | (VString s, VFloat f) \<Rightarrow>
          (let cs = utf8_chars s; i = index_position (length cs) f
           in Inr (VString (if i < length cs then cs ! i else [CHR 0x00])))
      | _ \<Rightarrow> Inl (''index access: expected List[Int] or Struct[String], got '' @ type_name base
                  @ ''['' @ type_name idx @ '']''))"

definition vm_index :: "runtime_value \<Rightarrow> runtime_value \<Rightarrow> runtime_value" where
  "vm_index base idx =
     (case (base, idx) of
        (VList items, VFloat f) \<Rightarrow>
          (let i = index_position (length items) f
           in if i < length items then items ! i else VUnit)
      | (VStruct _ fs, VString key) \<Rightarrow> (case fs key of Some v \<Rightarrow> v | None \<Rightarrow> VUnit)
      | _ \<Rightarrow> VUnit)"

section \<open>The two engines compared\<close>

lemma is_opaque_value_eq: "is_opaque_value = is_opaque_type"
  by (rule ext) (simp add: is_opaque_value_def is_opaque_type_def)

lemma vm_arith_eq_tw:
  assumes "op \<in> {Add, Sub, Mul, Div}"
  shows "vm_eval_binop l op r = tw_eval_binop l op r"
  using assms
  by (auto simp: vm_eval_binop_def tw_eval_binop_def is_opaque_value_eq vm_match_binop_def
        tw_match_binop_def Let_def)

fun compare_of :: "compare_op \<Rightarrow> binop" where
  "compare_of CGt = Gt"
| "compare_of CLt = Lt"
| "compare_of CGe = Ge"
| "compare_of CLe = Le"
| "compare_of CEq = Eq"
| "compare_of CNe = Ne"

lemma compare_debug_of [simp]: "binop_debug (compare_of op) = compare_debug op"
  by (cases op) auto

lemma vm_cmp_eq_tw: "vm_eval_cmp l r op = tw_eval_binop l (compare_of op) r"
  by (cases op) (auto simp: vm_eval_cmp_def tw_eval_binop_def tw_match_binop_def Let_def)

lemma vm_not_equal_cases:
  "vm_not_equal l r =
     (case scalar_eq l r of
        Some b \<Rightarrow> tw_eval_binop l Ne r
      | None \<Rightarrow> Inl (binop_mismatch l ''Eq'' r))"
  by (auto simp: vm_not_equal_def vm_eval_cmp_def tw_eval_binop_def tw_match_binop_def Let_def
      split: option.split)

end
