(* ===== verification/Lang_Expr.thy ===== *)
theory Lang_Expr
  imports Lang_Values
begin

text \<open>
  The expressions of the language that call no function, and what the tree walker makes of them
  (\<open>Expr\<close> in \<open>src/ast.rs\<close>, \<open>eval_expr_with_env\<close> in \<open>src/interpreter/execution.rs\<close>). Source spans carry no
  meaning and are left out; a struct literal lists its fields in the order the hash map yields them,
  which is the order both engines use. Calls, block-valued \<open>if\<close>, \<open>match\<close> and the media forms are not
  in this fragment.
\<close>

section \<open>Syntax\<close>

datatype expr =
  StringLit string
| FloatLit f64
| BoolLit bool
| Ident string
| FieldAccess expr string
| BinaryOp expr binop expr
| IfElse expr expr expr
| ListLit "expr list"
| IndexAccess expr expr
| StructLit "(string \<times> expr) list"
| Try expr

section \<open>The tree walker\<close>

text \<open>\<open>env.get(name)\<close> falling back to the variables of the interpreter.\<close>

definition tw_lookup ::
  "(string \<Rightarrow> runtime_value option) \<Rightarrow> (string \<Rightarrow> runtime_value option) \<Rightarrow> string \<Rightarrow> runtime_value option" where
  "tw_lookup env variables name =
     (case env name of Some v \<Rightarrow> Some v | None \<Rightarrow> variables name)"

definition undefined_variable :: "string \<Rightarrow> string" where
  "undefined_variable name = coded_error CODE_UNDEFINED_VARIABLE (''undefined variable: '' @ name)"

text \<open>The fields of a struct, inserted one after the other.\<close>

definition struct_fields :: "(string \<times> runtime_value) list \<Rightarrow> string \<Rightarrow> runtime_value option" where
  "struct_fields kvs = foldl (\<lambda>m (k, v). m(k \<mapsto> v)) Map.empty kvs"

text \<open>
  The arm for binary operators, on the results of its operands; the right one counts only where the
  code evaluates it.
\<close>

definition eval_binary :: "binop \<Rightarrow> string + runtime_value \<Rightarrow> string + runtime_value \<Rightarrow> string + runtime_value" where
  "eval_binary op left right =
     (case left of
        Inl e \<Rightarrow> Inl e
      | Inr l \<Rightarrow>
          if op = And \<and> \<not> is_truthy l then Inr (VBool False)
          else if op = Or \<and> is_truthy l then Inr (VBool True)
          else (case right of
                  Inl e \<Rightarrow> Inl e
                | Inr r \<Rightarrow> if op = And \<or> op = Or then Inr (VBool (is_truthy r)) else tw_eval_binop l op r))"

fun eval_expr :: "(string \<Rightarrow> runtime_value option) \<Rightarrow> expr \<Rightarrow> string + runtime_value"
  and eval_items :: "(string \<Rightarrow> runtime_value option) \<Rightarrow> expr list \<Rightarrow> string + runtime_value list"
  and eval_fields :: "(string \<Rightarrow> runtime_value option) \<Rightarrow> (string \<times> expr) list \<Rightarrow> string + runtime_value list" where
  "eval_expr lk (StringLit s) = Inr (VString s)"
| "eval_expr lk (FloatLit f) = Inr (VFloat f)"
| "eval_expr lk (BoolLit b) = Inr (VBool b)"
| "eval_expr lk (Ident name) =
     (case lk name of Some v \<Rightarrow> Inr v | None \<Rightarrow> Inl (undefined_variable name))"
| "eval_expr lk (FieldAccess base field) =
     (case eval_expr lk base of Inl e \<Rightarrow> Inl e | Inr v \<Rightarrow> get_field v field)"
| "eval_expr lk (BinaryOp left op right) = eval_binary op (eval_expr lk left) (eval_expr lk right)"
| "eval_expr lk (IfElse cond then_br else_br) =
     (case eval_expr lk cond of
        Inl e \<Rightarrow> Inl e
      | Inr v \<Rightarrow> (case as_bool v of
            Inl e \<Rightarrow> Inl e
          | Inr b \<Rightarrow> if b then eval_expr lk then_br else eval_expr lk else_br))"
| "eval_expr lk (ListLit items) =
     (case eval_items lk items of Inl e \<Rightarrow> Inl e | Inr vs \<Rightarrow> Inr (VList vs))"
| "eval_expr lk (IndexAccess base index) =
     (case eval_expr lk base of
        Inl e \<Rightarrow> Inl e
      | Inr b \<Rightarrow> (case eval_expr lk index of Inl e \<Rightarrow> Inl e | Inr i \<Rightarrow> tw_index b i))"
| "eval_expr lk (StructLit kvs) =
     (case eval_fields lk kvs of
        Inl e \<Rightarrow> Inl e
      | Inr vs \<Rightarrow> Inr (VStruct ''Struct'' (struct_fields (zip (map fst kvs) vs))))"
| "eval_expr lk (Try inner) = Inr (caught (eval_expr lk inner))"
| "eval_items lk [] = Inr []"
| "eval_items lk (e # es) =
     (case eval_expr lk e of
        Inl err \<Rightarrow> Inl err
      | Inr v \<Rightarrow> (case eval_items lk es of Inl err \<Rightarrow> Inl err | Inr vs \<Rightarrow> Inr (v # vs)))"
| "eval_fields lk [] = Inr []"
| "eval_fields lk ((_, e) # kvs) =
     (case eval_expr lk e of
        Inl err \<Rightarrow> Inl err
      | Inr v \<Rightarrow> (case eval_fields lk kvs of Inl err \<Rightarrow> Inl err | Inr vs \<Rightarrow> Inr (v # vs)))"

definition eval_expr_with_env ::
  "(string \<Rightarrow> runtime_value option) \<Rightarrow> (string \<Rightarrow> runtime_value option) \<Rightarrow> expr \<Rightarrow> string + runtime_value" where
  "eval_expr_with_env variables env e = eval_expr (tw_lookup env variables) e"

end
