(* ===== verification/Lang_Bytecode.thy ===== *)
theory Lang_Bytecode
  imports Lang_Expr
begin

text \<open>
  The instructions for such expressions (\<open>Instruction\<close> in \<open>src/bytecode.rs\<close>), the compiler that
  emits them (\<open>compile_expr_with_locals\<close> in \<open>src/compiler.rs\<close>) and the loop that runs them
  (\<open>execute_code\<close> and \<open>execute_code_inner\<close> in \<open>src/vm.rs\<close>). The compiler appends to a growing code
  vector and patches the jumps it left open; \<open>code_at\<close> is the reference it is compared with.
\<close>

section \<open>Instructions\<close>

datatype instruction =
  Const runtime_value
| LoadGlobal nat
| LoadGlobalByName string
| LoadLocal nat
| StoreLocal nat
| StoreAssignLocal nat string bool
| OpAdd | OpSub | OpMul | OpDiv
| CmpGt | CmpLt | CmpGe | CmpLe | CmpEq | CmpNe
| MakeStruct string "string list"
| GetField string
| OpIndexAccess
| MakeList nat
| Pop
| PushUnit
| Return
| Jump nat
| JumpIfNot nat
| JumpIfNotCond nat
| TryEval "instruction list"

section \<open>The compiler\<close>

record scope =
  sc_locals :: "string \<Rightarrow> nat option"
  sc_global_slots :: "string \<Rightarrow> nat option"

definition load_ident :: "scope \<Rightarrow> string \<Rightarrow> instruction" where
  "load_ident sc name =
     (case sc_locals sc name of
        Some slot \<Rightarrow> LoadLocal slot
      | None \<Rightarrow> (case sc_global_slots sc name of
            Some slot \<Rightarrow> LoadGlobal slot
          | None \<Rightarrow> LoadGlobalByName name))"

text \<open>Giving a jump left open its target.\<close>

fun retarget :: "nat \<Rightarrow> instruction \<Rightarrow> instruction" where
  "retarget t (Jump _) = Jump t"
| "retarget t (JumpIfNot _) = JumpIfNot t"
| "retarget t (JumpIfNotCond _) = JumpIfNotCond t"
| "retarget t i = i"

definition patch :: "nat \<Rightarrow> nat \<Rightarrow> instruction list \<Rightarrow> instruction list" where
  "patch j t code = (if j < length code then code[j := retarget t (code ! j)] else code)"

text \<open>The instruction of an operator that takes both operands from the stack.\<close>

fun op_instruction :: "binop \<Rightarrow> instruction" where
  "op_instruction Add = OpAdd"
| "op_instruction Sub = OpSub"
| "op_instruction Mul = OpMul"
| "op_instruction Div = OpDiv"
| "op_instruction Gt = CmpGt"
| "op_instruction Lt = CmpLt"
| "op_instruction Ge = CmpGe"
| "op_instruction Le = CmpLe"
| "op_instruction Eq = CmpEq"
| "op_instruction Ne = CmpNe"
| "op_instruction And = PushUnit"
| "op_instruction Or = PushUnit"

fun compile_expr :: "scope \<Rightarrow> expr \<Rightarrow> instruction list \<Rightarrow> instruction list"
  and compile_items :: "scope \<Rightarrow> expr list \<Rightarrow> instruction list \<Rightarrow> instruction list"
  and compile_fields :: "scope \<Rightarrow> (string \<times> expr) list \<Rightarrow> instruction list \<Rightarrow> instruction list" where
  "compile_expr sc (StringLit s) code = code @ [Const (VString s)]"
| "compile_expr sc (FloatLit f) code = code @ [Const (VFloat f)]"
| "compile_expr sc (BoolLit b) code = code @ [Const (VBool b)]"
| "compile_expr sc (Ident name) code = code @ [load_ident sc name]"
| "compile_expr sc (FieldAccess base field) code = compile_expr sc base code @ [GetField field]"
| "compile_expr sc (BinaryOp left op right) code =
     (case op of
        And \<Rightarrow>
          (let code = compile_expr sc left code;
               jump_to_false_1 = length code;
               code = compile_expr sc right (code @ [JumpIfNot 0]);
               jump_to_false_2 = length code;
               code = code @ [JumpIfNot 0, Const (VBool True)];
               jump_to_end = length code;
               code = code @ [Jump 0];
               l_false = length code;
               code = patch jump_to_false_2 l_false (patch jump_to_false_1 l_false code);
               code = code @ [Const (VBool False)]
           in patch jump_to_end (length code) code)
      | Or \<Rightarrow>
          (let code = compile_expr sc left code;
               jump_to_check_right = length code;
               code = code @ [JumpIfNot 0, Const (VBool True)];
               jump_to_end_1 = length code;
               code = code @ [Jump 0];
               code = compile_expr sc right (patch jump_to_check_right (length code) code);
               jump_to_false = length code;
               code = code @ [JumpIfNot 0, Const (VBool True)];
               jump_to_end_2 = length code;
               code = code @ [Jump 0];
               code = patch jump_to_false (length code) code @ [Const (VBool False)];
               l_end = length code
           in patch jump_to_end_2 l_end (patch jump_to_end_1 l_end code))
      | _ \<Rightarrow> compile_expr sc right (compile_expr sc left code) @ [op_instruction op])"
| "compile_expr sc (IfElse cond then_br else_br) code =
     (let code = compile_expr sc cond code;
          jump_to_else = length code;
          code = compile_expr sc then_br (code @ [JumpIfNotCond 0]);
          jump_to_end = length code;
          code = code @ [Jump 0];
          code = compile_expr sc else_br (patch jump_to_else (length code) code)
      in patch jump_to_end (length code) code)"
| "compile_expr sc (ListLit items) code = compile_items sc items code @ [MakeList (length items)]"
| "compile_expr sc (IndexAccess base index) code =
     compile_expr sc index (compile_expr sc base code) @ [OpIndexAccess]"
| "compile_expr sc (StructLit kvs) code =
     compile_fields sc kvs code @ [MakeStruct ''Struct'' (map fst kvs)]"
| "compile_expr sc (Try inner) code = code @ [TryEval (compile_expr sc inner [])]"
| "compile_items sc [] code = code"
| "compile_items sc (e # es) code = compile_items sc es (compile_expr sc e code)"
| "compile_fields sc [] code = code"
| "compile_fields sc ((_, e) # kvs) code = compile_fields sc kvs (compile_expr sc e code)"

text \<open>The code of an expression laid out from a given address, every jump with its target.\<close>

fun code_at :: "scope \<Rightarrow> expr \<Rightarrow> nat \<Rightarrow> instruction list"
  and items_at :: "scope \<Rightarrow> expr list \<Rightarrow> nat \<Rightarrow> instruction list"
  and fields_at :: "scope \<Rightarrow> (string \<times> expr) list \<Rightarrow> nat \<Rightarrow> instruction list" where
  "code_at sc (StringLit s) a = [Const (VString s)]"
| "code_at sc (FloatLit f) a = [Const (VFloat f)]"
| "code_at sc (BoolLit b) a = [Const (VBool b)]"
| "code_at sc (Ident name) a = [load_ident sc name]"
| "code_at sc (FieldAccess base field) a = code_at sc base a @ [GetField field]"
| "code_at sc (BinaryOp left op right) a =
     (let l = code_at sc left a
      in case op of
        And \<Rightarrow>
          (let r = code_at sc right (a + length l + 1);
               f = a + length l + length r + 4
           in l @ [JumpIfNot f] @ r @ [JumpIfNot f, Const (VBool True), Jump (f + 1), Const (VBool False)])
      | Or \<Rightarrow>
          (let b = a + length l + 3; r = code_at sc right b; f = b + length r + 3
           in l @ [JumpIfNot b, Const (VBool True), Jump (f + 1)] @ r
              @ [JumpIfNot f, Const (VBool True), Jump (f + 1), Const (VBool False)])
      | _ \<Rightarrow> l @ code_at sc right (a + length l) @ [op_instruction op])"
| "code_at sc (IfElse cond then_br else_br) a =
     (let c = code_at sc cond a;
          t = code_at sc then_br (a + length c + 1);
          b = a + length c + length t + 2;
          e = code_at sc else_br b
      in c @ [JumpIfNotCond b] @ t @ [Jump (b + length e)] @ e)"
| "code_at sc (ListLit items) a = items_at sc items a @ [MakeList (length items)]"
| "code_at sc (IndexAccess base index) a =
     (let b = code_at sc base a in b @ code_at sc index (a + length b) @ [OpIndexAccess])"
| "code_at sc (StructLit kvs) a = fields_at sc kvs a @ [MakeStruct ''Struct'' (map fst kvs)]"
| "code_at sc (Try inner) a = [TryEval (code_at sc inner 0)]"
| "items_at sc [] a = []"
| "items_at sc (e # es) a = (let c = code_at sc e a in c @ items_at sc es (a + length c))"
| "fields_at sc [] a = []"
| "fields_at sc ((_, e) # kvs) a = (let c = code_at sc e a in c @ fields_at sc kvs (a + length c))"

lemma patch_append:
  "patch j t (xs @ ys) =
     (if j < length xs then patch j t xs @ ys else xs @ patch (j - length xs) t ys)"
  by (auto simp: patch_def nth_append list_update_append)

lemma patch_Cons: "patch j t (i # code) = (if j = 0 then retarget t i # code else i # patch (j - 1) t code)"
  by (cases j) (auto simp: patch_def)

lemma length_patch [simp]: "length (patch j t code) = length code"
  by (simp add: patch_def)

lemmas patch_simps = patch_append patch_Cons

text \<open>The three layouts with open jumps, once they are patched.\<close>

lemma and_layout:
  "patch (length c + length r + 3) e
     (patch (length c + length r + 1) f (patch (length c) f
        (c @ JumpIfNot 0 # r @ [JumpIfNot 0, Const t, Jump 0])) @ [Const u]) =
   c @ JumpIfNot f # r @ [JumpIfNot f, Const t, Jump e, Const u]"
  by (simp add: patch_simps)

lemma or_layout:
  "patch (length c + length r + 5) e (patch (length c + 2) e
     (patch (length c + length r + 3) f
        (c @ JumpIfNot b # Const t # Jump 0 # r @ [JumpIfNot 0, Const t, Jump 0]) @ [Const u])) =
   c @ JumpIfNot b # Const t # Jump e # r @ [JumpIfNot f, Const t, Jump e, Const u]"
  by (simp add: patch_simps)

lemma or_left_layout:
  "patch (length c) b (c @ [JumpIfNot 0, Const t, Jump 0]) = c @ [JumpIfNot b, Const t, Jump 0]"
  by (simp add: patch_simps)

lemma if_then_layout:
  "patch (length c) b (c @ JumpIfNotCond 0 # r @ [Jump 0]) = c @ JumpIfNotCond b # r @ [Jump 0]"
  by (simp add: patch_simps)

lemma if_else_layout:
  "patch (length c + length r + 1) e (c @ JumpIfNotCond b # r @ Jump 0 # d) =
   c @ JumpIfNotCond b # r @ Jump e # d"
  by (simp add: patch_simps)

text \<open>The backpatching compiler lays out exactly the reference code.\<close>

lemma compile_and:
  assumes "\<And>c. compile_expr sc l c = c @ code_at sc l (length c)"
    and "\<And>c. compile_expr sc r c = c @ code_at sc r (length c)"
  shows "compile_expr sc (BinaryOp l And r) code = code @ code_at sc (BinaryOp l And r) (length code)"
proof -
  define c where "c = code @ code_at sc l (length code)"
  define cr where "cr = code_at sc r (length c + 1)"
  have l: "compile_expr sc l code = c" by (simp add: assms c_def)
  have r: "compile_expr sc r (c @ [JumpIfNot 0]) = c @ JumpIfNot 0 # cr" by (simp add: assms(2) cr_def)
  have "compile_expr sc (BinaryOp l And r) code =
      c @ JumpIfNot (length c + length cr + 4) # cr @
        [JumpIfNot (length c + length cr + 4), Const (VBool True),
         Jump (length c + length cr + 5), Const (VBool False)]"
    using and_layout [of c cr "length c + length cr + 5" "length c + length cr + 4"]
    by (simp add: Let_def l r eval_nat_numeral)
  then show ?thesis
    by (simp add: Let_def cr_def) (simp add: c_def add.assoc)
qed

lemma compile_or:
  assumes "\<And>c. compile_expr sc l c = c @ code_at sc l (length c)"
    and "\<And>c. compile_expr sc r c = c @ code_at sc r (length c)"
  shows "compile_expr sc (BinaryOp l Or r) code = code @ code_at sc (BinaryOp l Or r) (length code)"
proof -
  define c where "c = code @ code_at sc l (length code)"
  define cr where "cr = code_at sc r (length c + 3)"
  have l: "compile_expr sc l code = c" by (simp add: assms c_def)
  have p: "patch (length c) (length c + 3) (c @ [JumpIfNot 0, Const (VBool True), Jump 0]) =
      c @ [JumpIfNot (length c + 3), Const (VBool True), Jump 0]" by (rule or_left_layout)
  have r: "compile_expr sc r (c @ [JumpIfNot (length c + 3), Const (VBool True), Jump 0]) =
      c @ JumpIfNot (length c + 3) # Const (VBool True) # Jump 0 # cr"
    by (simp add: assms(2) cr_def eval_nat_numeral)
  have "compile_expr sc (BinaryOp l Or r) code =
      c @ JumpIfNot (length c + 3) # Const (VBool True) # Jump (length c + length cr + 7) # cr @
        [JumpIfNot (length c + length cr + 6), Const (VBool True),
         Jump (length c + length cr + 7), Const (VBool False)]"
    using p r or_layout [of c cr "length c + length cr + 7" "length c + length cr + 6" "length c + 3"]
    by (simp add: Let_def l eval_nat_numeral)
  then show ?thesis
    by (simp add: Let_def cr_def) (simp add: c_def add.assoc)
qed

lemma compile_if:
  assumes "\<And>c. compile_expr sc cond c = c @ code_at sc cond (length c)"
    and "\<And>c. compile_expr sc t c = c @ code_at sc t (length c)"
    and "\<And>c. compile_expr sc e c = c @ code_at sc e (length c)"
  shows "compile_expr sc (IfElse cond t e) code = code @ code_at sc (IfElse cond t e) (length code)"
proof -
  define c where "c = code @ code_at sc cond (length code)"
  define ct where "ct = code_at sc t (length c + 1)"
  define b where "b = length c + length ct + 2"
  define ce where "ce = code_at sc e b"
  have 1: "compile_expr sc cond code = c" by (simp add: assms c_def)
  have 2: "compile_expr sc t (c @ [JumpIfNotCond 0]) = c @ JumpIfNotCond 0 # ct"
    by (simp add: assms(2) ct_def)
  have 3: "compile_expr sc e (c @ JumpIfNotCond b # ct @ [Jump 0]) = c @ JumpIfNotCond b # ct @ Jump 0 # ce"
    by (simp add: assms(3) ce_def b_def)
  have "compile_expr sc (IfElse cond t e) code = c @ JumpIfNotCond b # ct @ Jump (b + length ce) # ce"
    using 3 if_then_layout [of c b ct] if_else_layout [of c ct "b + length ce" b ce]
    by (simp add: Let_def 1 2 b_def add.commute add.left_commute)
  then show ?thesis
    by (simp add: Let_def ce_def b_def ct_def) (simp add: c_def add.assoc)
qed

lemma compile_items_at:
  assumes "\<And>e c. e \<in> set es \<Longrightarrow> compile_expr sc e c = c @ code_at sc e (length c)"
  shows "compile_items sc es code = code @ items_at sc es (length code)"
  using assms by (induction es arbitrary: code) (simp_all add: Let_def)

lemma compile_fields_at:
  assumes "\<And>k e c. (k, e) \<in> set kvs \<Longrightarrow> compile_expr sc e c = c @ code_at sc e (length c)"
  shows "compile_fields sc kvs code = code @ fields_at sc kvs (length code)"
  using assms by (induction kvs arbitrary: code) (fastforce simp: Let_def)+

lemma compile_expr_code_at: "compile_expr sc e code = code @ code_at sc e (length code)"
proof (induction e arbitrary: code)
  case (BinaryOp l op r)
  show ?case
    by (cases op) (use BinaryOp compile_and compile_or in \<open>simp_all add: Let_def\<close>)
next
  case (IfElse c t e)
  then show ?case by (rule compile_if)
next
  case (ListLit es)
  then show ?case by (simp add: compile_items_at)
next
  case (StructLit kvs)
  then have "compile_fields sc kvs code = code @ fields_at sc kvs (length code)"
    by (intro compile_fields_at) auto
  then show ?case by simp
qed (simp_all add: Let_def)

end
