(* ===== verification/Lang_Vm.thy ===== *)
theory Lang_Vm
  imports Lang_Bytecode
begin

text \<open>
  The virtual machine's inner loop (\<open>execute_code\<close>, \<open>execute_code_inner\<close> in \<open>src/vm.rs\<close>) on the
  instructions above. One stack holds the locals of the running body, from the frame's base upwards,
  and the operands above them; an error leaves the stack as it was when it struck, which \<open>TryEval\<close>
  sees. Each run of a body counts towards the depth cap and has its own iteration budget; together
  they make the machine a total function.
\<close>

record vm =
  vm_globals :: "runtime_value list"
  vm_program_globals :: "string list"
  vm_reflexes :: "string \<Rightarrow> runtime_value option"
  vm_base_bp :: nat
  vm_max_call_depth :: nat

definition underflow_err :: "string \<Rightarrow> string" where
  "underflow_err instr =
     ''VM: stack underflow at '' @ instr @ '' (the operand stack is empty or the slot is out of range ''
     @ [CHR 0xE2, CHR 0x80, CHR 0x94] @ '' bytecode desync or a corrupt .mbc)''"

section \<open>The stack\<close>

text \<open>\<open>stack.pop().unwrap_or(Value::Unit)\<close>.\<close>

definition pop_or_unit :: "runtime_value list \<Rightarrow> runtime_value \<times> runtime_value list" where
  "pop_or_unit st = (if st = [] then (VUnit, []) else (last st, butlast st))"

text \<open>Popping \<open>n\<close> values one by one, each put in front of the ones popped before.\<close>

fun pop_n :: "nat \<Rightarrow> runtime_value list \<Rightarrow> runtime_value list \<Rightarrow> runtime_value list option \<times> runtime_value list" where
  "pop_n 0 acc st = (Some acc, st)"
| "pop_n (Suc n) acc st = (if st = [] then (None, st) else pop_n n (last st # acc) (butlast st))"

text \<open>Writing a slot, growing the stack with units up to it.\<close>

definition store_slot :: "nat \<Rightarrow> runtime_value \<Rightarrow> runtime_value list \<Rightarrow> runtime_value list" where
  "store_slot idx v st =
     (let st = (if idx \<ge> length st then st @ replicate (idx + 1 - length st) VUnit else st)
      in st[idx := v])"

section \<open>One instruction\<close>

datatype effect =
  Goto nat "runtime_value list"
| Stop "string + runtime_value" "runtime_value list"
| Guarded "instruction list"

definition push_result :: "string + runtime_value \<Rightarrow> nat \<Rightarrow> runtime_value list \<Rightarrow> effect" where
  "push_result r ip st = (case r of Inl e \<Rightarrow> Stop (Inl e) st | Inr v \<Rightarrow> Goto (ip + 1) (st @ [v]))"

text \<open>The operators whose missing operands read as the unit value.\<close>

definition soft_binary :: "(runtime_value \<Rightarrow> runtime_value \<Rightarrow> string + runtime_value) \<Rightarrow> nat \<Rightarrow> runtime_value list \<Rightarrow> effect" where
  "soft_binary f ip st =
     (let (right, st) = pop_or_unit st; (left, st) = pop_or_unit st
      in push_result (f left right) ip st)"

text \<open>The operators that refuse a missing operand, naming it.\<close>

definition loud_binary ::
  "string \<Rightarrow> string \<Rightarrow> (runtime_value \<Rightarrow> runtime_value \<Rightarrow> string + runtime_value) \<Rightarrow> nat \<Rightarrow> runtime_value list \<Rightarrow> effect" where
  "loud_binary right_name left_name f ip st =
     (if st = [] then Stop (Inl (underflow_err right_name)) st
      else let right = last st; st = butlast st
           in if st = [] then Stop (Inl (underflow_err left_name)) st
              else push_result (f (last st) right) ip (butlast st))"

definition store :: "string \<Rightarrow> nat \<Rightarrow> nat \<Rightarrow> runtime_value list \<Rightarrow> effect" where
  "store name idx ip st =
     (if st = [] then Stop (Inl (underflow_err name)) st
      else Goto (ip + 1) (store_slot idx (last st) (butlast st)))"

definition immutability_error_text :: "string \<Rightarrow> string" where
  "immutability_error_text name =
     ''cannot assign to immutable variable: '' @ name @ '' (use '' @ [CHR 0x27] @ ''let mut '' @ name
     @ [CHR 0x27] @ '' to make it mutable)''"

definition load_by_name :: "vm \<Rightarrow> string \<Rightarrow> runtime_value option" where
  "load_by_name m name =
     (case (case index_of name (vm_program_globals m) of
              Some slot \<Rightarrow> if slot < length (vm_globals m) then Some (vm_globals m ! slot) else None
            | None \<Rightarrow> None) of
        Some v \<Rightarrow> Some v
      | None \<Rightarrow> vm_reflexes m name)"

definition load_local :: "nat \<Rightarrow> nat \<Rightarrow> runtime_value list \<Rightarrow> effect" where
  [simp]: "load_local idx ip st =
     (if idx < length st then Goto (ip + 1) (st @ [st ! idx])
      else Stop (Inl (underflow_err (''LoadLocal (local slot '' @ show_dec idx @ '' out of range)''))) st)"

definition load_global :: "vm \<Rightarrow> nat \<Rightarrow> nat \<Rightarrow> runtime_value list \<Rightarrow> effect" where
  [simp]: "load_global m slot ip st =
     (if slot < length (vm_globals m) then Goto (ip + 1) (st @ [vm_globals m ! slot])
      else Stop (Inl (underflow_err (''LoadGlobal (global slot '' @ show_dec slot @ '' out of range)''))) st)"

fun step :: "vm \<Rightarrow> instruction \<Rightarrow> nat \<Rightarrow> runtime_value list \<Rightarrow> effect" where
  "step m (LoadLocal slot) ip st = load_local (vm_base_bp m + slot) ip st"
| "step m (StoreLocal slot) ip st = store ''StoreLocal'' (vm_base_bp m + slot) ip st"
| "step m (StoreAssignLocal slot name mutable) ip st =
     (if \<not> mutable then Stop (Inl (immutability_error_text name)) st
      else store ''StoreAssignLocal'' (vm_base_bp m + slot) ip st)"
| "step m (Const v) ip st = Goto (ip + 1) (st @ [v])"
| "step m (LoadGlobal slot) ip st = load_global m slot ip st"
| "step m OpAdd ip st = soft_binary (\<lambda>l r. vm_eval_binop l Add r) ip st"
| "step m OpSub ip st = soft_binary (\<lambda>l r. vm_eval_binop l Sub r) ip st"
| "step m OpMul ip st = soft_binary (\<lambda>l r. vm_eval_binop l Mul r) ip st"
| "step m OpDiv ip st = soft_binary (\<lambda>l r. vm_eval_binop l Div r) ip st"
| "step m Return ip st =
     (if st = [] then Stop (Inl (underflow_err ''Return'')) st else Stop (Inr (last st)) (butlast st))"
| "step m (Jump target) ip st = Goto target st"
| "step m (JumpIfNot target) ip st =
     (if st = [] then Stop (Inl (underflow_err ''JumpIfNot'')) st
      else Goto (if is_truthy (last st) then ip + 1 else target) (butlast st))"
| "step m (JumpIfNotCond target) ip st =
     (if st = [] then Stop (Inl (underflow_err ''JumpIfNotCond'')) st
      else case as_bool (last st) of
             Inl e \<Rightarrow> Stop (Inl e) (butlast st)
           | Inr b \<Rightarrow> Goto (if b then ip + 1 else target) (butlast st))"
| "step m CmpGt ip st = soft_binary (\<lambda>l r. vm_eval_cmp l r CGt) ip st"
| "step m CmpLt ip st = soft_binary (\<lambda>l r. vm_eval_cmp l r CLt) ip st"
| "step m CmpGe ip st = soft_binary (\<lambda>l r. vm_eval_cmp l r CGe) ip st"
| "step m CmpLe ip st = soft_binary (\<lambda>l r. vm_eval_cmp l r CLe) ip st"
| "step m CmpEq ip st =
     loud_binary ''CmpEq (right)'' ''CmpEq (left)'' (\<lambda>l r. vm_eval_cmp l r CEq) ip st"
| "step m CmpNe ip st = loud_binary ''CmpNe (right)'' ''CmpNe (left)'' vm_not_equal ip st"
| "step m (GetField field) ip st =
     (let (v, st) = pop_or_unit st in push_result (get_field v field) ip st)"
| "step m (LoadGlobalByName name) ip st =
     (case load_by_name m name of
        Some v \<Rightarrow> Goto (ip + 1) (st @ [v])
      | None \<Rightarrow> Stop (Inl (undefined_variable name)) st)"
| "step m OpIndexAccess ip st =
     loud_binary ''IndexAccess (index)'' ''IndexAccess (base)'' (\<lambda>b i. Inr (vm_index b i)) ip st"
| "step m (MakeList count) ip st =
     (case pop_n count [] st of
        (Some items, st) \<Rightarrow> Goto (ip + 1) (st @ [VList items])
      | (None, st) \<Rightarrow> Stop (Inl (underflow_err ''MakeList (element)'')) st)"
| "step m Pop ip st = Goto (ip + 1) (butlast st)"
| "step m PushUnit ip st = Goto (ip + 1) (st @ [VUnit])"
| "step m (MakeStruct tname names) ip st =
     (case pop_n (length names) [] st of
        (Some vs, st) \<Rightarrow> Goto (ip + 1) (st @ [VStruct tname (struct_fields (zip names vs))])
      | (None, st) \<Rightarrow>
          Stop (Inl (underflow_err
            (''MakeStruct '' @ [CHR 0x27] @ tname @ [CHR 0x27] @ '' (field value)''))) st)"
| "step m (TryEval inner) ip st = Guarded inner"

section \<open>The loop\<close>

definition iteration_budget :: "instruction list \<Rightarrow> nat" where
  "iteration_budget code = max (length code) 1 * 100000"

definition loop_guard_error :: "instruction list \<Rightarrow> string" where
  "loop_guard_error code =
     ''VM execute_code: possible infinite loop ('' @ show_dec (iteration_budget code + 1)
     @ '' iterations, '' @ show_dec (length code) @ '' instructions)''"

definition call_depth_error :: "vm \<Rightarrow> string" where
  "call_depth_error m =
     coded_error CODE_CALL_DEPTH_EXCEEDED
       (''VM: native recursion depth exceeded '' @ show_dec (vm_max_call_depth m)
        @ '' (METALOGOS_VM_MAX_DEPTH)'')"

definition epilogue :: "runtime_value list \<Rightarrow> (string + runtime_value) \<times> runtime_value list" where
  "epilogue st =
     (if st = [] then (Inl (underflow_err ''the body epilogue (the return value)''), st)
      else (Inr (last st), butlast st))"

text \<open>
  \<open>run_loop\<close> is the loop with \<open>n\<close> iterations left at call depth \<open>d\<close>; \<open>execute_code\<close> enters a body.
\<close>

function run_loop ::
    "vm \<Rightarrow> nat \<Rightarrow> nat \<Rightarrow> instruction list \<Rightarrow> nat \<Rightarrow> runtime_value list \<Rightarrow> (string + runtime_value) \<times> runtime_value list"
  and execute_code ::
    "vm \<Rightarrow> nat \<Rightarrow> instruction list \<Rightarrow> runtime_value list \<Rightarrow> (string + runtime_value) \<times> runtime_value list" where
  "run_loop m d n code ip st =
     (if ip < length code
      then case n of
             0 \<Rightarrow> (Inl (loop_guard_error code), st)
           | Suc n' \<Rightarrow>
               (case step m (code ! ip) ip st of
                  Goto ip' st' \<Rightarrow> run_loop m d n' code ip' st'
                | Stop r st' \<Rightarrow> (r, st')
                | Guarded inner \<Rightarrow>
                    (case execute_code m d inner st of
                       (Inr v, st') \<Rightarrow> run_loop m d n' code (ip + 1) (st' @ [caught (Inr v)])
                     | (Inl e, st') \<Rightarrow>
                         run_loop m d n' code (ip + 1) (take (length st) st' @ [caught (Inl e)])))
      else epilogue st)"
| "execute_code m d code st =
     (if d + 1 > vm_max_call_depth m then (Inl (call_depth_error m), st)
      else run_loop m (d + 1) (iteration_budget code) code 0 st)"
  by pat_completeness auto
termination
  by (relation "inv_image (less_than <*lex*> less_than)
       (\<lambda>x. case x of
          Inl (m, d, n, code, ip, st) \<Rightarrow> (vm_max_call_depth m - d, n)
        | Inr (m, d, code, st) \<Rightarrow> (vm_max_call_depth m - d, 0))") auto

declare run_loop.simps [simp del] execute_code.simps [simp del]

section \<open>Laws of the stack\<close>

lemma pop_or_unit_snoc [simp]: "pop_or_unit (st @ [v]) = (v, st)"
  by (simp add: pop_or_unit_def)

lemma pop_n_append [simp]: "pop_n (length vs) acc (st @ vs) = (Some (vs @ acc), st)"
proof (induction vs arbitrary: acc rule: rev_induct)
  case (snoc v vs)
  then show ?case by (simp add: append_assoc [symmetric] del: append_assoc)
qed simp

lemma soft_binary_snoc [simp]:
  "soft_binary f ip (st @ [l, r]) = push_result (f l r) ip st"
  using pop_or_unit_snoc [of "st @ [l]" r] by (simp add: soft_binary_def)

lemma loud_binary_snoc [simp]:
  "loud_binary a b f ip (st @ [l, r]) = push_result (f l r) ip st"
proof -
  have "last (st @ [l, r]) = r" "butlast (st @ [l, r]) = st @ [l]" by (simp_all add: butlast_append)
  then show ?thesis by (simp add: loud_binary_def)
qed

end
