(* ===== verification/Lang_Stmt.thy ===== *)
theory Lang_Stmt
  imports Lang_Vm
begin

text \<open>
  Statements (\<open>Statement\<close> in \<open>src/ast.rs\<close>): bindings, assignments, \<open>return\<close>, expression statements,
  \<open>while\<close>, the two forms of \<open>if\<close>, \<open>break\<close> and \<open>continue\<close>. The tree walker on them
  (\<open>eval_statements_cf\<close> in \<open>src/interpreter/execution.rs\<close>) with its cap on the iterations of a loop,
  and the compiler of a pattern body (\<open>compile_pattern_body_with_locals\<close> in \<open>src/compiler.rs\<close> and the
  statement compilers it calls), which gives every new name the next slot of the frame, keeps the
  jumps of a loop in a stack of open fixups and sees to it that a body ends with exactly one value.
\<close>

section \<open>Statements\<close>

datatype statement =
  LetBinding string expr bool
| Assign string expr
| SReturn expr
| ExprStmt expr
| While expr "statement list"
| IfThen expr "statement list"
| IfElseBlock expr "statement list" "(expr \<times> statement list) list" "statement list option"
| Break
| Continue

type_synonym env = "string \<Rightarrow> runtime_value option"

section \<open>The tree walker\<close>

datatype control_flow = ContinueNormal runtime_value | CFBreak | ContinueLoop | CFReturn runtime_value

type_synonym flow = "string + control_flow \<times> env \<times> string set"

definition is_http_response :: "runtime_value \<Rightarrow> bool" where
  "is_http_response v \<longleftrightarrow> (case v of VOther t \<Rightarrow> t = ''HttpResponse'' | _ \<Rightarrow> False)"

definition WHILE_SAFETY_LIMIT :: nat where "WHILE_SAFETY_LIMIT = 100000"

definition SANDBOX_ITER_LIMIT :: nat where "SANDBOX_ITER_LIMIT = 10000"

definition iter_limit :: "bool \<Rightarrow> nat" where
  "iter_limit sandboxed = (if sandboxed then SANDBOX_ITER_LIMIT else WHILE_SAFETY_LIMIT)"

definition while_limit_error :: "bool \<Rightarrow> string" where
  "while_limit_error sandboxed =
     (if sandboxed
      then ''iteration limit exceeded in sandbox: while loop exceeded '' @ show_dec (iter_limit sandboxed)
           @ '' iterations''
      else ''while loop exceeded safety limit of '' @ show_dec WHILE_SAFETY_LIMIT @ '' iterations'')"

text \<open>A condition: the value of the expression, read as a truth value.\<close>

definition eval_cond :: "env \<Rightarrow> env \<Rightarrow> expr \<Rightarrow> string + bool" where
  "eval_cond variables env c =
     (case eval_expr_with_env variables env c of Inl e \<Rightarrow> Inl e | Inr v \<Rightarrow> as_bool v)"

text \<open>
  \<open>eval_statements_cf\<close>, with the environment, the set of mutable names and the implicit value of the
  block so far; \<open>eval_else_ifs\<close> is the rest of an \<open>if\<close> after its first condition has failed and
  \<open>eval_while\<close> a loop that has made \<open>i\<close> iterations.
\<close>

function eval_statements_cf :: "bool \<Rightarrow> env \<Rightarrow> env \<Rightarrow> string set \<Rightarrow> runtime_value \<Rightarrow> statement list \<Rightarrow> flow"
  and eval_else_ifs ::
    "bool \<Rightarrow> env \<Rightarrow> env \<Rightarrow> string set \<Rightarrow> runtime_value \<Rightarrow> (expr \<times> statement list) list \<Rightarrow> statement list option \<Rightarrow> flow"
  and eval_while :: "bool \<Rightarrow> env \<Rightarrow> nat \<Rightarrow> env \<Rightarrow> string set \<Rightarrow> expr \<Rightarrow> statement list \<Rightarrow> flow" where
  "eval_statements_cf sb variables env muts last_val [] = Inr (ContinueNormal last_val, env, muts)"
| "eval_statements_cf sb variables env muts last_val (LetBinding name e mutable # stmts) =
     (case eval_expr_with_env variables env e of
        Inl err \<Rightarrow> Inl err
      | Inr v \<Rightarrow> eval_statements_cf sb variables (env(name \<mapsto> v))
                   (if mutable then insert name muts else muts) VUnit stmts)"
| "eval_statements_cf sb variables env muts last_val (Assign name e # stmts) =
     (if name \<notin> muts then Inl (immutability_error_text name)
      else case eval_expr_with_env variables env e of
             Inl err \<Rightarrow> Inl err
           | Inr v \<Rightarrow> eval_statements_cf sb variables (env(name \<mapsto> v)) muts VUnit stmts)"
| "eval_statements_cf sb variables env muts last_val (While cond body # stmts) =
     (case eval_while sb variables 0 env muts cond body of
        Inl err \<Rightarrow> Inl err
      | Inr (ContinueNormal _, env, muts) \<Rightarrow> eval_statements_cf sb variables env muts VUnit stmts
      | Inr (cf, env, muts) \<Rightarrow> Inr (cf, env, muts))"
| "eval_statements_cf sb variables env muts last_val (IfElseBlock cond then_body else_ifs else_body # stmts) =
     (case (case eval_cond variables env cond of
              Inl err \<Rightarrow> Inl err
            | Inr True \<Rightarrow> eval_statements_cf sb variables env muts VUnit then_body
            | Inr False \<Rightarrow> eval_else_ifs sb variables env muts last_val else_ifs else_body) of
        Inl err \<Rightarrow> Inl err
      | Inr (ContinueNormal v, env, muts) \<Rightarrow> eval_statements_cf sb variables env muts v stmts
      | Inr (cf, env, muts) \<Rightarrow> Inr (cf, env, muts))"
| "eval_statements_cf sb variables env muts last_val (SReturn e # stmts) =
     (case eval_expr_with_env variables env e of Inl err \<Rightarrow> Inl err | Inr v \<Rightarrow> Inr (CFReturn v, env, muts))"
| "eval_statements_cf sb variables env muts last_val (IfThen cond body # stmts) =
     (case (case eval_cond variables env cond of
              Inl err \<Rightarrow> Inl err
            | Inr True \<Rightarrow> eval_statements_cf sb variables env muts VUnit body
            | Inr False \<Rightarrow> Inr (ContinueNormal last_val, env, muts)) of
        Inl err \<Rightarrow> Inl err
      | Inr (ContinueNormal v, env, muts) \<Rightarrow> eval_statements_cf sb variables env muts v stmts
      | Inr (cf, env, muts) \<Rightarrow> Inr (cf, env, muts))"
| "eval_statements_cf sb variables env muts last_val (Break # stmts) = Inr (CFBreak, env, muts)"
| "eval_statements_cf sb variables env muts last_val (Continue # stmts) = Inr (ContinueLoop, env, muts)"
| "eval_statements_cf sb variables env muts last_val (ExprStmt e # stmts) =
     (case eval_expr_with_env variables env e of
        Inl err \<Rightarrow> Inl err
      | Inr v \<Rightarrow>
          if is_http_response v then Inr (CFReturn v, env, muts)
          else eval_statements_cf sb variables env muts (case v of VUnit \<Rightarrow> last_val | _ \<Rightarrow> v) stmts)"
| "eval_else_ifs sb variables env muts last_val [] None = Inr (ContinueNormal last_val, env, muts)"
| "eval_else_ifs sb variables env muts last_val [] (Some body) = eval_statements_cf sb variables env muts VUnit body"
| "eval_else_ifs sb variables env muts last_val ((cond, body) # else_ifs) else_body =
     (case eval_cond variables env cond of
        Inl err \<Rightarrow> Inl err
      | Inr True \<Rightarrow> eval_statements_cf sb variables env muts VUnit body
      | Inr False \<Rightarrow> eval_else_ifs sb variables env muts last_val else_ifs else_body)"
| "eval_while sb variables i env muts cond body =
     (if i \<ge> iter_limit sb then Inl (while_limit_error sb)
      else case eval_cond variables env cond of
             Inl err \<Rightarrow> Inl err
           | Inr False \<Rightarrow> Inr (ContinueNormal VUnit, env, muts)
           | Inr True \<Rightarrow>
               (case eval_statements_cf sb variables env muts VUnit body of
                  Inl err \<Rightarrow> Inl err
                | Inr (CFBreak, env, muts) \<Rightarrow> Inr (ContinueNormal VUnit, env, muts)
                | Inr (CFReturn v, env, muts) \<Rightarrow> Inr (CFReturn v, env, muts)
                | Inr (_, env, muts) \<Rightarrow> eval_while sb variables (i + 1) env muts cond body))"
  by pat_completeness auto
termination
  by (relation "inv_image (less_than <*lex*> less_than)
       (\<lambda>x. case x of
          Inl (sb, variables, env, muts, last_val, stmts) \<Rightarrow> (size_list size stmts, 0)
        | Inr (Inl (sb, variables, env, muts, last_val, else_ifs, else_body)) \<Rightarrow>
            (size_list (size_prod (\<lambda>_. 0) (size_list size)) else_ifs + size_option (size_list size) else_body, 0)
        | Inr (Inr (sb, variables, i, env, muts, cond, body)) \<Rightarrow> (size_list size body + 1, iter_limit sb - i))")
     auto

declare eval_while.simps [simp del]

definition eval_statements :: "bool \<Rightarrow> env \<Rightarrow> env \<Rightarrow> statement list \<Rightarrow> string + runtime_value" where
  "eval_statements sb variables env stmts =
     (case eval_statements_cf sb variables env {} VUnit stmts of
        Inl err \<Rightarrow> Inl err
      | Inr (ContinueNormal v, _, _) \<Rightarrow> Inr v
      | Inr (CFReturn v, _, _) \<Rightarrow> Inr v
      | Inr _ \<Rightarrow> Inl ''break/continue used outside of a loop'')"

section \<open>The compiler\<close>

text \<open>
  The state of the body compiler: the slots of the locals, the next free one, the mutable names, the
  open loops (the innermost first) with the jumps \<open>break\<close> and \<open>continue\<close> have left open, and the code.
\<close>

record body_state =
  bs_locals :: "string \<Rightarrow> nat option"
  bs_next_slot :: nat
  bs_mutable :: "string set"
  bs_loop_stack :: "(nat \<times> nat list \<times> nat list) list"
  bs_code :: "instruction list"

definition body_scope :: "(string \<Rightarrow> nat option) \<Rightarrow> body_state \<Rightarrow> scope" where
  "body_scope global_slots bs = \<lparr>sc_locals = bs_locals bs, sc_global_slots = global_slots\<rparr>"

definition emit_expr :: "(string \<Rightarrow> nat option) \<Rightarrow> expr \<Rightarrow> body_state \<Rightarrow> body_state" where
  "emit_expr gs e bs = bs\<lparr>bs_code := compile_expr (body_scope gs bs) e (bs_code bs)\<rparr>"

definition push_code :: "instruction \<Rightarrow> body_state \<Rightarrow> body_state" where
  "push_code i bs = bs\<lparr>bs_code := bs_code bs @ [i]\<rparr>"

definition patch_code :: "nat \<Rightarrow> nat \<Rightarrow> body_state \<Rightarrow> body_state" where
  "patch_code j t bs = bs\<lparr>bs_code := patch j t (bs_code bs)\<rparr>"

definition patch_all :: "nat list \<Rightarrow> nat \<Rightarrow> body_state \<Rightarrow> body_state" where
  "patch_all js t bs = foldl (\<lambda>bs j. patch_code j t bs) bs js"

abbreviation here :: "body_state \<Rightarrow> nat" where
  "here bs \<equiv> length (bs_code bs)"

text \<open>A binding takes its slot before its value is compiled.\<close>

definition compile_let :: "(string \<Rightarrow> nat option) \<Rightarrow> string \<Rightarrow> expr \<Rightarrow> bool \<Rightarrow> body_state \<Rightarrow> body_state" where
  "compile_let gs name e mutable bs =
     (let bs = (if mutable then bs\<lparr>bs_mutable := insert name (bs_mutable bs)\<rparr> else bs)
      in case bs_locals bs name of
           Some slot \<Rightarrow> push_code (StoreLocal slot) (emit_expr gs e bs)
         | None \<Rightarrow>
             (let slot = bs_next_slot bs;
                  bs = bs\<lparr>bs_next_slot := slot + 1, bs_locals := (bs_locals bs)(name \<mapsto> slot)\<rparr>
              in push_code (StoreLocal slot) (emit_expr gs e bs)))"

definition compile_assign ::
  "(string \<Rightarrow> nat option) \<Rightarrow> string \<Rightarrow> expr \<Rightarrow> body_state \<Rightarrow> string + body_state" where
  "compile_assign gs name e bs =
     (if name \<notin> bs_mutable bs then Inl (immutability_error_text name)
      else case bs_locals bs name of
             None \<Rightarrow> Inl (immutability_error_text name)
           | Some slot \<Rightarrow> Inr (push_code (StoreAssignLocal slot name True) (emit_expr gs e bs)))"

text \<open>\<open>break\<close> and \<open>continue\<close> leave a jump to the nearest loop; without one they compile to nothing.\<close>

definition open_break :: "body_state \<Rightarrow> body_state" where
  "open_break bs =
     (case bs_loop_stack bs of
        [] \<Rightarrow> bs
      | (start, breaks, continues) # loops \<Rightarrow>
          push_code (Jump 0) (bs\<lparr>bs_loop_stack := (start, breaks @ [here bs], continues) # loops\<rparr>))"

definition open_continue :: "body_state \<Rightarrow> body_state" where
  "open_continue bs =
     (case bs_loop_stack bs of
        [] \<Rightarrow> bs
      | (start, breaks, continues) # loops \<Rightarrow>
          push_code (Jump 0) (bs\<lparr>bs_loop_stack := (start, breaks, continues @ [here bs]) # loops\<rparr>))"

text \<open>The end of a loop whose body has been compiled: jump back, then close every open jump.\<close>

definition close_loop :: "nat \<Rightarrow> nat \<Rightarrow> body_state \<Rightarrow> body_state" where
  "close_loop loop_start jmp_not_idx bs =
     (let (_, breaks, continues) = (case bs_loop_stack bs of [] \<Rightarrow> (loop_start, [], []) | entry # _ \<Rightarrow> entry);
          bs = push_code (Jump loop_start) (bs\<lparr>bs_loop_stack := tl (bs_loop_stack bs)\<rparr>);
          after_loop = here bs
      in patch_all continues loop_start (patch_all breaks after_loop (patch_code jmp_not_idx after_loop bs)))"

text \<open>
  \<open>compile_stmt_with_locals\<close>. The arms of an \<open>if\<close> end in a jump to the end of the whole, kept in a list
  of fixups.
\<close>

fun compile_stmt :: "(string \<Rightarrow> nat option) \<Rightarrow> statement \<Rightarrow> body_state \<Rightarrow> string + body_state"
  and compile_stmts :: "(string \<Rightarrow> nat option) \<Rightarrow> statement list \<Rightarrow> body_state \<Rightarrow> string + body_state"
  and compile_else_ifs ::
    "(string \<Rightarrow> nat option) \<Rightarrow> (expr \<times> statement list) list \<Rightarrow> nat list \<Rightarrow> body_state \<Rightarrow>
       string + nat list \<times> body_state"
  and compile_else ::
    "(string \<Rightarrow> nat option) \<Rightarrow> statement list option \<Rightarrow> body_state \<Rightarrow> string + body_state" where
  "compile_stmt gs (LetBinding name e mutable) bs = Inr (compile_let gs name e mutable bs)"
| "compile_stmt gs (Assign name e) bs = compile_assign gs name e bs"
| "compile_stmt gs (SReturn e) bs = Inr (push_code Return (emit_expr gs e bs))"
| "compile_stmt gs (While cond body) bs =
     (let loop_start = here bs;
          bs = emit_expr gs cond bs;
          jmp_not_idx = here bs;
          bs = push_code (JumpIfNotCond 0) bs;
          bs = bs\<lparr>bs_loop_stack := (loop_start, [], []) # bs_loop_stack bs\<rparr>
      in case compile_stmts gs body bs of
           Inl err \<Rightarrow> Inl err
         | Inr bs \<Rightarrow> Inr (close_loop loop_start jmp_not_idx bs))"
| "compile_stmt gs (IfThen cond body) bs =
     (let bs = emit_expr gs cond bs;
          jmp_idx = here bs
      in case compile_stmts gs body (push_code (JumpIfNotCond 0) bs) of
           Inl err \<Rightarrow> Inl err
         | Inr bs \<Rightarrow> Inr (patch_code jmp_idx (here bs) bs))"
| "compile_stmt gs (IfElseBlock cond then_body else_ifs else_body) bs =
     (let bs = emit_expr gs cond bs;
          jmp_idx = here bs
      in case compile_stmts gs then_body (push_code (JumpIfNotCond 0) bs) of
           Inl err \<Rightarrow> Inl err
         | Inr bs \<Rightarrow>
             (let end_fixup = here bs;
                  bs = push_code (Jump 0) bs
              in case compile_else_ifs gs else_ifs [end_fixup] (patch_code jmp_idx (here bs) bs) of
                   Inl err \<Rightarrow> Inl err
                 | Inr (end_fixups, bs) \<Rightarrow>
                     (case compile_else gs else_body bs of
                        Inl err \<Rightarrow> Inl err
                      | Inr bs \<Rightarrow> Inr (patch_all end_fixups (here bs) bs))))"
| "compile_stmt gs (ExprStmt e) bs = Inr (push_code Pop (emit_expr gs e bs))"
| "compile_stmt gs Break bs = Inr (open_break bs)"
| "compile_stmt gs Continue bs = Inr (open_continue bs)"
| "compile_stmts gs [] bs = Inr bs"
| "compile_stmts gs (stmt # stmts) bs =
     (case compile_stmt gs stmt bs of Inl err \<Rightarrow> Inl err | Inr bs \<Rightarrow> compile_stmts gs stmts bs)"
| "compile_else_ifs gs [] end_fixups bs = Inr (end_fixups, bs)"
| "compile_else_ifs gs ((cond, body) # else_ifs) end_fixups bs =
     (let bs = emit_expr gs cond bs;
          jmp_idx = here bs
      in case compile_stmts gs body (push_code (JumpIfNotCond 0) bs) of
           Inl err \<Rightarrow> Inl err
         | Inr bs \<Rightarrow>
             (let end_fixup = here bs;
                  bs = push_code (Jump 0) bs
              in compile_else_ifs gs else_ifs (end_fixups @ [end_fixup]) (patch_code jmp_idx (here bs) bs)))"
| "compile_else gs None bs = Inr bs"
| "compile_else gs (Some body) bs = compile_stmts gs body bs"

text \<open>A statement after which nothing runs.\<close>

definition stmt_is_terminator :: "statement \<Rightarrow> bool" where
  "stmt_is_terminator stmt \<longleftrightarrow> (case stmt of SReturn _ \<Rightarrow> True | Break \<Rightarrow> True | Continue \<Rightarrow> True | _ \<Rightarrow> False)"

text \<open>
  The end of an \<open>if\<close> without \<open>else\<close>: when its value is kept, the untaken path pushes the unit value, and
  the taken one, unless it has left, jumps over that.
\<close>

definition close_if_then :: "bool \<Rightarrow> statement list \<Rightarrow> nat \<Rightarrow> body_state \<Rightarrow> body_state" where
  "close_if_then keep_tail then_body jmp_idx bs =
     (if \<not> keep_tail then patch_code jmp_idx (here bs) bs
      else if then_body \<noteq> [] \<and> stmt_is_terminator (last then_body)
      then push_code PushUnit (patch_code jmp_idx (here bs) bs)
      else let jump_end = here bs;
               bs = push_code (Jump 0) bs;
               bs = push_code PushUnit (patch_code jmp_idx (here bs) bs)
           in patch_code jump_end (here bs) bs)"

text \<open>
  \<open>compile_if_stmt_with_keep\<close>, \<open>compile_branch_stmts\<close> and \<open>compile_stmt_keeping_value\<close>: the same for an
  \<open>if\<close> whose value is that of the body, every path of which ends with one value on the stack.
\<close>

fun compile_if_stmt_with_keep ::
    "(string \<Rightarrow> nat option) \<Rightarrow> bool \<Rightarrow> statement \<Rightarrow> body_state \<Rightarrow> string + body_state"
  and compile_branch_stmts ::
    "(string \<Rightarrow> nat option) \<Rightarrow> bool \<Rightarrow> statement list \<Rightarrow> body_state \<Rightarrow> string + body_state"
  and compile_else_ifs_with_keep ::
    "(string \<Rightarrow> nat option) \<Rightarrow> bool \<Rightarrow> (expr \<times> statement list) list \<Rightarrow> nat list \<Rightarrow> body_state \<Rightarrow>
       string + nat list \<times> body_state"
  and compile_else_with_keep ::
    "(string \<Rightarrow> nat option) \<Rightarrow> bool \<Rightarrow> statement list option \<Rightarrow> body_state \<Rightarrow> string + body_state"
  and compile_stmt_keeping_value ::
    "(string \<Rightarrow> nat option) \<Rightarrow> statement \<Rightarrow> body_state \<Rightarrow> string + body_state" where
  "compile_if_stmt_with_keep gs keep_tail (IfThen cond then_body) bs =
     (let bs = emit_expr gs cond bs;
          jmp_idx = here bs
      in case compile_branch_stmts gs keep_tail then_body (push_code (JumpIfNotCond 0) bs) of
           Inl err \<Rightarrow> Inl err
         | Inr bs \<Rightarrow> Inr (close_if_then keep_tail then_body jmp_idx bs))"
| "compile_if_stmt_with_keep gs keep_tail (IfElseBlock cond then_body else_ifs else_body) bs =
     (let bs = emit_expr gs cond bs;
          jmp_idx = here bs
      in case compile_branch_stmts gs keep_tail then_body (push_code (JumpIfNotCond 0) bs) of
           Inl err \<Rightarrow> Inl err
         | Inr bs \<Rightarrow>
             (let then_end = here bs;
                  bs = push_code (Jump 0) bs
              in case compile_else_ifs_with_keep gs keep_tail else_ifs [then_end]
                        (patch_code jmp_idx (here bs) bs) of
                   Inl err \<Rightarrow> Inl err
                 | Inr (jump_to_end_fixups, bs) \<Rightarrow>
                     (case compile_else_with_keep gs keep_tail else_body bs of
                        Inl err \<Rightarrow> Inl err
                      | Inr bs \<Rightarrow> Inr (patch_all jump_to_end_fixups (here bs) bs))))"
| "compile_if_stmt_with_keep gs keep_tail stmt bs = compile_stmt gs stmt bs"
| "compile_branch_stmts gs keep_tail [] bs = Inr (if keep_tail then push_code PushUnit bs else bs)"
| "compile_branch_stmts gs keep_tail [stmt] bs =
     (if keep_tail then compile_stmt_keeping_value gs stmt bs else compile_stmt gs stmt bs)"
| "compile_branch_stmts gs keep_tail (stmt # stmt' # stmts) bs =
     (case compile_stmt gs stmt bs of
        Inl err \<Rightarrow> Inl err
      | Inr bs \<Rightarrow> compile_branch_stmts gs keep_tail (stmt' # stmts) bs)"
| "compile_else_ifs_with_keep gs keep_tail [] end_fixups bs = Inr (end_fixups, bs)"
| "compile_else_ifs_with_keep gs keep_tail ((cond, body) # else_ifs) end_fixups bs =
     (let bs = emit_expr gs cond bs;
          jmp_idx = here bs
      in case compile_branch_stmts gs keep_tail body (push_code (JumpIfNotCond 0) bs) of
           Inl err \<Rightarrow> Inl err
         | Inr bs \<Rightarrow>
             (let end_fixup = here bs;
                  bs = push_code (Jump 0) bs
              in compile_else_ifs_with_keep gs keep_tail else_ifs (end_fixups @ [end_fixup])
                   (patch_code jmp_idx (here bs) bs)))"
| "compile_else_with_keep gs keep_tail None bs = Inr (if keep_tail then push_code PushUnit bs else bs)"
| "compile_else_with_keep gs keep_tail (Some body) bs = compile_branch_stmts gs keep_tail body bs"
| "compile_stmt_keeping_value gs stmt bs =
     (case stmt of
        ExprStmt e \<Rightarrow> Inr (emit_expr gs e bs)
      | IfThen _ _ \<Rightarrow> compile_if_stmt_with_keep gs True stmt bs
      | IfElseBlock _ _ _ _ \<Rightarrow> compile_if_stmt_with_keep gs True stmt bs
      | SReturn _ \<Rightarrow> compile_stmt gs stmt bs
      | Break \<Rightarrow> compile_stmt gs stmt bs
      | Continue \<Rightarrow> compile_stmt gs stmt bs
      | _ \<Rightarrow> map_sum id (push_code PushUnit) (compile_stmt gs stmt bs))"

text \<open>
  The loop of \<open>compile_pattern_body_with_locals\<close> over the statements of the body, and its end: what the
  fall-through return is to pop.
\<close>

fun compile_body_stmts :: "(string \<Rightarrow> nat option) \<Rightarrow> statement list \<Rightarrow> body_state \<Rightarrow> string + body_state" where
  "compile_body_stmts gs [] bs = Inr bs"
| "compile_body_stmts gs (stmt # stmts) bs =
     (case (case stmt of
              IfThen _ _ \<Rightarrow> compile_if_stmt_with_keep gs (stmts = []) stmt bs
            | IfElseBlock _ _ _ _ \<Rightarrow> compile_if_stmt_with_keep gs (stmts = []) stmt bs
            | Break \<Rightarrow> Inr bs
            | Continue \<Rightarrow> Inr bs
            | _ \<Rightarrow> compile_stmt gs stmt bs) of
        Inl err \<Rightarrow> Inl err
      | Inr bs \<Rightarrow> compile_body_stmts gs stmts bs)"

definition body_epilogue :: "statement list \<Rightarrow> instruction list \<Rightarrow> instruction list" where
  "body_epilogue stmts code =
     (if stmts = [] then code @ [PushUnit]
      else case last stmts of
             ExprStmt _ \<Rightarrow> (if code = [] then code else case last code of Pop \<Rightarrow> butlast code | _ \<Rightarrow> code)
           | SReturn _ \<Rightarrow> code
           | Break \<Rightarrow> code
           | Continue \<Rightarrow> code
           | IfThen _ _ \<Rightarrow> code
           | IfElseBlock _ _ _ _ \<Rightarrow> code
           | _ \<Rightarrow> code @ [PushUnit])"

definition compile_body ::
  "(string \<Rightarrow> nat option) \<Rightarrow> (string \<Rightarrow> nat option) \<Rightarrow> nat \<Rightarrow> statement list \<Rightarrow> string + instruction list" where
  "compile_body gs params param_count stmts =
     (case compile_body_stmts gs stmts
             \<lparr>bs_locals = params, bs_next_slot = param_count, bs_mutable = {}, bs_loop_stack = [], bs_code = []\<rparr> of
        Inl err \<Rightarrow> Inl err
      | Inr bs \<Rightarrow> Inr (body_epilogue stmts (bs_code bs)))"

end
