(* ===== verification/Lang_Parity.thy ===== *)
theory Lang_Parity
  imports Lang_Vm
begin

text \<open>
  The two engines agree: the code the compiler lays out for an expression, run by the machine,
  delivers what the tree walker computes. The machine only ever moves forward through such code, so
  the number of steps is bounded by its length and the loop guard never fires; an error unwinds with
  everything below the expression still on the stack, so a surrounding \<open>try\<close> resumes in the right
  frame.
\<close>

section \<open>Code at an address\<close>

definition code_in :: "instruction list \<Rightarrow> nat \<Rightarrow> instruction list \<Rightarrow> bool" where
  "code_in C a xs \<longleftrightarrow> (\<forall>i < length xs. a + i < length C \<and> C ! (a + i) = xs ! i)"

lemma code_in_Nil [simp]: "code_in C a []"
  by (simp add: code_in_def)

lemma code_in_Cons [simp]:
  "code_in C a (i # xs) \<longleftrightarrow> a < length C \<and> C ! a = i \<and> code_in C (a + 1) xs"
proof
  assume "code_in C a (i # xs)"
  then have *: "a + j < length C \<and> C ! (a + j) = (i # xs) ! j" if "j < Suc (length xs)" for j
    using that by (simp add: code_in_def)
  show "a < length C \<and> C ! a = i \<and> code_in C (a + 1) xs"
    using *[of 0] *[of "Suc _"] by (auto simp: code_in_def)
next
  assume "a < length C \<and> C ! a = i \<and> code_in C (a + 1) xs"
  then show "code_in C a (i # xs)"
    by (auto simp: code_in_def less_Suc_eq_0_disj)
qed

lemma code_in_append [simp]:
  "code_in C a (xs @ ys) \<longleftrightarrow> code_in C a xs \<and> code_in C (a + length xs) ys"
proof (induction xs arbitrary: a)
  case (Cons x xs)
  then show ?case by (simp add: add.assoc)
qed simp

lemma code_in_self: "code_in C 0 C"
  by (simp add: code_in_def)

section \<open>Forward runs\<close>

text \<open>
  \<open>advances\<close>: from address \<open>a\<close> the loop gets to \<open>b\<close> in at most \<open>b - a\<close> iterations; \<open>fail\<close>: it stops with
  an error before reaching \<open>b\<close>.
\<close>

definition advances ::
  "vm \<Rightarrow> nat \<Rightarrow> instruction list \<Rightarrow> nat \<Rightarrow> runtime_value list \<Rightarrow> nat \<Rightarrow> runtime_value list \<Rightarrow> bool" where
  "advances m d C a st b st' \<longleftrightarrow>
     a \<le> b \<and> (\<exists>k \<le> b - a. \<forall>n. run_loop m d (k + n) C a st = run_loop m d n C b st')"

definition fail ::
  "vm \<Rightarrow> nat \<Rightarrow> instruction list \<Rightarrow> nat \<Rightarrow> runtime_value list \<Rightarrow> nat \<Rightarrow> string \<Rightarrow> runtime_value list \<Rightarrow> bool" where
  "fail m d C a st b e st' \<longleftrightarrow>
     a \<le> b \<and> (\<exists>k \<le> b - a. \<forall>n. run_loop m d (k + n) C a st = (Inl e, st'))"

lemma advance_refl: "advances m d C a st a st"
  by (auto simp: advances_def intro!: exI [of _ 0])

lemma advance_trans:
  assumes "advances m d C a st b st'" "advances m d C b st' c st''"
  shows "advances m d C a st c st''"
proof -
  obtain k where k: "a \<le> b" "k \<le> b - a" "\<And>n. run_loop m d (k + n) C a st = run_loop m d n C b st'"
    using assms(1) by (auto simp: advances_def)
  obtain l where l: "b \<le> c" "l \<le> c - b" "\<And>n. run_loop m d (l + n) C b st' = run_loop m d n C c st''"
    using assms(2) by (auto simp: advances_def)
  have "run_loop m d (k + l + n) C a st = run_loop m d n C c st''" for n
    using k(3) [of "l + n"] l(3) by (simp add: add.assoc)
  then show ?thesis
    using k(1,2) l(1,2) by (auto simp: advances_def intro!: exI [of _ "k + l"])
qed

lemma advance_fail:
  assumes "advances m d C a st b st'" "fail m d C b st' c e st''"
  shows "fail m d C a st c e st''"
proof -
  obtain k where k: "a \<le> b" "k \<le> b - a" "\<And>n. run_loop m d (k + n) C a st = run_loop m d n C b st'"
    using assms(1) by (auto simp: advances_def)
  obtain l where l: "b \<le> c" "l \<le> c - b" "\<And>n. run_loop m d (l + n) C b st' = (Inl e, st'')"
    using assms(2) by (auto simp: fail_def)
  have "run_loop m d (k + l + n) C a st = (Inl e, st'')" for n
    using k(3) [of "l + n"] l(3) by (simp add: add.assoc)
  then show ?thesis
    using k(1,2) l(1,2) by (auto simp: fail_def intro!: exI [of _ "k + l"])
qed

lemma fail_mono: "fail m d C a st b e st' \<Longrightarrow> b \<le> c \<Longrightarrow> fail m d C a st c e st'"
  unfolding fail_def by (meson diff_le_mono le_trans)

lemma advance_step:
  assumes "step m (C ! a) a st = Goto b st'" "a < length C" "a < b"
  shows "advances m d C a st b st'"
proof -
  have "run_loop m d (1 + n) C a st = run_loop m d n C b st'" for n
    using assms by (simp add: run_loop.simps [of m d "Suc n"])
  then show ?thesis using assms(3) by (auto simp: advances_def intro!: exI [of _ 1])
qed

lemma fail_step:
  assumes "step m (C ! a) a st = Stop (Inl e) st'" "a < length C" "a < b"
  shows "fail m d C a st b e st'"
proof -
  have "run_loop m d (1 + n) C a st = (Inl e, st')" for n
    using assms by (simp add: run_loop.simps [of m d "Suc n"])
  then show ?thesis using assms(3) by (auto simp: fail_def intro!: exI [of _ 1])
qed

text \<open>Running a whole body.\<close>

lemma budget_ge: "length C \<le> iteration_budget C"
  by (simp add: iteration_budget_def)

lemma execute_advance:
  assumes "advances m (d + 1) C 0 st (length C) (st @ [v])" "d < vm_max_call_depth m"
  shows "execute_code m d C st = (Inr v, st)"
proof -
  obtain k where k: "k \<le> length C" "\<And>n. run_loop m (d + 1) (k + n) C 0 st = run_loop m (d + 1) n C (length C) (st @ [v])"
    using assms(1) by (auto simp: advances_def)
  have "run_loop m (d + 1) (iteration_budget C) C 0 st = epilogue (st @ [v])"
    using k(2) [of "iteration_budget C - k"] k(1) budget_ge [of C]
    by (simp add: run_loop.simps [of m _ _ C "length C"])
  then show ?thesis using assms(2) by (simp add: execute_code.simps epilogue_def)
qed

lemma execute_fail:
  assumes "fail m (d + 1) C 0 st (length C) e st'" "d < vm_max_call_depth m"
  shows "execute_code m d C st = (Inl e, st')"
proof -
  obtain k where k: "k \<le> length C" "\<And>n. run_loop m (d + 1) (k + n) C 0 st = (Inl e, st')"
    using assms(1) by (auto simp: fail_def)
  have "run_loop m (d + 1) (iteration_budget C) C 0 st = (Inl e, st')"
    using k(2) [of "iteration_budget C - k"] k(1) budget_ge [of C] by simp
  then show ?thesis using assms(2) by (simp add: execute_code.simps)
qed

text \<open>A guarded body that delivers or fails with the stack below it intact.\<close>

lemma advance_try:
  assumes "execute_code m d inner st = (r, st @ ext)" "is_ok r \<Longrightarrow> ext = []"
    and "a < length C" "C ! a = TryEval inner"
  shows "advances m d C a st (a + 1) (st @ [caught r])"
proof -
  have "run_loop m d (1 + n) C a st = run_loop m d n C (a + 1) (st @ [caught r])" for n
    using assms by (cases r) (simp_all add: run_loop.simps [of m d "Suc n"])
  then show ?thesis by (auto simp: advances_def intro!: exI [of _ 1])
qed

section \<open>Where the engines agree\<close>

text \<open>
  Two departures are set apart. Index access answers the unit value on the machine where the tree
  walker refuses or indexes a string. And \<open>!=\<close> on incomparable operands is refused with the name of
  \<open>==\<close> by the machine, so the message differs in that word; inside a \<open>try\<close> the message
  becomes a value, hence \<open>strict\<close>.
\<close>

fun portable :: "bool \<Rightarrow> expr \<Rightarrow> bool" where
  "portable strict (FieldAccess base _) = portable strict base"
| "portable strict (BinaryOp l op r) =
     ((strict \<longrightarrow> op \<noteq> Ne) \<and> portable strict l \<and> portable strict r)"
| "portable strict (IfElse c t e) = (portable strict c \<and> portable strict t \<and> portable strict e)"
| "portable strict (ListLit es) = list_all (portable strict) es"
| "portable strict (IndexAccess _ _) = False"
| "portable strict (StructLit kvs) = list_all (\<lambda>(_, e). portable strict e) kvs"
| "portable strict (Try e) = portable True e"
| "portable strict _ = True"

text \<open>How deep \<open>try\<close> is nested: each level is one more run of a body.\<close>

fun try_depth :: "expr \<Rightarrow> nat" where
  "try_depth (FieldAccess base _) = try_depth base"
| "try_depth (BinaryOp l _ r) = max (try_depth l) (try_depth r)"
| "try_depth (IfElse c t e) = max (try_depth c) (max (try_depth t) (try_depth e))"
| "try_depth (ListLit es) = foldr max (map try_depth es) 0"
| "try_depth (IndexAccess b i) = max (try_depth b) (try_depth i)"
| "try_depth (StructLit kvs) = foldr max (map (\<lambda>(_, e). try_depth e) kvs) 0"
| "try_depth (Try e) = try_depth e + 1"
| "try_depth _ = 0"

text \<open>
  Two errors are the same: the same text, and unless \<open>strict\<close> also the two texts of the refusal of \<open>!=\<close>,
  which name the same operands and differ in the operator only.
\<close>

definition same_error :: "bool \<Rightarrow> string \<Rightarrow> string \<Rightarrow> bool" where
  "same_error strict e e' \<longleftrightarrow>
     e' = e \<or> \<not> strict \<and> (\<exists>x y. e = binop_mismatch x ''Ne'' y \<and> e' = binop_mismatch x ''Eq'' y)"

lemma same_error_refl [simp]: "same_error strict e e"
  by (simp add: same_error_def)

text \<open>The names an expression reads.\<close>

fun reads :: "expr \<Rightarrow> string list" where
  "reads (Ident x) = [x]"
| "reads (FieldAccess base _) = reads base"
| "reads (BinaryOp l _ r) = reads l @ reads r"
| "reads (IfElse c t e) = reads c @ reads t @ reads e"
| "reads (ListLit es) = concat (map reads es)"
| "reads (IndexAccess b i) = reads b @ reads i"
| "reads (StructLit kvs) = concat (map (\<lambda>(_, e). reads e) kvs)"
| "reads (Try e) = reads e"
| "reads _ = []"

text \<open>The scope the compiler used finds on the stack and in the globals what the tree walker looks up.\<close>

definition finds :: "vm \<Rightarrow> scope \<Rightarrow> (string \<Rightarrow> runtime_value option) \<Rightarrow> runtime_value list \<Rightarrow> string \<Rightarrow> bool" where
  "finds m sc lk frame x \<longleftrightarrow>
     (case sc_locals sc x of
        Some s \<Rightarrow> vm_base_bp m + s < length frame \<and> lk x = Some (frame ! (vm_base_bp m + s))
      | None \<Rightarrow>
          (case sc_global_slots sc x of
             Some g \<Rightarrow> g < length (vm_globals m) \<and> lk x = Some (vm_globals m ! g)
           | None \<Rightarrow> lk x = load_by_name m x))"

definition resolves :: "vm \<Rightarrow> scope \<Rightarrow> (string \<Rightarrow> runtime_value option) \<Rightarrow> runtime_value list \<Rightarrow> expr \<Rightarrow> bool" where
  "resolves m sc lk frame e \<longleftrightarrow> list_all (finds m sc lk frame) (reads e)"

text \<open>
  The machine, at \<open>a\<close> with the stack \<open>st\<close>, delivers the outcome \<open>r\<close> at \<open>b\<close> over the stack \<open>base\<close>: the values on
  top of it, or the same error with everything in \<open>base\<close> still there.
\<close>

definition delivers ::
  "vm \<Rightarrow> nat \<Rightarrow> bool \<Rightarrow> instruction list \<Rightarrow> nat \<Rightarrow> runtime_value list \<Rightarrow> nat \<Rightarrow> runtime_value list \<Rightarrow> string + runtime_value list \<Rightarrow> bool" where
  "delivers m d strict C a st b base r =
     (case r of
        Inr vs \<Rightarrow> advances m d C a st b (base @ vs)
      | Inl e \<Rightarrow> (\<exists>e' ext. same_error strict e e' \<and> fail m d C a st b e' (base @ ext)))"

abbreviation single :: "string + runtime_value \<Rightarrow> string + runtime_value list" where
  "single r \<equiv> map_sum id (\<lambda>v. [v]) r"

lemma delivers_Inr [simp]: "delivers m d strict C a st b base (Inr vs) = advances m d C a st b (base @ vs)"
  by (simp add: delivers_def)

lemma delivers_InlI:
  "same_error strict e e' \<Longrightarrow> fail m d C a st b e' (base @ ext) \<Longrightarrow> delivers m d strict C a st b base (Inl e)"
  by (auto simp: delivers_def)

lemma delivers_InlE:
  assumes "delivers m d strict C a st b base (Inl e)"
  obtains e' ext where "same_error strict e e'" "fail m d C a st b e' (base @ ext)"
  using assms by (auto simp: delivers_def)

lemma delivers_after:
  assumes "advances m d C a st b st'" "delivers m d strict C b st' c base r"
  shows "delivers m d strict C a st c base r"
proof (cases r)
  case (Inl e)
  then show ?thesis
    using assms by (auto elim!: delivers_InlE intro: delivers_InlI advance_fail)
qed (use assms in \<open>auto intro: advance_trans\<close>)

text \<open>An error over a taller stack is an error over a shorter one, and reaches further ends too.\<close>

lemma delivers_error_mono:
  assumes "delivers m d strict C a st b (base @ ups) (Inl e)" "b \<le> c"
  shows "delivers m d strict C a st c base (Inl e)"
  using assms(1)
proof (rule delivers_InlE)
  fix e' ext
  assume "same_error strict e e'" "fail m d C a st b e' ((base @ ups) @ ext)"
  then show ?thesis
    using delivers_InlI [of strict e e' m d C a st c base "ups @ ext"] fail_mono assms(2) by simp
qed

text \<open>An instruction that pushes a result over \<open>base\<close>.\<close>

lemma delivers_op:
  assumes "step m (C ! b) b st = push_result r' b base" "b < length C"
    and "r' = r \<or> (\<exists>e e'. r = Inl e \<and> r' = Inl e' \<and> same_error strict e e')"
  shows "delivers m d strict C b st (b + 1) base (single r)"
proof (cases r')
  case (Inr v)
  then have "r = Inr v" using assms(3) by auto
  moreover have "advances m d C b st (b + 1) (base @ [v])"
    using assms(1,2) Inr by (intro advance_step) (auto simp: push_result_def)
  ultimately show ?thesis by simp
next
  case (Inl e')
  then obtain e where e: "r = Inl e" "same_error strict e e'" using assms(3) by auto
  have "fail m d C b st (b + 1) e' (base @ [])"
    using assms(1,2) Inl by (intro fail_step) (auto simp: push_result_def)
  then show ?thesis using e(1) delivers_InlI [OF e(2), of m d C b st "b + 1" base "[]"] by simp
qed

section \<open>The simulation, construct by construct\<close>

definition simulated :: "vm \<Rightarrow> scope \<Rightarrow> (string \<Rightarrow> runtime_value option) \<Rightarrow> runtime_value list \<Rightarrow> expr \<Rightarrow> bool" where
  "simulated m sc lk frame e \<longleftrightarrow>
     (\<forall>strict d C a tmp.
        portable strict e \<longrightarrow> d + try_depth e \<le> vm_max_call_depth m \<longrightarrow> code_in C a (code_at sc e a) \<longrightarrow>
        delivers m d strict C a (frame @ tmp) (a + length (code_at sc e a)) (frame @ tmp)
          (single (eval_expr lk e)))"

lemma simulatedD:
  assumes "simulated m sc lk frame e" "portable strict e" "d + try_depth e \<le> vm_max_call_depth m"
    and "code_in C a (code_at sc e a)"
  shows "delivers m d strict C a (frame @ tmp) (a + length (code_at sc e a)) (frame @ tmp)
    (single (eval_expr lk e))"
  using assms by (auto simp: simulated_def)

text \<open>
  Running the code of an expression and then something else: an error of the expression is the
  outcome, otherwise the rest runs with its value on the stack.
\<close>

lemma delivers_bind:
  assumes "simulated m sc lk frame e" "portable strict e" "d + try_depth e \<le> vm_max_call_depth m"
    and "code_in C a (code_at sc e a)" "a + length (code_at sc e a) \<le> c"
    and rest: "\<And>v. eval_expr lk e = Inr v \<Longrightarrow>
      delivers m d strict C (a + length (code_at sc e a)) (frame @ tmp @ ups @ [v]) c (frame @ tmp) (k v)"
  shows "delivers m d strict C a (frame @ tmp @ ups) c (frame @ tmp)
    (case eval_expr lk e of Inl err \<Rightarrow> Inl err | Inr v \<Rightarrow> k v)"
proof -
  have *: "delivers m d strict C a (frame @ tmp @ ups) (a + length (code_at sc e a)) (frame @ tmp @ ups)
      (single (eval_expr lk e))"
    using simulatedD [OF assms(1-4), of "tmp @ ups"] by simp
  show ?thesis
  proof (cases "eval_expr lk e")
    case (Inl err)
    then show ?thesis
      using * assms(5) delivers_error_mono [of m d strict C a "frame @ tmp @ ups" _ "frame @ tmp" ups err c]
      by simp
  next
    case (Inr v)
    then show ?thesis using * rest [OF Inr] by (simp add: delivers_after)
  qed
qed

lemma simulated_const:
  assumes "code_at sc e = (\<lambda>a. [Const v])" "eval_expr lk e = Inr v"
  shows "simulated m sc lk frame e"
  unfolding simulated_def by (auto simp: assms intro!: advance_step)

lemma simulated_literals:
  "simulated m sc lk frame (StringLit s)"
  "simulated m sc lk frame (FloatLit f)"
  "simulated m sc lk frame (BoolLit b)"
  using simulated_const [of sc "StringLit s" "VString s" lk] simulated_const [of sc "FloatLit f" "VFloat f" lk]
    simulated_const [of sc "BoolLit b" "VBool b" lk] by (simp_all add: fun_eq_iff)

lemma simulated_ident:
  assumes "finds m sc lk frame x"
  shows "simulated m sc lk frame (Ident x)"
  unfolding simulated_def
proof (intro allI impI)
  fix strict d C a tmp
  assume C: "code_in C a (code_at sc (Ident x) a)"
  have "step m (load_ident sc x) a (frame @ tmp) = push_result (eval_expr lk (Ident x)) a (frame @ tmp)"
    using assms by (auto simp: finds_def load_ident_def push_result_def nth_append Let_def split: option.splits)
  then have "delivers m d strict C a (frame @ tmp) (a + 1) (frame @ tmp) (single (eval_expr lk (Ident x)))"
    using C by (intro delivers_op) auto
  then show "delivers m d strict C a (frame @ tmp) (a + length (code_at sc (Ident x) a)) (frame @ tmp)
       (single (eval_expr lk (Ident x)))" by simp
qed

text \<open>Every operator of the machine against that of the tree walker.\<close>

fun vm_binop :: "binop \<Rightarrow> runtime_value \<Rightarrow> runtime_value \<Rightarrow> string + runtime_value" where
  "vm_binop Gt l r = vm_eval_cmp l r CGt"
| "vm_binop Lt l r = vm_eval_cmp l r CLt"
| "vm_binop Ge l r = vm_eval_cmp l r CGe"
| "vm_binop Le l r = vm_eval_cmp l r CLe"
| "vm_binop Eq l r = vm_eval_cmp l r CEq"
| "vm_binop Ne l r = vm_not_equal l r"
| "vm_binop op l r = vm_eval_binop l op r"

lemma step_op_instruction:
  "op \<noteq> And \<Longrightarrow> op \<noteq> Or \<Longrightarrow>
     step m (op_instruction op) b (st @ [x, y]) = push_result (vm_binop op x y) b st"
  by (cases op) simp_all

lemma first_separator:
  "x \<notin> set xs \<Longrightarrow> x \<notin> set ys \<Longrightarrow> xs @ x # us = ys @ x # vs \<longleftrightarrow> xs = ys \<and> us = vs"
proof (induction xs arbitrary: ys)
  case Nil
  then show ?case by (cases ys) auto
next
  case (Cons a xs)
  then show ?case by (cases ys) auto
qed

lemma split_stamp_other:
  assumes "CHR '']'' \<notin> set code" "list_all (\<lambda>c. CHR '']'' \<notin> set c) codes"
  shows "split_stamp codes (coded_error code msg) = (if code \<in> set codes then Some (code, msg) else None)"
  using assms(2)
proof (induction codes)
  case (Cons c cs)
  have "strip_prefix (''['' @ c @ ''] '') (''['' @ code @ ''] '' @ msg) =
      (if c = code then Some msg else None)"
  proof (cases "strip_prefix (''['' @ c @ ''] '') (''['' @ code @ ''] '' @ msg)")
    case None
    then show ?thesis using strip_prefix_append [of "code @ ''] ''" msg] by auto
  next
    case (Some rest)
    then have "c @ CHR '']'' # CHR '' '' # rest = code @ CHR '']'' # CHR '' '' # msg"
      by (simp add: strip_prefix_Some)
    then have "c = code \<and> rest = msg"
      using assms(1) Cons.prems by (simp add: first_separator)
    with Some show ?thesis by simp
  qed
  with Cons show ?case by (auto simp: coded_error_def)
qed simp

lemma stamped_codes_plain: "list_all (\<lambda>c. CHR '']'' \<notin> set c) ORIGIN_STAMPED_CODES"
  by (simp add: ORIGIN_STAMPED_CODES_def)

lemma stable_code_coded:
  assumes "CHR '']'' \<notin> set code"
  shows "stable_try_error_code (coded_error code msg) =
    (if code \<in> set ORIGIN_STAMPED_CODES then code else CODE_RUNTIME_ERROR)"
  by (simp add: stable_try_error_code_def split_origin_stamp_def
      split_stamp_other [OF assms stamped_codes_plain])

lemma vm_binop_agrees:
  assumes "op \<noteq> And" "op \<noteq> Or" "strict \<longrightarrow> op \<noteq> Ne"
  shows "vm_binop op x y = tw_eval_binop x op y \<or>
    (\<exists>e e'. tw_eval_binop x op y = Inl e \<and> vm_binop op x y = Inl e' \<and> same_error strict e e')"
proof (cases "op = Ne")
  case True
  then have "\<not> strict" using assms(3) by simp
  then have "same_error strict (binop_mismatch x ''Ne'' y) (binop_mismatch x ''Eq'' y)"
    by (auto simp: same_error_def)
  then show ?thesis
    using True by (cases "scalar_eq x y")
      (auto simp: vm_not_equal_cases tw_eval_binop_def tw_match_binop_def)
next
  case False
  have "vm_binop op x y = tw_eval_binop x op y"
    by (cases op) (use False assms in \<open>simp_all add: vm_arith_eq_tw vm_cmp_eq_tw\<close>)
  then show ?thesis by simp
qed

declare code_at.simps(6) [simp del] eval_expr.simps(6) [simp del]

lemma simulated_field:
  assumes "simulated m sc lk frame base"
  shows "simulated m sc lk frame (FieldAccess base f)"
  unfolding simulated_def
proof (intro allI impI)
  fix strict d C a tmp
  let ?b = "a + length (code_at sc base a)"
  assume *: "portable strict (FieldAccess base f)" "d + try_depth (FieldAccess base f) \<le> vm_max_call_depth m"
    "code_in C a (code_at sc (FieldAccess base f) a)"
  have "delivers m d strict C ?b (frame @ tmp @ [] @ [v]) (?b + 1) (frame @ tmp) (single (get_field v f))" for v
    using * pop_or_unit_snoc [of "frame @ tmp" v]
    by (intro delivers_op [where r' = "get_field v f"]) auto
  then have "delivers m d strict C a (frame @ tmp @ []) (?b + 1) (frame @ tmp)
      (case eval_expr lk base of Inl err \<Rightarrow> Inl err | Inr v \<Rightarrow> single (get_field v f))"
    using * by (intro delivers_bind [OF assms]) auto
  then show "delivers m d strict C a (frame @ tmp) (a + length (code_at sc (FieldAccess base f) a)) (frame @ tmp)
      (single (eval_expr lk (FieldAccess base f)))"
    by (cases "eval_expr lk base") simp_all
qed

lemma simulated_strict_binop:
  assumes l: "simulated m sc lk frame l" and r: "simulated m sc lk frame r" and op: "op \<noteq> And" "op \<noteq> Or"
  shows "simulated m sc lk frame (BinaryOp l op r)"
  unfolding simulated_def
proof (intro allI impI)
  fix strict d C a tmp
  let ?e = "BinaryOp l op r"
  let ?b = "a + length (code_at sc l a)"
  let ?c = "?b + length (code_at sc r ?b)"
  assume *: "portable strict ?e" "d + try_depth ?e \<le> vm_max_call_depth m" "code_in C a (code_at sc ?e a)"
  have code: "code_at sc ?e a = code_at sc l a @ code_at sc r ?b @ [op_instruction op]"
    using op by (cases op) (auto simp: Let_def code_at.simps)
  have eval: "single (eval_expr lk ?e) = (case eval_expr lk l of Inl e \<Rightarrow> Inl e
      | Inr x \<Rightarrow> (case eval_expr lk r of Inl e \<Rightarrow> Inl e | Inr y \<Rightarrow> single (tw_eval_binop x op y)))"
    using op by (cases op) (auto simp: eval_expr.simps eval_binary_def split: sum.split)
  have C: "code_in C a (code_at sc l a)" "code_in C ?b (code_at sc r ?b)" "code_in C ?c [op_instruction op]"
    using *(3) unfolding code by simp_all
  have p: "portable strict l" "portable strict r" "d + try_depth l \<le> vm_max_call_depth m"
    "d + try_depth r \<le> vm_max_call_depth m" "strict \<longrightarrow> op \<noteq> Ne" using *(1,2) by auto
  have 1: "delivers m d strict C ?c (frame @ tmp @ [x] @ [y]) (?c + 1) (frame @ tmp)
      (single (tw_eval_binop x op y))" for x y
    using C(3) step_op_instruction [OF op, of m ?c "frame @ tmp" x y]
    by (intro delivers_op [OF _ _ vm_binop_agrees [OF op p(5)]]) simp_all
  have 2: "delivers m d strict C ?b (frame @ tmp @ [] @ [x]) (?c + 1) (frame @ tmp)
      (case eval_expr lk r of Inl e \<Rightarrow> Inl e | Inr y \<Rightarrow> single (tw_eval_binop x op y))" for x
    using delivers_bind [OF r p(2,4) C(2), of "?c + 1" tmp "[x]"] 1 by simp
  have "delivers m d strict C a (frame @ tmp @ []) (?c + 1) (frame @ tmp) (single (eval_expr lk ?e))"
    unfolding eval by (rule delivers_bind [OF l p(1,3) C(1) _ 2]) simp
  then show "delivers m d strict C a (frame @ tmp) (a + length (code_at sc ?e a)) (frame @ tmp) (single (eval_expr lk ?e))"
    unfolding code by (simp add: add.assoc)
qed

subsection \<open>Control flow\<close>

lemma advance_jump:
  assumes "code_in C a [Jump b]" "a < b"
  shows "advances m d C a st b st"
  using assms by (intro advance_step) auto

lemma advance_const:
  assumes "code_in C a [Const v]"
  shows "advances m d C a st (a + 1) (st @ [v])"
  using assms by (intro advance_step) auto

lemma advance_if_not:
  assumes "code_in C a [JumpIfNot f]" "a < f"
  shows "advances m d C a (st @ [v]) (if is_truthy v then a + 1 else f) st"
  using assms by (intro advance_step) auto

text \<open>The tail shared by \<open>and\<close> and \<open>or\<close>: the right operand is on the stack, its truth is the result.\<close>

lemma advance_truth_tail:
  assumes "code_in C b [JumpIfNot (b + 3), Const (VBool True), Jump (b + 4), Const (VBool False)]"
  shows "advances m d C b (st @ [v]) (b + 4) (st @ [VBool (is_truthy v)])"
proof (cases "is_truthy v")
  case True
  have 1: "advances m d C b (st @ [v]) (b + 1) st"
    using advance_if_not [of C b "b + 3" m d st v] assms True by simp
  have 2: "advances m d C (b + 1) st (b + 1 + 1) (st @ [VBool True])"
    using assms by (intro advance_const) simp
  have 3: "advances m d C (b + 1 + 1) (st @ [VBool True]) (b + 4) (st @ [VBool True])"
    using assms by (intro advance_jump) simp_all
  show ?thesis using advance_trans [OF advance_trans [OF 1 2] 3] True by simp
next
  case False
  have 1: "advances m d C b (st @ [v]) (b + 3) st"
    using advance_if_not [of C b "b + 3" m d st v] assms False by simp
  have 2: "advances m d C (b + 3) st (b + 3 + 1) (st @ [VBool False])"
    using assms by (intro advance_const) (simp add: eval_nat_numeral)
  show ?thesis using advance_trans [OF 1 2] False by (simp add: eval_nat_numeral)
qed

text \<open>Branching on the value on top of the stack.\<close>

lemma delivers_if_not:
  assumes "code_in C b [JumpIfNot f]" "b < f"
    and "is_truthy x \<Longrightarrow> delivers m d strict C (b + 1) st c base r"
    and "\<not> is_truthy x \<Longrightarrow> delivers m d strict C f st c base r"
  shows "delivers m d strict C b (st @ [x]) c base r"
  using advance_if_not [OF assms(1,2), of m d st x] assms(3,4)
  by (cases "is_truthy x") (auto intro: delivers_after)

lemma delivers_if_not_cond:
  assumes "code_in C b [JumpIfNotCond f]" "b < f" "f \<le> c"
    and "as_bool x = Inr True \<Longrightarrow> delivers m d strict C (b + 1) base c base r1"
    and "as_bool x = Inr False \<Longrightarrow> delivers m d strict C f base c base r2"
  shows "delivers m d strict C b (base @ [x]) c base
    (case as_bool x of Inl e \<Rightarrow> Inl e | Inr t \<Rightarrow> if t then r1 else r2)"
proof (cases "as_bool x")
  case (Inl e)
  have "fail m d C b (base @ [x]) c e (base @ [])"
    using assms(1-3) Inl by (intro fail_step) auto
  then show ?thesis
    using Inl delivers_InlI [OF same_error_refl, of m d C b "base @ [x]" c e base "[]" strict] by simp
next
  case (Inr t)
  have "advances m d C b (base @ [x]) (if t then b + 1 else f) base"
    using assms(1,2) Inr by (intro advance_step) auto
  then show ?thesis using Inr assms(4,5) by (cases t) (auto intro: delivers_after)
qed

lemma simulated_and:
  assumes l: "simulated m sc lk frame l" and r: "simulated m sc lk frame r"
  shows "simulated m sc lk frame (BinaryOp l And r)"
  unfolding simulated_def
proof (intro allI impI)
  fix strict d C a tmp
  let ?e = "BinaryOp l And r" and ?st = "frame @ tmp"
  define b where "b = a + length (code_at sc l a)"
  define c where "c = b + 1 + length (code_at sc r (b + 1))"
  assume *: "portable strict ?e" "d + try_depth ?e \<le> vm_max_call_depth m" "code_in C a (code_at sc ?e a)"
  have code: "code_at sc ?e a = code_at sc l a @ [JumpIfNot (c + 3)] @ code_at sc r (b + 1) @
      [JumpIfNot (c + 3), Const (VBool True), Jump (c + 4), Const (VBool False)]"
    by (simp add: Let_def code_at.simps b_def c_def)
  have len: "a + length (code_at sc ?e a) = c + 4" unfolding code by (simp add: b_def c_def)
  have eval: "single (eval_expr lk ?e) = (case eval_expr lk l of Inl e \<Rightarrow> Inl e
      | Inr x \<Rightarrow> (if \<not> is_truthy x then Inr [VBool False]
          else case eval_expr lk r of Inl e \<Rightarrow> Inl e | Inr y \<Rightarrow> Inr [VBool (is_truthy y)]))"
    by (auto simp: eval_expr.simps eval_binary_def split: sum.split)
  have C: "code_in C a (code_at sc l a)" "code_in C b [JumpIfNot (c + 3)]"
    "code_in C (b + 1) (code_at sc r (b + 1))"
    "code_in C c [JumpIfNot (c + 3), Const (VBool True), Jump (c + 4), Const (VBool False)]"
    using *(3) unfolding code by (simp_all only: code_in_append) (simp_all add: b_def c_def)
  have p: "portable strict l" "portable strict r" "d + try_depth l \<le> vm_max_call_depth m"
    "d + try_depth r \<le> vm_max_call_depth m" using *(1,2) by auto
  have le: "a + length (code_at sc l a) \<le> c + 4" "b + 1 + length (code_at sc r (b + 1)) \<le> c + 4"
    by (simp_all add: b_def c_def)
  have right: "delivers m d strict C (b + 1) (frame @ tmp @ []) (c + 4) ?st
      (case eval_expr lk r of Inl e \<Rightarrow> Inl e | Inr y \<Rightarrow> Inr [VBool (is_truthy y)])"
    by (rule delivers_bind [OF r p(2,4) C(3) le(2)])
       (use advance_truth_tail [OF C(4), of m d ?st] in \<open>simp add: c_def\<close>)
  have "advances m d C (c + 3) ?st (c + 3 + 1) (?st @ [VBool False])"
    using C(4) by (intro advance_const) (simp add: eval_nat_numeral)
  then have skip: "delivers m d strict C (c + 3) ?st (c + 4) ?st (Inr [VBool False])"
    by (simp add: add.commute)
  have left: "delivers m d strict C b (?st @ [x]) (c + 4) ?st
      (if \<not> is_truthy x then Inr [VBool False]
       else case eval_expr lk r of Inl e \<Rightarrow> Inl e | Inr y \<Rightarrow> Inr [VBool (is_truthy y)])" for x
    by (rule delivers_if_not [OF C(2)]) (use right skip in \<open>auto simp: c_def\<close>)
  have "delivers m d strict C a (frame @ tmp @ []) (c + 4) ?st (single (eval_expr lk ?e))"
    unfolding eval by (rule delivers_bind [OF l p(1,3) C(1) le(1)]) (use left in \<open>simp add: b_def\<close>)
  then show "delivers m d strict C a ?st (a + length (code_at sc ?e a)) ?st (single (eval_expr lk ?e))"
    unfolding len by simp
qed

lemma simulated_or:
  assumes l: "simulated m sc lk frame l" and r: "simulated m sc lk frame r"
  shows "simulated m sc lk frame (BinaryOp l Or r)"
  unfolding simulated_def
proof (intro allI impI)
  fix strict d C a tmp
  let ?e = "BinaryOp l Or r" and ?st = "frame @ tmp"
  define b where "b = a + length (code_at sc l a)"
  define c where "c = b + 3 + length (code_at sc r (b + 3))"
  assume *: "portable strict ?e" "d + try_depth ?e \<le> vm_max_call_depth m" "code_in C a (code_at sc ?e a)"
  have code: "code_at sc ?e a = code_at sc l a @ [JumpIfNot (b + 3), Const (VBool True), Jump (c + 4)] @
      code_at sc r (b + 3) @ [JumpIfNot (c + 3), Const (VBool True), Jump (c + 4), Const (VBool False)]"
    by (simp add: Let_def code_at.simps b_def c_def)
  have len: "a + length (code_at sc ?e a) = c + 4" unfolding code by (simp add: b_def c_def)
  have eval: "single (eval_expr lk ?e) = (case eval_expr lk l of Inl e \<Rightarrow> Inl e
      | Inr x \<Rightarrow> (if is_truthy x then Inr [VBool True]
          else case eval_expr lk r of Inl e \<Rightarrow> Inl e | Inr y \<Rightarrow> Inr [VBool (is_truthy y)]))"
    by (auto simp: eval_expr.simps eval_binary_def split: sum.split)
  have C: "code_in C a (code_at sc l a)" "code_in C b [JumpIfNot (b + 3), Const (VBool True), Jump (c + 4)]"
    "code_in C (b + 3) (code_at sc r (b + 3))"
    "code_in C c [JumpIfNot (c + 3), Const (VBool True), Jump (c + 4), Const (VBool False)]"
  proof -
    have "length [JumpIfNot (b + 3), Const (VBool True), Jump (c + 4)] = 3" by simp
    then show "code_in C a (code_at sc l a)" "code_in C b [JumpIfNot (b + 3), Const (VBool True), Jump (c + 4)]"
      "code_in C (b + 3) (code_at sc r (b + 3))"
      "code_in C c [JumpIfNot (c + 3), Const (VBool True), Jump (c + 4), Const (VBool False)]"
      using *(3) unfolding code by (simp_all only: code_in_append b_def [symmetric] c_def [symmetric])
  qed
  have p: "portable strict l" "portable strict r" "d + try_depth l \<le> vm_max_call_depth m"
    "d + try_depth r \<le> vm_max_call_depth m" using *(1,2) by auto
  have le: "a + length (code_at sc l a) \<le> c + 4" "b + 3 + length (code_at sc r (b + 3)) \<le> c + 4"
    by (simp_all add: b_def c_def)
  have right: "delivers m d strict C (b + 3) (frame @ tmp @ []) (c + 4) ?st
      (case eval_expr lk r of Inl e \<Rightarrow> Inl e | Inr y \<Rightarrow> Inr [VBool (is_truthy y)])"
    by (rule delivers_bind [OF r p(2,4) C(3) le(2)])
       (use advance_truth_tail [OF C(4), of m d ?st] in \<open>simp add: c_def\<close>)
  have t: "advances m d C (b + 1) ?st (b + 1 + 1) (?st @ [VBool True])"
    using C(2) by (intro advance_const) simp
  have "advances m d C (b + 1 + 1) (?st @ [VBool True]) (c + 4) (?st @ [VBool True])"
    using C(2) by (intro advance_jump) (simp_all add: c_def)
  then have skip: "delivers m d strict C (b + 1) ?st (c + 4) ?st (Inr [VBool True])"
    using advance_trans [OF t] by simp
  have left: "delivers m d strict C b (?st @ [x]) (c + 4) ?st
      (if is_truthy x then Inr [VBool True]
       else case eval_expr lk r of Inl e \<Rightarrow> Inl e | Inr y \<Rightarrow> Inr [VBool (is_truthy y)])" for x
    by (rule delivers_if_not [of C b "b + 3"]) (use C(2) right skip in auto)
  have "delivers m d strict C a (frame @ tmp @ []) (c + 4) ?st (single (eval_expr lk ?e))"
    unfolding eval by (rule delivers_bind [OF l p(1,3) C(1) le(1)]) (use left in \<open>simp add: b_def\<close>)
  then show "delivers m d strict C a ?st (a + length (code_at sc ?e a)) ?st (single (eval_expr lk ?e))"
    unfolding len by simp
qed

lemma simulated_if:
  assumes c: "simulated m sc lk frame cond" and t: "simulated m sc lk frame th" and e: "simulated m sc lk frame el"
  shows "simulated m sc lk frame (IfElse cond th el)"
  unfolding simulated_def
proof (intro allI impI)
  fix strict d C a tmp
  let ?e = "IfElse cond th el" and ?st = "frame @ tmp"
  define b where "b = a + length (code_at sc cond a)"
  define j where "j = b + 1 + length (code_at sc th (b + 1))"
  define z where "z = j + 1 + length (code_at sc el (j + 1))"
  assume *: "portable strict ?e" "d + try_depth ?e \<le> vm_max_call_depth m" "code_in C a (code_at sc ?e a)"
  have code: "code_at sc ?e a = code_at sc cond a @ [JumpIfNotCond (j + 1)] @ code_at sc th (b + 1) @
      [Jump z] @ code_at sc el (j + 1)"
    by (simp add: Let_def b_def j_def z_def)
  have len: "a + length (code_at sc ?e a) = z" unfolding code by (simp add: b_def j_def z_def)
  have eval: "single (eval_expr lk ?e) = (case eval_expr lk cond of Inl e \<Rightarrow> Inl e
      | Inr x \<Rightarrow> (case as_bool x of Inl e \<Rightarrow> Inl e
          | Inr t \<Rightarrow> if t then single (eval_expr lk th) else single (eval_expr lk el)))"
    by (auto split: sum.split)
  have C: "code_in C a (code_at sc cond a)" "code_in C b [JumpIfNotCond (j + 1)]"
    "code_in C (b + 1) (code_at sc th (b + 1))" "code_in C j [Jump z]" "code_in C (j + 1) (code_at sc el (j + 1))"
    using *(3) unfolding code by (simp_all only: code_in_append) (simp_all add: b_def j_def)
  have p: "portable strict cond" "portable strict th" "portable strict el"
    "d + try_depth cond \<le> vm_max_call_depth m" "d + try_depth th \<le> vm_max_call_depth m"
    "d + try_depth el \<le> vm_max_call_depth m" using *(1,2) by auto
  have jump: "advances m d C j (?st @ [v]) z (?st @ [v])" for v
    using C(4) by (intro advance_jump) (simp_all add: z_def)
  have th: "delivers m d strict C (b + 1) (frame @ tmp @ []) z ?st
      (case eval_expr lk th of Inl e \<Rightarrow> Inl e | Inr v \<Rightarrow> Inr [v])"
    by (rule delivers_bind [OF t p(2,5) C(3)]) (use jump in \<open>simp_all add: j_def z_def\<close>)
  have el: "delivers m d strict C (j + 1) ?st z ?st (single (eval_expr lk el))"
    using simulatedD [OF e p(3,6) C(5)] by (simp add: z_def)
  have single: "(case r of Inl e \<Rightarrow> Inl e | Inr v \<Rightarrow> Inr [v]) = single r" for r :: "string + runtime_value"
    by (cases r) auto
  have branch: "delivers m d strict C b (?st @ [x]) z ?st (case as_bool x of Inl e \<Rightarrow> Inl e
      | Inr t \<Rightarrow> if t then single (eval_expr lk th) else single (eval_expr lk el))" for x
    using th el by (intro delivers_if_not_cond [OF C(2)]) (auto simp: single j_def z_def)
  have "delivers m d strict C a (frame @ tmp @ []) z ?st (single (eval_expr lk ?e))"
    unfolding eval by (rule delivers_bind [OF c p(1,4) C(1)]) (use branch in \<open>simp_all add: b_def j_def z_def\<close>)
  then show "delivers m d strict C a ?st (a + length (code_at sc ?e a)) ?st (single (eval_expr lk ?e))"
    unfolding len by simp
qed

subsection \<open>Lists, structs and \<open>try\<close>\<close>

lemma delivers_push:
  assumes "delivers m d strict C a st b (base @ [v]) r"
  shows "delivers m d strict C a st b base (case r of Inl e \<Rightarrow> Inl e | Inr vs \<Rightarrow> Inr (v # vs))"
proof (cases r)
  case (Inl e)
  then show ?thesis using assms delivers_error_mono [of m d strict C a st b base "[v]" e b] by simp
next
  case (Inr vs)
  then show ?thesis using assms by simp
qed

lemma le_foldr_max: "x \<in> set xs \<Longrightarrow> x \<le> foldr max xs (0 :: nat)"
  by (induction xs) auto

lemma delivers_items:
  assumes "\<And>e. e \<in> set es \<Longrightarrow> simulated m sc lk frame e" "\<And>e. e \<in> set es \<Longrightarrow> portable strict e"
    "\<And>e. e \<in> set es \<Longrightarrow> d + try_depth e \<le> vm_max_call_depth m" "code_in C a (items_at sc es a)"
  shows "delivers m d strict C a (frame @ tmp) (a + length (items_at sc es a)) (frame @ tmp) (eval_items lk es)"
  using assms
proof (induction es arbitrary: a tmp)
  case Nil
  then show ?case by (simp add: advance_refl)
next
  case (Cons e es)
  let ?b = "a + length (code_at sc e a)"
  let ?c = "?b + length (items_at sc es ?b)"
  have C: "code_in C a (code_at sc e a)" "code_in C ?b (items_at sc es ?b)"
    using Cons.prems(4) by (simp_all add: Let_def)
  have "delivers m d strict C ?b (frame @ tmp @ [] @ [v]) ?c (frame @ tmp)
      (case eval_items lk es of Inl err \<Rightarrow> Inl err | Inr vs \<Rightarrow> Inr (v # vs))" for v
    using Cons.IH [of ?b "tmp @ [v]"] Cons.prems C delivers_push by simp
  then have "delivers m d strict C a (frame @ tmp @ []) ?c (frame @ tmp) (case eval_expr lk e of Inl err \<Rightarrow> Inl err
      | Inr v \<Rightarrow> (case eval_items lk es of Inl err \<Rightarrow> Inl err | Inr vs \<Rightarrow> Inr (v # vs)))"
    using Cons.prems C by (intro delivers_bind [of m sc lk frame]) auto
  then show ?case by (simp add: Let_def add.assoc)
qed

text \<open>The values of a struct literal are laid out like the items of a list.\<close>

lemma fields_as_items:
  "fields_at sc kvs a = items_at sc (map snd kvs) a"
  "eval_fields lk kvs = eval_items lk (map snd kvs)"
proof -
  show "fields_at sc kvs a = items_at sc (map snd kvs) a"
    by (induction kvs arbitrary: a) (auto simp: Let_def)
  show "eval_fields lk kvs = eval_items lk (map snd kvs)"
    by (induction kvs) (auto split: sum.split)
qed

lemma step_collect:
  "length vs = n \<Longrightarrow> step m (MakeList n) b (base @ vs) = Goto (b + 1) (base @ [VList vs])"
  "length vs = length names \<Longrightarrow> step m (MakeStruct t names) b (base @ vs) =
     Goto (b + 1) (base @ [VStruct t (struct_fields (zip names vs))])"
  using pop_n_append [of vs "[]" base] by simp_all

text \<open>An instruction that collects as many values as were delivered.\<close>

lemma delivers_collect:
  assumes "delivers m d strict C a base b base (eval_items lk es)" "b < length C"
    and "\<And>vs. length vs = length es \<Longrightarrow> step m (C ! b) b (base @ vs) = Goto (b + 1) (base @ [f vs])"
  shows "delivers m d strict C a base (b + 1) base
    (case eval_items lk es of Inl e \<Rightarrow> Inl e | Inr vs \<Rightarrow> Inr [f vs])"
proof (cases "eval_items lk es")
  case (Inl e)
  then show ?thesis using assms(1) delivers_error_mono [of m d strict C a base b base "[]" e "b + 1"] by simp
next
  case (Inr vs)
  have "length vs = length es"
    using Inr by (induction es arbitrary: vs) (auto split: sum.splits)
  then have "advances m d C b (base @ vs) (b + 1) (base @ [f vs])"
    using assms(2,3) by (intro advance_step) auto
  then show ?thesis using Inr assms(1) by (auto intro: advance_trans)
qed

lemma simulated_list:
  assumes "\<And>e. e \<in> set es \<Longrightarrow> simulated m sc lk frame e"
  shows "simulated m sc lk frame (ListLit es)"
  unfolding simulated_def
proof (intro allI impI)
  fix strict d C a tmp
  let ?e = "ListLit es" and ?b = "a + length (items_at sc es a)"
  assume *: "portable strict ?e" "d + try_depth ?e \<le> vm_max_call_depth m" "code_in C a (code_at sc ?e a)"
  have "d + try_depth e \<le> vm_max_call_depth m" if "e \<in> set es" for e
    using *(2) le_foldr_max [of "try_depth e" "map try_depth es"] that by simp
  then have "delivers m d strict C a (frame @ tmp) ?b (frame @ tmp) (eval_items lk es)"
    using * assms by (intro delivers_items) (auto simp: list_all_iff)
  then have "delivers m d strict C a (frame @ tmp) (?b + 1) (frame @ tmp)
      (case eval_items lk es of Inl e \<Rightarrow> Inl e | Inr vs \<Rightarrow> Inr [VList vs])"
    by (rule delivers_collect) (use *(3) step_collect(1) [of _ _ m _ "frame @ tmp"] in simp_all)
  then show "delivers m d strict C a (frame @ tmp) (a + length (code_at sc ?e a)) (frame @ tmp)
      (single (eval_expr lk ?e))"
    by (cases "eval_items lk es") simp_all
qed

lemma simulated_struct:
  assumes "\<And>k e. (k, e) \<in> set kvs \<Longrightarrow> simulated m sc lk frame e"
  shows "simulated m sc lk frame (StructLit kvs)"
  unfolding simulated_def
proof (intro allI impI)
  fix strict d C a tmp
  let ?e = "StructLit kvs" and ?es = "map snd kvs" and ?b = "a + length (items_at sc (map snd kvs) a)"
  assume *: "portable strict ?e" "d + try_depth ?e \<le> vm_max_call_depth m" "code_in C a (code_at sc ?e a)"
  have depth: "d + try_depth e \<le> vm_max_call_depth m" if "e \<in> set ?es" for e
    using *(2) le_foldr_max [of "try_depth e" "map (\<lambda>(_, e). try_depth e) kvs"] that by force
  have "delivers m d strict C a (frame @ tmp) ?b (frame @ tmp) (eval_items lk ?es)"
    using *(1,3) assms depth
    by (intro delivers_items) (auto simp: list_all_iff fields_as_items)
  then have "delivers m d strict C a (frame @ tmp) (?b + 1) (frame @ tmp)
      (case eval_items lk ?es of Inl e \<Rightarrow> Inl e
       | Inr vs \<Rightarrow> Inr [VStruct ''Struct'' (struct_fields (zip (map fst kvs) vs))])"
    by (rule delivers_collect)
       (use *(3) step_collect(2) [of _ "map fst kvs" m "''Struct''" _ "frame @ tmp"] in \<open>simp_all add: fields_as_items\<close>)
  then show "delivers m d strict C a (frame @ tmp) (a + length (code_at sc ?e a)) (frame @ tmp)
      (single (eval_expr lk ?e))"
    by (cases "eval_items lk ?es") (simp_all add: fields_as_items)
qed

lemma simulated_try:
  assumes "simulated m sc lk frame e"
  shows "simulated m sc lk frame (Try e)"
  unfolding simulated_def
proof (intro allI impI)
  fix strict d C a tmp
  let ?inner = "code_at sc e 0"
  assume *: "portable strict (Try e)" "d + try_depth (Try e) \<le> vm_max_call_depth m"
    "code_in C a (code_at sc (Try e) a)"
  have inner: "delivers m (d + 1) True ?inner 0 (frame @ tmp) (length ?inner) (frame @ tmp) (single (eval_expr lk e))"
    using simulatedD [OF assms, of True "d + 1" ?inner 0 tmp] * code_in_self by simp
  have "advances m d C a (frame @ tmp) (a + 1) ((frame @ tmp) @ [caught (eval_expr lk e)])"
  proof (cases "eval_expr lk e")
    case (Inl err)
    with inner obtain e' ext where "same_error True err e'"
      "fail m (d + 1) ?inner 0 (frame @ tmp) (length ?inner) e' ((frame @ tmp) @ ext)"
      by (auto elim: delivers_InlE)
    then have "execute_code m d ?inner (frame @ tmp) = (Inl err, (frame @ tmp) @ ext)"
      using execute_fail *(2) by (simp add: same_error_def)
    then show ?thesis using advance_try [of m d ?inner "frame @ tmp" "Inl err" ext a C] *(3) Inl by simp
  next
    case (Inr v)
    then have "execute_code m d ?inner (frame @ tmp) = (Inr v, (frame @ tmp) @ [])"
      using inner execute_advance [of m d ?inner "frame @ tmp" v] *(2) by simp
    then show ?thesis using advance_try [of m d ?inner "frame @ tmp" "Inr v" "[]" a C] *(3) Inr by simp
  qed
  then show "delivers m d strict C a (frame @ tmp) (a + length (code_at sc (Try e) a)) (frame @ tmp)
      (single (eval_expr lk (Try e)))" by simp
qed

section \<open>Every expression\<close>

lemma all_simulated:
  assumes "resolves m sc lk frame e" "portable strict e"
  shows "simulated m sc lk frame e"
  using assms
proof (induction e arbitrary: strict)
  case (BinaryOp l op r)
  then have "simulated m sc lk frame l" "simulated m sc lk frame r" by (auto simp: resolves_def)
  then show ?case
    using simulated_and simulated_or simulated_strict_binop by (cases "op = And"; cases "op = Or") auto
next
  case (ListLit es)
  then show ?case by (intro simulated_list) (auto simp: list_all_iff resolves_def)
next
  case (StructLit kvs)
  have "simulated m sc lk frame e" if "(k, e) \<in> set kvs" for k e
    using StructLit.IH [OF that, of e strict] StructLit.prems that by (auto simp: list_all_iff resolves_def)
  then show ?case by (rule simulated_struct)
qed (auto simp: resolves_def intro: simulated_literals simulated_ident simulated_field simulated_if simulated_try)

lemma compiled_delivers:
  assumes "resolves m sc lk frame e" "portable strict e" "d + try_depth e < vm_max_call_depth m"
  shows "case eval_expr lk e of
      Inr v \<Rightarrow> execute_code m d (compile_expr sc e []) frame = (Inr v, frame)
    | Inl err \<Rightarrow> (\<exists>err' ext. same_error strict err err' \<and>
        execute_code m d (compile_expr sc e []) frame = (Inl err', frame @ ext))"
proof -
  let ?C = "code_at sc e 0"
  have C: "compile_expr sc e [] = ?C" by (simp add: compile_expr_code_at)
  have "delivers m (d + 1) strict ?C 0 (frame @ []) (0 + length ?C) (frame @ []) (single (eval_expr lk e))"
    by (rule simulatedD [OF all_simulated [OF assms(1,2)] assms(2)]) (use assms(3) code_in_self in auto)
  then have *: "delivers m (d + 1) strict ?C 0 frame (length ?C) frame (single (eval_expr lk e))" by simp
  have d: "d < vm_max_call_depth m" using assms(3) by simp
  show ?thesis
  proof (cases "eval_expr lk e")
    case (Inl err)
    with * obtain e' ext where "same_error strict err e'" "fail m (d + 1) ?C 0 frame (length ?C) e' (frame @ ext)"
      by (auto elim: delivers_InlE)
    then show ?thesis using Inl execute_fail [OF _ d] unfolding C by auto
  next
    case (Inr v)
    with * show ?thesis using execute_advance [OF _ d] unfolding C by simp
  qed
qed

end
