(* ===== verification/Lang_Layout.thy ===== *)
theory Lang_Layout
  imports Lang_Stmt Lang_Parity
begin

text \<open>
  The code of statements as one layout. The compiler appends to a code vector, remembers the jumps
  it has left open in a stack of loops and a list of fixups, and patches them later; the layout writes
  the same code with symbols for the jumps that leave it and every other jump in place. For bodies
  that pass a check of definite assignment (\<open>safe_stmts\<close>) the compiler succeeds and emits the layout.
\<close>

section \<open>Code with open jumps\<close>

datatype sym = I instruction | JBreak | JContinue | JEnd

fun fin :: "nat \<Rightarrow> nat \<Rightarrow> nat \<Rightarrow> sym \<Rightarrow> instruction" where
  "fin b c e (I i) = i"
| "fin b c e JBreak = Jump b"
| "fin b c e JContinue = Jump c"
| "fin b c e JEnd = Jump e"

lemma fin_plain [simp]: "fin b c e \<circ> I = id"
  by (simp add: fun_eq_iff)

definition settle :: "sym \<Rightarrow> nat \<Rightarrow> sym \<Rightarrow> sym" where
  "settle s t x = (if x = s then I (Jump t) else x)"

text \<open>The addresses of a symbol in code that starts at \<open>a\<close>.\<close>

fun positions :: "sym \<Rightarrow> sym list \<Rightarrow> nat \<Rightarrow> nat list" where
  "positions s [] a = []"
| "positions s (x # xs) a = (if x = s then [a] else []) @ positions s xs (a + 1)"

lemma positions_append [simp]: "positions s (xs @ ys) a = positions s xs a @ positions s ys (a + length xs)"
  by (induction xs arbitrary: a) auto

lemma positions_none: "s \<notin> set xs \<Longrightarrow> positions s xs a = []"
  by (induction xs arbitrary: a) auto

lemma positions_plain [simp]:
  "positions JBreak (map I c) a = []" "positions JContinue (map I c) a = []" "positions JEnd (map I c) a = []"
  by (auto intro!: positions_none)

lemma positions_settle [simp]:
  "s \<noteq> s' \<Longrightarrow> (\<And>i. s' \<noteq> I i) \<Longrightarrow> positions s' (map (settle s t) xs) a = positions s' xs a"
  by (induction xs arbitrary: a) (auto simp: settle_def)

lemma positions_settled [simp]:
  "(\<And>i. s \<noteq> I i) \<Longrightarrow> positions s (map (settle s t) xs) a = []"
  by (induction xs arbitrary: a) (auto simp: settle_def)

lemma positions_settled_loop [simp]:
  "positions JBreak (map (settle JContinue s \<circ> settle JBreak t) xs) a = []"
  "positions JContinue (map (settle JContinue s \<circ> settle JBreak t) xs) a = []"
  by (induction xs arbitrary: a) (auto simp: settle_def)

lemma patch_positions:
  assumes "\<And>i. s \<noteq> I i"
  shows "foldl (\<lambda>c j. patch j t c) (pre @ map (fin 0 0 0) xs @ post) (positions s xs (length pre)) =
    pre @ map (fin 0 0 0) (map (settle s t) xs) @ post"
proof (induction xs arbitrary: pre)
  case (Cons x xs)
  have *: "foldl (\<lambda>c j. patch j t c) (pre @ y # map (fin 0 0 0) xs @ post) (positions s xs (Suc (length pre))) =
      pre @ y # map (fin 0 0 0) (map (settle s t) xs) @ post" for y
    using Cons [of "pre @ [y]"] by simp
  show ?case
  proof (cases "x = s")
    case True
    then have "\<exists>n. fin 0 0 0 x = Jump n" using assms by (cases s) auto
    then show ?thesis using True * by (auto simp: patch_append patch_Cons settle_def)
  qed (simp add: * settle_def)
qed simp

section \<open>Slots\<close>

type_synonym slots = "(string \<Rightarrow> nat option) \<times> nat"

definition slot_let :: "string \<Rightarrow> slots \<Rightarrow> slots" where
  "slot_let x sl = (case sl of (L, n) \<Rightarrow> (case L x of None \<Rightarrow> (L(x \<mapsto> n), n + 1) | Some _ \<Rightarrow> (L, n)))"

function (sequential) slots_stmt :: "statement \<Rightarrow> slots \<Rightarrow> slots"
  and slots_stmts :: "statement list \<Rightarrow> slots \<Rightarrow> slots"
  and slots_chain :: "(expr \<times> statement list) list \<Rightarrow> statement list option \<Rightarrow> slots \<Rightarrow> slots" where
  "slots_stmt (LetBinding x e _) sl = slot_let x sl"
| "slots_stmt (While c body) sl = slots_stmts body sl"
| "slots_stmt (IfThen c body) sl = slots_stmts body sl"
| "slots_stmt (IfElseBlock c t eis el) sl = slots_chain eis el (slots_stmts t sl)"
| "slots_stmt _ sl = sl"
| "slots_stmts [] sl = sl"
| "slots_stmts (stmt # stmts) sl = slots_stmts stmts (slots_stmt stmt sl)"
| "slots_chain [] None sl = sl"
| "slots_chain [] (Some body) sl = slots_stmts body sl"
| "slots_chain ((c, body) # eis) el sl = slots_chain eis el (slots_stmts body sl)"
  by pat_completeness auto
termination
  by (relation "measure (\<lambda>x. case x of
        Inl (stmt, sl) \<Rightarrow> size stmt
      | Inr (Inl (stmts, sl)) \<Rightarrow> size_list size stmts
      | Inr (Inr (eis, el, sl)) \<Rightarrow>
          size_list (size_prod (\<lambda>_. 0) (size_list size)) eis + size_option (size_list size) el)") auto

section \<open>Layout\<close>

definition scope_at :: "(string \<Rightarrow> nat option) \<Rightarrow> slots \<Rightarrow> scope" where
  "scope_at gs sl = \<lparr>sc_locals = fst sl, sc_global_slots = gs\<rparr>"

text \<open>
  \<open>keep\<close>: the statement is the last of the body (or of a branch that is), so its value stays on the
  stack.
\<close>

function (sequential) lay_stmt :: "(string \<Rightarrow> nat option) \<Rightarrow> bool \<Rightarrow> statement \<Rightarrow> slots \<Rightarrow> nat \<Rightarrow> sym list"
  and lay_stmts :: "(string \<Rightarrow> nat option) \<Rightarrow> bool \<Rightarrow> statement list \<Rightarrow> slots \<Rightarrow> nat \<Rightarrow> sym list"
  and lay_chain ::
    "(string \<Rightarrow> nat option) \<Rightarrow> bool \<Rightarrow> (expr \<times> statement list) list \<Rightarrow> statement list option \<Rightarrow> slots \<Rightarrow> nat \<Rightarrow>
       sym list" where
  "lay_stmt gs keep (LetBinding x e _) sl a =
     map I (code_at (scope_at gs (slot_let x sl)) e a @ StoreLocal (the (fst (slot_let x sl) x)) #
            (if keep then [PushUnit] else []))"
| "lay_stmt gs keep (Assign x e) sl a =
     map I (code_at (scope_at gs sl) e a @ StoreAssignLocal (the (fst sl x)) x True #
            (if keep then [PushUnit] else []))"
| "lay_stmt gs keep (SReturn e) sl a = map I (code_at (scope_at gs sl) e a @ [Return])"
| "lay_stmt gs keep (ExprStmt e) sl a = map I (code_at (scope_at gs sl) e a @ (if keep then [] else [Pop]))"
| "lay_stmt gs keep (While c body) sl a =
     (let cc = code_at (scope_at gs sl) c a;
          b = a + length cc + 1;
          xs = lay_stmts gs False body sl b;
          after = b + length xs + 1
      in map I cc @ I (JumpIfNotCond after) #
         map (settle JContinue a) (map (settle JBreak after) xs) @ I (Jump a) #
         (if keep then [I PushUnit] else []))"
| "lay_stmt gs keep (IfThen c body) sl a =
     (let cc = code_at (scope_at gs sl) c a;
          b = a + length cc + 1;
          xs = lay_stmts gs keep body sl b;
          e = b + length xs
      in if \<not> keep then map I cc @ I (JumpIfNotCond e) # xs
         else if body \<noteq> [] \<and> stmt_is_terminator (last body)
         then map I cc @ I (JumpIfNotCond e) # xs @ [I PushUnit]
         else map I cc @ I (JumpIfNotCond (e + 1)) # xs @ [I (Jump (e + 2)), I PushUnit])"
| "lay_stmt gs keep (IfElseBlock c t eis el) sl a =
     (let cc = code_at (scope_at gs sl) c a;
          b = a + length cc + 1;
          xs = lay_stmts gs keep t sl b;
          r = b + length xs + 1;
          ys = lay_chain gs keep eis el (slots_stmts t sl) r
      in map (settle JEnd (r + length ys)) (map I cc @ I (JumpIfNotCond r) # xs @ JEnd # ys))"
| "lay_stmt gs keep Break sl a = [JBreak]"
| "lay_stmt gs keep Continue sl a = [JContinue]"
| "lay_stmts gs keep [] sl a = (if keep then [I PushUnit] else [])"
| "lay_stmts gs keep (stmt # stmts) sl a =
     (let xs = lay_stmt gs (keep \<and> stmts = []) stmt sl a
      in if stmts = [] then xs else xs @ lay_stmts gs keep stmts (slots_stmt stmt sl) (a + length xs))"
| "lay_chain gs keep [] None sl a = (if keep then [I PushUnit] else [])"
| "lay_chain gs keep [] (Some body) sl a = lay_stmts gs keep body sl a"
| "lay_chain gs keep ((c, body) # eis) el sl a =
     (let cc = code_at (scope_at gs sl) c a;
          b = a + length cc + 1;
          xs = lay_stmts gs keep body sl b;
          r = b + length xs + 1
      in map I cc @ I (JumpIfNotCond r) # xs @ JEnd # lay_chain gs keep eis el (slots_stmts body sl) r)"
  by pat_completeness auto
termination
  by (relation "measure (\<lambda>x. case x of
        Inl (gs, keep, stmt, sl, a) \<Rightarrow> size stmt
      | Inr (Inl (gs, keep, stmts, sl, a)) \<Rightarrow> size_list size stmts
      | Inr (Inr (gs, keep, eis, el, sl, a)) \<Rightarrow>
          size_list (size_prod (\<lambda>_. 0) (size_list size)) eis + size_option (size_list size) el)") auto

declare lay_stmt.simps(5-7) [simp del] lay_chain.simps(3) [simp del]

section \<open>Bodies the engines agree on\<close>

text \<open>
  What is checked of an expression: it is portable, its \<open>try\<close>s are not nested too deep, and each name it
  reads is definitely assigned or no local of the body at all. Loops may be nested \<open>ck_loops\<close> deep.
\<close>

record check =
  ck_strict :: bool
  ck_depth :: nat
  ck_names :: "string set"
  ck_loops :: nat

definition usable :: "check \<Rightarrow> string set \<Rightarrow> expr \<Rightarrow> bool" where
  "usable ck D e \<longleftrightarrow> portable (ck_strict ck) e \<and> try_depth e \<le> ck_depth ck \<and>
     list_all (\<lambda>x. x \<in> D \<or> x \<notin> ck_names ck) (reads e)"

text \<open>
  \<open>D\<close> are the names definitely assigned and \<open>M\<close> those of them that are definitely mutable. Expression
  statements stand at the end of a body only.
\<close>

function (sequential) safe_stmts :: "check \<Rightarrow> bool \<Rightarrow> bool \<Rightarrow> string set \<Rightarrow> string set \<Rightarrow> statement list \<Rightarrow> bool"
  and safe_chain ::
    "check \<Rightarrow> bool \<Rightarrow> bool \<Rightarrow> string set \<Rightarrow> string set \<Rightarrow> (expr \<times> statement list) list \<Rightarrow> statement list option \<Rightarrow> bool"
  where
  "safe_stmts ck in_loop keep D M [] = True"
| "safe_stmts ck in_loop keep D M (LetBinding x e mutable # stmts) =
     (x \<in> ck_names ck \<and> usable ck D e \<and>
      safe_stmts ck in_loop keep (insert x D) (if mutable then insert x M else M) stmts)"
| "safe_stmts ck in_loop keep D M (Assign x e # stmts) =
     (x \<in> D \<and> x \<in> M \<and> usable ck D e \<and> safe_stmts ck in_loop keep D M stmts)"
| "safe_stmts ck in_loop keep D M (SReturn e # stmts) = (usable ck D e \<and> safe_stmts ck in_loop keep D M stmts)"
| "safe_stmts ck in_loop keep D M (ExprStmt e # stmts) = (keep \<and> stmts = [] \<and> usable ck D e)"
| "safe_stmts ck in_loop keep D M (While c body # stmts) =
     (0 < ck_loops ck \<and> usable ck D c \<and>
      safe_stmts (ck\<lparr>ck_loops := ck_loops ck - 1\<rparr>) True False D M body \<and> safe_stmts ck in_loop keep D M stmts)"
| "safe_stmts ck in_loop keep D M (IfThen c body # stmts) =
     (usable ck D c \<and> safe_stmts ck in_loop (keep \<and> stmts = []) D M body \<and> safe_stmts ck in_loop keep D M stmts)"
| "safe_stmts ck in_loop keep D M (IfElseBlock c t eis el # stmts) =
     (usable ck D c \<and> safe_stmts ck in_loop (keep \<and> stmts = []) D M t \<and>
      safe_chain ck in_loop (keep \<and> stmts = []) D M eis el \<and> safe_stmts ck in_loop keep D M stmts)"
| "safe_stmts ck in_loop keep D M (Break # stmts) = (in_loop \<and> safe_stmts ck in_loop keep D M stmts)"
| "safe_stmts ck in_loop keep D M (Continue # stmts) = (in_loop \<and> safe_stmts ck in_loop keep D M stmts)"
| "safe_chain ck in_loop keep D M [] None = True"
| "safe_chain ck in_loop keep D M [] (Some body) = safe_stmts ck in_loop keep D M body"
| "safe_chain ck in_loop keep D M ((c, body) # eis) el =
     (usable ck D c \<and> safe_stmts ck in_loop keep D M body \<and> safe_chain ck in_loop keep D M eis el)"
  by pat_completeness auto
termination
  by (relation "measure (\<lambda>x. case x of
        Inl (ck, in_loop, keep, D, M, stmts) \<Rightarrow> size_list size stmts
      | Inr (ck, in_loop, keep, D, M, eis, el) \<Rightarrow>
          size_list (size_prod (\<lambda>_. 0) (size_list size)) eis + size_option (size_list size) el)") auto

section \<open>The compiler without kept values\<close>

lemma with_keep_False:
  "\<not> keep \<Longrightarrow> compile_if_stmt_with_keep gs keep stmt bs = compile_stmt gs stmt bs"
  "\<not> keep \<Longrightarrow> compile_branch_stmts gs keep stmts bs = compile_stmts gs stmts bs"
  "\<not> keep \<Longrightarrow> compile_else_ifs_with_keep gs keep eis fx bs = compile_else_ifs gs eis fx bs"
  "\<not> keep \<Longrightarrow> compile_else_with_keep gs keep el bs = compile_else gs el bs"
  "\<not> True \<Longrightarrow> compile_stmt_keeping_value gs stmt bs = compile_stmt gs stmt bs"
proof (induction gs keep stmt bs and gs keep stmts bs and gs keep eis fx bs and gs keep el bs and gs stmt bs
    rule: compile_if_stmt_with_keep_compile_branch_stmts_compile_else_ifs_with_keep_compile_else_with_keep_compile_stmt_keeping_value.induct)
  case (5 gs keep stmt bs)
  then show ?case by (cases "compile_stmt gs stmt bs") simp_all
qed (auto simp: Let_def close_if_then_def split: sum.split)

definition compile_one :: "(string \<Rightarrow> nat option) \<Rightarrow> bool \<Rightarrow> statement \<Rightarrow> body_state \<Rightarrow> string + body_state" where
  "compile_one gs keep stmt bs =
     (if keep then compile_stmt_keeping_value gs stmt bs else compile_stmt gs stmt bs)"

lemma compile_branch_Cons:
  "compile_branch_stmts gs keep (stmt # stmts) bs =
     (case compile_one gs (keep \<and> stmts = []) stmt bs of
        Inl err \<Rightarrow> Inl err
      | Inr bs \<Rightarrow> if stmts = [] then Inr bs else compile_branch_stmts gs keep stmts bs)"
  by (cases stmts) (auto simp: compile_one_def split: sum.split)

section \<open>What a compiler step adds\<close>

fun open_jumps :: "nat list \<Rightarrow> nat list \<Rightarrow> (nat \<times> nat list \<times> nat list) list \<Rightarrow> (nat \<times> nat list \<times> nat list) list" where
  "open_jumps bs cs [] = []"
| "open_jumps bs cs ((start, breaks, continues) # loops) = (start, breaks @ bs, continues @ cs) # loops"

lemma open_jumps_Nil [simp]: "open_jumps [] [] ls = ls"
  by (cases ls) auto

lemma open_jumps_append [simp]:
  "open_jumps bs' cs' (open_jumps bs cs ls) = open_jumps (bs @ bs') (cs @ cs') ls"
  by (cases ls) auto

lemma open_jumps_empty [simp]: "open_jumps bs cs ls = [] \<longleftrightarrow> ls = []"
  by (cases ls) auto

definition slots_of :: "body_state \<Rightarrow> slots" where
  "slots_of bs = (bs_locals bs, bs_next_slot bs)"

definition grown :: "body_state \<Rightarrow> sym list \<Rightarrow> slots \<Rightarrow> string set \<Rightarrow> body_state" where
  "grown bs xs sl M = bs
     \<lparr>bs_code := bs_code bs @ map (fin 0 0 0) xs, bs_locals := fst sl, bs_next_slot := snd sl, bs_mutable := M,
      bs_loop_stack := open_jumps (positions JBreak xs (here bs)) (positions JContinue xs (here bs)) (bs_loop_stack bs)\<rparr>"

lemma grown_simps [simp]:
  "here (grown bs xs sl M) = here bs + length xs"
  "slots_of (grown bs xs sl M) = sl"
  "bs_locals (grown bs xs sl M) = fst sl"
  "bs_next_slot (grown bs xs sl M) = snd sl"
  "bs_mutable (grown bs xs sl M) = M"
  "bs_loop_stack (grown bs xs sl M) = [] \<longleftrightarrow> bs_loop_stack bs = []"
  by (simp_all add: grown_def slots_of_def)

lemma grown_grown [simp]: "grown (grown bs xs sl M) ys sl' M' = grown bs (xs @ ys) sl' M'"
  by (simp add: grown_def)

lemma grown_none [simp]: "grown bs [] (slots_of bs) (bs_mutable bs) = bs"
  by (simp add: grown_def slots_of_def)

lemma body_scope_at: "body_scope gs bs = scope_at gs (slots_of bs)"
  by (simp add: body_scope_def scope_at_def slots_of_def)

lemma emit_grown: "emit_expr gs e bs = grown bs (map I (code_at (scope_at gs (slots_of bs)) e (here bs))) (slots_of bs) (bs_mutable bs)"
  by (simp add: emit_expr_def grown_def compile_expr_code_at body_scope_at comp_def) (simp add: slots_of_def)

lemma push_grown: "push_code i bs = grown bs [I i] (slots_of bs) (bs_mutable bs)"
  by (simp add: push_code_def grown_def slots_of_def)

lemma patch_grown:
  assumes "j = here bs + length xs"
  shows "patch_code j t (grown bs (xs @ I i # ys) sl M) = grown bs (xs @ I (retarget t i) # ys) sl M"
  using assms by (simp add: patch_code_def grown_def patch_append patch_Cons)

lemma patch_all_code: "patch_all js t bs = bs\<lparr>bs_code := foldl (\<lambda>c j. patch j t c) (bs_code bs) js\<rparr>"
  by (induction js arbitrary: bs) (simp_all add: patch_all_def patch_code_def)

lemma patch_all_grown:
  "patch_all (positions JEnd xs (here bs)) t (grown bs xs sl M) = grown bs (map (settle JEnd t) xs) sl M"
  using patch_positions [of JEnd t "bs_code bs" xs "[]"]
  by (simp add: patch_all_code grown_def)

lemma lay_no_end:
  "JEnd \<notin> set (lay_stmt gs keep stmt sl a)"
  "JEnd \<notin> set (lay_stmts gs keep stmts sl a)"
proof -
  have "JEnd \<notin> set (lay_stmt gs keep stmt sl a)"
    and "JEnd \<notin> set (lay_stmts gs keep stmts sl a)"
    and "lay_chain gs keep eis el sl a = lay_chain gs keep eis el sl a" for eis el
  proof (induction gs keep stmt sl a and gs keep stmts sl a and gs keep eis el sl a
      rule: lay_stmt_lay_stmts_lay_chain.induct)
    case (7 gs keep c t eis el sl a)
    then show ?case by (auto simp: lay_stmt.simps Let_def settle_def split: if_splits)
  next
    case (6 gs keep c body sl a)
    show ?case using 6 [OF refl refl] by (cases keep) (simp_all add: lay_stmt.simps Let_def image_iff)
  qed (auto simp: lay_stmt.simps(1-5,8-) Let_def settle_def split: if_splits)
  then show "JEnd \<notin> set (lay_stmt gs keep stmt sl a)" "JEnd \<notin> set (lay_stmts gs keep stmts sl a)" by auto
qed

section \<open>Slots only grow\<close>

lemma slot_let_extends: "fst sl \<subseteq>\<^sub>m fst (slot_let x sl)"
  by (cases sl) (auto simp: slot_let_def map_le_def split: option.split)

lemma slots_extend:
  "fst sl \<subseteq>\<^sub>m fst (slots_stmt stmt sl)"
  "fst sl \<subseteq>\<^sub>m fst (slots_stmts stmts sl)"
  "fst sl \<subseteq>\<^sub>m fst (slots_chain eis el sl)"
  by (induction stmt sl and stmts sl and eis el sl rule: slots_stmt_slots_stmts_slots_chain.induct)
     (auto intro: slot_let_extends map_le_trans)

lemma slots_dom:
  "D \<subseteq> dom (fst sl) \<Longrightarrow> D \<subseteq> dom (fst (slots_stmt stmt sl))"
  "D \<subseteq> dom (fst sl) \<Longrightarrow> D \<subseteq> dom (fst (slots_stmts stmts sl))"
  using map_le_implies_dom_le [OF slots_extend(1)] map_le_implies_dom_le [OF slots_extend(2)] by blast+

section \<open>The compiler emits the layout\<close>

text \<open>The compiler step \<open>f\<close> appends the code \<open>xs\<close>, with the mutable names at least \<open>N\<close> afterwards.\<close>

definition emits ::
  "(body_state \<Rightarrow> string + body_state) \<Rightarrow> body_state \<Rightarrow> string set \<Rightarrow> sym list \<Rightarrow> slots \<Rightarrow> bool" where
  "emits f bs N xs sl \<longleftrightarrow> (\<exists>M. N \<subseteq> M \<and> f bs = Inr (grown bs xs sl M))"

lemma emitsI: "N \<subseteq> M \<Longrightarrow> f bs = Inr (grown bs xs sl M) \<Longrightarrow> emits f bs N xs sl"
  by (auto simp: emits_def)

lemma emits_let:
  "emits (compile_one gs keep (LetBinding x e mutable)) bs
     (if mutable then insert x (bs_mutable bs) else bs_mutable bs)
     (lay_stmt gs keep (LetBinding x e mutable) (slots_of bs) (here bs)) (slot_let x (slots_of bs))"
proof -
  define M where "M = (if mutable then insert x (bs_mutable bs) else bs_mutable bs)"
  define bs' where "bs' = grown bs [] (slot_let x (slots_of bs)) M"
  have "compile_let gs x e mutable bs =
      push_code (StoreLocal (the (fst (slot_let x (slots_of bs)) x))) (emit_expr gs e bs')"
    by (cases bs; cases "bs_locals bs x")
       (simp_all add: compile_let_def bs'_def M_def slot_let_def slots_of_def grown_def Let_def)
  then show ?thesis
    by (intro emitsI [of _ M])
       (auto simp: compile_one_def emit_grown push_grown bs'_def M_def)
qed

lemma emits_assign:
  assumes "x \<in> bs_mutable bs" "x \<in> dom (bs_locals bs)"
  shows "emits (compile_one gs keep (Assign x e)) bs (bs_mutable bs)
     (lay_stmt gs keep (Assign x e) (slots_of bs) (here bs)) (slots_of bs)"
proof -
  obtain s where s: "bs_locals bs x = Some s" using assms(2) by blast
  show ?thesis
    by (intro emitsI [of _ "bs_mutable bs"])
       (use assms(1) s in \<open>auto simp: compile_one_def compile_assign_def emit_grown push_grown slots_of_def\<close>)
qed

lemma emits_return:
  "emits (compile_one gs keep (SReturn e)) bs (bs_mutable bs)
     (lay_stmt gs keep (SReturn e) (slots_of bs) (here bs)) (slots_of bs)"
  by (intro emitsI [of _ "bs_mutable bs"]) (auto simp: compile_one_def emit_grown push_grown)

lemma emits_expr_stmt:
  "emits (compile_one gs keep (ExprStmt e)) bs (bs_mutable bs)
     (lay_stmt gs keep (ExprStmt e) (slots_of bs) (here bs)) (slots_of bs)"
  by (intro emitsI [of _ "bs_mutable bs"]) (auto simp: compile_one_def emit_grown push_grown)

lemma emits_jumps:
  assumes "bs_loop_stack bs \<noteq> []"
  shows "emits (compile_one gs keep Break) bs (bs_mutable bs) [JBreak] (slots_of bs)"
    "emits (compile_one gs keep Continue) bs (bs_mutable bs) [JContinue] (slots_of bs)"
  using assms
  by (intro emitsI [of _ "bs_mutable bs"];
      cases "bs_loop_stack bs";
      auto simp: compile_one_def open_break_def open_continue_def push_code_def grown_def slots_of_def)+

lemma emits_while:
  assumes body: "\<And>bs'. bs_mutable bs' = bs_mutable bs \<Longrightarrow> slots_of bs' = slots_of bs \<Longrightarrow> bs_loop_stack bs' \<noteq> [] \<Longrightarrow>
      emits (compile_stmts gs body) bs' (bs_mutable bs') (lay_stmts gs False body (slots_of bs') (here bs'))
        (slots_stmts body (slots_of bs'))"
  shows "emits (compile_one gs keep (While c body)) bs (bs_mutable bs)
    (lay_stmt gs keep (While c body) (slots_of bs) (here bs)) (slots_stmts body (slots_of bs))"
proof -
  let ?sl = "slots_of bs" and ?ls = "bs_loop_stack bs" and ?M = "bs_mutable bs"
  define cc where "cc = code_at (scope_at gs ?sl) c (here bs)"
  define b where "b = here bs + length cc + 1"
  define xs where "xs = lay_stmts gs False body ?sl b"
  define pre where "pre = bs_code bs @ cc @ [JumpIfNotCond 0]"
  define bs1 where "bs1 = bs\<lparr>bs_code := pre, bs_loop_stack := (here bs, [], []) # ?ls\<rparr>"
  have b: "b = here bs1" by (simp add: bs1_def pre_def b_def)
  have "slots_of bs1 = ?sl" "bs_mutable bs1 = ?M" "bs_loop_stack bs1 \<noteq> []" by (simp_all add: bs1_def slots_of_def)
  with body [of bs1] obtain M where M: "?M \<subseteq> M"
    "compile_stmts gs body bs1 = Inr (grown bs1 xs (slots_stmts body ?sl) M)"
    by (auto simp: emits_def xs_def b)
  let ?after = "b + length xs + 1"
  let ?ys = "map (settle JContinue (here bs)) (map (settle JBreak ?after) xs)"
  have close: "close_loop (here bs) (here bs + length cc) (grown bs1 xs (slots_stmts body ?sl) M) =
      grown bs (map I cc @ I (JumpIfNotCond ?after) # ?ys @ [I (Jump (here bs))]) (slots_stmts body ?sl) M"
  proof -
    define pre' where "pre' = bs_code bs @ cc @ [JumpIfNotCond ?after]"
    have len: "length pre' = b" by (simp add: pre'_def b_def)
    have len_pre: "length pre = b" by (simp add: pre_def b_def)
    have patch: "patch (here bs + length cc) ?after (pre @ r) = pre' @ r" for r
      by (simp add: pre_def pre'_def patch_append patch_Cons)
    have breaks: "foldl (\<lambda>c j. patch j ?after c) (pre' @ map (fin 0 0 0) xs @ [Jump (here bs)]) (positions JBreak xs b) =
        pre' @ map (fin 0 0 0) (map (settle JBreak ?after) xs) @ [Jump (here bs)]"
      using patch_positions [of JBreak ?after pre' xs] unfolding len by simp
    have "foldl (\<lambda>c j. patch j (here bs) c) (pre' @ map (fin 0 0 0) (map (settle JBreak ?after) xs) @ [Jump (here bs)])
        (positions JContinue xs b) = pre' @ map (fin 0 0 0) ?ys @ [Jump (here bs)]"
      using patch_positions [of JContinue "here bs" pre' "map (settle JBreak ?after) xs"] unfolding len by simp
    note continues = this
    have code: "bs_code (grown bs1 xs (slots_stmts body ?sl) M) = pre @ map (fin 0 0 0) xs"
      by (simp add: grown_def bs1_def)
    have here1: "here (grown bs1 xs (slots_stmts body ?sl) M) = b + length xs" by (simp add: b)
    have stack: "bs_loop_stack (grown bs1 xs (slots_stmts body ?sl) M) =
        (here bs, positions JBreak xs b, positions JContinue xs b) # ?ls"
      by (simp add: grown_def b [symmetric]) (simp add: bs1_def)
    show ?thesis
      using patch [of "map (fin 0 0 0) xs @ [Jump (here bs)]"] breaks continues
      by (intro body_state.equality)
         (simp_all add: close_loop_def Let_def stack push_code_def patch_code_def patch_all_code code len_pre,
          simp_all add: grown_def bs1_def pre'_def)
  qed
  have "compile_stmt gs (While c body) bs =
      Inr (grown bs (map I cc @ I (JumpIfNotCond ?after) # ?ys @ [I (Jump (here bs))]) (slots_stmts body ?sl) M)"
    using M(2) close by (simp add: Let_def emit_expr_def push_code_def compile_expr_code_at body_scope_at cc_def
        bs1_def pre_def)
  moreover have "lay_stmt gs keep (While c body) ?sl (here bs) =
      map I cc @ I (JumpIfNotCond ?after) # ?ys @ I (Jump (here bs)) # (if keep then [I PushUnit] else [])"
    by (simp add: lay_stmt.simps Let_def cc_def b_def xs_def)
  ultimately show ?thesis
    using M(1) by (intro emitsI [of _ M]) (simp_all add: compile_one_def push_grown del: compile_stmt.simps)
qed

text \<open>The two forms of \<open>if\<close>: a condition, its jump, and what the arms emit.\<close>

lemma compile_one_if:
  "compile_one gs keep (IfThen c body) bs = compile_if_stmt_with_keep gs keep (IfThen c body) bs"
  "compile_one gs keep (IfElseBlock c t eis el) bs = compile_if_stmt_with_keep gs keep (IfElseBlock c t eis el) bs"
  by (cases keep;
      simp add: compile_one_def with_keep_False(1) del: compile_if_stmt_with_keep.simps compile_stmt.simps)+

lemma emit_condition:
  "push_code (JumpIfNotCond 0) (emit_expr gs c bs) =
     grown bs (map I (code_at (scope_at gs (slots_of bs)) c (here bs)) @ [I (JumpIfNotCond 0)]) (slots_of bs) (bs_mutable bs)"
  by (simp add: emit_grown push_grown)

lemma emits_if_then:
  assumes body: "\<And>bs'. bs_mutable bs' = bs_mutable bs \<Longrightarrow> slots_of bs' = slots_of bs \<Longrightarrow>
      (bs_loop_stack bs' = [] \<longleftrightarrow> bs_loop_stack bs = []) \<Longrightarrow>
      emits (compile_branch_stmts gs keep body) bs' (bs_mutable bs') (lay_stmts gs keep body (slots_of bs') (here bs'))
        (slots_stmts body (slots_of bs'))"
  shows "emits (compile_one gs keep (IfThen c body)) bs (bs_mutable bs)
    (lay_stmt gs keep (IfThen c body) (slots_of bs) (here bs)) (slots_stmts body (slots_of bs))"
proof -
  let ?sl = "slots_of bs" and ?sl' = "slots_stmts body (slots_of bs)"
  define cc where "cc = code_at (scope_at gs ?sl) c (here bs)"
  define b where "b = here bs + length cc + 1"
  define xs where "xs = lay_stmts gs keep body ?sl b"
  define bs1 where "bs1 = grown bs (map I cc @ [I (JumpIfNotCond 0)]) ?sl (bs_mutable bs)"
  have b: "b = here bs1" by (simp add: bs1_def b_def)
  have "slots_of bs1 = ?sl" "bs_mutable bs1 = bs_mutable bs" "bs_loop_stack bs1 = [] \<longleftrightarrow> bs_loop_stack bs = []"
    by (simp_all add: bs1_def)
  with body [of bs1] obtain M where M: "bs_mutable bs \<subseteq> M"
    "compile_branch_stmts gs keep body bs1 = Inr (grown bs1 xs ?sl' M)"
    by (auto simp: emits_def xs_def b)
  have "compile_one gs keep (IfThen c body) bs =
      Inr (close_if_then keep body (here bs + length cc) (grown bs (map I cc @ I (JumpIfNotCond 0) # xs) ?sl' M))"
    using M(2) unfolding compile_one_if by (simp add: Let_def emit_condition) (simp add: emit_grown bs1_def cc_def)
  moreover have lay: "lay_stmt gs keep (IfThen c body) ?sl (here bs) =
      (let e = b + length xs in
       if \<not> keep then map I cc @ I (JumpIfNotCond e) # xs
       else if body \<noteq> [] \<and> stmt_is_terminator (last body) then map I cc @ I (JumpIfNotCond e) # xs @ [I PushUnit]
       else map I cc @ I (JumpIfNotCond (e + 1)) # xs @ [I (Jump (e + 2)), I PushUnit])"
    by (simp add: lay_stmt.simps Let_def cc_def b_def xs_def)
  have "close_if_then keep body (here bs + length cc) (grown bs (map I cc @ I (JumpIfNotCond 0) # xs) ?sl' M) =
      grown bs (lay_stmt gs keep (IfThen c body) ?sl (here bs)) ?sl' M"
    using patch_grown [of "here bs + length cc" bs "map I cc"]
      patch_grown [of "here bs + length cc + 1 + length xs" bs "map I cc @ I _ # xs"]
    unfolding lay by (simp add: close_if_then_def Let_def push_grown b_def add.assoc)
  ultimately show ?thesis using M(1) by (intro emitsI) auto
qed

definition emits_chain ::
  "(string \<Rightarrow> nat option) \<Rightarrow> bool \<Rightarrow> (expr \<times> statement list) list \<Rightarrow> statement list option \<Rightarrow> body_state \<Rightarrow> bool" where
  "emits_chain gs keep eis el bs \<longleftrightarrow>
     (\<forall>fx. \<exists>M. bs_mutable bs \<subseteq> M \<and>
        (case compile_else_ifs_with_keep gs keep eis fx bs of
           Inl e \<Rightarrow> Inl e
         | Inr (fx', bs') \<Rightarrow> map_sum id (Pair fx') (compile_else_with_keep gs keep el bs')) =
        Inr (fx @ positions JEnd (lay_chain gs keep eis el (slots_of bs) (here bs)) (here bs),
             grown bs (lay_chain gs keep eis el (slots_of bs) (here bs)) (slots_chain eis el (slots_of bs)) M))"

lemma push_end: "push_code (Jump 0) bs = grown bs [JEnd] (slots_of bs) (bs_mutable bs)"
  by (simp add: push_code_def grown_def slots_of_def)

text \<open>One arm: its condition, its body and the open jump to the end of the whole \<open>if\<close>.\<close>

definition arm_at :: "(string \<Rightarrow> nat option) \<Rightarrow> bool \<Rightarrow> expr \<Rightarrow> statement list \<Rightarrow> slots \<Rightarrow> nat \<Rightarrow> sym list" where
  "arm_at gs keep c body sl a =
     (let cc = code_at (scope_at gs sl) c a;
          b = a + length cc + 1;
          xs = lay_stmts gs keep body sl b
      in map I cc @ I (JumpIfNotCond (b + length xs + 1)) # xs @ [JEnd])"

lemma positions_arm: "positions JEnd (arm_at gs keep c body sl a) a = [a + length (arm_at gs keep c body sl a) - 1]"
  using positions_none [OF lay_no_end(2)] by (simp add: arm_at_def Let_def)

lemma emits_arm:
  assumes body: "\<And>bs'. bs_mutable bs' = bs_mutable bs \<Longrightarrow> slots_of bs' = slots_of bs \<Longrightarrow>
      (bs_loop_stack bs' = [] \<longleftrightarrow> bs_loop_stack bs = []) \<Longrightarrow>
      emits (compile_branch_stmts gs keep body) bs' (bs_mutable bs') (lay_stmts gs keep body (slots_of bs') (here bs'))
        (slots_stmts body (slots_of bs'))"
    and xs_def: "xs = arm_at gs keep c body (slots_of bs) (here bs)"
  obtains M bs' where "bs_mutable bs \<subseteq> M"
    "compile_branch_stmts gs keep body (push_code (JumpIfNotCond 0) (emit_expr gs c bs)) = Inr bs'"
    "here bs' = here bs + length xs - 1"
    "patch_code (here (emit_expr gs c bs)) (here (push_code (Jump 0) bs')) (push_code (Jump 0) bs') =
       grown bs xs (slots_stmts body (slots_of bs)) M"
proof -
  let ?sl = "slots_of bs" and ?sl' = "slots_stmts body (slots_of bs)"
  define cc where "cc = code_at (scope_at gs ?sl) c (here bs)"
  define b where "b = here bs + length cc + 1"
  define ys where "ys = lay_stmts gs keep body ?sl b"
  define bs1 where "bs1 = grown bs (map I cc @ [I (JumpIfNotCond 0)]) ?sl (bs_mutable bs)"
  have b: "b = here bs1" by (simp add: bs1_def b_def)
  have "slots_of bs1 = ?sl" "bs_mutable bs1 = bs_mutable bs" "bs_loop_stack bs1 = [] \<longleftrightarrow> bs_loop_stack bs = []"
    by (simp_all add: bs1_def)
  with body [of bs1] obtain M where M: "bs_mutable bs \<subseteq> M"
    "compile_branch_stmts gs keep body bs1 = Inr (grown bs1 ys ?sl' M)"
    by (auto simp: emits_def ys_def b)
  have xs: "xs = map I cc @ I (JumpIfNotCond (b + length ys + 1)) # ys @ [JEnd]"
    by (simp add: xs_def arm_at_def Let_def cc_def b_def ys_def)
  have bs1: "bs1 = push_code (JumpIfNotCond 0) (emit_expr gs c bs)"
    by (simp add: bs1_def emit_condition cc_def)
  have here: "here (emit_expr gs c bs) = here bs + length cc" by (simp add: emit_grown cc_def)
  show thesis
  proof (rule that [OF M(1)])
    show "compile_branch_stmts gs keep body (push_code (JumpIfNotCond 0) (emit_expr gs c bs)) = Inr (grown bs1 ys ?sl' M)"
      using M(2) bs1 by simp
    show "here (grown bs1 ys ?sl' M) = here bs + length xs - 1" by (simp add: xs bs1_def)
    show "patch_code (here (emit_expr gs c bs)) (here (push_code (Jump 0) (grown bs1 ys ?sl' M)))
        (push_code (Jump 0) (grown bs1 ys ?sl' M)) = grown bs xs ?sl' M"
      using patch_grown [of "here bs + length cc" bs "map I cc"]
      by (simp add: here push_end bs1_def xs b_def add.assoc)
  qed
qed

lemma lay_if_else:
  "lay_stmt gs keep (IfElseBlock c t eis el) sl a =
     (let xs = arm_at gs keep c t sl a;
          zs = xs @ lay_chain gs keep eis el (slots_stmts t sl) (a + length xs)
      in map (settle JEnd (a + length zs)) zs)"
  by (simp add: lay_stmt.simps arm_at_def Let_def add.assoc)

lemma lay_chain_Cons:
  "lay_chain gs keep ((c, body) # eis) el sl a =
     (let xs = arm_at gs keep c body sl a in xs @ lay_chain gs keep eis el (slots_stmts body sl) (a + length xs))"
  by (simp add: lay_chain.simps arm_at_def Let_def add.assoc)

lemma emits_chain_Cons:
  assumes body: "\<And>bs'. bs_mutable bs' = bs_mutable bs \<Longrightarrow> slots_of bs' = slots_of bs \<Longrightarrow>
      (bs_loop_stack bs' = [] \<longleftrightarrow> bs_loop_stack bs = []) \<Longrightarrow>
      emits (compile_branch_stmts gs keep body) bs' (bs_mutable bs') (lay_stmts gs keep body (slots_of bs') (here bs'))
        (slots_stmts body (slots_of bs'))"
    and rest: "\<And>bs'. bs_mutable bs \<subseteq> bs_mutable bs' \<Longrightarrow> slots_of bs' = slots_stmts body (slots_of bs) \<Longrightarrow>
      (bs_loop_stack bs' = [] \<longleftrightarrow> bs_loop_stack bs = []) \<Longrightarrow> emits_chain gs keep eis el bs'"
  shows "emits_chain gs keep ((c, body) # eis) el bs"
  unfolding emits_chain_def
proof
  fix fx
  define xs where "xs = arm_at gs keep c body (slots_of bs) (here bs)"
  obtain M bs1 where arm: "bs_mutable bs \<subseteq> M"
    "compile_branch_stmts gs keep body (push_code (JumpIfNotCond 0) (emit_expr gs c bs)) = Inr bs1"
    "here bs1 = here bs + length xs - 1"
    "patch_code (here (emit_expr gs c bs)) (here (push_code (Jump 0) bs1)) (push_code (Jump 0) bs1) =
       grown bs xs (slots_stmts body (slots_of bs)) M"
    by (rule emits_arm [OF body xs_def])
  define bs2 where "bs2 = grown bs xs (slots_stmts body (slots_of bs)) M"
  have "emits_chain gs keep eis el bs2" by (rule rest) (use arm(1) in \<open>simp_all add: bs2_def\<close>)
  then obtain M' where M': "M \<subseteq> M'"
    "(case compile_else_ifs_with_keep gs keep eis (fx @ [here bs1]) bs2 of
           Inl e \<Rightarrow> Inl e
         | Inr (fx', bs') \<Rightarrow> map_sum id (Pair fx') (compile_else_with_keep gs keep el bs')) =
        Inr ((fx @ [here bs1]) @ positions JEnd (lay_chain gs keep eis el (slots_of bs2) (here bs2)) (here bs2),
             grown bs2 (lay_chain gs keep eis el (slots_of bs2) (here bs2)) (slots_chain eis el (slots_of bs2)) M')"
    unfolding emits_chain_def by (metis bs2_def grown_simps(5))
  have "here bs1 = here bs + length xs - 1" by (rule arm(3))
  then have pos: "positions JEnd xs (here bs) = [here bs1]" unfolding xs_def positions_arm by simp
  show "\<exists>M. bs_mutable bs \<subseteq> M \<and>
      (case compile_else_ifs_with_keep gs keep ((c, body) # eis) fx bs of
         Inl e \<Rightarrow> Inl e
       | Inr (fx', bs') \<Rightarrow> map_sum id (Pair fx') (compile_else_with_keep gs keep el bs')) =
      Inr (fx @ positions JEnd (lay_chain gs keep ((c, body) # eis) el (slots_of bs) (here bs)) (here bs),
           grown bs (lay_chain gs keep ((c, body) # eis) el (slots_of bs) (here bs))
             (slots_chain ((c, body) # eis) el (slots_of bs)) M)"
    using M' arm(1,2,4) pos
    by (intro exI [of _ M']) (auto simp: Let_def lay_chain_Cons bs2_def xs_def [symmetric] simp del: One_nat_def)
qed

lemma emits_if_else:
  assumes body: "\<And>bs'. bs_mutable bs' = bs_mutable bs \<Longrightarrow> slots_of bs' = slots_of bs \<Longrightarrow>
      (bs_loop_stack bs' = [] \<longleftrightarrow> bs_loop_stack bs = []) \<Longrightarrow>
      emits (compile_branch_stmts gs keep t) bs' (bs_mutable bs') (lay_stmts gs keep t (slots_of bs') (here bs'))
        (slots_stmts t (slots_of bs'))"
    and rest: "\<And>bs'. bs_mutable bs \<subseteq> bs_mutable bs' \<Longrightarrow> slots_of bs' = slots_stmts t (slots_of bs) \<Longrightarrow>
      (bs_loop_stack bs' = [] \<longleftrightarrow> bs_loop_stack bs = []) \<Longrightarrow> emits_chain gs keep eis el bs'"
  shows "emits (compile_one gs keep (IfElseBlock c t eis el)) bs (bs_mutable bs)
    (lay_stmt gs keep (IfElseBlock c t eis el) (slots_of bs) (here bs)) (slots_stmt (IfElseBlock c t eis el) (slots_of bs))"
proof -
  have "emits_chain gs keep ((c, t) # eis) el bs" by (rule emits_chain_Cons [OF body rest])
  then obtain M where M: "bs_mutable bs \<subseteq> M"
    "(case compile_else_ifs_with_keep gs keep ((c, t) # eis) [] bs of
        Inl e \<Rightarrow> Inl e
      | Inr (fx', bs') \<Rightarrow> map_sum id (Pair fx') (compile_else_with_keep gs keep el bs')) =
     Inr (positions JEnd (lay_chain gs keep ((c, t) # eis) el (slots_of bs) (here bs)) (here bs),
          grown bs (lay_chain gs keep ((c, t) # eis) el (slots_of bs) (here bs))
            (slots_chain ((c, t) # eis) el (slots_of bs)) M)"
    unfolding emits_chain_def by (metis append_Nil)
  have comp: "compile_if_stmt_with_keep gs keep (IfElseBlock c t eis el) bs =
      (case (case compile_else_ifs_with_keep gs keep ((c, t) # eis) [] bs of
          Inl e \<Rightarrow> Inl e
        | Inr (fx', bs') \<Rightarrow> map_sum id (Pair fx') (compile_else_with_keep gs keep el bs')) of
         Inl e \<Rightarrow> Inl e
       | Inr (fx, bs') \<Rightarrow> Inr (patch_all fx (here bs') bs'))"
    by (auto simp: Let_def split: sum.split)
  have "lay_stmt gs keep (IfElseBlock c t eis el) (slots_of bs) (here bs) =
      map (settle JEnd (here bs + length (lay_chain gs keep ((c, t) # eis) el (slots_of bs) (here bs))))
        (lay_chain gs keep ((c, t) # eis) el (slots_of bs) (here bs))"
    by (simp add: lay_if_else lay_chain_Cons Let_def)
  then show ?thesis
    using M(1) unfolding compile_one_if emits_def comp M(2)
    by (intro exI [of _ M]) (simp add: patch_all_grown)
qed

lemma emits_chain_else:
  assumes "\<And>body. el = Some body \<Longrightarrow>
    emits (compile_branch_stmts gs keep body) bs (bs_mutable bs) (lay_stmts gs keep body (slots_of bs) (here bs))
      (slots_stmts body (slots_of bs))"
  shows "emits_chain gs keep [] el bs"
proof (cases el)
  case None
  then show ?thesis
    unfolding emits_chain_def by (intro allI exI [of _ "bs_mutable bs"]) (simp add: push_grown)
next
  case (Some body)
  then show ?thesis
    using assms [OF Some] positions_none [OF lay_no_end(2)] by (auto simp: emits_chain_def emits_def)
qed

text \<open>A sequence: the first statement, then the rest on what it left.\<close>

lemma emits_Cons:
  assumes one: "emits (compile_one gs (keep \<and> stmts = []) stmt) bs N
      (lay_stmt gs (keep \<and> stmts = []) stmt (slots_of bs) (here bs)) (slots_stmt stmt (slots_of bs))"
    and N: "bs_mutable bs \<subseteq> N"
    and rest: "\<And>bs'. N \<subseteq> bs_mutable bs' \<Longrightarrow> slots_of bs' = slots_stmt stmt (slots_of bs) \<Longrightarrow>
      (bs_loop_stack bs' = [] \<longleftrightarrow> bs_loop_stack bs = []) \<Longrightarrow>
      emits (compile_branch_stmts gs keep stmts) bs' (bs_mutable bs') (lay_stmts gs keep stmts (slots_of bs') (here bs'))
        (slots_stmts stmts (slots_of bs'))"
  shows "emits (compile_branch_stmts gs keep (stmt # stmts)) bs (bs_mutable bs)
    (lay_stmts gs keep (stmt # stmts) (slots_of bs) (here bs)) (slots_stmts (stmt # stmts) (slots_of bs))"
proof -
  define xs where "xs = lay_stmt gs (keep \<and> stmts = []) stmt (slots_of bs) (here bs)"
  obtain M where M: "N \<subseteq> M"
    "compile_one gs (keep \<and> stmts = []) stmt bs = Inr (grown bs xs (slots_stmt stmt (slots_of bs)) M)"
    using one unfolding emits_def xs_def by blast
  show ?thesis
  proof (cases "stmts = []")
    case True
    then show ?thesis
      using M N by (intro emitsI [of _ M]) (simp_all add: compile_branch_Cons xs_def)
  next
    case False
    let ?bs = "grown bs xs (slots_stmt stmt (slots_of bs)) M"
    obtain M' where M': "M \<subseteq> M'" "compile_branch_stmts gs keep stmts ?bs =
        Inr (grown ?bs (lay_stmts gs keep stmts (slots_of ?bs) (here ?bs)) (slots_stmts stmts (slots_of ?bs)) M')"
      using rest [of ?bs] M(1) by (auto simp: emits_def)
    have "compile_branch_stmts gs keep (stmt # stmts) bs = compile_branch_stmts gs keep stmts ?bs"
      using M(2) False by (simp add: compile_branch_Cons)
    moreover have "bs_mutable bs \<subseteq> M'" using N M(1) M'(1) by blast
    ultimately show ?thesis
      using M'(2) False xs_def by (intro emitsI [of _ M']) (simp_all add: Let_def)
  qed
qed

lemma emits_Nil:
  "emits (compile_branch_stmts gs keep []) bs (bs_mutable bs) (lay_stmts gs keep [] (slots_of bs) (here bs))
     (slots_stmts [] (slots_of bs))"
  by (intro emitsI [of _ "bs_mutable bs"]) (auto simp: push_grown)

lemma compile_layout:
  "safe_stmts ck in_loop keep D M stmts \<Longrightarrow> M \<subseteq> bs_mutable bs \<Longrightarrow> D \<subseteq> dom (fst (slots_of bs)) \<Longrightarrow>
     (in_loop \<longrightarrow> bs_loop_stack bs \<noteq> []) \<Longrightarrow>
     emits (compile_branch_stmts gs keep stmts) bs (bs_mutable bs) (lay_stmts gs keep stmts (slots_of bs) (here bs))
       (slots_stmts stmts (slots_of bs))"
  "safe_chain ck in_loop keep D M eis el \<Longrightarrow> M \<subseteq> bs_mutable bs \<Longrightarrow> D \<subseteq> dom (fst (slots_of bs)) \<Longrightarrow>
     (in_loop \<longrightarrow> bs_loop_stack bs \<noteq> []) \<Longrightarrow> emits_chain gs keep eis el bs"
proof (induction ck in_loop keep D M stmts and ck in_loop keep D M eis el arbitrary: bs and bs
    rule: safe_stmts_safe_chain.induct)
  case (1 ck in_loop keep D M)
  show ?case by (rule emits_Nil)
next
  case (2 ck in_loop keep D M x e mutable stmts)
  let ?N = "if mutable then insert x (bs_mutable bs) else bs_mutable bs" and ?s = "LetBinding x e mutable"
  have one: "emits (compile_one gs (keep \<and> stmts = []) ?s) bs ?N
      (lay_stmt gs (keep \<and> stmts = []) ?s (slots_of bs) (here bs)) (slots_stmt ?s (slots_of bs))"
    using emits_let by simp
  have x: "x \<in> dom (fst (slot_let x (slots_of bs)))" by (auto simp: slot_let_def split: prod.split option.split)
  have rest: "emits (compile_branch_stmts gs keep stmts) bs' (bs_mutable bs')
      (lay_stmts gs keep stmts (slots_of bs') (here bs')) (slots_stmts stmts (slots_of bs'))"
    if bs': "?N \<subseteq> bs_mutable bs'" "slots_of bs' = slots_stmt ?s (slots_of bs)"
      "bs_loop_stack bs' = [] \<longleftrightarrow> bs_loop_stack bs = []" for bs'
  proof -
    have "insert x D \<subseteq> dom (fst (slots_of bs'))"
      using x "2.prems"(3) slots_dom(1) [of D "slots_of bs" ?s] bs'(2) by auto
    then show ?thesis using 2 bs' by (intro "2.IH") (auto split: if_splits)
  qed
  show ?case by (rule emits_Cons [OF one _ rest]) auto
next
  case (3 ck in_loop keep D M x e stmts)
  have x: "x \<in> bs_mutable bs" "x \<in> dom (bs_locals bs)" using "3.prems" by (auto simp: slots_of_def)
  have one: "emits (compile_one gs (keep \<and> stmts = []) (Assign x e)) bs (bs_mutable bs)
      (lay_stmt gs (keep \<and> stmts = []) (Assign x e) (slots_of bs) (here bs)) (slots_stmt (Assign x e) (slots_of bs))"
    unfolding slots_stmt.simps by (rule emits_assign [OF x])
  show ?case by (rule emits_Cons [OF one order_refl], rule "3.IH") (use "3.prems" in auto)
next
  case (4 ck in_loop keep D M e stmts)
  have one: "emits (compile_one gs (keep \<and> stmts = []) (SReturn e)) bs (bs_mutable bs)
      (lay_stmt gs (keep \<and> stmts = []) (SReturn e) (slots_of bs) (here bs)) (slots_stmt (SReturn e) (slots_of bs))"
    using emits_return by simp
  show ?case by (rule emits_Cons [OF one order_refl], rule "4.IH") (use "4.prems" in auto)
next
  case (5 ck in_loop keep D M e stmts)
  have one: "emits (compile_one gs (keep \<and> stmts = []) (ExprStmt e)) bs (bs_mutable bs)
      (lay_stmt gs (keep \<and> stmts = []) (ExprStmt e) (slots_of bs) (here bs)) (slots_stmt (ExprStmt e) (slots_of bs))"
    using emits_expr_stmt by simp
  have stmts: "stmts = []" using "5.prems" by simp
  show ?case by (rule emits_Cons [OF one order_refl], unfold stmts, rule emits_Nil)
next
  case (6 ck in_loop keep D M c body stmts)
  have one: "emits (compile_one gs (keep \<and> stmts = []) (While c body)) bs (bs_mutable bs)
      (lay_stmt gs (keep \<and> stmts = []) (While c body) (slots_of bs) (here bs)) (slots_stmt (While c body) (slots_of bs))"
    unfolding slots_stmt.simps
    by (rule emits_while, unfold with_keep_False(2) [of False, simplified, symmetric], rule "6.IH"(1)) (use "6.prems" in auto)
  show ?case by (rule emits_Cons [OF one order_refl], rule "6.IH"(2)) (use "6.prems" slots_dom(1) [OF "6.prems"(3), of "While c body"] in auto)
next
  case (7 ck in_loop keep D M c body stmts)
  have one: "emits (compile_one gs (keep \<and> stmts = []) (IfThen c body)) bs (bs_mutable bs)
      (lay_stmt gs (keep \<and> stmts = []) (IfThen c body) (slots_of bs) (here bs)) (slots_stmt (IfThen c body) (slots_of bs))"
    unfolding slots_stmt.simps by (rule emits_if_then, rule "7.IH"(1)) (use "7.prems" in auto)
  show ?case by (rule emits_Cons [OF one order_refl], rule "7.IH"(2)) (use "7.prems" slots_dom(1) [OF "7.prems"(3), of "IfThen c body"] in auto)
next
  case (8 ck in_loop keep D M c t eis el stmts)
  have one: "emits (compile_one gs (keep \<and> stmts = []) (IfElseBlock c t eis el)) bs (bs_mutable bs)
      (lay_stmt gs (keep \<and> stmts = []) (IfElseBlock c t eis el) (slots_of bs) (here bs))
      (slots_stmt (IfElseBlock c t eis el) (slots_of bs))"
    by (rule emits_if_else, rule "8.IH"(1), (use "8.prems" in auto)[4], rule "8.IH"(2))
       (use "8.prems" slots_dom(2) [OF "8.prems"(3), of t] in auto)
  show ?case by (rule emits_Cons [OF one order_refl], rule "8.IH"(3)) (use "8.prems" slots_dom(1) [OF "8.prems"(3), of "IfElseBlock c t eis el"] in auto)
next
  case (9 ck in_loop keep D M stmts)
  have one: "emits (compile_one gs (keep \<and> stmts = []) Break) bs (bs_mutable bs)
      (lay_stmt gs (keep \<and> stmts = []) Break (slots_of bs) (here bs)) (slots_stmt Break (slots_of bs))"
    using emits_jumps(1) 9 by simp
  show ?case by (rule emits_Cons [OF one order_refl], rule "9.IH") (use "9.prems" in auto)
next
  case (10 ck in_loop keep D M stmts)
  have one: "emits (compile_one gs (keep \<and> stmts = []) Continue) bs (bs_mutable bs)
      (lay_stmt gs (keep \<and> stmts = []) Continue (slots_of bs) (here bs)) (slots_stmt Continue (slots_of bs))"
    using emits_jumps(2) 10 by simp
  show ?case by (rule emits_Cons [OF one order_refl], rule "10.IH") (use "10.prems" in auto)
next
  case (11 ck in_loop keep D M)
  show ?case by (rule emits_chain_else) simp
next
  case (12 ck in_loop keep D M body)
  show ?case by (rule emits_chain_else, simp, rule "12.IH") (use "12.prems" in auto)
next
  case (13 ck in_loop keep D M c body eis el)
  show ?case
    by (rule emits_chain_Cons, rule "13.IH"(1), (use "13.prems" in auto)[4], rule "13.IH"(2))
       (use "13.prems" slots_dom(2) [OF "13.prems"(3), of body] in auto)
qed

section \<open>Bodies\<close>

text \<open>
  The compiler of a body treats its last statement apart and repairs the end afterwards; the outcome
  is that of a branch whose value is kept.
\<close>

lemma body_epilogue_Cons: "stmts \<noteq> [] \<Longrightarrow> body_epilogue (stmt # stmts) code = body_epilogue stmts code"
  by (simp add: body_epilogue_def)

lemma compile_body_branch:
  assumes "Break \<notin> set stmts" "Continue \<notin> set stmts"
  shows "map_sum id (\<lambda>bs'. body_epilogue stmts (bs_code bs')) (compile_body_stmts gs stmts bs) =
    map_sum id bs_code (compile_branch_stmts gs True stmts bs)"
  using assms
proof (induction stmts arbitrary: bs)
  case Nil
  then show ?case by (simp add: body_epilogue_def push_code_def)
next
  case (Cons stmt stmts)
  show ?case
  proof (cases "stmts = []")
    case True
    then show ?thesis
      using Cons.prems
      by (cases stmt)
         (auto simp: body_epilogue_def push_code_def Let_def compile_assign_def split: sum.split option.split
            simp del: compile_if_stmt_with_keep.simps compile_stmt.simps(4))
  next
    case False
    have "compile_body_stmts gs (stmt # stmts) bs =
        (case compile_stmt gs stmt bs of Inl err \<Rightarrow> Inl err | Inr bs \<Rightarrow> compile_body_stmts gs stmts bs)"
      using False Cons.prems with_keep_False(1) [of False gs stmt bs]
      by (cases stmt) (auto simp del: compile_if_stmt_with_keep.simps compile_stmt.simps)
    then show ?thesis
      using False Cons by (cases "compile_stmt gs stmt bs") (simp_all add: body_epilogue_Cons compile_branch_Cons compile_one_def)
  qed
qed

lemma safe_no_jumps: "safe_stmts ck False keep D M stmts \<Longrightarrow> Break \<notin> set stmts \<and> Continue \<notin> set stmts"
proof (induction stmts arbitrary: D M)
  case (Cons stmt stmts)
  then show ?case by (cases stmt) auto
qed simp

lemma compile_body_layout:
  assumes "safe_stmts ck False True D {} stmts" "D \<subseteq> dom params"
  shows "compile_body gs params n stmts = Inr (map (fin 0 0 0) (lay_stmts gs True stmts (params, n) 0))"
proof -
  let ?bs = "\<lparr>bs_locals = params, bs_next_slot = n, bs_mutable = {}, bs_loop_stack = [], bs_code = []\<rparr>"
  have "emits (compile_branch_stmts gs True stmts) ?bs (bs_mutable ?bs) (lay_stmts gs True stmts (slots_of ?bs) (here ?bs))
      (slots_stmts stmts (slots_of ?bs))"
    by (rule compile_layout(1) [OF assms(1)]) (use assms(2) in \<open>auto simp: slots_of_def\<close>)
  then have "map_sum id bs_code (compile_branch_stmts gs True stmts ?bs) =
      Inr (map (fin 0 0 0) (lay_stmts gs True stmts (params, n) 0))"
    by (auto simp: emits_def grown_def slots_of_def)
  then have "map_sum id (\<lambda>bs'. body_epilogue stmts (bs_code bs')) (compile_body_stmts gs stmts ?bs) =
      Inr (map (fin 0 0 0) (lay_stmts gs True stmts (params, n) 0))"
    using compile_body_branch safe_no_jumps [OF assms(1)] by simp
  then show ?thesis
    by (cases "compile_body_stmts gs stmts ?bs") (simp_all add: compile_body_def)
qed

end
