(* ===== verification/Lang_Body.thy ===== *)
theory Lang_Body
  imports Lang_Layout
begin

text \<open>
  Running compiled bodies. Between two statements the locals are the stack above the base of the
  frame: every definitely assigned name lies in its slot, and what is no local of the body is a global
  of the same value. Statement by statement the machine follows the tree walker: it reaches the next
  statement, the end or the head of the enclosing loop, or it stops, and the frame it has then is the
  environment the tree walker has.
\<close>

section \<open>Runs that may go backwards\<close>

text \<open>Getting from \<open>a\<close> to \<open>b\<close>, or stopping, within \<open>k\<close> iterations of the machine's loop.\<close>

definition moves ::
  "vm \<Rightarrow> nat \<Rightarrow> nat \<Rightarrow> instruction list \<Rightarrow> nat \<Rightarrow> runtime_value list \<Rightarrow> nat \<Rightarrow> runtime_value list \<Rightarrow> bool" where
  "moves m d k C a st b st' \<longleftrightarrow> (\<exists>j \<le> k. \<forall>n. run_loop m d (j + n) C a st = run_loop m d n C b st')"

definition ends ::
  "vm \<Rightarrow> nat \<Rightarrow> nat \<Rightarrow> instruction list \<Rightarrow> nat \<Rightarrow> runtime_value list \<Rightarrow> string + runtime_value \<Rightarrow> runtime_value list \<Rightarrow> bool" where
  "ends m d k C a st r st' \<longleftrightarrow> (\<exists>j \<le> k. \<forall>n. run_loop m d (j + n) C a st = (r, st'))"

lemma moves_refl: "moves m d k C a st a st"
  by (auto simp: moves_def intro!: exI [of _ 0])

lemma moves_mono: "moves m d k C a st b st' \<Longrightarrow> k \<le> l \<Longrightarrow> moves m d l C a st b st'"
  by (meson moves_def le_trans)

lemma ends_mono: "ends m d k C a st r st' \<Longrightarrow> k \<le> l \<Longrightarrow> ends m d l C a st r st'"
  by (meson ends_def le_trans)

lemma moves_trans:
  assumes "moves m d k C a st b st'" "moves m d l C b st' c st''"
  shows "moves m d (k + l) C a st c st''"
proof -
  obtain i where i: "i \<le> k" "\<And>n. run_loop m d (i + n) C a st = run_loop m d n C b st'"
    using assms(1) by (auto simp: moves_def)
  obtain j where j: "j \<le> l" "\<And>n. run_loop m d (j + n) C b st' = run_loop m d n C c st''"
    using assms(2) by (auto simp: moves_def)
  have "run_loop m d (i + j + n) C a st = run_loop m d n C c st''" for n
    using i(2) [of "j + n"] j(2) by (simp add: add.assoc)
  then show ?thesis
    using i(1) j(1) unfolding moves_def by (intro exI [of _ "i + j"]) auto
qed

lemma moves_ends:
  assumes "moves m d k C a st b st'" "ends m d l C b st' r st''"
  shows "ends m d (k + l) C a st r st''"
proof -
  obtain i where i: "i \<le> k" "\<And>n. run_loop m d (i + n) C a st = run_loop m d n C b st'"
    using assms(1) by (auto simp: moves_def)
  obtain j where j: "j \<le> l" "\<And>n. run_loop m d (j + n) C b st' = (r, st'')"
    using assms(2) by (auto simp: ends_def)
  have "run_loop m d (i + j + n) C a st = (r, st'')" for n
    using i(2) [of "j + n"] j(2) by (simp add: add.assoc)
  then show ?thesis
    using i(1) j(1) unfolding ends_def by (intro exI [of _ "i + j"]) auto
qed

lemma advances_moves: "advances m d C a st b st' \<Longrightarrow> moves m d (b - a) C a st b st'"
  by (auto simp: advances_def moves_def)

lemma fail_ends: "fail m d C a st b e st' \<Longrightarrow> ends m d (b - a) C a st (Inl e) st'"
  by (auto simp: fail_def ends_def)

lemma moves_step:
  assumes "step m (C ! a) a st = Goto b st'" "a < length C"
  shows "moves m d 1 C a st b st'"
proof -
  have "run_loop m d (1 + n) C a st = run_loop m d n C b st'" for n
    using assms by (simp add: run_loop.simps [of m d "Suc n"])
  then show ?thesis unfolding moves_def by (intro exI [of _ 1]) auto
qed

lemma ends_step:
  assumes "step m (C ! a) a st = Stop r st'" "a < length C"
  shows "ends m d 1 C a st r st'"
proof -
  have "run_loop m d (1 + n) C a st = (r, st')" for n
    using assms by (simp add: run_loop.simps [of m d "Suc n"])
  then show ?thesis unfolding ends_def by (intro exI [of _ 1]) auto
qed

section \<open>The frame of a running body\<close>

definition global_ok :: "vm \<Rightarrow> (string \<Rightarrow> nat option) \<Rightarrow> env \<Rightarrow> string \<Rightarrow> bool" where
  "global_ok m gs variables x \<longleftrightarrow>
     (case gs x of
        Some g \<Rightarrow> g < length (vm_globals m) \<and> variables x = Some (vm_globals m ! g)
      | None \<Rightarrow> variables x = load_by_name m x)"

definition live ::
  "vm \<Rightarrow> (string \<Rightarrow> nat option) \<Rightarrow> env \<Rightarrow> string set \<Rightarrow> (string \<Rightarrow> nat option) \<Rightarrow> string set \<Rightarrow> string set \<Rightarrow>
     env \<Rightarrow> string set \<Rightarrow> runtime_value list \<Rightarrow> bool" where
  "live m gs variables W L D M env muts vals \<longleftrightarrow>
     (\<forall>x\<in>D. \<exists>s. L x = Some s \<and> s < length vals \<and> env x = Some (vals ! s)) \<and>
     (\<forall>x. x \<notin> W \<longrightarrow> env x = None \<and> global_ok m gs variables x) \<and> M \<subseteq> muts"

definition slots_ok :: "string set \<Rightarrow> slots \<Rightarrow> bool" where
  "slots_ok W sl \<longleftrightarrow> (case sl of (L, n) \<Rightarrow>
     dom L \<subseteq> W \<and> (\<forall>x y s. L x = Some s \<longrightarrow> L y = Some s \<longrightarrow> x = y) \<and> (\<forall>x s. L x = Some s \<longrightarrow> s < n))"

lemma slots_ok_let: "slots_ok W sl \<Longrightarrow> x \<in> W \<Longrightarrow> slots_ok W (slot_let x sl)"
  by (cases sl) (fastforce simp: slots_ok_def slot_let_def split: option.split)

lemma slot_let_bound: "\<exists>s. fst (slot_let x sl) x = Some s"
  by (auto simp: slot_let_def split: prod.split option.split)

lemma slots_ok_safe:
  "safe_stmts ck in_loop keep D M stmts \<Longrightarrow> slots_ok (ck_names ck) sl \<Longrightarrow> slots_ok (ck_names ck) (slots_stmts stmts sl)"
  "safe_chain ck in_loop keep D M eis el \<Longrightarrow> slots_ok (ck_names ck) sl \<Longrightarrow> slots_ok (ck_names ck) (slots_chain eis el sl)"
  by (induction ck in_loop keep D M stmts and ck in_loop keep D M eis el arbitrary: sl and sl
      rule: safe_stmts_safe_chain.induct) (auto simp: slots_ok_let)

text \<open>What is definitely assigned stays so when more names get slots, and conversely.\<close>

lemma live_mono:
  assumes "live m gs variables W L D M env muts vals" "L \<subseteq>\<^sub>m L'"
  shows "live m gs variables W L' D M env muts vals"
  using assms unfolding live_def map_le_def by (metis domI)

lemma live_antimono:
  assumes "live m gs variables W L' D' M' env muts vals" "L \<subseteq>\<^sub>m L'" "D \<subseteq> D'" "D \<subseteq> dom L" "M \<subseteq> M'"
  shows "live m gs variables W L D M env muts vals"
  using assms unfolding live_def map_le_def by (metis subset_trans subsetD)

lemma live_resolves:
  assumes "live m gs variables (ck_names ck) (fst sl) D M env muts vals" "slots_ok (ck_names ck) sl"
    and "usable ck D e" "length base = vm_base_bp m"
  shows "resolves m (scope_at gs sl) (tw_lookup env variables) (base @ vals) e"
proof -
  have "finds m (scope_at gs sl) (tw_lookup env variables) (base @ vals) x" if "x \<in> set (reads e)" for x
  proof (cases "x \<in> D")
    case True
    then obtain s where "fst sl x = Some s" "s < length vals" "env x = Some (vals ! s)"
      using assms(1) by (auto simp: live_def)
    then show ?thesis using assms(4) by (simp add: finds_def scope_at_def tw_lookup_def nth_append)
  next
    case False
    then have "x \<notin> ck_names ck" using assms(3) that by (auto simp: usable_def list_all_iff)
    then have "fst sl x = None" "env x = None" "global_ok m gs variables x"
      using assms(1,2) by (auto simp: live_def slots_ok_def split: prod.splits)
    then show ?thesis by (cases "gs x") (simp_all add: finds_def scope_at_def tw_lookup_def global_ok_def)
  qed
  then show ?thesis by (simp add: resolves_def list_all_iff)
qed

section \<open>Storing a local\<close>

lemma store_slot_base:
  "store_slot (length base + i) v (base @ vals) = base @ store_slot i v vals"
proof (cases "i < length vals")
  case False
  then have "length base + i + 1 - (length base + length vals) = i + 1 - length vals" by simp
  then show ?thesis using False by (simp add: store_slot_def Let_def list_update_append)
qed (simp add: store_slot_def list_update_append)

lemma store_slot_nth:
  "i < length (store_slot i v vals)" "store_slot i v vals ! i = v"
  "j < length vals \<Longrightarrow> j < length (store_slot i v vals)"
  "j < length vals \<Longrightarrow> j \<noteq> i \<Longrightarrow> store_slot i v vals ! j = vals ! j"
  by (auto simp: store_slot_def Let_def nth_append)

lemma live_store:
  assumes live: "live m gs variables W L D M env muts vals" and ok: "slots_ok W sl" and L: "L \<subseteq>\<^sub>m fst sl"
    and x: "fst sl x = Some s"
  shows "live m gs variables W (fst sl) (insert x D) M (env(x \<mapsto> v)) muts (store_slot s v vals)"
proof -
  have W: "x \<in> W" using ok x by (auto simp: slots_ok_def split: prod.splits)
  have "\<exists>t. fst sl y = Some t \<and> t < length (store_slot s v vals) \<and> (env(x \<mapsto> v)) y = Some (store_slot s v vals ! t)"
    if y: "y \<in> insert x D" for y
  proof (cases "y = x")
    case True
    then show ?thesis using x store_slot_nth(1,2) [of s] by simp
  next
    case False
    then obtain t where t: "L y = Some t" "t < length vals" "env y = Some (vals ! t)"
      using live y by (auto simp: live_def)
    then have "fst sl y = Some t" using L by (metis domI map_le_def)
    moreover have "t \<noteq> s" using ok x \<open>fst sl y = Some t\<close> False by (auto simp: slots_ok_def split: prod.splits)
    ultimately show ?thesis using t False store_slot_nth(3,4) [of t vals] by simp
  qed
  then show ?thesis using live W by (auto simp: live_def)
qed

section \<open>Following the tree walker\<close>

text \<open>
  Where the machine is, within \<open>k\<close> iterations, when the tree walker has the outcome \<open>r\<close>: at \<open>b\<close> after a
  statement or block that runs to its end (with its value on the stack if that is kept), at the end \<open>bt\<close>
  or the head \<open>ct\<close> of the enclosing loop, or stopped. \<open>P\<close> holds of the frame whenever the body goes on.
  The cap on the iterations of a loop is the tree walker's own.
\<close>

definition follows ::
  "vm \<Rightarrow> nat \<Rightarrow> check \<Rightarrow> instruction list \<Rightarrow> runtime_value list \<Rightarrow> (env \<Rightarrow> string set \<Rightarrow> runtime_value list \<Rightarrow> bool) \<Rightarrow> bool \<Rightarrow>
     nat \<Rightarrow> nat \<Rightarrow> runtime_value list \<Rightarrow> nat \<Rightarrow> nat \<Rightarrow> nat \<Rightarrow> flow \<Rightarrow> bool" where
  "follows m d ck C base P keep k a st b bt ct r \<longleftrightarrow>
     (case r of
        Inl err \<Rightarrow> (0 < ck_loops ck \<and> (\<exists>sb. err = while_limit_error sb)) \<or>
          (\<exists>err' ext. same_error (ck_strict ck) err err' \<and> ends m d k C a st (Inl err') (base @ ext))
      | Inr (ContinueNormal v, env, muts) \<Rightarrow> (\<not> keep \<longrightarrow> v = VUnit) \<and>
          (\<exists>vals. P env muts vals \<and> moves m d k C a st b (base @ vals @ (if keep then [v] else [])))
      | Inr (CFBreak, env, muts) \<Rightarrow> (\<exists>vals. P env muts vals \<and> moves m d k C a st bt (base @ vals))
      | Inr (ContinueLoop, env, muts) \<Rightarrow> (\<exists>vals. P env muts vals \<and> moves m d k C a st ct (base @ vals))
      | Inr (CFReturn v, env, muts) \<Rightarrow> (\<exists>ext. ends m d k C a st (Inr v) (base @ ext)) \<or>
          (keep \<and> (\<exists>vals. moves m d k C a st b (base @ vals @ [v]))))"

lemma follows_simps [simp]:
  "follows m d ck C base P keep k a st b bt ct (Inl err) \<longleftrightarrow>
     (0 < ck_loops ck \<and> (\<exists>sb. err = while_limit_error sb)) \<or>
     (\<exists>err' ext. same_error (ck_strict ck) err err' \<and> ends m d k C a st (Inl err') (base @ ext))"
  "follows m d ck C base P keep k a st b bt ct (Inr (ContinueNormal v, env, muts)) \<longleftrightarrow>
     (\<not> keep \<longrightarrow> v = VUnit) \<and> (\<exists>vals. P env muts vals \<and>
       moves m d k C a st b (base @ vals @ (if keep then [v] else [])))"
  "follows m d ck C base P keep k a st b bt ct (Inr (CFBreak, env, muts)) \<longleftrightarrow>
     (\<exists>vals. P env muts vals \<and> moves m d k C a st bt (base @ vals))"
  "follows m d ck C base P keep k a st b bt ct (Inr (ContinueLoop, env, muts)) \<longleftrightarrow>
     (\<exists>vals. P env muts vals \<and> moves m d k C a st ct (base @ vals))"
  "follows m d ck C base P keep k a st b bt ct (Inr (CFReturn v, env, muts)) \<longleftrightarrow>
     (\<exists>ext. ends m d k C a st (Inr v) (base @ ext)) \<or>
     (keep \<and> (\<exists>vals. moves m d k C a st b (base @ vals @ [v])))"
  by (simp_all add: follows_def)

text \<open>The outcome of a block by cases.\<close>

lemma flow_cases [case_names Error Normal Break Continue Return]:
  fixes r :: flow
  obtains err where "r = Inl err" | v env muts where "r = Inr (ContinueNormal v, env, muts)"
    | env muts where "r = Inr (CFBreak, env, muts)" | env muts where "r = Inr (ContinueLoop, env, muts)"
    | v env muts where "r = Inr (CFReturn v, env, muts)"
  by (cases r) (auto, metis control_flow.exhaust)

lemma follows_after:
  assumes "moves m d k C a st a' st'" "follows m d ck C base P keep l a' st' b bt ct r"
  shows "follows m d ck C base P keep (k + l) a st b bt ct r"
  using assms moves_trans [OF assms(1)] moves_ends [OF assms(1)]
  by (cases r rule: flow_cases; simp only: follows_simps; blast)

lemma follows_weaken:
  assumes "follows m d ck C base P keep k a st b bt ct r" "k \<le> l"
  shows "follows m d ck C base P keep l a st b bt ct r"
  using assms(1) moves_mono [OF _ assms(2), of m d C a st] ends_mono [OF _ assms(2), of m d C a st]
  by (cases r rule: flow_cases; simp only: follows_simps; blast)

lemma follows_mono:
  assumes "follows m d ck C base P keep k a st b bt ct r" "\<And>env muts vals. P env muts vals \<Longrightarrow> Q env muts vals"
  shows "follows m d ck C base Q keep k a st b bt ct r"
proof (cases r rule: flow_cases)
  case (Normal v env muts)
  then obtain vals where "\<not> keep \<longrightarrow> v = VUnit" "P env muts vals"
    "moves m d k C a st b (base @ vals @ (if keep then [v] else []))"
    using assms(1) by auto
  then show ?thesis
    unfolding Normal follows_simps using assms(2) [of env muts vals] by (intro conjI exI [of _ vals]) auto
qed (use assms in auto)

lemma follows_loops:
  assumes "follows m d (ck\<lparr>ck_loops := n\<rparr>) C base P keep k a st b bt ct r" "0 < ck_loops ck"
  shows "follows m d ck C base P keep k a st b bt ct r"
  using assms by (cases r rule: flow_cases) auto

text \<open>A block and then what follows it.\<close>

definition then_flow :: "flow \<Rightarrow> (runtime_value \<Rightarrow> env \<Rightarrow> string set \<Rightarrow> flow) \<Rightarrow> flow" where
  "then_flow r k =
     (case r of
        Inl err \<Rightarrow> Inl err
      | Inr (ContinueNormal v, env, muts) \<Rightarrow> k v env muts
      | Inr (cf, env, muts) \<Rightarrow> Inr (cf, env, muts))"

lemma follows_seq:
  assumes first: "follows m d ck C base P False k a st b bt ct r"
    and rest: "\<And>env muts vals. P env muts vals \<Longrightarrow> follows m d ck C base P keep l b (base @ vals) c bt ct (g VUnit env muts)"
  shows "follows m d ck C base P keep (k + l) a st c bt ct (then_flow r g)"
proof (cases r rule: flow_cases)
  case (Normal v env muts)
  then obtain vals where "v = VUnit" "P env muts vals" "moves m d k C a st b (base @ vals)"
    using first by auto
  then show ?thesis using follows_after [OF _ rest] Normal by (simp add: then_flow_def)
next
  case (Error err)
  then show ?thesis using follows_weaken [OF first, of "k + l"] by (simp add: then_flow_def)
qed (use follows_weaken [OF first, of "k + l"] in \<open>auto simp: then_flow_def\<close>)

text \<open>A block that ends at \<open>b\<close>, from where the machine moves on to \<open>c\<close> whatever the stack.\<close>

lemma follows_move:
  assumes "follows m d ck C base P keep k a st b bt ct r" "\<And>st. moves m d l C b st c st"
  shows "follows m d ck C base P keep (k + l) a st c bt ct r"
proof -
  have w: "follows m d ck C base P keep (k + l) a st b bt ct r" by (rule follows_weaken [OF assms(1)]) simp
  have go: "moves m d (k + l) C a st c st'" if "moves m d k C a st b st'" for st'
    by (rule moves_trans [OF that assms(2)])
  show ?thesis
  proof (cases r rule: flow_cases)
    case (Normal v env muts)
    then show ?thesis using assms(1) go by (simp only: follows_simps) blast
  next
    case (Return v env muts)
    then show ?thesis using assms(1) ends_mono [OF _ le_add1] go by (simp only: follows_simps) blast
  qed (use w in simp_all)
qed

section \<open>Expressions and conditions in a frame\<close>

lemma run_expr:
  assumes live: "live m gs variables (ck_names ck) (fst sl) D M env muts vals" "slots_ok (ck_names ck) sl"
    and e: "usable ck D e" and base: "length base = vm_base_bp m" and d: "d + ck_depth ck \<le> vm_max_call_depth m"
    and C: "code_in C a (code_at (scope_at gs sl) e a)" and k: "k = length (code_at (scope_at gs sl) e a)"
  shows "case eval_expr_with_env variables env e of
      Inl err \<Rightarrow> (\<exists>err' ext. same_error (ck_strict ck) err err' \<and> ends m d k C a (base @ vals) (Inl err') (base @ ext))
    | Inr v \<Rightarrow> moves m d k C a (base @ vals) (a + k) (base @ vals @ [v])"
proof -
  have p: "portable (ck_strict ck) e" "d + try_depth e \<le> vm_max_call_depth m"
    using e d by (auto simp: usable_def)
  have *: "delivers m d (ck_strict ck) C a ((base @ vals) @ []) (a + k) ((base @ vals) @ [])
      (single (eval_expr_with_env variables env e))"
    unfolding eval_expr_with_env_def k
    by (rule simulatedD [OF all_simulated [OF live_resolves [OF live e base] p(1)] p C])
  show ?thesis
  proof (cases "eval_expr_with_env variables env e")
    case (Inl err)
    then obtain err' ext where "same_error (ck_strict ck) err err'" "fail m d C a (base @ vals) (a + k) err' (base @ vals @ ext)"
      using * by (auto elim!: delivers_InlE)
    then show ?thesis using Inl fail_ends [of m d C a "base @ vals" "a + k" err'] by auto
  next
    case (Inr v)
    then show ?thesis using * advances_moves [of m d C a "base @ vals" "a + k"] by simp
  qed
qed

lemma run_cond:
  assumes live: "live m gs variables (ck_names ck) (fst sl) D M env muts vals" "slots_ok (ck_names ck) sl"
    and e: "usable ck D c" and base: "length base = vm_base_bp m" and d: "d + ck_depth ck \<le> vm_max_call_depth m"
    and C: "code_in C a (code_at (scope_at gs sl) c a)" "code_in C (a + k) [JumpIfNotCond f]"
    and k: "k = length (code_at (scope_at gs sl) c a)"
  shows "case eval_cond variables env c of
      Inl err \<Rightarrow> (\<exists>err' ext. same_error (ck_strict ck) err err' \<and> ends m d (k + 1) C a (base @ vals) (Inl err') (base @ ext))
    | Inr True \<Rightarrow> moves m d (k + 1) C a (base @ vals) (a + k + 1) (base @ vals)
    | Inr False \<Rightarrow> moves m d (k + 1) C a (base @ vals) f (base @ vals)"
proof -
  have jump: "a + k < length C" "C ! (a + k) = JumpIfNotCond f" using C(2) by simp_all
  note run = run_expr [OF live e base d C(1) k]
  show ?thesis
  proof (cases "eval_expr_with_env variables env c")
    case (Inl err)
    then obtain err' ext where "same_error (ck_strict ck) err err'" "ends m d k C a (base @ vals) (Inl err') (base @ ext)"
      using run by auto
    then show ?thesis using Inl ends_mono [of m d k C a "base @ vals" "Inl err'" _ "k + 1"] by (auto simp: eval_cond_def)
  next
    case (Inr v)
    then have v: "moves m d k C a (base @ vals) (a + k) (base @ vals @ [v])" using run by simp
    show ?thesis
    proof (cases "as_bool v")
      case (Inl err)
      then have "ends m d 1 C (a + k) (base @ vals @ [v]) (Inl err) (base @ vals)"
        using jump by (intro ends_step) (simp_all add: butlast_append)
      then have "ends m d (k + 1) C a (base @ vals) (Inl err) (base @ vals)" by (rule moves_ends [OF v])
      then show ?thesis
        using Inl Inr by (auto simp: eval_cond_def intro!: exI [of _ err] exI [of _ vals])
    next
      case (Inr t)
      have "moves m d 1 C (a + k) (base @ vals @ [v]) (if t then a + k + 1 else f) (base @ vals)"
        using jump Inr by (intro moves_step) (auto simp: butlast_append)
      then have "moves m d (k + 1) C a (base @ vals) (if t then a + k + 1 else f) (base @ vals)"
        by (rule moves_trans [OF v])
      then show ?thesis
        using Inr \<open>eval_expr_with_env variables env c = Inr v\<close> by (cases t) (simp_all add: eval_cond_def)
    qed
  qed
qed

section \<open>Branches\<close>

lemma code_in_fin_plain [simp]: "code_in C a (map (fin b c e) (map I xs)) = code_in C a xs"
  by simp

text \<open>A condition with a block behind it and something else at \<open>f\<close>.\<close>

lemma follows_cond:
  assumes live: "live m gs variables (ck_names ck) (fst sl) D M env muts vals" "slots_ok (ck_names ck) sl"
    and e: "usable ck D c" and base: "length base = vm_base_bp m" and d: "d + ck_depth ck \<le> vm_max_call_depth m"
    and C: "code_in C a (code_at (scope_at gs sl) c a)" "code_in C (a + k) [JumpIfNotCond f]"
    and k: "k = length (code_at (scope_at gs sl) c a)"
    and th: "follows m d ck C base P keep l (a + k + 1) (base @ vals) z bt ct r1"
    and el: "follows m d ck C base P keep l f (base @ vals) z bt ct r2"
  shows "follows m d ck C base P keep (k + 1 + l) a (base @ vals) z bt ct
    (case eval_cond variables env c of Inl err \<Rightarrow> Inl err | Inr True \<Rightarrow> r1 | Inr False \<Rightarrow> r2)"
proof -
  note run = run_cond [OF live e base d C k]
  show ?thesis
  proof (cases "eval_cond variables env c")
    case (Inl err)
    then obtain err' ext where "same_error (ck_strict ck) err err'"
      "ends m d (k + 1) C a (base @ vals) (Inl err') (base @ ext)" using run by auto
    then have "follows m d ck C base P keep (k + 1) a (base @ vals) z bt ct (Inl err)" by auto
    from follows_weaken [OF this, of "k + 1 + l"] show ?thesis using Inl by (simp del: follows_simps)
  next
    case (Inr t)
    then show ?thesis
      using run follows_after [OF _ th, of "k + 1"] follows_after [OF _ el, of "k + 1"] by (cases t) simp_all
  qed
qed

section \<open>Statement by statement\<close>

text \<open>
  The code of a statement, wherever it stands, follows the tree walker's evaluation \<open>ev\<close> of it; and the
  same for a sequence of statements and for the rest of an \<open>if\<close>. Each level of loops multiplies the
  iterations an instruction may cost by the cap on the iterations of a loop.
\<close>

definition weight :: "check \<Rightarrow> nat" where
  "weight ck = WHILE_SAFETY_LIMIT ^ ck_loops ck"

lemma weight_pos: "1 \<le> weight ck"
  by (simp add: weight_def WHILE_SAFETY_LIMIT_def)

lemma weight_le: "n \<le> weight ck * n"
  using mult_le_mono1 [OF weight_pos, of n ck] by simp

definition tracked_one ::
  "vm \<Rightarrow> nat \<Rightarrow> check \<Rightarrow> instruction list \<Rightarrow> runtime_value list \<Rightarrow> (string \<Rightarrow> nat option) \<Rightarrow> env \<Rightarrow> bool \<Rightarrow> string set \<Rightarrow> string set \<Rightarrow>
     statement \<Rightarrow> (env \<Rightarrow> string set \<Rightarrow> flow) \<Rightarrow> bool" where
  "tracked_one m d ck C base gs variables keep D M stmt ev \<longleftrightarrow>
     (\<forall>sl a env muts vals bt ct et.
        slots_ok (ck_names ck) sl \<longrightarrow> D \<subseteq> dom (fst sl) \<longrightarrow>
        live m gs variables (ck_names ck) (fst sl) D M env muts vals \<longrightarrow>
        code_in C a (map (fin bt ct et) (lay_stmt gs keep stmt sl a)) \<longrightarrow>
        a + length (lay_stmt gs keep stmt sl a) \<le> length C \<longrightarrow>
        follows m d ck C base (live m gs variables (ck_names ck) (fst sl) D M) keep
          (weight ck * length (lay_stmt gs keep stmt sl a)) a (base @ vals)
          (a + length (lay_stmt gs keep stmt sl a)) bt ct (ev env muts))"

text \<open>Whether the value of a block is kept: not when it ends by leaving.\<close>

definition kept :: "bool \<Rightarrow> statement list \<Rightarrow> bool" where
  "kept keep stmts \<longleftrightarrow> keep \<and> \<not> (stmts \<noteq> [] \<and> stmt_is_terminator (last stmts))"

lemma kept_simps [simp]:
  "kept keep [] = keep" "\<not> kept False stmts"
  "\<not> stmt_is_terminator stmt \<Longrightarrow> kept keep (stmt # stmts) = kept keep stmts"
  by (auto simp: kept_def)

lemma terminators [simp]:
  "stmt_is_terminator (SReturn e)" "stmt_is_terminator Break" "stmt_is_terminator Continue"
  "\<not> stmt_is_terminator (LetBinding x e b)" "\<not> stmt_is_terminator (Assign x e)" "\<not> stmt_is_terminator (ExprStmt e)"
  "\<not> stmt_is_terminator (While c body)" "\<not> stmt_is_terminator (IfThen c body)"
  "\<not> stmt_is_terminator (IfElseBlock c body eis el)"
  by (simp_all add: stmt_is_terminator_def)

definition tracked ::
  "vm \<Rightarrow> nat \<Rightarrow> check \<Rightarrow> instruction list \<Rightarrow> runtime_value list \<Rightarrow> (string \<Rightarrow> nat option) \<Rightarrow> env \<Rightarrow> bool \<Rightarrow> bool \<Rightarrow> string set \<Rightarrow>
     string set \<Rightarrow> statement list \<Rightarrow> bool" where
  "tracked m d ck C base gs variables sb keep D M stmts \<longleftrightarrow>
     (\<forall>sl a env muts vals bt ct et.
        slots_ok (ck_names ck) sl \<longrightarrow> D \<subseteq> dom (fst sl) \<longrightarrow>
        live m gs variables (ck_names ck) (fst sl) D M env muts vals \<longrightarrow>
        code_in C a (map (fin bt ct et) (lay_stmts gs keep stmts sl a)) \<longrightarrow>
        a + length (lay_stmts gs keep stmts sl a) \<le> length C \<longrightarrow>
        follows m d ck C base (live m gs variables (ck_names ck) (fst sl) D M) (kept keep stmts)
          (weight ck * length (lay_stmts gs keep stmts sl a)) a (base @ vals)
          (a + length (lay_stmts gs keep stmts sl a)) bt ct (eval_statements_cf sb variables env muts VUnit stmts))"

definition tracked_chain ::
  "vm \<Rightarrow> nat \<Rightarrow> check \<Rightarrow> instruction list \<Rightarrow> runtime_value list \<Rightarrow> (string \<Rightarrow> nat option) \<Rightarrow> env \<Rightarrow> bool \<Rightarrow> bool \<Rightarrow> string set \<Rightarrow>
     string set \<Rightarrow> (expr \<times> statement list) list \<Rightarrow> statement list option \<Rightarrow> bool" where
  "tracked_chain m d ck C base gs variables sb keep D M eis el \<longleftrightarrow>
     (\<forall>sl a env muts vals bt ct et.
        slots_ok (ck_names ck) sl \<longrightarrow> D \<subseteq> dom (fst sl) \<longrightarrow>
        live m gs variables (ck_names ck) (fst sl) D M env muts vals \<longrightarrow>
        et = a + length (lay_chain gs keep eis el sl a) \<longrightarrow>
        code_in C a (map (fin bt ct et) (lay_chain gs keep eis el sl a)) \<longrightarrow>
        et \<le> length C \<longrightarrow>
        follows m d ck C base (live m gs variables (ck_names ck) (fst sl) D M) keep
          (weight ck * length (lay_chain gs keep eis el sl a)) a (base @ vals)
          et bt ct (eval_else_ifs sb variables env muts VUnit eis el))"

lemmas trackedI = tracked_def [THEN iffD2, rule_format]
lemmas trackedD = tracked_def [THEN iffD1, rule_format]
lemmas tracked_oneI = tracked_one_def [THEN iffD2, rule_format]
lemmas tracked_oneD = tracked_one_def [THEN iffD1, rule_format]
lemmas tracked_chainI = tracked_chain_def [THEN iffD2, rule_format]
lemmas tracked_chainD = tracked_chain_def [THEN iffD1, rule_format]

text \<open>A statement whose value is not kept, and the statements after it.\<close>

lemma tracked_Cons:
  assumes one: "tracked_one m d ck C base gs variables False D M stmt ev"
    and rest: "tracked m d ck C base gs variables sb keep D M stmts"
    and ok: "\<And>sl. slots_ok (ck_names ck) sl \<Longrightarrow> slots_ok (ck_names ck) (slots_stmt stmt sl)"
    and lay: "\<And>sl a. lay_stmts gs keep (stmt # stmts) sl a =
      lay_stmt gs False stmt sl a @ lay_stmts gs keep stmts (slots_stmt stmt sl) (a + length (lay_stmt gs False stmt sl a))"
    and eval: "\<And>env muts. eval_statements_cf sb variables env muts VUnit (stmt # stmts) =
      then_flow (ev env muts) (\<lambda>v env muts. eval_statements_cf sb variables env muts (f v) stmts)"
    and f: "f VUnit = VUnit"
    and go: "\<not> stmt_is_terminator stmt"
  shows "tracked m d ck C base gs variables sb keep D M (stmt # stmts)"
proof (rule trackedI)
  fix sl a env muts vals bt ct et
  assume *: "slots_ok (ck_names ck) sl" "D \<subseteq> dom (fst sl)" "live m gs variables (ck_names ck) (fst sl) D M env muts vals"
    and C: "code_in C a (map (fin bt ct et) (lay_stmts gs keep (stmt # stmts) sl a))"
      "a + length (lay_stmts gs keep (stmt # stmts) sl a) \<le> length C"
  let ?P = "live m gs variables (ck_names ck) (fst sl) D M"
  define b where "b = a + length (lay_stmt gs False stmt sl a)"
  define sl' where "sl' = slots_stmt stmt sl"
  have len: "a + length (lay_stmts gs keep (stmt # stmts) sl a) = b + length (lay_stmts gs keep stmts sl' b)"
    by (simp only: lay length_append b_def sl'_def add.assoc)
  have C1: "code_in C a (map (fin bt ct et) (lay_stmt gs False stmt sl a))"
    and C2: "code_in C b (map (fin bt ct et) (lay_stmts gs keep stmts sl' b))"
    using C(1) by (simp_all only: lay map_append code_in_append length_map b_def sl'_def)
  define k1 where "k1 = weight ck * length (lay_stmt gs False stmt sl a)"
  define k2 where "k2 = weight ck * length (lay_stmts gs keep stmts sl' b)"
  have cost: "weight ck * length (lay_stmts gs keep (stmt # stmts) sl a) = k1 + k2"
    by (simp only: lay length_append k1_def k2_def b_def sl'_def distrib_left)
  have first: "follows m d ck C base ?P False k1 a (base @ vals) b bt ct (ev env muts)"
    unfolding b_def k1_def by (rule tracked_oneD [OF one * C1]) (use C(2) len in \<open>simp add: b_def\<close>)
  have dom: "D \<subseteq> dom (fst sl')" using slots_dom(1) [OF *(2)] by (simp add: sl'_def)
  have "follows m d ck C base ?P (kept keep stmts) k2 b (base @ vals') (b + length (lay_stmts gs keep stmts sl' b)) bt ct
      (eval_statements_cf sb variables env' muts' VUnit stmts)" if "?P env' muts' vals'" for env' muts' vals'
  proof (rule follows_mono)
    show "follows m d ck C base (live m gs variables (ck_names ck) (fst sl') D M) (kept keep stmts) k2 b (base @ vals')
        (b + length (lay_stmts gs keep stmts sl' b)) bt ct (eval_statements_cf sb variables env' muts' VUnit stmts)"
      unfolding k2_def using live_mono [OF that slots_extend(1)] C(2) [unfolded len] ok [OF *(1)]
      by (intro trackedD [OF rest _ dom _ C2]) (simp_all add: sl'_def)
  qed (rule live_antimono, auto simp: sl'_def slots_extend *(2))
  then show "follows m d ck C base ?P (kept keep (stmt # stmts))
      (weight ck * length (lay_stmts gs keep (stmt # stmts) sl a)) a (base @ vals) (a + length (lay_stmts gs keep (stmt # stmts) sl a)) bt ct
      (eval_statements_cf sb variables env muts VUnit (stmt # stmts))"
    unfolding len cost eval kept_simps(3) [OF go] by (intro follows_seq [OF first]) (simp add: f)
qed

lemma step_store:
  assumes "length base = vm_base_bp m"
  shows "step m (StoreLocal s) b (base @ vals @ [v]) = Goto (b + 1) (base @ store_slot s v vals)"
    "step m (StoreAssignLocal s x True) b (base @ vals @ [v]) = Goto (b + 1) (base @ store_slot s v vals)"
  using store_slot_base [of base s v vals] assms by (simp_all add: store_def butlast_append)

text \<open>A value computed and stored: the code shared by bindings and assignments.\<close>

lemma run_store:
  assumes live: "live m gs variables (ck_names ck) (fst sl) D M env muts vals" "slots_ok (ck_names ck) sl"
    and e: "usable ck D e" and base: "length base = vm_base_bp m" and d: "d + ck_depth ck \<le> vm_max_call_depth m"
    and C: "code_in C a (code_at (scope_at gs sl) e a)" "code_in C (a + k) [i]"
    and k: "k = length (code_at (scope_at gs sl) e a)"
    and i: "i = StoreLocal s \<or> i = StoreAssignLocal s x True" and s: "fst sl x = Some s"
    and rest: "\<And>v vals. live m gs variables (ck_names ck) (fst sl) (insert x D) M (env(x \<mapsto> v)) muts vals \<Longrightarrow>
      follows m d ck C base P keep l (a + k + 1) (base @ vals) z bt ct (g v)"
  shows "follows m d ck C base P keep (k + 1 + l) a (base @ vals) z bt ct
    (case eval_expr_with_env variables env e of Inl err \<Rightarrow> Inl err | Inr v \<Rightarrow> g v)"
proof -
  have store: "a + k < length C" "C ! (a + k) = i" using C(2) by simp_all
  note run = run_expr [OF live e base d C(1) k]
  show ?thesis
  proof (cases "eval_expr_with_env variables env e")
    case (Inl err)
    then obtain err' ext where "same_error (ck_strict ck) err err'"
      "ends m d k C a (base @ vals) (Inl err') (base @ ext)" using run by auto
    then have "follows m d ck C base P keep k a (base @ vals) z bt ct (Inl err)" by auto
    from follows_weaken [OF this, of "k + 1 + l"] show ?thesis using Inl by (simp del: follows_simps)
  next
    case (Inr v)
    then have v: "moves m d k C a (base @ vals) (a + k) (base @ vals @ [v])" using run by simp
    have "moves m d 1 C (a + k) (base @ vals @ [v]) (a + k + 1) (base @ store_slot s v vals)"
      using store i step_store [OF base] by (intro moves_step) auto
    then have "moves m d (k + 1) C a (base @ vals) (a + k + 1) (base @ store_slot s v vals)"
      by (rule moves_trans [OF v])
    then have "follows m d ck C base P keep (k + 1 + l) a (base @ vals) z bt ct (g v)"
      by (rule follows_after [OF _ rest [OF live_store [OF live(1,2) map_le_refl s]]])
    then show ?thesis using Inr by simp
  qed
qed

lemma lay_plain_Cons:
  assumes "\<not> (keep \<and> stmts = []) \<or> (\<exists>x e b. stmt = LetBinding x e b) \<or> (\<exists>x e. stmt = Assign x e) \<or> (\<exists>c b. stmt = While c b)"
  shows "lay_stmts gs keep (stmt # stmts) sl a =
    lay_stmt gs False stmt sl a @ lay_stmts gs keep stmts (slots_stmt stmt sl) (a + length (lay_stmt gs False stmt sl a))"
proof (cases "keep \<and> stmts = []")
  case True
  then show ?thesis using assms by (auto simp: lay_stmt.simps Let_def)
next
  case False
  then show ?thesis by (cases "stmts = []") (auto simp: Let_def)
qed

lemma tracked_let:
  assumes rest: "tracked m d ck C base gs variables sb keep (insert x D) (if mutable then insert x M else M) stmts"
    and e: "usable ck D e" and base: "length base = vm_base_bp m" and d: "d + ck_depth ck \<le> vm_max_call_depth m"
    and x: "x \<in> ck_names ck"
  shows "tracked m d ck C base gs variables sb keep D M (LetBinding x e mutable # stmts)"
proof (rule trackedI)
  fix sl a env muts vals bt ct et
  assume *: "slots_ok (ck_names ck) sl" "D \<subseteq> dom (fst sl)" "live m gs variables (ck_names ck) (fst sl) D M env muts vals"
    and C: "code_in C a (map (fin bt ct et) (lay_stmts gs keep (LetBinding x e mutable # stmts) sl a))"
      "a + length (lay_stmts gs keep (LetBinding x e mutable # stmts) sl a) \<le> length C"
  let ?D = "insert x D" and ?M = "if mutable then insert x M else M"
  define sl' where "sl' = slot_let x sl"
  define k where "k = length (code_at (scope_at gs sl') e a)"
  define b where "b = a + k + 1"
  obtain s where s: "fst sl' x = Some s" using slot_let_bound [of x sl] by (auto simp: sl'_def)
  have lay: "lay_stmts gs keep (LetBinding x e mutable # stmts) sl a =
      map I (code_at (scope_at gs sl') e a @ [StoreLocal s]) @ lay_stmts gs keep stmts sl' b"
    using lay_plain_Cons [of keep stmts "LetBinding x e mutable" gs sl a] s by (simp add: sl'_def b_def k_def)
  have C': "code_in C a (code_at (scope_at gs sl') e a)"
    "code_in C (a + k) [StoreLocal s]"
    "code_in C b (map (fin bt ct et) (lay_stmts gs keep stmts sl' b))"
    using C(1) unfolding lay by (simp_all add: b_def k_def)
  have len: "a + length (lay_stmts gs keep (LetBinding x e mutable # stmts) sl a) = b + length (lay_stmts gs keep stmts sl' b)"
    unfolding lay by (simp add: b_def k_def)
  define l where "l = weight ck * length (lay_stmts gs keep stmts sl' b)"
  have "length (lay_stmts gs keep (LetBinding x e mutable # stmts) sl a) = k + 1 + length (lay_stmts gs keep stmts sl' b)"
    unfolding lay by (simp add: k_def)
  then have cost: "k + 1 + l \<le> weight ck * length (lay_stmts gs keep (LetBinding x e mutable # stmts) sl a)"
    using weight_le [of "k + 1" ck] by (simp add: l_def distrib_left)
  have sl: "slots_ok (ck_names ck) sl'" "fst sl \<subseteq>\<^sub>m fst sl'"
    using slots_ok_let [OF *(1) x] slot_let_extends by (simp_all add: sl'_def)
  have dom: "?D \<subseteq> dom (fst sl')" using *(2) map_le_implies_dom_le [OF sl(2)] s by auto
  have eval: "eval_statements_cf sb variables env muts VUnit (LetBinding x e mutable # stmts) =
      (case eval_expr_with_env variables env e of Inl err \<Rightarrow> Inl err
       | Inr v \<Rightarrow> eval_statements_cf sb variables (env(x \<mapsto> v)) (if mutable then insert x muts else muts) VUnit stmts)"
    by simp
  show "follows m d ck C base (live m gs variables (ck_names ck) (fst sl) D M) (kept keep (LetBinding x e mutable # stmts))
      (weight ck * length (lay_stmts gs keep (LetBinding x e mutable # stmts) sl a)) a (base @ vals)
      (a + length (lay_stmts gs keep (LetBinding x e mutable # stmts) sl a)) bt ct
      (eval_statements_cf sb variables env muts VUnit (LetBinding x e mutable # stmts))"
    unfolding len eval kept_simps(3) [OF terminators(4)]
  proof (rule follows_weaken [OF run_store [OF live_mono [OF *(3) sl(2)] sl(1) e base d C'(1,2) k_def disjI1 [OF refl] s] cost])
    fix v vals'
    assume "live m gs variables (ck_names ck) (fst sl') ?D M (env(x \<mapsto> v)) muts vals'"
    then have "live m gs variables (ck_names ck) (fst sl') ?D ?M (env(x \<mapsto> v)) (if mutable then insert x muts else muts) vals'"
      by (auto simp: live_def)
    then have "follows m d ck C base (live m gs variables (ck_names ck) (fst sl') ?D ?M) (kept keep stmts) l b (base @ vals')
        (b + length (lay_stmts gs keep stmts sl' b)) bt ct
        (eval_statements_cf sb variables (env(x \<mapsto> v)) (if mutable then insert x muts else muts) VUnit stmts)"
      unfolding l_def using C(2) [unfolded len] by (intro trackedD [OF rest sl(1) dom _ C'(3)])
    then show "follows m d ck C base (live m gs variables (ck_names ck) (fst sl) D M) (kept keep stmts) l (a + k + 1) (base @ vals')
        (b + length (lay_stmts gs keep stmts sl' b)) bt ct
        (eval_statements_cf sb variables (env(x \<mapsto> v)) (if mutable then insert x muts else muts) VUnit stmts)"
      unfolding b_def by (rule follows_mono) (erule live_antimono [OF _ sl(2)], use *(2) in auto)
  qed
qed

lemma tracked_assign:
  assumes rest: "tracked m d ck C base gs variables sb keep D M stmts"
    and e: "usable ck D e" and base: "length base = vm_base_bp m" and d: "d + ck_depth ck \<le> vm_max_call_depth m"
    and x: "x \<in> D" "x \<in> M"
  shows "tracked m d ck C base gs variables sb keep D M (Assign x e # stmts)"
proof (rule trackedI)
  fix sl a env muts vals bt ct et
  assume *: "slots_ok (ck_names ck) sl" "D \<subseteq> dom (fst sl)" "live m gs variables (ck_names ck) (fst sl) D M env muts vals"
    and C: "code_in C a (map (fin bt ct et) (lay_stmts gs keep (Assign x e # stmts) sl a))"
      "a + length (lay_stmts gs keep (Assign x e # stmts) sl a) \<le> length C"
  define k where "k = length (code_at (scope_at gs sl) e a)"
  define b where "b = a + k + 1"
  obtain s where s: "fst sl x = Some s" using x(1) *(2) by auto
  have lay: "lay_stmts gs keep (Assign x e # stmts) sl a =
      map I (code_at (scope_at gs sl) e a @ [StoreAssignLocal s x True]) @ lay_stmts gs keep stmts sl b"
    using lay_plain_Cons [of keep stmts "Assign x e" gs sl a] s by (simp add: b_def k_def)
  have C': "code_in C a (code_at (scope_at gs sl) e a)"
    "code_in C (a + k) [StoreAssignLocal s x True]"
    "code_in C b (map (fin bt ct et) (lay_stmts gs keep stmts sl b))"
    using C(1) unfolding lay by (simp_all add: b_def k_def)
  have len: "a + length (lay_stmts gs keep (Assign x e # stmts) sl a) = b + length (lay_stmts gs keep stmts sl b)"
    unfolding lay by (simp add: b_def k_def)
  define l where "l = weight ck * length (lay_stmts gs keep stmts sl b)"
  have "length (lay_stmts gs keep (Assign x e # stmts) sl a) = k + 1 + length (lay_stmts gs keep stmts sl b)"
    unfolding lay by (simp add: k_def)
  then have cost: "k + 1 + l \<le> weight ck * length (lay_stmts gs keep (Assign x e # stmts) sl a)"
    using weight_le [of "k + 1" ck] by (simp add: l_def distrib_left)
  have eval: "eval_statements_cf sb variables env muts VUnit (Assign x e # stmts) =
      (case eval_expr_with_env variables env e of Inl err \<Rightarrow> Inl err
       | Inr v \<Rightarrow> eval_statements_cf sb variables (env(x \<mapsto> v)) muts VUnit stmts)"
    using x(2) *(3) by (auto simp: live_def)
  show "follows m d ck C base (live m gs variables (ck_names ck) (fst sl) D M) (kept keep (Assign x e # stmts))
      (weight ck * length (lay_stmts gs keep (Assign x e # stmts) sl a)) a (base @ vals)
      (a + length (lay_stmts gs keep (Assign x e # stmts) sl a)) bt ct
      (eval_statements_cf sb variables env muts VUnit (Assign x e # stmts))"
    unfolding len eval kept_simps(3) [OF terminators(5)]
  proof (rule follows_weaken [OF run_store [OF *(3,1) e base d C'(1,2) k_def disjI2 [OF refl] s] cost])
    fix v vals'
    assume "live m gs variables (ck_names ck) (fst sl) (insert x D) M (env(x \<mapsto> v)) muts vals'"
    then have "live m gs variables (ck_names ck) (fst sl) D M (env(x \<mapsto> v)) muts vals'"
      using x(1) by (simp add: insert_absorb)
    then show "follows m d ck C base (live m gs variables (ck_names ck) (fst sl) D M) (kept keep stmts) l (a + k + 1) (base @ vals')
        (b + length (lay_stmts gs keep stmts sl b)) bt ct (eval_statements_cf sb variables (env(x \<mapsto> v)) muts VUnit stmts)"
      using trackedD [OF rest *(1,2) _ C'(3)] C(2) [unfolded len] by (simp add: b_def l_def)
  qed
qed

lemma lay_prefix:
  "\<exists>ys. lay_stmts gs keep (stmt # stmts) sl a = lay_stmt gs (keep \<and> stmts = []) stmt sl a @ ys"
  by (auto simp: Let_def)

lemma tracked_return:
  assumes e: "usable ck D e" and base: "length base = vm_base_bp m" and d: "d + ck_depth ck \<le> vm_max_call_depth m"
  shows "tracked m d ck C base gs variables sb keep D M (SReturn e # stmts)"
proof (rule trackedI)
  fix sl a env muts vals bt ct et
  assume *: "slots_ok (ck_names ck) sl" "D \<subseteq> dom (fst sl)" "live m gs variables (ck_names ck) (fst sl) D M env muts vals"
    and C: "code_in C a (map (fin bt ct et) (lay_stmts gs keep (SReturn e # stmts) sl a))"
  define k where "k = length (code_at (scope_at gs sl) e a)"
  let ?n = "length (lay_stmts gs keep (SReturn e # stmts) sl a)" and ?P = "live m gs variables (ck_names ck) (fst sl) D M"
  obtain ys where lay: "lay_stmts gs keep (SReturn e # stmts) sl a = map I (code_at (scope_at gs sl) e a @ [Return]) @ ys"
    using lay_prefix [of gs keep "SReturn e" stmts sl a] by auto
  then have C': "code_in C a (code_at (scope_at gs sl) e a)" "a + k < length C" "C ! (a + k) = Return"
    using C by (simp_all add: k_def)
  have cost: "k + 1 \<le> weight ck * ?n"
    using weight_le [of ?n ck] unfolding lay by (simp add: k_def)
  note run = run_expr [OF *(3,1) e base d C'(1) k_def]
  have "follows m d ck C base ?P (kept keep (SReturn e # stmts)) (k + 1) a (base @ vals) (a + ?n) bt ct
      (eval_statements_cf sb variables env muts VUnit (SReturn e # stmts))"
  proof (cases "eval_expr_with_env variables env e")
    case (Inl err)
    then obtain err' ext where "same_error (ck_strict ck) err err'" "ends m d k C a (base @ vals) (Inl err') (base @ ext)"
      using run by auto
    then show ?thesis using Inl ends_mono [of m d k C a "base @ vals" "Inl err'" _ "k + 1"] by auto
  next
    case (Inr v)
    then have v: "moves m d k C a (base @ vals) (a + k) (base @ vals @ [v])" using run by simp
    have "ends m d 1 C (a + k) (base @ vals @ [v]) (Inr v) (base @ vals)"
      using C'(2,3) by (intro ends_step) (simp_all add: butlast_append)
    then have "ends m d (k + 1) C a (base @ vals) (Inr v) (base @ vals)" by (rule moves_ends [OF v])
    then show ?thesis using Inr by auto
  qed
  then show "follows m d ck C base ?P (kept keep (SReturn e # stmts)) (weight ck * ?n) a (base @ vals) (a + ?n) bt ct
      (eval_statements_cf sb variables env muts VUnit (SReturn e # stmts))"
    by (rule follows_weaken [OF _ cost])
qed

lemma tracked_expr:
  assumes e: "usable ck D e" and base: "length base = vm_base_bp m" and d: "d + ck_depth ck \<le> vm_max_call_depth m"
  shows "tracked m d ck C base gs variables sb True D M [ExprStmt e]"
proof (rule trackedI)
  fix sl a env muts vals bt ct et
  assume *: "slots_ok (ck_names ck) sl" "D \<subseteq> dom (fst sl)" "live m gs variables (ck_names ck) (fst sl) D M env muts vals"
    and C: "code_in C a (map (fin bt ct et) (lay_stmts gs True [ExprStmt e] sl a))"
  define k where "k = length (code_at (scope_at gs sl) e a)"
  have len: "length (lay_stmts gs True [ExprStmt e] sl a) = k" by (simp add: k_def)
  have run: "case eval_expr_with_env variables env e of
      Inl err \<Rightarrow> (\<exists>err' ext. same_error (ck_strict ck) err err' \<and> ends m d k C a (base @ vals) (Inl err') (base @ ext))
    | Inr v \<Rightarrow> moves m d k C a (base @ vals) (a + k) (base @ vals @ [v])"
    by (rule run_expr [OF *(3,1) e base d _ k_def]) (use C in simp)
  have unit: "(case v of VUnit \<Rightarrow> VUnit | _ \<Rightarrow> v) = v" for v :: "runtime_value" by (cases v) auto
  have "follows m d ck C base (live m gs variables (ck_names ck) (fst sl) D M) (kept True [ExprStmt e]) k a (base @ vals)
      (a + k) bt ct (eval_statements_cf sb variables env muts VUnit [ExprStmt e])"
    using run *(3) by (cases "eval_expr_with_env variables env e") (auto simp: unit)
  then show "follows m d ck C base (live m gs variables (ck_names ck) (fst sl) D M) (kept True [ExprStmt e])
      (weight ck * length (lay_stmts gs True [ExprStmt e] sl a)) a (base @ vals)
      (a + length (lay_stmts gs True [ExprStmt e] sl a)) bt ct
      (eval_statements_cf sb variables env muts VUnit [ExprStmt e])"
    unfolding len by (rule follows_weaken [OF _ weight_le])
qed

lemma run_jump:
  assumes "code_in C a (map (fin bt ct et) (x # ys))" "fin bt ct et x = Jump t"
  shows "moves m d (weight ck * length (x # ys)) C a st t st"
proof (rule moves_mono)
  show "moves m d 1 C a st t st" using assms by (intro moves_step) auto
  show "1 \<le> weight ck * length (x # ys)" using weight_le [of "length (x # ys)" ck] by simp
qed

lemma tracked_jumps:
  "tracked m d ck C base gs variables sb keep D M (Break # stmts)"
  "tracked m d ck C base gs variables sb keep D M (Continue # stmts)"
proof -
  show "tracked m d ck C base gs variables sb keep D M (Break # stmts)"
  proof (rule trackedI)
    fix sl a env muts vals bt ct et
    assume *: "live m gs variables (ck_names ck) (fst sl) D M env muts vals"
      and C: "code_in C a (map (fin bt ct et) (lay_stmts gs keep (Break # stmts) sl a))"
    obtain ys where ys: "lay_stmts gs keep (Break # stmts) sl a = JBreak # ys"
      using lay_prefix [of gs keep Break stmts sl a] by (auto simp del: lay_stmts.simps)
    have "moves m d (weight ck * length (JBreak # ys)) C a (base @ vals) bt (base @ vals)"
      using C unfolding ys by (rule run_jump) simp
    with * show "follows m d ck C base (live m gs variables (ck_names ck) (fst sl) D M) (kept keep (Break # stmts))
        (weight ck * length (lay_stmts gs keep (Break # stmts) sl a)) a (base @ vals)
        (a + length (lay_stmts gs keep (Break # stmts) sl a)) bt ct
        (eval_statements_cf sb variables env muts VUnit (Break # stmts))" unfolding ys by auto
  qed
  show "tracked m d ck C base gs variables sb keep D M (Continue # stmts)"
  proof (rule trackedI)
    fix sl a env muts vals bt ct et
    assume *: "live m gs variables (ck_names ck) (fst sl) D M env muts vals"
      and C: "code_in C a (map (fin bt ct et) (lay_stmts gs keep (Continue # stmts) sl a))"
    obtain ys where ys: "lay_stmts gs keep (Continue # stmts) sl a = JContinue # ys"
      using lay_prefix [of gs keep Continue stmts sl a] by (auto simp del: lay_stmts.simps)
    have "moves m d (weight ck * length (JContinue # ys)) C a (base @ vals) ct (base @ vals)"
      using C unfolding ys by (rule run_jump) simp
    with * show "follows m d ck C base (live m gs variables (ck_names ck) (fst sl) D M) (kept keep (Continue # stmts))
        (weight ck * length (lay_stmts gs keep (Continue # stmts) sl a)) a (base @ vals)
        (a + length (lay_stmts gs keep (Continue # stmts) sl a)) bt ct
        (eval_statements_cf sb variables env muts VUnit (Continue # stmts))" unfolding ys by auto
  qed
qed

lemma tracked_Nil: "tracked m d ck C base gs variables sb keep D M []"
proof (rule trackedI)
  fix sl a env muts vals bt ct et
  assume *: "live m gs variables (ck_names ck) (fst sl) D M env muts vals"
    and C: "code_in C a (map (fin bt ct et) (lay_stmts gs keep [] sl a))"
  have "moves m d (weight ck) C a (base @ vals) (a + 1) (base @ vals @ [VUnit])" if keep
    using C that by (intro moves_mono [OF moves_step weight_pos]) auto
  then show "follows m d ck C base (live m gs variables (ck_names ck) (fst sl) D M) (kept keep [])
      (weight ck * length (lay_stmts gs keep [] sl a)) a (base @ vals)
      (a + length (lay_stmts gs keep [] sl a)) bt ct (eval_statements_cf sb variables env muts VUnit [])"
    using * moves_refl by auto
qed

section \<open>Loops\<close>

lemma fin_settle_loop: "fin bt ct et (settle JContinue s (settle JBreak t x)) = fin t s et x"
  by (cases x) (simp_all add: settle_def)

lemma fin_settle_end: "fin bt ct et (settle JEnd t x) = fin bt ct t x"
  by (cases x) (simp_all add: settle_def)

text \<open>
  The loop: the head at \<open>a\<close>, the body behind the condition, and the jump back to the head; \<open>break\<close> leaves
  to \<open>after\<close> and \<open>continue\<close> returns to the head.
\<close>

lemma follows_while:
  fixes ck :: check
  defines "ck' \<equiv> ck\<lparr>ck_loops := ck_loops ck - 1\<rparr>"
  assumes loops: "0 < ck_loops ck" and body: "tracked m d ck' C base gs variables sb False D M body"
    and e: "usable ck D c" and base: "length base = vm_base_bp m" and d: "d + ck_depth ck \<le> vm_max_call_depth m"
    and sl: "slots_ok (ck_names ck) sl" "D \<subseteq> dom (fst sl)"
    and k: "k = length (code_at (scope_at gs sl) c a)" and b: "b = a + k + 1" and xs: "xs = lay_stmts gs False body sl b"
    and C: "code_in C a (code_at (scope_at gs sl) c a)" "code_in C (a + k) [JumpIfNotCond (b + length xs + 1)]"
      "code_in C b (map (fin (b + length xs + 1) a et) xs)" "code_in C (b + length xs) [Jump a]"
    and live: "live m gs variables (ck_names ck) (fst sl) D M env muts vals"
  shows "follows m d ck C base (live m gs variables (ck_names ck) (fst sl) D M) False
    ((iter_limit sb - i) * (k + 1 + (weight ck' * length xs + 1))) a (base @ vals)
    (b + length xs + 1) bt ct (eval_while sb variables i env muts c body)"
  using live
proof (induction "iter_limit sb - i" arbitrary: i env muts vals rule: less_induct)
  case less
  let ?P = "live m gs variables (ck_names ck) (fst sl) D M" and ?after = "b + length xs + 1"
  let ?rest = "case eval_statements_cf sb variables env muts VUnit body of
      Inl err \<Rightarrow> Inl err
    | Inr (CFBreak, env, muts) \<Rightarrow> Inr (ContinueNormal VUnit, env, muts)
    | Inr (CFReturn v, env, muts) \<Rightarrow> Inr (CFReturn v, env, muts)
    | Inr (_, env, muts) \<Rightarrow> eval_while sb variables (i + 1) env muts c body"
  define w where "w = weight ck' * length xs"
  show ?case
  proof (cases "i \<ge> iter_limit sb")
    case True
    then show ?thesis using loops by (auto simp: eval_while.simps)
  next
    case False
    define l where "l = (iter_limit sb - (i + 1)) * (k + 1 + (w + 1))"
    have cost: "(iter_limit sb - i) * (k + 1 + (w + 1)) = k + 1 + (w + 1 + l)"
      using False by (simp add: l_def Suc_diff_Suc [symmetric] del: Suc_diff_Suc)
    have again: "follows m d ck C base ?P False l a (base @ vals') ?after bt ct (eval_while sb variables (i + 1) env' muts' c body)"
      if "?P env' muts' vals'" for env' muts' vals'
      using less.hyps [OF _ that, of "i + 1"] False by (simp add: l_def w_def)
    have to_head: "moves m d 1 C (b + length xs) st a st" for st
      using C(4) by (intro moves_step) auto
    have "follows m d ck' C base ?P False w b (base @ vals) (b + length xs) ?after a
        (eval_statements_cf sb variables env muts VUnit body)"
      using trackedD [OF body, of sl env muts vals b ?after a et] sl less.prems C(3,4) by (simp add: xs w_def ck'_def)
    then have once: "follows m d ck C base ?P False w b (base @ vals) (b + length xs) ?after a
        (eval_statements_cf sb variables env muts VUnit body)"
      unfolding ck'_def using loops by (rule follows_loops)
    have "follows m d ck C base ?P False (w + 1 + l) b (base @ vals) ?after bt ct ?rest"
    proof (cases "eval_statements_cf sb variables env muts VUnit body" rule: flow_cases)
      case (Normal v env' muts')
      then obtain vals' where v: "?P env' muts' vals'" "moves m d w C b (base @ vals) (b + length xs) (base @ vals')"
        using once by auto
      then show ?thesis using follows_after [OF moves_trans [OF v(2) to_head] again [OF v(1)]] Normal by simp
    next
      case (Continue env' muts')
      then obtain vals' where v: "?P env' muts' vals'" "moves m d w C b (base @ vals) a (base @ vals')"
        using once by auto
      have "follows m d ck C base ?P False (w + l) b (base @ vals) ?after bt ct ?rest"
        using follows_after [OF v(2) again [OF v(1)]] Continue by simp
      then show ?thesis by (rule follows_weaken) simp
    qed (use follows_weaken [OF once, of "w + 1 + l"] in auto)
    moreover have "follows m d ck C base ?P False (w + 1 + l) ?after (base @ vals) ?after bt ct
        (Inr (ContinueNormal VUnit, env, muts))"
      using less.prems moves_refl by auto
    ultimately have "follows m d ck C base ?P False (k + 1 + (w + 1 + l)) a (base @ vals) ?after bt ct
        (case eval_cond variables env c of Inl err \<Rightarrow> Inl err | Inr True \<Rightarrow> ?rest
         | Inr False \<Rightarrow> Inr (ContinueNormal VUnit, env, muts))"
      by (intro follows_cond [OF less.prems sl(1) e base d C(1,2) k]) (simp_all add: b)
    moreover have "eval_while sb variables i env muts c body =
        (case eval_cond variables env c of Inl err \<Rightarrow> Inl err | Inr True \<Rightarrow> ?rest
         | Inr False \<Rightarrow> Inr (ContinueNormal VUnit, env, muts))"
      using False by (simp add: eval_while.simps [of sb variables i] split: sum.split bool.split)
    ultimately show ?thesis unfolding w_def [symmetric] cost by simp
  qed
qed

lemma iter_limit_le: "iter_limit sb \<le> WHILE_SAFETY_LIMIT"
  by (simp add: iter_limit_def WHILE_SAFETY_LIMIT_def SANDBOX_ITER_LIMIT_def)

lemma while_cost:
  assumes "0 < ck_loops ck"
  shows "(iter_limit sb - 0) * (k + 1 + (weight (ck\<lparr>ck_loops := ck_loops ck - 1\<rparr>) * n + 1)) \<le> weight ck * (k + 1 + (n + 1))"
proof -
  let ?w = "weight (ck\<lparr>ck_loops := ck_loops ck - 1\<rparr>)"
  have "k + 1 + (?w * n + 1) \<le> ?w * (k + 1 + (n + 1))"
    using weight_le [of "k + 2" "ck\<lparr>ck_loops := ck_loops ck - 1\<rparr>"] by (simp add: distrib_left)
  then have "(iter_limit sb - 0) * (k + 1 + (?w * n + 1)) \<le> WHILE_SAFETY_LIMIT * (?w * (k + 1 + (n + 1)))"
    using iter_limit_le by (intro mult_le_mono) auto
  also have "\<dots> = weight ck * (k + 1 + (n + 1))"
    using assms by (cases "ck_loops ck") (simp_all add: weight_def algebra_simps)
  finally show ?thesis .
qed

lemma tracked_while:
  assumes loops: "0 < ck_loops ck"
    and body: "tracked m d (ck\<lparr>ck_loops := ck_loops ck - 1\<rparr>) C base gs variables sb False D M body"
    and e: "usable ck D c" and base: "length base = vm_base_bp m" and d: "d + ck_depth ck \<le> vm_max_call_depth m"
  shows "tracked_one m d ck C base gs variables False D M (While c body)
    (\<lambda>env muts. eval_while sb variables 0 env muts c body)"
proof (rule tracked_oneI)
  fix sl a env muts vals bt ct et
  assume *: "slots_ok (ck_names ck) sl" "D \<subseteq> dom (fst sl)" "live m gs variables (ck_names ck) (fst sl) D M env muts vals"
    and C: "code_in C a (map (fin bt ct et) (lay_stmt gs False (While c body) sl a))"
  define k where "k = length (code_at (scope_at gs sl) c a)"
  define b where "b = a + k + 1"
  define xs where "xs = lay_stmts gs False body sl b"
  have lay: "lay_stmt gs False (While c body) sl a =
      map I (code_at (scope_at gs sl) c a @ [JumpIfNotCond (b + length xs + 1)]) @
      map (\<lambda>x. settle JContinue a (settle JBreak (b + length xs + 1) x)) xs @ map I [Jump a]"
    by (simp add: lay_stmt.simps Let_def k_def b_def xs_def comp_def)
  have len: "length (lay_stmt gs False (While c body) sl a) = k + 1 + (length xs + 1)" unfolding lay by (simp add: k_def)
  have "code_in C a (code_at (scope_at gs sl) c a)" "code_in C (a + k) [JumpIfNotCond (b + length xs + 1)]"
    "code_in C b (map (fin (b + length xs + 1) a et) xs)" "code_in C (b + length xs) [Jump a]"
    using C unfolding lay by (simp_all add: b_def k_def fin_settle_loop comp_def)
  from follows_weaken [OF follows_while [OF loops body e base d *(1,2) k_def b_def xs_def this *(3), of 0] while_cost [OF loops]]
  show "follows m d ck C base (live m gs variables (ck_names ck) (fst sl) D M) False
      (weight ck * length (lay_stmt gs False (While c body) sl a)) a (base @ vals)
      (a + length (lay_stmt gs False (While c body) sl a)) bt ct (eval_while sb variables 0 env muts c body)"
    unfolding len by (simp add: b_def add.assoc)
qed

section \<open>Conditionals\<close>

text \<open>A block that ends by leaving never runs to its end.\<close>

lemma terminator_leaves:
  assumes "stmts \<noteq> []" "stmt_is_terminator (last stmts)"
  shows "eval_statements_cf sb variables env muts lv stmts \<noteq> Inr (ContinueNormal v, env', muts')"
  using assms
proof (induction stmts arbitrary: env muts lv)
  case (Cons stmt stmts)
  show ?case
  proof (cases "stmts = []")
    case True
    then have "stmt_is_terminator stmt" using Cons.prems by simp
    then show ?thesis by (cases stmt) (auto split: sum.split)
  next
    case False
    then have "eval_statements_cf sb variables env muts lv stmts \<noteq> Inr (ContinueNormal v, env', muts')" for env muts lv
      using Cons by simp
    then show ?thesis by (cases stmt) (auto split: sum.splits prod.splits control_flow.splits bool.splits)
  qed
qed simp

lemma follows_kept:
  assumes "follows m d ck C base P (kept keep body) k a st b bt ct (eval_statements_cf sb variables env muts lv body)"
  shows "follows m d ck C base P keep k a st b bt ct (eval_statements_cf sb variables env muts lv body)"
proof (cases "kept keep body = keep")
  case False
  then have "body \<noteq> []" "stmt_is_terminator (last body)" "\<not> kept keep body" by (auto simp: kept_def)
  then show ?thesis
    using assms terminator_leaves [of body sb variables env muts lv]
    by (cases "eval_statements_cf sb variables env muts lv body" rule: flow_cases) auto
qed (use assms in simp)

text \<open>An arm: the condition, the block, and the jump to the end of the whole; what comes next is at \<open>z\<close>.\<close>

lemma follows_arm:
  assumes body: "tracked m d ck C base gs variables sb keep D M body"
    and e: "usable ck D c" and base: "length base = vm_base_bp m" and d: "d + ck_depth ck \<le> vm_max_call_depth m"
    and sl: "slots_ok (ck_names ck) sl" "D \<subseteq> dom (fst sl)" and live: "live m gs variables (ck_names ck) (fst sl) D M env muts vals"
    and C: "code_in C a (map (fin bt ct et) (arm_at gs keep c body sl a))"
    and z: "z = a + length (arm_at gs keep c body sl a)"
    and rest: "follows m d ck C base (live m gs variables (ck_names ck) (fst sl) D M) keep (weight ck * n) z (base @ vals) et bt ct r"
  shows "follows m d ck C base (live m gs variables (ck_names ck) (fst sl) D M) keep
    (weight ck * (length (arm_at gs keep c body sl a) + n)) a (base @ vals) et bt ct
    (case eval_cond variables env c of Inl err \<Rightarrow> Inl err
     | Inr True \<Rightarrow> eval_statements_cf sb variables env muts VUnit body | Inr False \<Rightarrow> r)"
proof -
  define k where "k = length (code_at (scope_at gs sl) c a)"
  define b where "b = a + k + 1"
  define xs where "xs = lay_stmts gs keep body sl b"
  define l where "l = weight ck * (length xs + 1 + n)"
  have z': "z = b + length xs + 1" unfolding z by (simp add: arm_at_def Let_def k_def b_def xs_def)
  have arm: "arm_at gs keep c body sl a = map I (code_at (scope_at gs sl) c a @ [JumpIfNotCond z]) @ xs @ [JEnd]"
    by (simp add: arm_at_def Let_def b_def k_def xs_def z')
  have C': "code_in C a (code_at (scope_at gs sl) c a)" "code_in C (a + k) [JumpIfNotCond z]"
    "code_in C b (map (fin bt ct et) xs)" "code_in C (b + length xs) [Jump et]"
    using C unfolding arm by (simp_all add: b_def k_def)
  have jump: "moves m d 1 C (b + length xs) st et st" for st
    using C'(4) by (intro moves_step) auto
  have "follows m d ck C base (live m gs variables (ck_names ck) (fst sl) D M) (kept keep body) (weight ck * length xs)
      b (base @ vals) (b + length xs) bt ct (eval_statements_cf sb variables env muts VUnit body)"
    using trackedD [OF body sl live, of b bt ct et] C'(3,4) by (simp add: xs_def)
  then have "follows m d ck C base (live m gs variables (ck_names ck) (fst sl) D M) keep (weight ck * length xs + 1)
      b (base @ vals) et bt ct (eval_statements_cf sb variables env muts VUnit body)"
    by (intro follows_move [OF follows_kept jump])
  then have th: "follows m d ck C base (live m gs variables (ck_names ck) (fst sl) D M) keep l
      (a + k + 1) (base @ vals) et bt ct (eval_statements_cf sb variables env muts VUnit body)"
    unfolding b_def by (rule follows_weaken) (use weight_pos [of ck] in \<open>simp add: l_def distrib_left\<close>)
  have el: "follows m d ck C base (live m gs variables (ck_names ck) (fst sl) D M) keep l z (base @ vals) et bt ct r"
    by (rule follows_weaken [OF rest]) (simp add: l_def distrib_left)
  have cost: "k + 1 + l \<le> weight ck * (length (arm_at gs keep c body sl a) + n)"
    using weight_le [of "k + 1" ck] unfolding arm by (simp add: l_def k_def distrib_left)
  show ?thesis
    by (rule follows_weaken [OF follows_cond [OF live sl(1) e base d C'(1,2) k_def th el] cost])
qed

lemma tracked_chain_Nil:
  assumes "\<And>body. el = Some body \<Longrightarrow> tracked m d ck C base gs variables sb keep D M body"
  shows "tracked_chain m d ck C base gs variables sb keep D M [] el"
proof (rule tracked_chainI)
  fix sl a env muts vals bt ct et
  assume *: "slots_ok (ck_names ck) sl" "D \<subseteq> dom (fst sl)" "live m gs variables (ck_names ck) (fst sl) D M env muts vals"
    and C: "et = a + length (lay_chain gs keep [] el sl a)" "code_in C a (map (fin bt ct et) (lay_chain gs keep [] el sl a))"
      "et \<le> length C"
  show "follows m d ck C base (live m gs variables (ck_names ck) (fst sl) D M) keep
      (weight ck * length (lay_chain gs keep [] el sl a)) a (base @ vals) et bt ct
      (eval_else_ifs sb variables env muts VUnit [] el)"
  proof (cases el)
    case None
    note nil = tracked_Nil [of m d ck C base gs variables sb keep D M]
    show ?thesis using trackedD [OF nil *, of a bt ct et] C None by simp
  next
    case (Some body)
    then show ?thesis
      using follows_kept [OF trackedD [OF assms [OF Some] *, of a bt ct et]] C by simp
  qed
qed

lemma tracked_chain_Cons:
  assumes body: "tracked m d ck C base gs variables sb keep D M body"
    and rest: "tracked_chain m d ck C base gs variables sb keep D M eis el"
    and ok: "\<And>sl. slots_ok (ck_names ck) sl \<Longrightarrow> slots_ok (ck_names ck) (slots_stmts body sl)"
    and e: "usable ck D c" and base: "length base = vm_base_bp m" and d: "d + ck_depth ck \<le> vm_max_call_depth m"
  shows "tracked_chain m d ck C base gs variables sb keep D M ((c, body) # eis) el"
proof (rule tracked_chainI)
  fix sl a env muts vals bt ct et
  assume *: "slots_ok (ck_names ck) sl" "D \<subseteq> dom (fst sl)" "live m gs variables (ck_names ck) (fst sl) D M env muts vals"
    and C: "et = a + length (lay_chain gs keep ((c, body) # eis) el sl a)"
      "code_in C a (map (fin bt ct et) (lay_chain gs keep ((c, body) # eis) el sl a))" "et \<le> length C"
  let ?P = "live m gs variables (ck_names ck) (fst sl) D M"
  define sl' where "sl' = slots_stmts body sl"
  define z where "z = a + length (arm_at gs keep c body sl a)"
  define n where "n = length (lay_chain gs keep eis el sl' z)"
  have lay: "lay_chain gs keep ((c, body) # eis) el sl a = arm_at gs keep c body sl a @ lay_chain gs keep eis el sl' z"
    by (simp add: lay_chain_Cons Let_def sl'_def z_def)
  have et: "et = z + length (lay_chain gs keep eis el sl' z)" unfolding C(1) lay by (simp add: z_def)
  have C': "code_in C a (map (fin bt ct et) (arm_at gs keep c body sl a))"
    "code_in C z (map (fin bt ct et) (lay_chain gs keep eis el sl' z))"
    using C(2) unfolding lay by (simp_all add: z_def)
  have sl': "slots_ok (ck_names ck) sl'" "D \<subseteq> dom (fst sl')" "fst sl \<subseteq>\<^sub>m fst sl'"
    using ok [OF *(1)] slots_dom(2) [OF *(2)] slots_extend(2) by (simp_all add: sl'_def)
  have "follows m d ck C base (live m gs variables (ck_names ck) (fst sl') D M) keep (weight ck * n) z (base @ vals)
      et bt ct (eval_else_ifs sb variables env muts VUnit eis el)"
    unfolding n_def by (rule tracked_chainD [OF rest sl'(1,2) live_mono [OF *(3) sl'(3)] et C'(2) C(3)])
  then have "follows m d ck C base ?P keep (weight ck * n) z (base @ vals) et bt ct
      (eval_else_ifs sb variables env muts VUnit eis el)"
    by (rule follows_mono) (erule live_antimono [OF _ sl'(3)], use *(2) in auto)
  from follows_arm [OF body e base d * C'(1) z_def this]
  show "follows m d ck C base ?P keep (weight ck * length (lay_chain gs keep ((c, body) # eis) el sl a)) a (base @ vals)
      et bt ct (eval_else_ifs sb variables env muts VUnit ((c, body) # eis) el)"
    unfolding lay by (simp add: n_def)
qed

lemma tracked_if_else:
  assumes "tracked_chain m d ck C base gs variables sb keep D M ((c, t) # eis) el"
  shows "tracked_one m d ck C base gs variables keep D M (IfElseBlock c t eis el)
    (\<lambda>env muts. case eval_cond variables env c of Inl err \<Rightarrow> Inl err
       | Inr True \<Rightarrow> eval_statements_cf sb variables env muts VUnit t
       | Inr False \<Rightarrow> eval_else_ifs sb variables env muts VUnit eis el)"
proof (rule tracked_oneI)
  fix sl a env muts vals bt ct et
  assume *: "slots_ok (ck_names ck) sl" "D \<subseteq> dom (fst sl)" "live m gs variables (ck_names ck) (fst sl) D M env muts vals"
    and C: "code_in C a (map (fin bt ct et) (lay_stmt gs keep (IfElseBlock c t eis el) sl a))"
      "a + length (lay_stmt gs keep (IfElseBlock c t eis el) sl a) \<le> length C"
  define zs where "zs = lay_chain gs keep ((c, t) # eis) el sl a"
  have lay: "lay_stmt gs keep (IfElseBlock c t eis el) sl a = map (settle JEnd (a + length zs)) zs"
    by (simp add: lay_if_else lay_chain_Cons Let_def zs_def)
  have "code_in C a (map (fin bt ct (a + length zs)) zs)"
    using C(1) unfolding lay by (simp add: comp_def fin_settle_end)
  then show "follows m d ck C base (live m gs variables (ck_names ck) (fst sl) D M) keep
      (weight ck * length (lay_stmt gs keep (IfElseBlock c t eis el) sl a)) a (base @ vals)
      (a + length (lay_stmt gs keep (IfElseBlock c t eis el) sl a)) bt ct
      (case eval_cond variables env c of Inl err \<Rightarrow> Inl err
       | Inr True \<Rightarrow> eval_statements_cf sb variables env muts VUnit t
       | Inr False \<Rightarrow> eval_else_ifs sb variables env muts VUnit eis el)"
    using tracked_chainD [OF assms *, of "a + length zs" a bt ct] C(2) unfolding lay by (simp add: zs_def)
qed

text \<open>
  An \<open>if\<close> without \<open>else\<close>. When its value is kept there is a unit value for the path that is not taken: the
  block jumps over it, or has left already.
\<close>

lemma tracked_if_then:
  assumes body: "tracked m d ck C base gs variables sb keep D M body"
    and e: "usable ck D c" and base: "length base = vm_base_bp m" and d: "d + ck_depth ck \<le> vm_max_call_depth m"
  shows "tracked_one m d ck C base gs variables keep D M (IfThen c body)
    (\<lambda>env muts. case eval_cond variables env c of Inl err \<Rightarrow> Inl err
       | Inr True \<Rightarrow> eval_statements_cf sb variables env muts VUnit body
       | Inr False \<Rightarrow> Inr (ContinueNormal VUnit, env, muts))"
proof (rule tracked_oneI)
  fix sl a env muts vals bt ct et
  assume *: "slots_ok (ck_names ck) sl" "D \<subseteq> dom (fst sl)" "live m gs variables (ck_names ck) (fst sl) D M env muts vals"
    and C: "code_in C a (map (fin bt ct et) (lay_stmt gs keep (IfThen c body) sl a))"
      "a + length (lay_stmt gs keep (IfThen c body) sl a) \<le> length C"
  let ?P = "live m gs variables (ck_names ck) (fst sl) D M" and ?eval = "eval_statements_cf sb variables env muts VUnit body"
    and ?unit = "Inr (ContinueNormal VUnit, env, muts)"
  define cc where "cc = code_at (scope_at gs sl) c a"
  define k where "k = length cc"
  define b where "b = a + k + 1"
  define xs where "xs = lay_stmts gs keep body sl b"
  define z where "z = b + length xs"
  define w where "w = weight ck * length xs"
  have lay: "lay_stmt gs keep (IfThen c body) sl a =
      (if \<not> keep then map I cc @ I (JumpIfNotCond z) # xs
       else if body \<noteq> [] \<and> stmt_is_terminator (last body) then map I cc @ I (JumpIfNotCond z) # xs @ [I PushUnit]
       else map I cc @ I (JumpIfNotCond (z + 1)) # xs @ [I (Jump (z + 2)), I PushUnit])"
    by (simp add: lay_stmt.simps Let_def cc_def k_def b_def xs_def z_def)
  have run: "follows m d ck C base ?P (kept keep body) w b (base @ vals) z bt ct ?eval"
    if "code_in C b (map (fin bt ct et) xs)" "z \<le> length C"
    using trackedD [OF body *, of b bt ct et] that by (simp add: xs_def z_def w_def)
  have push: "follows m d ck C base ?P True 1 i (base @ vals) (i + 1) bt ct ?unit" if "code_in C i [PushUnit]" for i
  proof -
    have "moves m d 1 C i (base @ vals) (i + 1) (base @ vals @ [VUnit])" using that by (intro moves_step) auto
    then show ?thesis using *(3) by auto
  qed
  have cost: "k + 1 + (w + j) \<le> weight ck * (k + 1 + length xs + j)" for j
    using weight_le [of "k + 1 + j" ck] by (simp add: w_def distrib_left)
  note cond = follows_cond [OF *(3,1) e base d, of C a k, folded cc_def, OF _ _ k_def]
  consider "\<not> keep" | "keep" "\<not> kept keep body" | "keep" "kept keep body" by (auto simp: kept_def)
  then show "follows m d ck C base ?P keep (weight ck * length (lay_stmt gs keep (IfThen c body) sl a)) a (base @ vals)
      (a + length (lay_stmt gs keep (IfThen c body) sl a)) bt ct
      (case eval_cond variables env c of Inl err \<Rightarrow> Inl err | Inr True \<Rightarrow> ?eval | Inr False \<Rightarrow> ?unit)"
  proof cases
    case 1
    then have len: "length (lay_stmt gs keep (IfThen c body) sl a) = k + 1 + length xs + 0" unfolding lay by (simp add: k_def)
    have C': "code_in C a cc" "code_in C (a + k) [JumpIfNotCond z]" "code_in C b (map (fin bt ct et) xs)"
      using C(1) 1 unfolding lay by (simp_all add: b_def k_def)
    have th: "follows m d ck C base ?P keep (w + 0) (a + k + 1) (base @ vals) z bt ct ?eval"
      using run [OF C'(3)] C(2) [unfolded len] 1 by (simp add: z_def b_def)
    have el: "follows m d ck C base ?P keep (w + 0) z (base @ vals) z bt ct ?unit"
      using 1 *(3) moves_refl by auto
    from follows_weaken [OF cond [OF C'(1,2) th el] cost] show ?thesis
      unfolding len by (simp add: z_def b_def add.assoc del: follows_simps)
  next
    case 2
    then have len: "length (lay_stmt gs keep (IfThen c body) sl a) = k + 1 + length xs + 1"
      unfolding lay by (auto simp: k_def kept_def)
    have C': "code_in C a cc" "code_in C (a + k) [JumpIfNotCond z]" "code_in C b (map (fin bt ct et) xs)"
      "code_in C z [PushUnit]"
      using C(1) 2 unfolding lay by (auto simp: b_def k_def z_def kept_def split: if_splits)
    have "follows m d ck C base ?P False w b (base @ vals) z bt ct ?eval"
      using run [OF C'(3)] C(2) [unfolded len] 2 by (simp add: z_def b_def)
    then have "follows m d ck C base ?P False (w + 1) b (base @ vals) z bt ct ?eval" by (rule follows_weaken) simp
    then have th: "follows m d ck C base ?P keep (w + 1) (a + k + 1) (base @ vals) (z + 1) bt ct ?eval"
      using 2 terminator_leaves [of body sb variables env muts VUnit]
      by (cases ?eval rule: flow_cases) (auto simp: kept_def b_def)
    have el: "follows m d ck C base ?P keep (w + 1) z (base @ vals) (z + 1) bt ct ?unit"
      using 2 follows_weaken [OF push [OF C'(4)], of "w + 1"] by (simp del: follows_simps)
    from follows_weaken [OF cond [OF C'(1,2) th el] cost] show ?thesis
      unfolding len by (simp add: z_def b_def add.assoc del: follows_simps)
  next
    case 3
    then have len: "length (lay_stmt gs keep (IfThen c body) sl a) = k + 1 + length xs + 2"
      unfolding lay by (auto simp: k_def kept_def)
    have C': "code_in C a cc" "code_in C (a + k) [JumpIfNotCond (z + 1)]" "code_in C b (map (fin bt ct et) xs)"
      "code_in C z [Jump (z + 2)]" "code_in C (z + 1) [PushUnit]"
      using C(1) 3 unfolding lay by (auto simp: b_def k_def z_def kept_def split: if_splits)
    have jump: "moves m d 1 C z st (z + 2) st" for st
      using C'(4) by (intro moves_step) auto
    have "follows m d ck C base ?P keep w b (base @ vals) z bt ct ?eval"
      using run [OF C'(3)] C(2) [unfolded len] 3 by (simp add: z_def b_def)
    from follows_weaken [OF follows_move [OF this jump], of "w + 2"]
    have th: "follows m d ck C base ?P keep (w + 2) (a + k + 1) (base @ vals) (z + 2) bt ct ?eval"
      by (simp add: b_def)
    have el: "follows m d ck C base ?P keep (w + 2) (z + 1) (base @ vals) (z + 2) bt ct ?unit"
      using 3 follows_weaken [OF push [OF C'(5)], of "w + 2"] by (simp add: eval_nat_numeral del: follows_simps)
    from follows_weaken [OF cond [OF C'(1,2) th el] cost] show ?thesis
      unfolding len by (simp add: z_def b_def add.assoc del: follows_simps)
  qed
qed

section \<open>Every safe body is tracked\<close>

text \<open>An \<open>if\<close> at the end of a body or before further statements.\<close>

lemma tracked_if:
  assumes one: "\<And>k. k = (keep \<and> stmts = []) \<Longrightarrow> tracked_one m d ck C base gs variables k D M stmt ev"
    and rest: "tracked m d ck C base gs variables sb keep D M stmts"
    and ok: "\<And>sl. slots_ok (ck_names ck) sl \<Longrightarrow> slots_ok (ck_names ck) (slots_stmt stmt sl)"
    and eval: "\<And>env muts. eval_statements_cf sb variables env muts VUnit (stmt # stmts) =
      then_flow (ev env muts) (\<lambda>v env muts. eval_statements_cf sb variables env muts v stmts)"
    and go: "\<not> stmt_is_terminator stmt"
  shows "tracked m d ck C base gs variables sb keep D M (stmt # stmts)"
proof (cases "keep \<and> stmts = []")
  case True
  have "then_flow r (\<lambda>v env muts. Inr (ContinueNormal v, env, muts)) = r" for r :: flow
    by (cases r rule: flow_cases) (simp_all add: then_flow_def)
  then show ?thesis
    using one [of True] True go eval unfolding tracked_def tracked_one_def by (simp add: kept_def)
next
  case False
  then show ?thesis
    using one [of False] by (intro tracked_Cons [OF _ rest ok _ eval refl go] lay_plain_Cons) simp_all
qed

lemma all_tracked:
  assumes base: "length base = vm_base_bp m"
  shows "safe_stmts ck in_loop keep D M stmts \<Longrightarrow> d + ck_depth ck \<le> vm_max_call_depth m \<Longrightarrow>
      tracked m d ck C base gs variables sb keep D M stmts"
    and "safe_chain ck in_loop keep D M eis el \<Longrightarrow> d + ck_depth ck \<le> vm_max_call_depth m \<Longrightarrow>
      tracked_chain m d ck C base gs variables sb keep D M eis el"
proof (induction ck in_loop keep D M stmts and ck in_loop keep D M eis el rule: safe_stmts_safe_chain.induct)
  case (6 ck in_loop keep D M c body stmts)
  have one: "tracked_one m d ck C base gs variables False D M (While c body)
      (\<lambda>env muts. eval_while sb variables 0 env muts c body)"
    using 6 base by (intro tracked_while) auto
  show ?case
  proof (rule tracked_Cons [OF one, where f = "\<lambda>_. VUnit"])
    show "slots_ok (ck_names ck) sl \<Longrightarrow> slots_ok (ck_names ck) (slots_stmt (While c body) sl)" for sl
      using "6.prems" slots_ok_safe(1) [of "ck\<lparr>ck_loops := ck_loops ck - 1\<rparr>" True False D M body] by simp
    show "lay_stmts gs keep (While c body # stmts) sl a = lay_stmt gs False (While c body) sl a @
        lay_stmts gs keep stmts (slots_stmt (While c body) sl) (a + length (lay_stmt gs False (While c body) sl a))" for sl a
      by (rule lay_plain_Cons) simp
    show "eval_statements_cf sb variables env muts VUnit (While c body # stmts) =
        then_flow (eval_while sb variables 0 env muts c body)
          (\<lambda>v env muts. eval_statements_cf sb variables env muts ((\<lambda>_. VUnit) v) stmts)" for env muts
      by (auto simp: then_flow_def split: sum.split control_flow.split)
  qed (use 6 in auto)
next
  case (7 ck in_loop keep D M c body stmts)
  show ?case
  proof (rule tracked_if)
    show "tracked_one m d ck C base gs variables k D M (IfThen c body)
        (\<lambda>env muts. case eval_cond variables env c of Inl err \<Rightarrow> Inl err
           | Inr True \<Rightarrow> eval_statements_cf sb variables env muts VUnit body
           | Inr False \<Rightarrow> Inr (ContinueNormal VUnit, env, muts))" if "k = (keep \<and> stmts = [])" for k
      unfolding that using 7 base by (intro tracked_if_then) auto
    show "slots_ok (ck_names ck) sl \<Longrightarrow> slots_ok (ck_names ck) (slots_stmt (IfThen c body) sl)" for sl
      using "7.prems" slots_ok_safe(1) [of ck in_loop "keep \<and> stmts = []" D M body] by simp
    show "eval_statements_cf sb variables env muts VUnit (IfThen c body # stmts) =
        then_flow (case eval_cond variables env c of Inl err \<Rightarrow> Inl err
           | Inr True \<Rightarrow> eval_statements_cf sb variables env muts VUnit body
           | Inr False \<Rightarrow> Inr (ContinueNormal VUnit, env, muts))
          (\<lambda>v env muts. eval_statements_cf sb variables env muts v stmts)" for env muts
      by (simp add: then_flow_def)
  qed (use 7 in auto)
next
  case (8 ck in_loop keep D M c t eis el stmts)
  have chain: "tracked_chain m d ck C base gs variables sb (keep \<and> stmts = []) D M ((c, t) # eis) el"
    using 8 base slots_ok_safe(1) [of ck in_loop "keep \<and> stmts = []" D M t] by (intro tracked_chain_Cons) auto
  show ?case
  proof (rule tracked_if)
    show "tracked_one m d ck C base gs variables k D M (IfElseBlock c t eis el)
        (\<lambda>env muts. case eval_cond variables env c of Inl err \<Rightarrow> Inl err
           | Inr True \<Rightarrow> eval_statements_cf sb variables env muts VUnit t
           | Inr False \<Rightarrow> eval_else_ifs sb variables env muts VUnit eis el)" if "k = (keep \<and> stmts = [])" for k
      unfolding that by (rule tracked_if_else [OF chain])
    show "slots_ok (ck_names ck) sl \<Longrightarrow> slots_ok (ck_names ck) (slots_stmt (IfElseBlock c t eis el) sl)" for sl
      using "8.prems" slots_ok_safe(1) [of ck in_loop "keep \<and> stmts = []" D M t]
        slots_ok_safe(2) [of ck in_loop "keep \<and> stmts = []" D M eis el] by simp
    show "eval_statements_cf sb variables env muts VUnit (IfElseBlock c t eis el # stmts) =
        then_flow (case eval_cond variables env c of Inl err \<Rightarrow> Inl err
           | Inr True \<Rightarrow> eval_statements_cf sb variables env muts VUnit t
           | Inr False \<Rightarrow> eval_else_ifs sb variables env muts VUnit eis el)
          (\<lambda>v env muts. eval_statements_cf sb variables env muts v stmts)" for env muts
      by (simp add: then_flow_def)
  qed (use 8 in auto)
next
  case (13 ck in_loop keep D M c body eis el)
  then show ?case
    using base slots_ok_safe(1) [of ck in_loop keep D M body] by (intro tracked_chain_Cons) auto
qed (use base in \<open>auto intro: tracked_Nil tracked_let tracked_assign tracked_return tracked_expr tracked_jumps
       tracked_chain_Nil\<close>)

section \<open>Running a body\<close>

text \<open>More iterations change nothing unless the guard against endless loops has fired.\<close>

lemma run_loop_more:
  assumes "fst (run_loop m d n C a st) \<noteq> Inl (loop_guard_error C)"
  shows "run_loop m d (n + j) C a st = run_loop m d n C a st"
  using assms
proof (induction n arbitrary: a st)
  case 0
  then show ?case by (auto simp: run_loop.simps split: if_splits nat.splits)
next
  case (Suc n)
  show ?case
  proof (cases "a < length C")
    case False
    then show ?thesis by (simp add: run_loop.simps)
  next
    case True
    show ?thesis
    proof (cases "step m (C ! a) a st")
      case (Goto b st')
      then show ?thesis using Suc True by (simp add: run_loop.simps [of m d "Suc _"])
    next
      case (Stop r st')
      then show ?thesis using True by (simp add: run_loop.simps [of m d "Suc _"])
    next
      case (Guarded inner)
      obtain r st' where inner: "execute_code m d inner st = (r, st')" by fastforce
      then show ?thesis using Suc True Guarded by (cases r) (simp_all add: run_loop.simps [of m d "Suc _"])
    qed
  qed
qed

lemma run_bounded:
  assumes "\<And>n. run_loop m d (k + n) C a st = (r, st')"
  shows "run_loop m d N C a st = (r, st') \<or> N < k \<and> fst (run_loop m d N C a st) = Inl (loop_guard_error C)"
proof (cases "k \<le> N")
  case True
  then show ?thesis using assms [of "N - k"] by simp
next
  case False
  then show ?thesis
    using run_loop_more [of m d N C a st "k - N"] assms [of 0] by auto
qed

text \<open>Two outcomes are the same: the same value, or the same error.\<close>

definition same_outcome :: "bool \<Rightarrow> string + runtime_value \<Rightarrow> string + runtime_value \<Rightarrow> bool" where
  "same_outcome strict r r' \<longleftrightarrow>
     (case (r, r') of
        (Inr v, Inr v') \<Rightarrow> v' = v
      | (Inl e, Inl e') \<Rightarrow> same_error strict e e'
      | _ \<Rightarrow> False)"

text \<open>
  The frame a body is entered with: each parameter in its slot, nothing else in the environment, and
  every other name a global of the same value.
\<close>

definition frame_ok ::
  "vm \<Rightarrow> (string \<Rightarrow> nat option) \<Rightarrow> env \<Rightarrow> env \<Rightarrow> (string \<Rightarrow> nat option) \<Rightarrow> runtime_value list \<Rightarrow> bool" where
  "frame_ok m gs variables env params args \<longleftrightarrow>
     (\<forall>x s. params x = Some s \<longrightarrow> s < length args \<and> env x = Some (args ! s)) \<and>
     (\<forall>x. params x = None \<longrightarrow> env x = None \<and> global_ok m gs variables x) \<and>
     (\<forall>x y s. params x = Some s \<longrightarrow> params y = Some s \<longrightarrow> x = y)"

text \<open>
  The bodies the theorem is about: every expression is portable, every name read is definitely
  assigned or no local, loops are nested \<open>loops\<close> deep at most, and an expression statement stands only at
  the end.
\<close>

definition safe_body :: "bool \<Rightarrow> nat \<Rightarrow> nat \<Rightarrow> (string \<Rightarrow> nat option) \<Rightarrow> nat \<Rightarrow> statement list \<Rightarrow> bool" where
  "safe_body strict depth loops params n stmts \<longleftrightarrow>
     safe_stmts \<lparr>ck_strict = strict, ck_depth = depth, ck_names = dom (fst (slots_stmts stmts (params, n))),
       ck_loops = loops\<rparr> False True (dom params) {} stmts"

text \<open>\<open>break\<close> and \<open>continue\<close> stay inside their loop.\<close>

definition leaves_loop :: "flow \<Rightarrow> bool" where
  "leaves_loop r \<longleftrightarrow> (case r of Inr (CFBreak, _, _) \<Rightarrow> True | Inr (ContinueLoop, _, _) \<Rightarrow> True | _ \<Rightarrow> False)"

lemma leaves_loop_simps [simp]:
  "\<not> leaves_loop (Inl err)" "\<not> leaves_loop (Inr (ContinueNormal v, env, muts))"
  "leaves_loop (Inr (CFBreak, env, muts))" "leaves_loop (Inr (ContinueLoop, env, muts))"
  "\<not> leaves_loop (Inr (CFReturn v, env, muts))"
  by (simp_all add: leaves_loop_def)

lemma while_stays: "\<not> leaves_loop (eval_while sb variables i env muts c body)"
proof (induction "iter_limit sb - i" arbitrary: i env muts rule: less_induct)
  case less
  show ?case
  proof (cases "i \<ge> iter_limit sb")
    case False
    then have "\<not> leaves_loop (eval_while sb variables (i + 1) env' muts' c body)" for env' muts'
      by (intro less) auto
    then show ?thesis
      using False
      by (auto simp: eval_while.simps [of sb variables i] split: sum.split bool.split control_flow.split)
  qed (simp add: eval_while.simps)
qed

lemma then_flow_stays:
  "\<not> leaves_loop r \<Longrightarrow> (\<And>v env muts. \<not> leaves_loop (g v env muts)) \<Longrightarrow> \<not> leaves_loop (then_flow r g)"
  by (cases r rule: flow_cases) (simp_all add: then_flow_def)

lemma safe_stays:
  "safe_stmts ck in_loop keep D M stmts \<Longrightarrow> \<not> in_loop \<Longrightarrow> \<not> leaves_loop (eval_statements_cf sb variables env muts lv stmts)"
  "safe_chain ck in_loop keep D M eis el \<Longrightarrow> \<not> in_loop \<Longrightarrow> \<not> leaves_loop (eval_else_ifs sb variables env muts lv eis el)"
proof (induction ck in_loop keep D M stmts and ck in_loop keep D M eis el arbitrary: env muts lv and env muts lv
    rule: safe_stmts_safe_chain.induct)
  case (6 ck in_loop keep D M c body stmts)
  have "eval_statements_cf sb variables env muts lv (While c body # stmts) =
      then_flow (eval_while sb variables 0 env muts c body) (\<lambda>_ env muts. eval_statements_cf sb variables env muts VUnit stmts)"
    by (auto simp: then_flow_def split: sum.split control_flow.split)
  then show ?case using 6 then_flow_stays [OF while_stays] by simp
next
  case (7 ck in_loop keep D M c body stmts)
  have "eval_statements_cf sb variables env muts lv (IfThen c body # stmts) =
      then_flow (case eval_cond variables env c of Inl err \<Rightarrow> Inl err
           | Inr True \<Rightarrow> eval_statements_cf sb variables env muts VUnit body
           | Inr False \<Rightarrow> Inr (ContinueNormal lv, env, muts))
        (\<lambda>v env muts. eval_statements_cf sb variables env muts v stmts)"
    by (simp add: then_flow_def)
  moreover have "\<not> leaves_loop (case eval_cond variables env c of Inl err \<Rightarrow> Inl err
           | Inr True \<Rightarrow> eval_statements_cf sb variables env muts VUnit body
           | Inr False \<Rightarrow> Inr (ContinueNormal lv, env, muts))"
    using 7 by (simp split: sum.split bool.split)
  ultimately show ?case using 7 then_flow_stays by simp
next
  case (8 ck in_loop keep D M c t eis el stmts)
  have "eval_statements_cf sb variables env muts lv (IfElseBlock c t eis el # stmts) =
      then_flow (case eval_cond variables env c of Inl err \<Rightarrow> Inl err
           | Inr True \<Rightarrow> eval_statements_cf sb variables env muts VUnit t
           | Inr False \<Rightarrow> eval_else_ifs sb variables env muts lv eis el)
        (\<lambda>v env muts. eval_statements_cf sb variables env muts v stmts)"
    by (simp add: then_flow_def)
  moreover have "\<not> leaves_loop (case eval_cond variables env c of Inl err \<Rightarrow> Inl err
           | Inr True \<Rightarrow> eval_statements_cf sb variables env muts VUnit t
           | Inr False \<Rightarrow> eval_else_ifs sb variables env muts lv eis el)"
    using 8 by (simp split: sum.split bool.split)
  ultimately show ?case using 8 then_flow_stays by simp
qed (auto split: sum.split bool.split)

lemma body_ends:
  assumes flow: "follows m d ck C base P (kept True stmts) k 0 st (length C) bt ct
      (eval_statements_cf sb variables env {} VUnit stmts)"
    and no_jump: "\<not> leaves_loop (eval_statements_cf sb variables env {} VUnit stmts)"
  shows "(0 < ck_loops ck \<and> (\<exists>s. eval_statements sb variables env stmts = Inl (while_limit_error s))) \<or>
    (\<exists>r ext. same_outcome (ck_strict ck) (eval_statements sb variables env stmts) r \<and> ends m d k C 0 st r (base @ ext))"
proof -
  let ?r = "eval_statements_cf sb variables env {} VUnit stmts"
  have fall: "ends m d k C 0 st (Inr v) (base @ vals)" if "moves m d k C 0 st (length C) (base @ vals @ [v])" for v vals
  proof -
    have "ends m d 0 C (length C) (base @ vals @ [v]) (Inr v) (base @ vals)"
      by (auto simp: ends_def run_loop.simps epilogue_def butlast_append)
    from moves_ends [OF that this] show ?thesis by simp
  qed
  have keep: "follows m d ck C base P True k 0 st (length C) bt ct ?r" by (rule follows_kept [OF flow])
  show ?thesis
  proof (cases ?r rule: flow_cases)
    case (Error err)
    then show ?thesis using keep by (auto simp: eval_statements_def same_outcome_def)
  next
    case (Normal v env' muts')
    then obtain vals where "moves m d k C 0 st (length C) (base @ vals @ [v])" using keep by auto
    then have "ends m d k C 0 st (Inr v) (base @ vals)" by (rule fall)
    then show ?thesis using Normal by (auto simp: eval_statements_def same_outcome_def intro!: exI [of _ "Inr v"])
  next
    case (Return v env' muts')
    then obtain ext where "ends m d k C 0 st (Inr v) (base @ ext)" using keep fall by auto
    then show ?thesis using Return by (auto simp: eval_statements_def same_outcome_def intro!: exI [of _ "Inr v"])
  qed (use no_jump in auto)
qed

lemma frame_ok_live:
  assumes "frame_ok m gs variables env params args" "dom params \<subseteq> W"
  shows "live m gs variables W params (dom params) {} env {} args"
proof -
  have "params x = None" if "x \<notin> W" for x using assms(2) that by blast
  then show ?thesis using assms(1) unfolding frame_ok_def live_def by blast
qed

lemma compiled_body_runs:
  assumes frame: "frame_ok m gs variables env params args" "length base = vm_base_bp m"
    and safe: "safe_body strict depth loops params (length args) stmts" and d: "d + depth < vm_max_call_depth m"
    and code: "code = map (fin 0 0 0) (lay_stmts gs True stmts (params, length args) 0)"
  shows "(0 < loops \<and> (\<exists>s. eval_statements sb variables env stmts = Inl (while_limit_error s))) \<or>
    (\<exists>r ext. same_outcome strict (eval_statements sb variables env stmts) r \<and>
      ends m (d + 1) (WHILE_SAFETY_LIMIT ^ loops * length code) code 0 (base @ args) r (base @ ext))"
proof -
  let ?sl = "(params, length args)" and ?W = "dom (fst (slots_stmts stmts (params, length args)))"
  define ck where "ck = \<lparr>ck_strict = strict, ck_depth = depth, ck_names = ?W, ck_loops = loops\<rparr>"
  have ck: "safe_stmts ck False True (dom params) {} stmts" using safe by (simp add: safe_body_def ck_def)
  have W: "dom params \<subseteq> ?W" using map_le_implies_dom_le [OF slots_extend(2) [of ?sl stmts]] by simp
  have live: "live m gs variables (ck_names ck) (fst ?sl) (dom params) {} env {} args"
    using frame_ok_live [OF frame(1) W] by (simp add: ck_def)
  have ok: "slots_ok (ck_names ck) ?sl"
    using frame(1) W by (auto simp: slots_ok_def frame_ok_def ck_def)
  have "tracked m (d + 1) ck code base gs variables sb True (dom params) {} stmts"
    by (rule all_tracked(1) [OF frame(2) ck]) (use d in \<open>simp add: ck_def\<close>)
  from trackedD [OF this ok _ live, of 0 0 0 0]
  have "follows m (d + 1) ck code base (live m gs variables (ck_names ck) params (dom params) {}) (kept True stmts)
      (weight ck * length code) 0 (base @ args) (length code) 0 0 (eval_statements_cf sb variables env {} VUnit stmts)"
    using code_in_self [of code] by (simp add: code)
  from body_ends [OF this safe_stays(1) [OF ck]] show ?thesis by (simp add: ck_def weight_def)
qed

end
