(* ===== verification/Lang_Properties.thy ===== *)
theory Lang_Properties
  imports Lang_Body
begin

text \<open>
  What the two engines of the language guarantee each other, on expressions and on pattern bodies,
  and where they part.
\<close>

section \<open>Expressions\<close>

text \<open>
  C5. Compiling an expression and running the code is evaluating it: if the scope of the compiler
  finds on the stack and among the globals what the tree walker looks up for the names the expression
  reads, the machine pops the value the tree walker computes and leaves the stack as it was; where the
  tree walker fails, the machine fails with an error of the same text, with nothing below the
  expression lost. The expression may use every construct of the fragment but index access. If
  \<open>strict\<close>, it has no \<open>!=\<close>; otherwise \<open>!=\<close> may stand outside \<open>try\<close>, and the one text that may differ is that
  of a refused \<open>!=\<close>, which the machine names \<open>==\<close>. The nesting of \<open>try\<close> stays below the depth cap.
\<close>

theorem compiled_expression_agrees:
  assumes "resolves m sc (tw_lookup env variables) frame e" "portable strict e"
    and "d + try_depth e < vm_max_call_depth m"
  shows "case eval_expr_with_env variables env e of
      Inr v \<Rightarrow> execute_code m d (compile_expr sc e []) frame = (Inr v, frame)
    | Inl err \<Rightarrow> (\<exists>err' ext. same_error strict err err' \<and>
        execute_code m d (compile_expr sc e []) frame = (Inl err', frame @ ext))"
  unfolding eval_expr_with_env_def by (rule compiled_delivers [OF assms])

definition demo_vm :: vm where
  "demo_vm = \<lparr>vm_globals = [VFloat (Fin 7)], vm_program_globals = [''g''], vm_reflexes = Map.empty,
     vm_base_bp = 1, vm_max_call_depth = 4\<rparr>"

definition demo_scope :: scope where
  "demo_scope = \<lparr>sc_locals = [''x'' \<mapsto> 0], sc_global_slots = [''g'' \<mapsto> 0]\<rparr>"

text \<open>\<open>if x > 0.0 and g then [x, try (x - "a")] else g\<close>.\<close>

definition demo_expr :: expr where
  "demo_expr =
     IfElse (BinaryOp (BinaryOp (Ident ''x'') Gt (FloatLit (Fin 0))) And (Ident ''g''))
       (ListLit [Ident ''x'', Try (BinaryOp (Ident ''x'') Sub (StringLit ''a''))])
       (Ident ''g'')"

lemma demo_resolves:
  "resolves demo_vm demo_scope (tw_lookup [''x'' \<mapsto> v] [''g'' \<mapsto> VFloat (Fin 7)]) [VUnit, v] demo_expr"
  by (simp add: resolves_def demo_expr_def finds_def demo_scope_def demo_vm_def tw_lookup_def)

lemma demo_eval:
  "eval_expr_with_env [''g'' \<mapsto> VFloat (Fin 7)] [''x'' \<mapsto> VFloat (Fin 5)] demo_expr =
     Inr (VList [VFloat (Fin 5),
       caught (Inl (binop_mismatch (VFloat (Fin 5)) ''Sub'' (VString ''a'')))])"
  by (simp add: eval_expr_with_env_def demo_expr_def tw_lookup_def eval_expr.simps eval_binary_def tw_eval_binop_def
      tw_match_binop_def float_pair_def f64_le_def)

theorem compiled_expression_agrees_witness:
  "execute_code demo_vm 0 (compile_expr demo_scope demo_expr []) [VUnit, VFloat (Fin 5)] =
     (Inr (VList [VFloat (Fin 5),
        caught (Inl (binop_mismatch (VFloat (Fin 5)) ''Sub'' (VString ''a'')))]),
      [VUnit, VFloat (Fin 5)])"
  using compiled_expression_agrees [OF demo_resolves [of "VFloat (Fin 5)"], of True 0] demo_eval
  by (simp add: demo_expr_def demo_vm_def)

text \<open>
  The compiler leaves its jumps open and patches them when the target is known; whatever code is
  already there, what it appends is the code laid out from that address with every jump in place, and
  what was there is untouched.
\<close>

theorem backpatching_is_layout:
  "compile_expr sc e code = code @ code_at sc e (length code)"
  by (rule compile_expr_code_at)

text \<open>
  Compiled expressions run forward only: with any budget of at least as many iterations as there
  are instructions the loop gives the same result as with exactly that many, so the guard against
  endless loops, a hundred thousand times larger, never fires on them.
\<close>

theorem compiled_expression_terminates:
  assumes "resolves m sc lk frame e" "portable strict e" "d + try_depth e \<le> vm_max_call_depth m"
    and "length (compile_expr sc e []) \<le> n"
  shows "run_loop m d n (compile_expr sc e []) 0 frame =
    run_loop m d (length (compile_expr sc e [])) (compile_expr sc e []) 0 frame"
proof -
  let ?C = "code_at sc e 0"
  have C: "compile_expr sc e [] = ?C" by (simp add: compile_expr_code_at)
  have "delivers m d strict ?C 0 (frame @ []) (0 + length ?C) (frame @ []) (single (eval_expr lk e))"
    by (rule simulatedD [OF all_simulated [OF assms(1,2)] assms(2,3) code_in_self])
  then have "\<exists>k \<le> length ?C. \<exists>f. \<forall>n. run_loop m d (k + n) ?C 0 frame = f"
    by (cases "eval_expr lk e")
       (auto simp: delivers_def advances_def fail_def run_loop.simps [of m d _ ?C "length ?C"] simp del: split_paired_Ex)
  then obtain k f where k: "k \<le> length ?C" "\<And>n. run_loop m d (k + n) ?C 0 frame = f" by blast
  show ?thesis
    using k(2) [of "n - k"] k(2) [of "length ?C - k"] k(1) assms(4) by (simp add: C)
qed

theorem compiled_expression_terminates_witness:
  "run_loop demo_vm 0 400 (compile_expr demo_scope demo_expr []) 0 [VUnit, VFloat (Fin 5)] =
     run_loop demo_vm 0 (length (compile_expr demo_scope demo_expr [])) (compile_expr demo_scope demo_expr []) 0
       [VUnit, VFloat (Fin 5)]"
  by (rule compiled_expression_terminates [OF demo_resolves [of "VFloat (Fin 5)"], of True])
     (simp_all add: demo_expr_def demo_vm_def compile_expr_code_at code_at.simps Let_def)

text \<open>
  C38. Index access is where the engines part. On a list or a struct they agree as long as the element
  exists; where the tree walker refuses (out of range, missing key, wrong types) the machine answers
  the unit value and goes on; and a character of a string, which the tree walker returns, is the unit
  value on the machine.
\<close>

theorem index_access_differs:
  "case tw_index base idx of
      Inl _ \<Rightarrow> vm_index base idx = VUnit
    | Inr v \<Rightarrow> vm_index base idx = (case base of VString _ \<Rightarrow> VUnit | _ \<Rightarrow> v)"
  by (cases base; cases idx) (auto simp: tw_index_def vm_index_def Let_def split: option.splits)

section \<open>Bodies\<close>

text \<open>
  C6. A pattern body compiles, and the machine returns what the tree walker returns or fails with the
  same text (up to the name of a refused \<open>!=\<close>), with everything below the frame still there. The body
  may bind, assign what is definitely mutable and return, use \<open>while\<close>, both forms of \<open>if\<close>, and \<open>break\<close> and
  \<open>continue\<close> inside loops, nested in any way; an expression statement stands at its end (or at the end of
  a branch that is the end); names are read only where they are definitely assigned or are no local
  of the body, so that no binding reads the name it introduces; expressions have no index access
  and \<open>!=\<close> only outside \<open>try\<close>. Two caps are set apart: where
  the tree walker gives up a loop after its hundred thousand iterations nothing is claimed, and only
  if loops are nested may the machine stop with its guard against endless loops instead.
\<close>

theorem compiled_body_agrees:
  assumes "frame_ok m gs variables env params args" "length base = vm_base_bp m"
    and "safe_body strict depth loops params (length args) stmts" "d + depth < vm_max_call_depth m"
  shows "\<exists>code r st. compile_body gs params (length args) stmts = Inr code \<and>
    execute_code m d code (base @ args) = (r, st) \<and>
    (same_outcome strict (eval_statements sb variables env stmts) r \<and> (\<exists>ext. st = base @ ext) \<or>
     0 < loops \<and> (\<exists>s. eval_statements sb variables env stmts = Inl (while_limit_error s)) \<or>
     1 < loops \<and> r = Inl (loop_guard_error code))"
proof -
  define code where "code = map (fin 0 0 0) (lay_stmts gs True stmts (params, length args) 0)"
  have comp: "compile_body gs params (length args) stmts = Inr code"
    using assms(3) unfolding code_def safe_body_def by (rule compile_body_layout) simp
  obtain r st where run: "execute_code m d code (base @ args) = (r, st)" by fastforce
  then have loop: "run_loop m (d + 1) (iteration_budget code) code 0 (base @ args) = (r, st)"
    using assms(4) by (simp add: execute_code.simps)
  consider "0 < loops" "\<exists>s. eval_statements sb variables env stmts = Inl (while_limit_error s)"
    | r' ext where "same_outcome strict (eval_statements sb variables env stmts) r'"
      "ends m (d + 1) (WHILE_SAFETY_LIMIT ^ loops * length code) code 0 (base @ args) r' (base @ ext)"
    using compiled_body_runs [OF assms code_def] by blast
  then show ?thesis
  proof cases
    case 1
    then show ?thesis using comp run by blast
  next
    case 2
    then obtain k where k: "k \<le> WHILE_SAFETY_LIMIT ^ loops * length code"
      "\<And>n. run_loop m (d + 1) (k + n) code 0 (base @ args) = (r', base @ ext)" by (auto simp: ends_def)
    have "iteration_budget code < k \<Longrightarrow> 1 < loops"
      using k(1) by (cases loops; cases "loops - 1") (auto simp: iteration_budget_def WHILE_SAFETY_LIMIT_def)
    then show ?thesis using run_bounded [OF k(2), of "iteration_budget code"] loop comp run 2(1) by auto
  qed
qed

text \<open>
  The sum of the even numbers up to \<open>x\<close> and of the global \<open>g\<close>, in a loop that uses \<open>continue\<close> and \<open>break\<close>; a
  pattern of one parameter.
\<close>

definition demo_body :: "statement list" where
  "demo_body =
     [LetBinding ''i'' (FloatLit (Fin 0)) True,
      LetBinding ''y'' (Ident ''g'') True,
      LetBinding ''even'' (BoolLit False) True,
      While (BoolLit True)
        [IfThen (BinaryOp (Ident ''i'') Ge (Ident ''x'')) [Break],
         Assign ''i'' (BinaryOp (Ident ''i'') Add (FloatLit (Fin 1))),
         IfElseBlock (Ident ''even'') [Assign ''even'' (BoolLit False)] [] (Some [Assign ''even'' (BoolLit True), Continue]),
         Assign ''y'' (BinaryOp (Ident ''y'') Add (Ident ''i''))],
      IfThen (BinaryOp (Ident ''y'') Gt (Ident ''x'')) [ExprStmt (Ident ''y'')]]"

lemma demo_frame:
  "frame_ok demo_vm [''g'' \<mapsto> 0] [''g'' \<mapsto> VFloat (Fin 7)] [''x'' \<mapsto> v] [''x'' \<mapsto> 0] [v]"
  by (auto simp: frame_ok_def global_ok_def demo_vm_def load_by_name_def)

lemma demo_safe: "safe_body True 0 1 [''x'' \<mapsto> 0] (length [v]) demo_body"
  by (simp add: safe_body_def demo_body_def usable_def slot_let_def)

lemma demo_body_eval:
  "eval_statements False [''g'' \<mapsto> VFloat (Fin 7)] [''x'' \<mapsto> VFloat (Fin 3)] demo_body = Inr (VFloat (Fin 9))"
  using f64_of_rat_int [of 1] f64_of_rat_int [of 2] f64_of_rat_int [of 3] f64_of_rat_int [of 9]
  by (simp add: eval_statements_def demo_body_def eval_expr_with_env_def tw_lookup_def eval_expr.simps eval_binary_def eval_cond_def
      eval_while.simps iter_limit_def WHILE_SAFETY_LIMIT_def f64_le_def
      tw_eval_binop_def tw_match_binop_def float_pair_def is_opaque_type_def is_http_response_def)

theorem compiled_body_agrees_witness:
  "\<exists>code st. compile_body [''g'' \<mapsto> 0] [''x'' \<mapsto> 0] (length [VFloat (Fin 3)]) demo_body = Inr code \<and>
     execute_code demo_vm 0 code ([VUnit] @ [VFloat (Fin 3)]) = (Inr (VFloat (Fin 9)), st)"
proof -
  obtain code r st where *: "compile_body [''g'' \<mapsto> 0] [''x'' \<mapsto> 0] (length [VFloat (Fin 3)]) demo_body = Inr code"
    "execute_code demo_vm 0 code ([VUnit] @ [VFloat (Fin 3)]) = (r, st)"
    "same_outcome True (Inr (VFloat (Fin 9))) r"
    using compiled_body_agrees [OF demo_frame [of "VFloat (Fin 3)"], of "[VUnit]" True 0 1 demo_body 0 False] demo_safe
    by (fastforce simp: demo_vm_def demo_body_eval)
  then have "r = Inr (VFloat (Fin 9))" by (cases r) (auto simp: same_outcome_def)
  with * show ?thesis by blast
qed

text \<open>
  C37. The condition on new names is needed. The compiler gives a name its slot before it compiles the
  value bound to it, so \<open>let x = 1.0 + x\<close>, where \<open>x\<close> is a global, reads the operand that lies in that
  slot: the machine returns 2 whatever the global is, the tree walker the sum.
\<close>

definition shadowing_body :: "statement list" where
  "shadowing_body =
     [LetBinding ''x'' (BinaryOp (FloatLit (Fin 1)) Add (Ident ''x'')) False, SReturn (Ident ''x'')]"

theorem self_binding_reads_operand:
  assumes "length base = vm_base_bp m" "1 \<le> vm_max_call_depth m"
  shows "eval_statements sb [''x'' \<mapsto> VFloat g] Map.empty shadowing_body = Inr (VFloat (f64_add (Fin 1) g)) \<and>
    (\<exists>code. compile_body [''x'' \<mapsto> slot] Map.empty 0 shadowing_body = Inr code \<and>
       execute_code m 0 code base = (Inr (VFloat (Fin 2)), base @ [VFloat (Fin 2)]))"
proof
  show "eval_statements sb [''x'' \<mapsto> VFloat g] Map.empty shadowing_body = Inr (VFloat (f64_add (Fin 1) g))"
    by (simp add: eval_statements_def shadowing_body_def eval_expr_with_env_def tw_lookup_def
        eval_expr.simps eval_binary_def tw_eval_binop_def tw_match_binop_def is_opaque_type_def)
  let ?code = "[Const (VFloat (Fin 1)), LoadLocal 0, OpAdd, StoreLocal 0, LoadLocal 0, Return]"
  have code: "compile_body [''x'' \<mapsto> slot] Map.empty 0 shadowing_body = Inr ?code"
    by (simp add: compile_body_def shadowing_body_def compile_let_def emit_expr_def push_code_def body_scope_def
        load_ident_def body_epilogue_def Let_def)
  have add: "vm_eval_binop (VFloat (Fin 1)) Add (VFloat (Fin 1)) = Inr (VFloat (Fin 2))"
    using f64_of_rat_int [of 2]
    by (simp add: vm_arith_eq_tw tw_eval_binop_def tw_match_binop_def is_opaque_type_def)
  have store: "store_slot (vm_base_bp m) v base = base @ [v]" for v
    using store_slot_base [of base 0 v "[]"] assms(1) by (simp add: store_slot_def)
  have run: "run_loop m 1 (Suc (Suc (Suc (Suc (Suc (Suc n)))))) ?code 0 base =
      (Inr (VFloat (Fin 2)), base @ [VFloat (Fin 2)])" for n
    using assms add
    by (simp add: run_loop.simps nth_append push_result_def store_def store Let_def butlast_append)
  have "iteration_budget ?code = Suc (Suc (Suc (Suc (Suc (Suc 599994)))))" by (simp add: iteration_budget_def)
  then have "execute_code m 0 ?code base = (Inr (VFloat (Fin 2)), base @ [VFloat (Fin 2)])"
    using assms(2) run [of 599994] by (simp add: execute_code.simps del: run_loop.simps)
  with code show "\<exists>code. compile_body [''x'' \<mapsto> slot] Map.empty 0 shadowing_body = Inr code \<and>
       execute_code m 0 code base = (Inr (VFloat (Fin 2)), base @ [VFloat (Fin 2)])" by blast
qed

theorem self_binding_reads_operand_witness:
  "eval_statements False [''x'' \<mapsto> VFloat (Fin 41)] Map.empty shadowing_body = Inr (VFloat (f64_add (Fin 1) (Fin 41))) \<and>
    (\<exists>code. compile_body [''x'' \<mapsto> 0] Map.empty 0 shadowing_body = Inr code \<and>
       execute_code demo_vm 0 code [VUnit] = (Inr (VFloat (Fin 2)), [VUnit] @ [VFloat (Fin 2)]))"
  by (rule self_binding_reads_operand) (simp_all add: demo_vm_def)

end
