(* ===== verification/Evidence_Log.thy ===== *)
theory Evidence_Log
  imports Approval
begin

text \<open>
  What the evidence components share (\<open>decision_trace.rs\<close>, \<open>provenance.rs\<close>, \<open>jurisdiction.rs\<close>,
  \<open>compliance.rs\<close>). Each keeps an append-only log of rows, each row carries the digest of its canonical
  text, the fields joined by the unit separator, and appending a row whose digest is in the log
  already is refused. The interface \<open>pinned_log\<close> states that discipline and what follows from it;
  the four logs are its instances.
\<close>

section \<open>Digests of canonical texts\<close>

definition SEP :: char where
  "SEP = CHR 0x1F"

definition is_sha256_hex :: "string \<Rightarrow> bool" where
  "is_sha256_hex s \<longleftrightarrow> length s = 64 \<and> (\<forall>c \<in> set s. c \<in> set ''0123456789abcdef'')"

text \<open>SHA-256 of the text, each byte printed with \<open>{:02x}\<close>.\<close>

definition digest_hex :: "crypto \<Rightarrow> string \<Rightarrow> string" where
  "digest_hex C text = concat (map hex_byte (sha256 C text))"

text \<open>What a broken hash function would show.\<close>

definition collision :: "crypto \<Rightarrow> string \<Rightarrow> string \<Rightarrow> bool" where
  "collision C a b \<longleftrightarrow> a \<noteq> b \<and> sha256 C a = sha256 C b"

definition sha256_size :: "crypto \<Rightarrow> bool" where
  "sha256_size C \<longleftrightarrow> (\<forall>text. length (sha256 C text) = 32)"

lemma sample_sha256_size: "sha256_size sample_crypto"
  by (simp add: sha256_size_def sample_crypto_def)

lemma show_hex_small: "n < 16 \<Longrightarrow> show_hex n = [digit_char n]"
  by (subst show_base.simps) simp

lemma show_hex_byte: "16 \<le> n \<Longrightarrow> n < 256 \<Longrightarrow> show_hex n = [digit_char (n div 16), digit_char (n mod 16)]"
  by (subst show_base.simps) (simp add: show_hex_small less_mult_imp_div_less)

lemma hex_byte_eq: "hex_byte b = byte_hex b"
proof (cases "(of_char b :: nat) < 16")
  case True
  then show ?thesis by (simp add: hex_byte_def byte_hex_def show_hex_small digit_char_def)
next
  case False
  then show ?thesis by (simp add: hex_byte_def byte_hex_def show_hex_byte)
qed

lemma digest_hex_eq: "digest_hex C text = sample_hex_encode (sha256 C text)"
  by (simp add: digest_hex_def sample_hex_encode_def hex_byte_eq [abs_def])

lemma digest_hex_inj: "digest_hex C a = digest_hex C b \<longleftrightarrow> sha256 C a = sha256 C b"
  unfolding digest_hex_eq by (metis option.inject sample_hex_roundtrip)

lemma digest_hex_collision: "digest_hex C a = digest_hex C b \<Longrightarrow> a = b \<or> collision C a b"
  by (auto simp: digest_hex_inj collision_def)

lemma digest_hex_ok: "sha256_size C \<Longrightarrow> is_sha256_hex (digest_hex C text)"
  using sample_hex_chars [of "sha256 C text"]
  by (simp only: is_sha256_hex_def digest_hex_eq length_sample_hex sha256_size_def subset_iff Ball_def) simp

section \<open>Canonical texts\<close>

definition sep_free :: "string \<Rightarrow> bool" where
  "sep_free s \<longleftrightarrow> SEP \<notin> set s"

lemma hex_no_SEP: "is_sha256_hex s \<Longrightarrow> sep_free s"
  by (auto simp: is_sha256_hex_def SEP_def sep_free_def)

lemma dec_no_SEP [simp]: "sep_free (show_dec n)"
  using show_base_chars [of 10 n] by (auto simp: SEP_def sep_free_def)

lemma split_join_with:
  "ws \<noteq> [] \<Longrightarrow> (\<And>w. w \<in> set ws \<Longrightarrow> d \<notin> set w) \<Longrightarrow> split_on d (join_with [d] ws) = ws"
  by (induction "[d]" ws rule: join_with.induct) (auto simp: split_on_no_delim split_on_append_delim)

lemma join_with_inj:
  assumes "join_with [d] vs = join_with [d] ws" "vs \<noteq> []" "ws \<noteq> []"
    and "\<And>w. w \<in> set vs \<union> set ws \<Longrightarrow> d \<notin> set w"
  shows "vs = ws"
  using split_join_with [of vs d] split_join_with [of ws d] assms(2-4) unfolding assms(1) by (metis UnI1 UnI2)

lemma canonical_inj:
  assumes "join_with [SEP] vs = join_with [SEP] ws" "vs \<noteq> []" "ws \<noteq> []" "list_all sep_free vs" "list_all sep_free ws"
  shows "vs = ws"
  using assms by (intro join_with_inj [of SEP]) (auto simp: list_all_iff sep_free_def)

lemma join_with_chars: "c \<in> set (join_with d ws) \<Longrightarrow> c \<in> set d \<or> (\<exists>w \<in> set ws. c \<in> set w)"
  by (induction d ws rule: join_with.induct) auto

section \<open>Texts of the sources\<close>

text \<open>The characters of the messages that are not ASCII, as UTF-8 bytes: a dash, the number sign, the
  paragraph sign.\<close>

definition em_dash :: string where
  "em_dash = [CHR 0xE2, CHR 0x80, CHR 0x94]"

definition numero :: string where
  "numero = [CHR 0xE2, CHR 0x84, CHR 0x96]"

definition section_sign :: string where
  "section_sign = [CHR 0xC2, CHR 0xA7]"

text \<open>The debug format of a string, \<open>{:?}\<close>.\<close>

definition escape_debug :: "char \<Rightarrow> string" where
  "escape_debug c =
     (if c = CHR 0x00 then [CHR 0x5C, CHR ''0'']
      else if c = CHR 0x09 then [CHR 0x5C, CHR ''t'']
      else if c = CHR 0x0A then [CHR 0x5C, CHR ''n'']
      else if c = CHR 0x0D then [CHR 0x5C, CHR ''r'']
      else if c = CHR 0x22 \<or> c = CHR 0x5C then [CHR 0x5C, c]
      else if (of_char c :: nat) < 32 \<or> of_char c = (127 :: nat)
      then [CHR 0x5C] @ ''u{'' @ show_hex (of_char c) @ ''}''
      else [c])"

definition debug_text :: "string \<Rightarrow> string" where
  "debug_text s = [CHR 0x22] @ concat (map escape_debug s) @ [CHR 0x22]"

section \<open>The interface\<close>

lemma find_distinct_pin: "distinct (map f xs) \<Longrightarrow> x \<in> set xs \<Longrightarrow> find (\<lambda>y. f y = f x) xs = Some x"
  by (induction xs) force+

text \<open>
  A log of rows with a pin for each: a row whose pin is new is added at the end and its position
  returned, one whose pin is known is refused and changes nothing.
\<close>

locale pinned_log =
  fixes rows :: "'s \<Rightarrow> 'r list" and append :: "'r \<Rightarrow> 's \<Rightarrow> ('e, nat) result \<times> 's" and pin :: "'r \<Rightarrow> string"
  assumes append_known: "pin r \<in> pin ` set (rows s) \<Longrightarrow> \<exists>e. append r s = (Inl e, s)"
    and append_new: "pin r \<notin> pin ` set (rows s) \<Longrightarrow>
      fst (append r s) = Inr (length (rows s)) \<and> rows (snd (append r s)) = rows s @ [r]"
begin

lemma append_rows:
  "rows (snd (append r s)) = rows s @ (if pin r \<in> pin ` set (rows s) then [] else [r])"
  using append_known [of r s] append_new [of r s] by auto

lemma append_distinct: "distinct (map pin (rows s)) \<Longrightarrow> distinct (map pin (rows (snd (append r s))))"
  by (simp add: append_rows)

lemma append_ok: "is_ok (fst (append r s)) \<longleftrightarrow> pin r \<notin> pin ` set (rows s)"
  using append_known [of r s] append_new [of r s] by (cases "pin r \<in> pin ` set (rows s)") auto

lemma appends_distinct:
  "distinct (map pin (rows s)) \<Longrightarrow> distinct (map pin (rows (fold (\<lambda>r s. snd (append r s)) rs s)))"
  by (induction rs arbitrary: s) (simp_all add: append_distinct)

lemma appends_prefix: "prefix (rows s) (rows (fold (\<lambda>r s. snd (append r s)) rs s))"
proof (induction rs arbitrary: s)
  case (Cons r rs)
  have "prefix (rows s) (rows (snd (append r s)))" by (simp add: append_rows)
  with Cons [of "snd (append r s)"] show ?case by (auto intro: prefix_order.trans)
qed simp

lemma appends_pins:
  "pin ` set (rows (fold (\<lambda>r s. snd (append r s)) rs s)) = pin ` set (rows s) \<union> pin ` set rs"
  by (induction rs arbitrary: s) (auto simp: append_rows)

lemma appends_subset: "set (rows (fold (\<lambda>r s. snd (append r s)) rs s)) \<subseteq> set (rows s) \<union> set rs"
  by (induction rs arbitrary: s) (fastforce simp: append_rows split: if_splits)+

lemma find_pin:
  assumes "distinct (map pin (rows s))" "r \<in> set (rows s)"
  shows "find (\<lambda>x. pin x = pin r) (rows s) = Some r"
  using assms by (rule find_distinct_pin)

end

end
