(* ===== verification/Provenance.thy ===== *)
theory Provenance
  imports Evidence_Log
begin

text \<open>
  \<open>src/provenance.rs\<close>: the record of what crosses the boundary of the program. Every carrier that reads
  or writes outside leaves a row with the digest of the bytes that crossed; an egress happens only
  after its row has landed, and a use of bytes can demand a row that vouches for them. The store of
  the process is the list of its rows, \<open>None\<close> when its lock is poisoned; each clock reading is an
  argument.
\<close>

section \<open>Rows\<close>

datatype channel = ChFile | ChNetwork | ChRespond | ChPrint

fun channel_as_str :: "channel \<Rightarrow> string" where
  "channel_as_str ChFile = ''file''"
| "channel_as_str ChNetwork = ''network''"
| "channel_as_str ChRespond = ''respond''"
| "channel_as_str ChPrint = ''print''"

datatype direction = Ingress | Egress

fun direction_as_str :: "direction \<Rightarrow> string" where
  "direction_as_str Ingress = ''ingress''"
| "direction_as_str Egress = ''egress''"

record provenance_manifest =
  pm_carrier :: string
  pm_channel :: channel
  pm_direction :: direction
  pm_origin_digest :: string
  pm_revision :: u64
  pm_recorded_at :: u64
  pm_record_digest :: string

datatype prov_error =
  UnregisteredCarrier string
| MalformedOrigin string
| DuplicateRecord string
| ProvenanceLock
| EgressRefused string prov_error
| OriginMissing string
| RecordMismatch string string string
| OriginMismatch string string

definition origin_digest :: "crypto \<Rightarrow> string \<Rightarrow> string" where
  "origin_digest C bytes = digest_hex C bytes"

definition prov_canonical_row :: "provenance_manifest \<Rightarrow> string" where
  "prov_canonical_row m =
     join_with [SEP]
       [''v1'', pm_carrier m, channel_as_str (pm_channel m), direction_as_str (pm_direction m),
        pm_origin_digest m, show_dec (pm_revision m), show_dec (pm_recorded_at m)]"

definition record_digest_of :: "crypto \<Rightarrow> provenance_manifest \<Rightarrow> string" where
  "record_digest_of C m = digest_hex C (prov_canonical_row m)"

section \<open>The registry of carriers\<close>

record carrier_spec_row =
  cs_name :: string
  cs_channel :: channel
  cs_direction :: direction

definition PROVENANCE_CARRIERS :: "carrier_spec_row list" where
  "PROVENANCE_CARRIERS =
     [\<lparr>cs_name = ''read_file'', cs_channel = ChFile, cs_direction = Ingress\<rparr>,
      \<lparr>cs_name = ''write_file'', cs_channel = ChFile, cs_direction = Egress\<rparr>,
      \<lparr>cs_name = ''http_get'', cs_channel = ChNetwork, cs_direction = Ingress\<rparr>,
      \<lparr>cs_name = ''http_post'', cs_channel = ChNetwork, cs_direction = Egress\<rparr>,
      \<lparr>cs_name = ''respond'', cs_channel = ChRespond, cs_direction = Egress\<rparr>,
      \<lparr>cs_name = ''print'', cs_channel = ChPrint, cs_direction = Egress\<rparr>]"

definition carrier_spec :: "string \<Rightarrow> carrier_spec_row option" where
  "carrier_spec name = find (\<lambda>s. cs_name s = name) PROVENANCE_CARRIERS"

definition manifest_build ::
  "crypto \<Rightarrow> string \<Rightarrow> string \<Rightarrow> u64 \<Rightarrow> u64 \<Rightarrow> (prov_error, provenance_manifest) result"
where
  "manifest_build C carrier origin_digest_hex revision recorded_at =
     (case carrier_spec carrier of
        None \<Rightarrow> Inl (UnregisteredCarrier carrier)
      | Some spec \<Rightarrow>
          if \<not> is_sha256_hex origin_digest_hex then Inl (MalformedOrigin origin_digest_hex)
          else
            let m = \<lparr>pm_carrier = carrier, pm_channel = cs_channel spec, pm_direction = cs_direction spec,
                     pm_origin_digest = origin_digest_hex, pm_revision = revision,
                     pm_recorded_at = recorded_at, pm_record_digest = []\<rparr>
            in Inr (m\<lparr>pm_record_digest := record_digest_of C m\<rparr>))"

definition verify_bytes :: "crypto \<Rightarrow> provenance_manifest \<Rightarrow> string \<Rightarrow> (prov_error, unit) result" where
  "verify_bytes C m observed =
     (let observed_digest = origin_digest C observed
      in if observed_digest = pm_origin_digest m then Inr ()
         else Inl (RecordMismatch (pm_record_digest m) (pm_origin_digest m) observed_digest))"

section \<open>The map\<close>

type_synonym provenance_map = "provenance_manifest list"

definition map_append ::
  "provenance_manifest \<Rightarrow> provenance_map \<Rightarrow> (prov_error, nat) result \<times> provenance_map"
where
  "map_append m rows =
     (if \<exists>r \<in> set rows. pm_record_digest r = pm_record_digest m
      then (Inl (DuplicateRecord (pm_record_digest m)), rows)
      else (Inr (length rows), rows @ [m]))"

definition for_origin :: "string \<Rightarrow> provenance_map \<Rightarrow> provenance_manifest list" where
  "for_origin digest rows = filter (\<lambda>r. pm_origin_digest r = digest) rows"

definition has_origin :: "string \<Rightarrow> provenance_map \<Rightarrow> bool" where
  "has_origin digest rows \<longleftrightarrow> (\<exists>r \<in> set rows. pm_origin_digest r = digest)"

definition next_revision :: "provenance_map \<Rightarrow> u64" where
  "next_revision rows = length rows"

interpretation provenance_log: pinned_log id map_append pm_record_digest
  by unfold_locales (auto simp: map_append_def image_iff)

section \<open>The boundary of the process\<close>

record provenance_world =
  pw_ledger :: ledger_state
  pw_store :: "provenance_map option"

definition ingest ::
  "crypto \<Rightarrow> u64 \<Rightarrow> string \<Rightarrow> string \<Rightarrow> 'a provenance_world_scheme
     \<Rightarrow> (prov_error, provenance_manifest) result \<times> 'a provenance_world_scheme"
where
  "ingest C now carrier bytes w =
     (let digest = origin_digest C bytes
      in case pw_store w of
           None \<Rightarrow> (Inl ProvenanceLock, w)
         | Some store \<Rightarrow>
             (case manifest_build C carrier digest (next_revision store) now of
                Inl e \<Rightarrow> (Inl e, w)
              | Inr m \<Rightarrow>
                  (case map_append m store of
                     (Inl e, store') \<Rightarrow> (Inl e, w\<lparr>pw_store := Some store'\<rparr>)
                   | (Inr _, store') \<Rightarrow> (Inr m, w\<lparr>pw_store := Some store'\<rparr>))))"

definition emit_crossing ::
  "crypto \<Rightarrow> u64 \<Rightarrow> string \<Rightarrow> string \<Rightarrow> 'a provenance_world_scheme
     \<Rightarrow> (prov_error, provenance_manifest) result \<times> 'a provenance_world_scheme"
where
  "emit_crossing C now carrier bytes w = ingest C now carrier bytes w"

text \<open>The texts of the errors; the refused egress hashes the text of its cause into its ledger record.\<close>

fun prov_error_text :: "prov_error \<Rightarrow> string" where
  "prov_error_text (UnregisteredCarrier carrier) =
     ''provenance record: '' @ [CHR 0x27] @ carrier @ [CHR 0x27] @ '' is not a registered I/O carrier '' @ em_dash @
     '' the registry is the closed vocabulary (ADR-0207 '' @ section_sign @ ''4, '' @ numero @ ''873)''"
| "prov_error_text (MalformedOrigin digest) =
     ''provenance record: the origin digest must be a lowercase SHA-256 hex (64 chars), got '' @ debug_text digest"
| "prov_error_text (DuplicateRecord digest) =
     ''provenance map: the exact record '' @ digest @ '' is already in the map (append-only, no duplicates)''"
| "prov_error_text ProvenanceLock =
     ''the provenance store lock: poisoned lock: another task failed inside''"
| "prov_error_text (EgressRefused carrier why) =
     ''SINK_CLEARANCE: provenance missing: '' @ [CHR 0x27] @ carrier @ [CHR 0x27] @ '' performed no live boundary record ('' @
     prov_error_text why @ '') '' @ em_dash @ '' the egress side effect is refused (ADR-0207 '' @ section_sign @ ''2.5, '' @
     numero @ ''874: fail-closed, a silent pass is forbidden)''"
| "prov_error_text (OriginMissing digest) =
     ''SINK_CLEARANCE: provenance missing: no recorded I/O crossing vouches for the origin digest '' @ digest @ '' '' @
     em_dash @ '' the shared-layer boundary record is the condition of the use (ADR-0207 '' @ section_sign @ ''2.5, '' @
     numero @ ''874: fail-closed, a silent pass is forbidden)''"
| "prov_error_text (RecordMismatch record pinned observed) =
     ''provenance digest mismatch: the record '' @ record @ '' pins '' @ pinned @ '', the observed bytes hash '' @ observed @
     '' '' @ em_dash @ '' the bytes changed between the crossing and the use (the G5 digest-pinning rule, ADR-0207 '' @
     section_sign @ ''2.4)''"
| "prov_error_text (OriginMismatch pinned observed) =
     ''SINK_CLEARANCE: provenance digest mismatch: the pinned origin '' @ pinned @ '' does not match the observed bytes ('' @
     observed @ '') '' @ em_dash @ '' the bytes changed between the crossing and the use (the G5 digest-pinning rule, ADR-0207 '' @
     section_sign @ ''2.4)''"

definition provenance_deny_detail :: "string \<Rightarrow> prov_error \<Rightarrow> string" where
  "provenance_deny_detail carrier e = carrier @ ''|provenance missing|'' @ prov_error_text e"

definition gate_emit ::
  "crypto \<Rightarrow> (nat \<Rightarrow> u64) \<Rightarrow> string \<Rightarrow> string \<Rightarrow> 'a provenance_world_scheme
     \<Rightarrow> (prov_error, provenance_manifest) result \<times> 'a provenance_world_scheme"
where
  "gate_emit C clk carrier bytes w =
     (case emit_crossing C (clk 0) carrier bytes w of
        (Inr m, w') \<Rightarrow> (Inr m, w')
      | (Inl e, w') \<Rightarrow>
          (Inl (EgressRefused carrier e),
           w'\<lparr>pw_ledger := record_action C (clk 1) ''deny.SINK_CLEARANCE'' ''runtime'' ''provenance''
                (provenance_deny_detail carrier e) (pw_ledger w')\<rparr>))"

definition require_origin :: "string \<Rightarrow> 'a provenance_world_scheme \<Rightarrow> (prov_error, unit) result" where
  "require_origin digest w =
     (case pw_store w of
        None \<Rightarrow> Inl ProvenanceLock
      | Some store \<Rightarrow> if has_origin digest store then Inr () else Inl (OriginMissing digest))"

definition verify_origin :: "crypto \<Rightarrow> string \<Rightarrow> string \<Rightarrow> 'a provenance_world_scheme \<Rightarrow> (prov_error, unit) result" where
  "verify_origin C digest observed w =
     (case require_origin digest w of
        Inl e \<Rightarrow> Inl e
      | Inr _ \<Rightarrow>
          let observed_digest = origin_digest C observed
          in if observed_digest = digest then Inr () else Inl (OriginMismatch digest observed_digest))"

definition provenance_snapshot :: "'a provenance_world_scheme \<Rightarrow> provenance_map" where
  "provenance_snapshot w = (case pw_store w of None \<Rightarrow> [] | Some store \<Rightarrow> store)"

definition provenance_reset :: "'a provenance_world_scheme \<Rightarrow> 'a provenance_world_scheme" where
  "provenance_reset w = w\<lparr>pw_store := map_option (\<lambda>_. []) (pw_store w)\<rparr>"

section \<open>Well-formed rows\<close>

definition manifest_ok :: "crypto \<Rightarrow> provenance_manifest \<Rightarrow> bool" where
  "manifest_ok C m \<longleftrightarrow> pm_record_digest m = record_digest_of C m \<and> is_sha256_hex (pm_origin_digest m) \<and>
     (\<exists>spec. carrier_spec (pm_carrier m) = Some spec \<and> pm_channel m = cs_channel spec \<and> pm_direction m = cs_direction spec)"

lemma carrier_sep_free:
  assumes "carrier_spec name = Some spec"
  shows "sep_free name"
proof -
  have "list_all (\<lambda>spec. sep_free (cs_name spec)) PROVENANCE_CARRIERS"
    by (simp add: PROVENANCE_CARRIERS_def sep_free_def SEP_def)
  moreover have "spec \<in> set PROVENANCE_CARRIERS" "cs_name spec = name"
    using assms unfolding carrier_spec_def find_Some_iff by auto
  ultimately show ?thesis by (auto simp: list_all_iff)
qed

lemma as_str_sep_free [simp]: "sep_free (channel_as_str c)" "sep_free (direction_as_str d)"
  by (cases c; simp add: sep_free_def SEP_def) (cases d; simp add: sep_free_def SEP_def)

lemma build_ok: "manifest_build C carrier digest n now = Inr m \<Longrightarrow>
    manifest_ok C m \<and> pm_revision m = n \<and> pm_carrier m = carrier \<and> pm_origin_digest m = digest"
  by (auto simp: manifest_build_def manifest_ok_def record_digest_of_def prov_canonical_row_def Let_def
      split: option.splits if_splits)

lemma build_result:
  assumes "sha256_size C"
  shows "(case carrier_spec carrier of
      None \<Rightarrow> manifest_build C carrier (origin_digest C bytes) n now = Inl (UnregisteredCarrier carrier)
    | Some _ \<Rightarrow> \<exists>m. manifest_build C carrier (origin_digest C bytes) n now = Inr m)"
  using digest_hex_ok [OF assms] by (auto simp: manifest_build_def origin_digest_def Let_def split: option.splits)

lemma canonical_revision:
  assumes "manifest_ok C m" "manifest_ok C m'" "prov_canonical_row m = prov_canonical_row m'"
  shows "pm_revision m = pm_revision m'"
proof -
  have "list_all sep_free
     [''v1'', pm_carrier x, channel_as_str (pm_channel x), direction_as_str (pm_direction x),
      pm_origin_digest x, show_dec (pm_revision x), show_dec (pm_recorded_at x)]" if "manifest_ok C x" for x
    using that carrier_sep_free hex_no_SEP by (auto simp: manifest_ok_def) (simp add: sep_free_def SEP_def)
  from canonical_inj [OF assms(3) [unfolded prov_canonical_row_def] _ _ this [OF assms(1)] this [OF assms(2)]]
  show ?thesis by (simp add: show_base_inj)
qed

section \<open>Runs\<close>

text \<open>What happens at the boundary: a value comes in, or the gate is asked to let one out.\<close>

datatype crossing = CIngest u64 string string | CEmit "nat \<Rightarrow> u64" string string

fun run_crossing :: "crypto \<Rightarrow> crossing \<Rightarrow> 'a provenance_world_scheme \<Rightarrow> 'a provenance_world_scheme" where
  "run_crossing C (CIngest now carrier bytes) w = snd (ingest C now carrier bytes w)"
| "run_crossing C (CEmit clk carrier bytes) w = snd (gate_emit C clk carrier bytes w)"

fun crossing_data :: "crossing \<Rightarrow> u64 \<times> string \<times> string" where
  "crossing_data (CIngest now carrier bytes) = (now, carrier, bytes)"
| "crossing_data (CEmit clk carrier bytes) = (clk 0, carrier, bytes)"

text \<open>The rows and the ledger events a history should leave, from the registry alone.\<close>

fun history_rows :: "crypto \<Rightarrow> nat \<Rightarrow> crossing list \<Rightarrow> provenance_manifest list" where
  "history_rows C n [] = []"
| "history_rows C n (x # xs) =
     (case crossing_data x of (now, carrier, bytes) \<Rightarrow>
        (case manifest_build C carrier (origin_digest C bytes) n now of
           Inl _ \<Rightarrow> history_rows C n xs
         | Inr m \<Rightarrow> m # history_rows C (Suc n) xs))"

fun refused_event :: "crossing \<Rightarrow> ledger_event list" where
  "refused_event (CIngest now carrier bytes) = []"
| "refused_event (CEmit clk carrier bytes) =
     (if carrier_spec carrier = None
      then [(clk 1, ''deny.SINK_CLEARANCE'', ''runtime'', ''provenance'',
             provenance_deny_detail carrier (UnregisteredCarrier carrier))]
      else [])"

lemma history_rows_ok:
  "m \<in> set (history_rows C n xs) \<Longrightarrow> manifest_ok C m \<and> n \<le> pm_revision m \<and>
     (\<exists>x \<in> set xs. case crossing_data x of (now, carrier, bytes) \<Rightarrow>
        pm_carrier m = carrier \<and> pm_origin_digest m = origin_digest C bytes)"
proof (induction xs arbitrary: n)
  case (Cons x xs)
  then show ?case
    by (fastforce split: prod.splits sum.splits dest: build_ok)
qed simp

lemma history_rows_Cons:
  "history_rows C n (x # xs) = history_rows C n [x] @ history_rows C (n + length (history_rows C n [x])) xs"
  by (auto split: prod.splits sum.splits)

lemma history_rows_covers:
  assumes "sha256_size C"
  shows "x \<in> set xs \<Longrightarrow> crossing_data x = (now, carrier, bytes) \<Longrightarrow> carrier_spec carrier = Some spec \<Longrightarrow>
    \<exists>m \<in> set (history_rows C n xs). pm_origin_digest m = origin_digest C bytes"
proof (induction xs arbitrary: n)
  case (Cons y xs)
  show ?case
  proof (cases "x = y")
    case True
    with Cons.prems build_result [OF assms, of carrier bytes n now] build_ok [of C carrier _ n now] show ?thesis
      by fastforce
  next
    case False
    with Cons show ?thesis unfolding history_rows_Cons [of C n y xs] by (auto simp del: history_rows.simps)
  qed
qed simp

lemma ingest_step:
  assumes "sha256_size C" "pw_store w = Some S" "\<forall>m \<in> set S. manifest_ok C m \<and> pm_revision m < length S"
    and "\<And>m m'. m \<in> set S \<Longrightarrow> manifest_build C carrier (origin_digest C bytes) (length S) now = Inr m' \<Longrightarrow>
      \<not> collision C (prov_canonical_row m) (prov_canonical_row m')"
  shows "ingest C now carrier bytes w =
    (case manifest_build C carrier (origin_digest C bytes) (length S) now of
       Inl e \<Rightarrow> (Inl e, w) | Inr m \<Rightarrow> (Inr m, w\<lparr>pw_store := Some (S @ [m])\<rparr>))"
proof (cases "manifest_build C carrier (origin_digest C bytes) (length S) now")
  case (Inr m)
  have "pm_record_digest r \<noteq> pm_record_digest m" if "r \<in> set S" for r
  proof
    assume "pm_record_digest r = pm_record_digest m"
    then have "prov_canonical_row r = prov_canonical_row m \<or> collision C (prov_canonical_row r) (prov_canonical_row m)"
      using that assms(3) build_ok [OF Inr] digest_hex_collision by (simp add: manifest_ok_def record_digest_of_def)
    then have "pm_revision r = pm_revision m"
      using that assms(3) assms(4) [OF that Inr] build_ok [OF Inr] canonical_revision by blast
    then show False using that assms(3) build_ok [OF Inr] by auto
  qed
  then show ?thesis using Inr assms(2) by (simp add: ingest_def next_revision_def map_append_def Let_def)
qed (use assms(2) in \<open>simp add: ingest_def next_revision_def Let_def\<close>)

lemma crossing_step:
  assumes "sha256_size C" "pw_store w = Some S" "\<forall>m \<in> set S. manifest_ok C m \<and> pm_revision m < length S"
    and "\<And>m m'. m \<in> set S \<Longrightarrow> m' \<in> set (history_rows C (length S) [x]) \<Longrightarrow>
      \<not> collision C (prov_canonical_row m) (prov_canonical_row m')"
  shows "pw_store (run_crossing C x w) = Some (S @ history_rows C (length S) [x]) \<and>
    pw_ledger (run_crossing C x w) = fold (emit_event C) (refused_event x) (pw_ledger w)"
proof (cases x)
  case (CIngest now carrier bytes)
  then show ?thesis
    using ingest_step [OF assms(1-3), of carrier bytes now] assms(2,4) by (auto split: sum.splits)
next
  case (CEmit clk carrier bytes)
  then show ?thesis
    using ingest_step [OF assms(1-3), of carrier bytes "clk 0"] assms(2,4)
      build_result [OF assms(1), of carrier bytes "length S" "clk 0"]
    by (auto simp: gate_emit_def emit_crossing_def emit_event_def split: sum.splits option.splits)
qed

lemma history_rows_revisions: "map pm_revision (history_rows C n xs) = [n..<n + length (history_rows C n xs)]"
proof (induction xs arbitrary: n)
  case (Cons x xs)
  then show ?case by (auto split: prod.splits sum.splits dest: build_ok simp: upt_rec [of n])
qed simp

definition rows_collide :: "crypto \<Rightarrow> provenance_manifest list \<Rightarrow> bool" where
  "rows_collide C rows \<longleftrightarrow> (\<exists>m \<in> set rows. \<exists>m' \<in> set rows. collision C (prov_canonical_row m) (prov_canonical_row m'))"

lemma run_crossings:
  assumes "sha256_size C" "pw_store w = Some S" "\<forall>m \<in> set S. manifest_ok C m \<and> pm_revision m < length S"
    and "\<not> rows_collide C (S @ history_rows C (length S) cs)"
  shows "pw_store (fold (run_crossing C) cs w) = Some (S @ history_rows C (length S) cs) \<and>
    pw_ledger (fold (run_crossing C) cs w) = fold (emit_event C) (concat (map refused_event cs)) (pw_ledger w)"
  using assms(2-)
proof (induction cs arbitrary: w S)
  case (Cons x cs)
  define R where "R = history_rows C (length S) [x]"
  have H: "history_rows C (length S) (x # cs) = R @ history_rows C (length (S @ R)) cs"
    unfolding R_def length_append by (rule history_rows_Cons)
  have free: "\<not> rows_collide C ((S @ R) @ history_rows C (length (S @ R)) cs)"
    using Cons.prems(3) unfolding H by simp
  have step: "pw_store (run_crossing C x w) = Some (S @ R)"
    "pw_ledger (run_crossing C x w) = fold (emit_event C) (refused_event x) (pw_ledger w)"
    using crossing_step [OF assms(1) Cons.prems(1,2), of x, folded R_def] free by (auto simp: rows_collide_def)
  have "manifest_ok C m \<and> pm_revision m < length (S @ R)" if "m \<in> set R" for m
    using that arg_cong [OF history_rows_revisions [of C "length S" "[x]"], of set, folded R_def]
      history_rows_ok [of m C "length S" "[x]", folded R_def] by fastforce
  with Cons.prems(2) have "\<forall>m \<in> set (S @ R). manifest_ok C m \<and> pm_revision m < length (S @ R)" by fastforce
  from Cons.IH [OF step(1) this free] show ?case by (simp only: H step(2)) simp
qed simp

lemma crossing_rows_sound:
  assumes "pw_store (run_crossing C x w) = Some T" "m \<in> set T"
  shows "\<exists>S. pw_store w = Some S \<and> (m \<in> set S \<or> (case crossing_data x of (now, carrier, bytes) \<Rightarrow>
    carrier_spec carrier \<noteq> None \<and> pm_origin_digest m = origin_digest C bytes))"
  using assms
  by (cases x) (auto simp: gate_emit_def emit_crossing_def ingest_def map_append_def Let_def manifest_build_def
      split: option.splits sum.splits if_splits prod.splits)

lemma crossing_poisoned: "pw_store w = None \<Longrightarrow> pw_store (run_crossing C x w) = None"
  by (cases x) (simp_all add: gate_emit_def emit_crossing_def ingest_def)

lemma run_rows_sound:
  "pw_store (fold (run_crossing C) cs w) = Some T \<Longrightarrow> m \<in> set T \<Longrightarrow>
    \<exists>S. pw_store w = Some S \<and> (m \<in> set S \<or> (\<exists>x \<in> set cs. case crossing_data x of (now, carrier, bytes) \<Rightarrow>
    carrier_spec carrier \<noteq> None \<and> pm_origin_digest m = origin_digest C bytes))"
proof (induction cs arbitrary: w)
  case (Cons x cs)
  then obtain S where "pw_store (run_crossing C x w) = Some S"
    "m \<in> set S \<or> (\<exists>x \<in> set cs. case crossing_data x of (now, carrier, bytes) \<Rightarrow>
       carrier_spec carrier \<noteq> None \<and> pm_origin_digest m = origin_digest C bytes)" by fastforce
  with crossing_rows_sound [of C x w S m] crossing_poisoned [of w C x] show ?case by (cases "pw_store w") auto
qed simp

text \<open>
  C19. The record of the boundary is complete. From an empty store, a run of crossings leaves exactly
  one row for every crossing through a registered carrier, in the order they happened, numbered from
  zero without gaps, each pinned by its own digest; and the ledger has one deny record for every
  egress that was refused, and nothing else. The only way out is a collision of SHA-256 between two
  of these rows.
\<close>

theorem crossings_recorded:
  assumes "sha256_size C" "pw_store w = Some []"
  shows "pw_store (fold (run_crossing C) cs w) = Some (history_rows C 0 cs)
      \<and> map pm_revision (history_rows C 0 cs) = [0..<length (history_rows C 0 cs)]
      \<and> list_all (manifest_ok C) (history_rows C 0 cs)
      \<and> pw_ledger (fold (run_crossing C) cs w) = fold (emit_event C) (concat (map refused_event cs)) (pw_ledger w)
    \<or> rows_collide C (history_rows C 0 cs)"
  using run_crossings [OF assms, of cs] history_rows_revisions [of C 0 cs] history_rows_ok [of _ C 0 cs]
  by (auto simp: list_all_iff)

definition demo_crossings :: "crossing list" where
  "demo_crossings = [CEmit (\<lambda>_. 5) ''exec'' ''rm'', CEmit (\<lambda>_. 7) ''print'' ''hello'']"

definition demo_prov_world :: provenance_world where
  "demo_prov_world = \<lparr>pw_ledger = demo_start, pw_store = Some []\<rparr>"

lemma demo_history:
  "\<exists>m. history_rows sample_crypto 0 demo_crossings = [m] \<and> pm_carrier m = ''print'' \<and> pm_direction m = Egress
     \<and> pm_origin_digest m = origin_digest sample_crypto ''hello''"
proof -
  have "carrier_spec ''exec'' = None" "carrier_spec ''print'' = Some \<lparr>cs_name = ''print'', cs_channel = ChPrint, cs_direction = Egress\<rparr>"
    by (simp_all add: carrier_spec_def PROVENANCE_CARRIERS_def)
  then show ?thesis
    using digest_hex_ok [OF sample_sha256_size, of "''hello''"]
    by (simp add: demo_crossings_def manifest_build_def origin_digest_def Let_def)
qed

theorem crossings_recorded_witness:
  "\<exists>m. pw_store (fold (run_crossing sample_crypto) demo_crossings demo_prov_world) = Some [m] \<and> pm_revision m = 0"
proof -
  obtain m where m: "history_rows sample_crypto 0 demo_crossings = [m]" using demo_history by blast
  have "pw_store demo_prov_world = Some []" by (simp add: demo_prov_world_def)
  from crossings_recorded [OF sample_sha256_size this, of demo_crossings] show ?thesis
    by (auto simp: m rows_collide_def collision_def)
qed

lemma verify_origin_iff:
  "verify_origin C digest observed w = Inr () \<longleftrightarrow>
     (\<exists>S. pw_store w = Some S \<and> has_origin digest S \<and> origin_digest C observed = digest)"
  by (cases "pw_store w") (simp_all add: verify_origin_def require_origin_def Let_def)

text \<open>
  A row vouches only for bytes that crossed. If a use is let through, then bytes with this very
  digest crossed the boundary through a registered carrier earlier in the run, and they are the bytes
  observed now, unless two texts with the same SHA-256 are at hand. Conversely the bytes of every such
  crossing are let through.
\<close>

theorem verify_origin_vouches:
  assumes "sha256_size C" "pw_store w = Some []"
  shows "(verify_origin C digest observed (fold (run_crossing C) cs w) = Inr () \<longrightarrow>
      (\<exists>x \<in> set cs. case crossing_data x of (now, carrier, bytes) \<Rightarrow>
        carrier_spec carrier \<noteq> None \<and> (bytes = observed \<or> collision C bytes observed)))
    \<and> (x \<in> set cs \<and> crossing_data x = (now, carrier, bytes) \<and> carrier_spec carrier \<noteq> None \<longrightarrow>
        verify_origin C (origin_digest C bytes) bytes (fold (run_crossing C) cs w) = Inr () \<or> rows_collide C (history_rows C 0 cs))"
proof (intro conjI impI)
  assume "verify_origin C digest observed (fold (run_crossing C) cs w) = Inr ()"
  then obtain T m where T: "pw_store (fold (run_crossing C) cs w) = Some T" "m \<in> set T" "pm_origin_digest m = origin_digest C observed"
    unfolding verify_origin_iff has_origin_def by metis
  obtain x now carrier bytes where x: "x \<in> set cs" "crossing_data x = (now, carrier, bytes)" "carrier_spec carrier \<noteq> None"
    "digest_hex C bytes = digest_hex C observed"
    using run_rows_sound [OF T(1,2)] T(3) assms(2) by (fastforce simp: origin_digest_def split: prod.splits)
  then show "\<exists>x \<in> set cs. case crossing_data x of (now, carrier, bytes) \<Rightarrow>
      carrier_spec carrier \<noteq> None \<and> (bytes = observed \<or> collision C bytes observed)"
    using digest_hex_collision by (intro bexI [of _ x]) auto
next
  assume x: "x \<in> set cs \<and> crossing_data x = (now, carrier, bytes) \<and> carrier_spec carrier \<noteq> None"
  then have "has_origin (origin_digest C bytes) (history_rows C 0 cs)"
    using history_rows_covers [OF assms(1), of x cs now carrier bytes _ 0] by (auto simp: has_origin_def)
  then show "verify_origin C (origin_digest C bytes) bytes (fold (run_crossing C) cs w) = Inr () \<or> rows_collide C (history_rows C 0 cs)"
    using run_crossings [OF assms(1,2), of cs]
    by (cases "rows_collide C (history_rows C 0 cs)") (simp_all add: verify_origin_iff)
qed

theorem verify_origin_vouches_witness:
  "verify_origin sample_crypto (origin_digest sample_crypto ''hello'') ''hello''
     (fold (run_crossing sample_crypto) demo_crossings demo_prov_world) = Inr ()"
proof -
  obtain m where m: "history_rows sample_crypto 0 demo_crossings = [m]" using demo_history by blast
  have "pw_store demo_prov_world = Some []" by (simp add: demo_prov_world_def)
  moreover have "CEmit (\<lambda>_. 7) ''print'' ''hello'' \<in> set demo_crossings" by (simp add: demo_crossings_def)
  moreover have "carrier_spec ''print'' \<noteq> None" by (simp add: carrier_spec_def PROVENANCE_CARRIERS_def)
  moreover have "\<not> rows_collide sample_crypto (history_rows sample_crypto 0 demo_crossings)"
    by (simp add: m rows_collide_def collision_def)
  ultimately show ?thesis using verify_origin_vouches [OF sample_sha256_size] crossing_data.simps(2) by blast
qed

end
