(* ===== verification/Decision_Trace.thy ===== *)
theory Decision_Trace
  imports Evidence_Log
begin

text \<open>
  \<open>src/decision_trace.rs\<close>: the trace of an irreversible decision (what it consumed and produced, as
  digests, with the model versions, grants and refusals involved), the append-only log of traces,
  the reconciliation of a claimed trace with the log, and the gate that asks for it before the
  effect. The gate writes to the action ledger; the clock reading of that write is an argument.
\<close>

section \<open>Traces\<close>

datatype decision_carrier = LanguageCarrier | LocalCarrier

fun carrier_as_str :: "decision_carrier \<Rightarrow> string" where
  "carrier_as_str LanguageCarrier = ''language''"
| "carrier_as_str LocalCarrier = ''local''"

record decision_trace =
  dt_decision :: string
  dt_carrier :: decision_carrier
  dt_inputs :: "string list"
  dt_contract_name :: string
  dt_model_version :: string
  dt_provider_version :: string
  dt_grants :: "string list"
  dt_refusals :: "string list"
  dt_degradations :: "string list"
  dt_outputs :: "string list"
  dt_ts :: u64
  dt_digest :: string

datatype trace_error =
  NoDecisionName
| NoInputs string
| RawInput string
| RawOutput string
| NoContractName string
| NoVersions string
| EmptyGrant string
| ForeignRefusal string string
| EmptyDegradation string
| DuplicateTrace string

definition canonical_trace :: "decision_trace \<Rightarrow> string" where
  "canonical_trace t =
     join_with [SEP]
       [''v1'', dt_decision t, carrier_as_str (dt_carrier t), join_with '','' (dt_inputs t),
        dt_contract_name t, dt_model_version t, dt_provider_version t, join_with '','' (dt_grants t),
        join_with '','' (dt_refusals t), join_with '','' (dt_degradations t), join_with '','' (dt_outputs t),
        show_dec (dt_ts t)]"

definition canonical_trace_digest :: "crypto \<Rightarrow> decision_trace \<Rightarrow> string" where
  "canonical_trace_digest C t = digest_hex C (canonical_trace t)"

definition DecisionTrace_new ::
  "crypto \<Rightarrow> string \<Rightarrow> decision_carrier \<Rightarrow> string list \<Rightarrow> string \<Rightarrow> string \<Rightarrow> string \<Rightarrow> string list \<Rightarrow>
     string list \<Rightarrow> string list \<Rightarrow> string list \<Rightarrow> u64 \<Rightarrow> (trace_error, decision_trace) result"
where
  "DecisionTrace_new C decision carrier inputs contract_name model_version provider_version grants refusals
       degradations outputs ts =
     (if trim decision = [] then Inl NoDecisionName
      else if inputs = [] then Inl (NoInputs decision)
      else if \<not> list_all is_sha256_hex inputs then Inl (RawInput decision)
      else if \<not> list_all is_sha256_hex outputs then Inl (RawOutput decision)
      else if carrier = LanguageCarrier \<and> trim contract_name = [] then Inl (NoContractName decision)
      else if carrier = LanguageCarrier \<and> (trim model_version = [] \<or> trim provider_version = []) then Inl (NoVersions decision)
      else if \<not> list_all (\<lambda>g. trim g \<noteq> []) grants then Inl (EmptyGrant decision)
      else
        let refusals_sorted = remdups_adj (sort refusals)
        in case find (\<lambda>w. Reason_parse w = None) refusals_sorted of
             Some w \<Rightarrow> Inl (ForeignRefusal decision w)
           | None \<Rightarrow>
               if \<not> list_all (\<lambda>m. trim m \<noteq> []) degradations then Inl (EmptyDegradation decision)
               else
                 let t = \<lparr>dt_decision = decision, dt_carrier = carrier, dt_inputs = inputs,
                          dt_contract_name = contract_name, dt_model_version = model_version,
                          dt_provider_version = provider_version, dt_grants = grants,
                          dt_refusals = refusals_sorted, dt_degradations = degradations,
                          dt_outputs = outputs, dt_ts = ts, dt_digest = []\<rparr>
                 in Inr (t\<lparr>dt_digest := canonical_trace_digest C t\<rparr>))"

section \<open>The log\<close>

type_synonym decision_trace_log = "decision_trace list"

definition trace_append ::
  "decision_trace \<Rightarrow> decision_trace_log \<Rightarrow> (trace_error, nat) result \<times> decision_trace_log"
where
  "trace_append t rows =
     (if \<exists>r \<in> set rows. dt_digest r = dt_digest t then (Inl (DuplicateTrace (dt_digest t)), rows)
      else (Inr (length rows), rows @ [t]))"

definition rows_for :: "string \<Rightarrow> decision_trace_log \<Rightarrow> decision_trace list" where
  "rows_for decision rows = filter (\<lambda>r. dt_decision r = decision) rows"

definition trace_log_digest :: "crypto \<Rightarrow> decision_trace_log \<Rightarrow> string" where
  "trace_log_digest C rows = digest_hex C (join_with [SEP] (map dt_digest rows))"

interpretation trace_log: pinned_log id trace_append dt_digest
  by unfold_locales (auto simp: trace_append_def image_iff)

section \<open>Reconciliation\<close>

datatype replay_field =
  FieldDecision | FieldCarrier | FieldInputs | FieldContractLine | FieldGrants | FieldRefusals
| FieldDegradations | FieldOutputs

fun field_as_str :: "replay_field \<Rightarrow> string" where
  "field_as_str FieldDecision = ''decision''"
| "field_as_str FieldCarrier = ''carrier''"
| "field_as_str FieldInputs = ''inputs''"
| "field_as_str FieldContractLine = ''contract-line''"
| "field_as_str FieldGrants = ''grants''"
| "field_as_str FieldRefusals = ''refusals''"
| "field_as_str FieldDegradations = ''degradations''"
| "field_as_str FieldOutputs = ''outputs''"

datatype replay_error =
  ClaimAltered string
| ClaimNoOutput string
| RecordAltered string
| RecordNoOutput string string
| NotCovered string
| Diverges string replay_field
| Unrecorded string
| NoTrace string

definition quoted :: "string \<Rightarrow> string" where
  "quoted s = [CHR 0x27] @ s @ [CHR 0x27]"

fun replay_error_text :: "replay_error \<Rightarrow> string" where
  "replay_error_text (ClaimAltered decision) =
     ''REPLAY_MATCH: the claimed trace of '' @ quoted decision @ '' does not re-derive its digest '' @ em_dash @
     '' the claim was altered after the write (UNTRUSTED_EXEC_DECISION, fail-closed)''"
| "replay_error_text (ClaimNoOutput decision) =
     ''REPLAY_MATCH: the claimed trace of '' @ quoted decision @ '' carries no verifiable output '' @ em_dash @
     '' the reconciliation refuses at verify (UNTRUSTED_EXEC_DECISION, fail-closed)''"
| "replay_error_text (RecordAltered digest) =
     ''REPLAY_MATCH: the recorded trace '' @ digest @ '' does not re-derive its digest '' @ em_dash @
     '' the record was altered after the write (UNTRUSTED_EXEC_DECISION, fail-closed)''"
| "replay_error_text (RecordNoOutput digest decision) =
     ''REPLAY_MATCH: the recorded trace '' @ digest @ '' of '' @ quoted decision @ '' carries no verifiable output '' @
     em_dash @ '' the record cannot be reconciled (UNTRUSTED_EXEC_DECISION, fail-closed)''"
| "replay_error_text (NotCovered decision) =
     ''REPLAY_MATCH: no recorded trace covers decision '' @ quoted decision @ '' '' @ em_dash @
     '' the fail-closed coverage refuses a decision without a trace (SINK_CLEARANCE; the '' @ numero @
     ''845 form; ADR-0210)''"
| "replay_error_text (Diverges decision field) =
     ''REPLAY_MATCH: the claimed replay of '' @ quoted decision @ '' diverges from the recorded trace on '' @
     field_as_str field @ '' '' @ em_dash @
     '' the record and the claim disagree (UNTRUSTED_EXEC_DECISION, fail-closed)''"
| "replay_error_text (Unrecorded decision) =
     ''REPLAY_MATCH: the claimed replay of '' @ quoted decision @ '' carries an unrecorded trace digest '' @ em_dash @
     '' the record was superseded or the claim is foreign (UNTRUSTED_EXEC_DECISION, fail-closed)''"
| "replay_error_text (NoTrace decision) =
     ''REPLAY_MATCH: no recorded trace covers decision '' @ quoted decision @ '' '' @ em_dash @
     '' the irreversible decision refuses BEFORE the effect (SINK_CLEARANCE, fail-closed; the '' @ numero @ ''845/'' @
     numero @ ''874 form; ADR-0210)''"

text \<open>The loop over the recorded rows.\<close>

fun check_rows :: "crypto \<Rightarrow> decision_trace list \<Rightarrow> (replay_error, unit) result" where
  "check_rows C [] = Inr ()"
| "check_rows C (row # rows) =
     (if canonical_trace_digest C row \<noteq> dt_digest row then Inl (RecordAltered (dt_digest row))
      else if dt_outputs row = [] then Inl (RecordNoOutput (dt_digest row) (dt_decision row))
      else check_rows C rows)"

definition first_divergence :: "decision_trace \<Rightarrow> decision_trace \<Rightarrow> replay_field option" where
  "first_divergence recorded t =
     (if dt_carrier recorded \<noteq> dt_carrier t then Some FieldCarrier
      else if dt_inputs recorded \<noteq> dt_inputs t then Some FieldInputs
      else if dt_contract_name recorded \<noteq> dt_contract_name t \<or> dt_model_version recorded \<noteq> dt_model_version t \<or>
              dt_provider_version recorded \<noteq> dt_provider_version t then Some FieldContractLine
      else if dt_grants recorded \<noteq> dt_grants t then Some FieldGrants
      else if dt_refusals recorded \<noteq> dt_refusals t then Some FieldRefusals
      else if dt_degradations recorded \<noteq> dt_degradations t then Some FieldDegradations
      else if dt_outputs recorded \<noteq> dt_outputs t then Some FieldOutputs
      else None)"

definition verify_replay ::
  "crypto \<Rightarrow> decision_trace \<Rightarrow> decision_trace_log \<Rightarrow> (replay_error, decision_trace) result"
where
  "verify_replay C t traces =
     (if canonical_trace_digest C t \<noteq> dt_digest t then Inl (ClaimAltered (dt_decision t))
      else if dt_outputs t = [] then Inl (ClaimNoOutput (dt_decision t))
      else case check_rows C traces of
        Inl e \<Rightarrow> Inl e
      | Inr _ \<Rightarrow>
          (case find (\<lambda>r. dt_digest r = dt_digest t) traces of
             Some row \<Rightarrow> Inr row
           | None \<Rightarrow>
               let same_decision = rows_for (dt_decision t) traces
               in if same_decision = [] then Inl (NotCovered (dt_decision t))
                  else case first_divergence (last same_decision) t of
                         Some field \<Rightarrow> Inl (Diverges (dt_decision t) field)
                       | None \<Rightarrow> Inl (Unrecorded (dt_decision t))))"

definition record_trace :: "crypto \<Rightarrow> u64 \<Rightarrow> string \<Rightarrow> string \<Rightarrow> decision_trace \<Rightarrow> ledger_state \<Rightarrow> ledger_state" where
  "record_trace C now actor scope t st = record_action C now ''decision_trace'' actor scope (dt_digest t) st"

definition replay_gate ::
  "crypto \<Rightarrow> u64 \<Rightarrow> string \<Rightarrow> decision_trace option \<Rightarrow> decision_trace_log \<Rightarrow> ledger_state \<Rightarrow>
     (replay_error, decision_trace) result \<times> ledger_state"
where
  "replay_gate C now decision claim traces st =
     (case (case claim of Some t \<Rightarrow> verify_replay C t traces | None \<Rightarrow> Inl (NoTrace decision)) of
        Inr row \<Rightarrow> (Inr row, st)
      | Inl e \<Rightarrow>
          (Inl e, record_action C now ''deny.SINK_CLEARANCE'' ''replay-gate'' ''decision-trace'' (replay_error_text e) st))"

section \<open>What a match means\<close>

text \<open>Fields on which the canonical text can be read back: the separators do not occur in them.\<close>

definition clean_item :: "string \<Rightarrow> bool" where
  "clean_item s \<longleftrightarrow> s \<noteq> [] \<and> sep_free s \<and> CHR '','' \<notin> set s"

definition clean_trace :: "decision_trace \<Rightarrow> bool" where
  "clean_trace t \<longleftrightarrow> sep_free (dt_decision t) \<and> sep_free (dt_contract_name t) \<and> sep_free (dt_model_version t) \<and>
     sep_free (dt_provider_version t) \<and> list_all clean_item (dt_inputs t) \<and> list_all clean_item (dt_grants t) \<and>
     list_all clean_item (dt_refusals t) \<and> list_all clean_item (dt_degradations t) \<and> list_all clean_item (dt_outputs t)"

definition consistent :: "crypto \<Rightarrow> decision_trace \<Rightarrow> bool" where
  "consistent C t \<longleftrightarrow> canonical_trace_digest C t = dt_digest t \<and> dt_outputs t \<noteq> []"

lemma check_rows_ok: "check_rows C rows = Inr u \<longleftrightarrow> list_all (consistent C) rows"
  by (induction rows) (auto simp: consistent_def)

lemma verify_replay_ok:
  "verify_replay C t traces = Inr row \<longleftrightarrow>
     consistent C t \<and> list_all (consistent C) traces \<and> find (\<lambda>r. dt_digest r = dt_digest t) traces = Some row"
  using check_rows_ok [of C traces]
  by (cases "check_rows C traces") (auto simp: verify_replay_def consistent_def Let_def split: option.splits)

lemma join_comma_sep_free: "list_all clean_item ws \<Longrightarrow> sep_free (join_with '','' ws)"
  using join_with_chars [of SEP "'',''" ws] by (auto simp: sep_free_def clean_item_def list_all_iff SEP_def)

lemma join_comma_Nil: "list_all clean_item ws \<Longrightarrow> join_with '','' ws = [] \<Longrightarrow> ws = []"
  by (cases ws; cases "tl ws") (auto simp: clean_item_def)

lemma join_comma_inj:
  assumes "list_all clean_item vs" "list_all clean_item ws" "join_with '','' vs = join_with '','' ws"
  shows "vs = ws"
proof (cases "vs = [] \<or> ws = []")
  case True
  then show ?thesis using assms join_comma_Nil [of vs] join_comma_Nil [of ws] by auto
next
  case False
  then show ?thesis using assms by (intro join_with_inj [of "CHR '',''" vs ws]) (auto simp: clean_item_def list_all_iff)
qed

lemma carrier_as_str_facts: "sep_free (carrier_as_str c)" "carrier_as_str c = carrier_as_str d \<longleftrightarrow> c = d"
  by (cases c; cases d; simp add: sep_free_def SEP_def)+

lemma canonical_trace_inj:
  assumes "clean_trace t" "clean_trace u" "canonical_trace t = canonical_trace u" "dt_digest t = dt_digest u"
  shows "t = u"
proof -
  have "list_all sep_free
       [''v1'', dt_decision t, carrier_as_str (dt_carrier t), join_with '','' (dt_inputs t),
        dt_contract_name t, dt_model_version t, dt_provider_version t, join_with '','' (dt_grants t),
        join_with '','' (dt_refusals t), join_with '','' (dt_degradations t), join_with '','' (dt_outputs t),
        show_dec (dt_ts t)]" if "clean_trace t" for t
    using that join_comma_sep_free by (simp add: clean_trace_def carrier_as_str_facts(1)) (simp add: sep_free_def SEP_def)
  from canonical_inj [OF assms(3) [unfolded canonical_trace_def] _ _ this [OF assms(1)] this [OF assms(2)]] show ?thesis
    using assms(1,2,4) join_comma_inj by (simp add: clean_trace_def carrier_as_str_facts(2) show_base_inj)
qed

text \<open>
  C20. The gate opens exactly for a reconciled claim. It lets a decision through if and only if a claim
  is given, the claim and every recorded row re-derive their digests and have outputs, and a recorded
  row has the digest of the claim; that row is returned and the ledger is left alone. Every refusal is
  one deny record with the text of its reason.
\<close>

theorem replay_gate_decides:
  "case replay_gate C now decision claim traces st of
     (Inr row, st') \<Rightarrow> st' = st \<and> (\<exists>t. claim = Some t \<and> consistent C t \<and> list_all (consistent C) traces
         \<and> row \<in> set traces \<and> dt_digest row = dt_digest t)
   | (Inl e, st') \<Rightarrow>
       st' = emit_event C (now, ''deny.SINK_CLEARANCE'', ''replay-gate'', ''decision-trace'', replay_error_text e) st
       \<and> \<not> (\<exists>t. claim = Some t \<and> consistent C t \<and> list_all (consistent C) traces \<and> dt_digest t \<in> dt_digest ` set traces)"
proof (cases claim)
  case None
  then show ?thesis by (simp add: replay_gate_def emit_event_def)
next
  case (Some t)
  have found: "find (\<lambda>r. dt_digest r = dt_digest t) traces = None \<longleftrightarrow> dt_digest t \<notin> dt_digest ` set traces"
    by (auto simp: find_None_iff image_iff)
  show ?thesis
  proof (cases "verify_replay C t traces")
    case (Inl e)
    then have "\<not> (consistent C t \<and> list_all (consistent C) traces \<and> dt_digest t \<in> dt_digest ` set traces)"
      using verify_replay_ok [of C t traces] found by (cases "find (\<lambda>r. dt_digest r = dt_digest t) traces") auto
    with Some Inl show ?thesis by (simp add: replay_gate_def emit_event_def)
  next
    case (Inr row)
    then have "consistent C t" "list_all (consistent C) traces" "row \<in> set traces" "dt_digest row = dt_digest t"
      using verify_replay_ok [of C t traces row] by (auto simp: find_Some_iff)
    with Some Inr show ?thesis by (simp add: replay_gate_def)
  qed
qed

text \<open>
  C21. A match is the recorded trace. When the fields of the claim and of the row it is matched with
  hold none of the separators of the canonical text, the claim is that row in every field, or the two
  canonical texts are a collision of SHA-256.
\<close>

theorem replay_match_is_recorded:
  assumes "verify_replay C t traces = Inr row" "clean_trace t" "clean_trace row"
  shows "row \<in> set traces \<and> (t = row \<or> collision C (canonical_trace t) (canonical_trace row))"
proof -
  have m: "consistent C t" "list_all (consistent C) traces" "row \<in> set traces" "dt_digest row = dt_digest t"
    using verify_replay_ok [of C t traces row] assms(1) by (auto simp: find_Some_iff)
  then have "digest_hex C (canonical_trace t) = digest_hex C (canonical_trace row)"
    by (auto simp: consistent_def canonical_trace_digest_def list_all_iff)
  then show ?thesis
    using m canonical_trace_inj [OF assms(2,3)] by (auto dest: digest_hex_collision)
qed

definition demo_digest :: string where
  "demo_digest = replicate 64 (CHR ''a'')"

definition demo_trace :: decision_trace where
  "demo_trace =
     (let t = \<lparr>dt_decision = ''forget'', dt_carrier = LocalCarrier, dt_inputs = [demo_digest], dt_contract_name = [],
               dt_model_version = [], dt_provider_version = [], dt_grants = [''g1'', ''g2''], dt_refusals = [],
               dt_degradations = [], dt_outputs = [demo_digest], dt_ts = 7, dt_digest = []\<rparr>
      in t\<lparr>dt_digest := canonical_trace_digest sample_crypto t\<rparr>)"

lemma demo_trace_new:
  "DecisionTrace_new sample_crypto ''forget'' LocalCarrier [demo_digest] [] [] [] [''g1'', ''g2''] [] [] [demo_digest] 7
     = Inr demo_trace"
  by (simp add: DecisionTrace_new_def demo_trace_def is_sha256_hex_def demo_digest_def Let_def trim_def is_whitespace_def)

lemma demo_trace_consistent: "consistent sample_crypto demo_trace"
  by (simp add: consistent_def demo_trace_def canonical_trace_digest_def canonical_trace_def Let_def)

lemma demo_trace_clean: "clean_trace demo_trace"
  by (simp add: clean_trace_def demo_trace_def demo_digest_def clean_item_def sep_free_def SEP_def Let_def)

lemma demo_trace_verifies: "verify_replay sample_crypto demo_trace [demo_trace] = Inr demo_trace"
  by (simp add: verify_replay_ok demo_trace_consistent)

text \<open>
  Two recorded decisions under a digest that is the text itself, so that no two texts collide. The
  claim of the second is matched with its own row.
\<close>

definition plain_trace :: "string \<Rightarrow> decision_trace" where
  "plain_trace decision =
     (let t = demo_trace\<lparr>dt_decision := decision\<rparr> in t\<lparr>dt_digest := canonical_trace_digest plain_crypto t\<rparr>)"

lemma plain_trace_facts:
  assumes "sep_free decision"
  shows "consistent plain_crypto (plain_trace decision)" "clean_trace (plain_trace decision)"
    "dt_decision (plain_trace decision) = decision"
  using assms demo_trace_clean
  by (simp_all add: consistent_def plain_trace_def demo_trace_def canonical_trace_digest_def canonical_trace_def clean_trace_def Let_def)

theorem replay_match_is_recorded_witness:
  "\<exists>row. verify_replay plain_crypto (plain_trace ''pay'') [plain_trace ''forget'', plain_trace ''pay''] = Inr row
     \<and> row = plain_trace ''pay'' \<and> row \<noteq> plain_trace ''forget''"
proof -
  let ?log = "[plain_trace ''forget'', plain_trace ''pay'']"
  have sep: "sep_free ''forget''" "sep_free ''pay''" by (simp_all add: sep_free_def SEP_def)
  note facts = plain_trace_facts [OF sep(1)] plain_trace_facts [OF sep(2)]
  obtain row where row: "find (\<lambda>r. dt_digest r = dt_digest (plain_trace ''pay'')) ?log = Some row" by (cases "dt_digest (plain_trace ''forget'') = dt_digest (plain_trace ''pay'')") auto
  then have "verify_replay plain_crypto (plain_trace ''pay'') ?log = Inr row" by (simp add: verify_replay_ok facts)
  moreover have "clean_trace row" using row facts(2,5) by (auto split: if_splits)
  ultimately have "plain_trace ''pay'' = row"
    using replay_match_is_recorded [of plain_crypto "plain_trace ''pay''" ?log row] facts(5) by (simp add: collision_def plain_crypto_def)
  moreover have "plain_trace ''pay'' \<noteq> plain_trace ''forget''" using facts(3,6) by auto
  ultimately show ?thesis using \<open>verify_replay plain_crypto (plain_trace ''pay'') ?log = Inr row\<close> by blast
qed

text \<open>
  Without that condition a match says less. The canonical text joins the grants with commas, so a
  claim that names one grant, the recorded names joined with commas, is accepted as a replay of a row
  with several grants, although the comparison of the fields would tell them apart.
\<close>

theorem replay_match_confuses_lists:
  assumes "verify_replay C row traces = Inr row" "2 \<le> length (dt_grants row)"
  shows "verify_replay C (row\<lparr>dt_grants := [join_with '','' (dt_grants row)]\<rparr>) traces = Inr row
    \<and> first_divergence row (row\<lparr>dt_grants := [join_with '','' (dt_grants row)]\<rparr>) = Some FieldGrants"
proof -
  have "canonical_trace (row\<lparr>dt_grants := [join_with '','' (dt_grants row)]\<rparr>) = canonical_trace row"
    by (simp add: canonical_trace_def)
  moreover have "dt_grants row \<noteq> [join_with '','' (dt_grants row)]"
  proof
    assume "dt_grants row = [join_with '','' (dt_grants row)]"
    from arg_cong [OF this, of length] assms(2) show False by simp
  qed
  ultimately show ?thesis
    using assms(1) by (simp add: verify_replay_ok consistent_def canonical_trace_digest_def first_divergence_def)
qed

theorem replay_match_confuses_lists_witness:
  "verify_replay sample_crypto (demo_trace\<lparr>dt_grants := [''g1,g2'']\<rparr>) [demo_trace] = Inr demo_trace"
  using replay_match_confuses_lists [OF demo_trace_verifies] by (simp add: demo_trace_def Let_def)

text \<open>
  The name of the decision given to the gate plays no part once a claim is offered: the reconciled
  trace of another decision opens the gate.
\<close>

theorem replay_gate_ignores_decision:
  assumes "verify_replay C t traces = Inr row" "dt_decision t \<noteq> decision"
  shows "replay_gate C now decision (Some t) traces st = (Inr row, st)"
  using assms by (simp add: replay_gate_def)

theorem replay_gate_ignores_decision_witness:
  "replay_gate sample_crypto 9 ''invoke_db_execute_with_grant'' (Some demo_trace) [demo_trace] demo_start
     = (Inr demo_trace, demo_start)"
  by (rule replay_gate_ignores_decision [OF demo_trace_verifies]) (simp add: demo_trace_def Let_def)

text \<open>
  C22. What was recorded can be replayed. After appending traces that re-derive their digests, have
  outputs and hold no separators, each of them is matched with itself, unless it collides with another.
  If even one appended trace has no outputs, no claim at all is accepted any more.
\<close>

theorem recorded_traces_replay:
  assumes "list_all (\<lambda>t. canonical_trace_digest C t = dt_digest t) ts" "list_all clean_trace ts" "t \<in> set ts"
  defines "traces \<equiv> fold (\<lambda>t rows. snd (trace_append t rows)) ts []"
  shows "if list_all (\<lambda>t. dt_outputs t \<noteq> []) traces
    then verify_replay C t traces = Inr t \<or> (\<exists>u \<in> set ts. collision C (canonical_trace t) (canonical_trace u))
    else \<not> is_ok (verify_replay C claim traces)"
proof -
  have sub: "set traces \<subseteq> set ts" and pins: "dt_digest ` set traces = dt_digest ` set ts"
    using trace_log.appends_subset [of ts "[]"] trace_log.appends_pins [of ts "[]"] unfolding traces_def by simp_all
  show ?thesis
  proof (cases "list_all (\<lambda>t. dt_outputs t \<noteq> []) traces")
    case True
    then have con: "list_all (consistent C) traces"
      using assms(1) sub by (auto simp: list_all_iff consistent_def)
    obtain r where r: "r \<in> set traces" "dt_digest r = dt_digest t" using assms(3) pins by (metis imageE imageI)
    show ?thesis
    proof (cases "r = t")
      case eq: True
      have "distinct (map dt_digest traces)"
        using trace_log.appends_distinct [of "[]" ts] unfolding traces_def by simp
      then have "find (\<lambda>x. dt_digest x = dt_digest t) traces = Some t"
        using trace_log.find_pin [of traces t] r eq by simp
      then show ?thesis using True con r eq by (auto simp: verify_replay_ok list_all_iff)
    next
      case False
      have "r \<in> set ts" "clean_trace r" "clean_trace t" using r(1) sub assms(2,3) by (auto simp: list_all_iff)
      moreover have "digest_hex C (canonical_trace t) = digest_hex C (canonical_trace r)"
        using assms(1,3) r \<open>r \<in> set ts\<close> by (auto simp: list_all_iff canonical_trace_digest_def)
      ultimately show ?thesis
        using False True canonical_trace_inj [of t r] r(2) digest_hex_collision by fastforce
    qed
  next
    case False
    then have "\<not> list_all (consistent C) traces" by (auto simp: list_all_iff consistent_def)
    then show ?thesis using False verify_replay_ok [of C claim traces] by (auto simp: is_ok_iff)
  qed
qed

theorem recorded_traces_replay_witness:
  "verify_replay sample_crypto demo_trace (fold (\<lambda>t rows. snd (trace_append t rows)) [demo_trace] []) = Inr demo_trace"
  using recorded_traces_replay [of sample_crypto "[demo_trace]" demo_trace] demo_trace_consistent demo_trace_clean
  by (auto simp: consistent_def trace_append_def collision_def)

end
