(* ===== verification/Jurisdiction.thy ===== *)
theory Jurisdiction
  imports Evidence_Log
begin

text \<open>
  \<open>src/jurisdiction.rs\<close> and the gate of \<open>metalogos-server/src/mcp_policy.rs\<close> over it: rules that allow,
  limit or deny a carrier in a jurisdiction, the append-only matrix of rules, its compilation to a
  policy for one jurisdiction, the verdict on a carrier, and the gate that a tool passes with the
  carriers of its sinks before it runs. The rows of the seed matrix are data and not restated.
\<close>

section \<open>Rules\<close>

type_synonym jurisdiction_id = string

datatype policy_effect = EffAllow | EffDeny | EffLimit

fun effect_as_str :: "policy_effect \<Rightarrow> string" where
  "effect_as_str EffAllow = ''allow''"
| "effect_as_str EffDeny = ''deny''"
| "effect_as_str EffLimit = ''limit''"

record jurisdiction_rule =
  jr_jurisdiction :: jurisdiction_id
  jr_carrier :: string
  jr_effect :: policy_effect
  jr_norm_ref :: string
  jr_checked_at :: string
  jr_source :: string
  jr_row_digest :: string

datatype jurisdiction_error =
  BadJurisdictionCode string
| NoRuleCarrier
| NoNormReference string string
| BadVerificationDate string string string
| NoRuleSource
| DuplicateRule string
| UnknownJurisdiction string
| IncompleteRule string string
| UncoveredCarrier string string
| DeniedSinks "string list"

definition is_ascii_uppercase :: "char \<Rightarrow> bool" where
  "is_ascii_uppercase c \<longleftrightarrow> (65 :: nat) \<le> of_char c \<and> of_char c \<le> (90 :: nat)"

definition JurisdictionId_new :: "string \<Rightarrow> (jurisdiction_error, jurisdiction_id) result" where
  "JurisdictionId_new code =
     (let ok_len = (length code = 2 \<or> length code = 5 \<and> code ! 2 = CHR ''-'');
          ok_chars = list_all (\<lambda>(i, b). is_ascii_uppercase b \<or> i = 2 \<and> b = CHR ''-'') (enumerate 0 code)
      in if \<not> ok_len \<or> \<not> ok_chars then Inl (BadJurisdictionCode code) else Inr code)"

text \<open>\<open>str::parse::<u32>\<close>, which accepts a leading plus sign.\<close>

definition parse_u32 :: "string \<Rightarrow> nat option" where
  "parse_u32 s = (case parse_u64 s of Some n \<Rightarrow> if n < 2 ^ 32 then Some n else None | None \<Rightarrow> None)"

definition is_iso_date :: "string \<Rightarrow> bool" where
  "is_iso_date s =
     (if length s \<noteq> 10 \<or> s ! 4 \<noteq> CHR ''-'' \<or> s ! 7 \<noteq> CHR ''-'' then False
      else case (parse_u32 (take 4 s), parse_u32 (take 2 (drop 5 s)), parse_u32 (take 2 (drop 8 s))) of
        (Some y, Some m, Some d) \<Rightarrow>
          if \<not> (1 \<le> y \<and> y \<le> 9999) \<or> \<not> (1 \<le> m \<and> m \<le> 12) \<or> \<not> (1 \<le> d \<and> d \<le> 31) then False
          else
            let leap = (y mod 4 = 0 \<and> y mod 100 \<noteq> 0 \<or> y mod 400 = 0);
                feb = (if leap then 29 else 28)
            in d \<le> (if m = 2 then feb else if m \<in> {4, 6, 9, 11} then 30 else 31)
      | _ \<Rightarrow> False)"

definition canonical_rule :: "jurisdiction_rule \<Rightarrow> string" where
  "canonical_rule r =
     join_with [SEP]
       [''v1'', jr_jurisdiction r, jr_carrier r, effect_as_str (jr_effect r), jr_norm_ref r, jr_checked_at r, jr_source r]"

definition canonical_rule_digest :: "crypto \<Rightarrow> jurisdiction_rule \<Rightarrow> string" where
  "canonical_rule_digest C r = digest_hex C (canonical_rule r)"

definition JurisdictionRule_new ::
  "crypto \<Rightarrow> jurisdiction_id \<Rightarrow> string \<Rightarrow> policy_effect \<Rightarrow> string \<Rightarrow> string \<Rightarrow> string \<Rightarrow>
     (jurisdiction_error, jurisdiction_rule) result"
where
  "JurisdictionRule_new C jurisdiction carrier effect norm_ref checked_at source =
     (if trim carrier = [] then Inl NoRuleCarrier
      else if trim norm_ref = [] then Inl (NoNormReference carrier jurisdiction)
      else if \<not> is_iso_date checked_at then Inl (BadVerificationDate carrier jurisdiction checked_at)
      else if trim source = [] then Inl NoRuleSource
      else
        let rule = \<lparr>jr_jurisdiction = jurisdiction, jr_carrier = carrier, jr_effect = effect, jr_norm_ref = norm_ref,
                    jr_checked_at = checked_at, jr_source = source, jr_row_digest = []\<rparr>
        in Inr (rule\<lparr>jr_row_digest := canonical_rule_digest C rule\<rparr>))"

section \<open>The matrix\<close>

type_synonym jurisdiction_matrix = "jurisdiction_rule list"

definition matrix_issue ::
  "jurisdiction_rule \<Rightarrow> jurisdiction_matrix \<Rightarrow> (jurisdiction_error, nat) result \<times> jurisdiction_matrix"
where
  "matrix_issue rule rows =
     (if \<exists>r \<in> set rows. jr_row_digest r = jr_row_digest rule then (Inl (DuplicateRule (jr_row_digest rule)), rows)
      else (Inr (length rows), rows @ [rule]))"

interpretation jurisdiction_log: pinned_log id matrix_issue jr_row_digest
  by unfold_locales (auto simp: matrix_issue_def image_iff)

definition jurisdictions :: "jurisdiction_matrix \<Rightarrow> string list" where
  "jurisdictions rows = remdups_adj (sort (map jr_jurisdiction rows))"

definition rules_for :: "string \<Rightarrow> jurisdiction_matrix \<Rightarrow> jurisdiction_rule list" where
  "rules_for jurisdiction rows = filter (\<lambda>r. jr_jurisdiction r = jurisdiction) rows"

fun effect_rank :: "policy_effect \<Rightarrow> nat" where
  "effect_rank EffDeny = 3"
| "effect_rank EffLimit = 2"
| "effect_rank EffAllow = 1"

definition stricter_of :: "policy_effect option \<Rightarrow> jurisdiction_rule \<Rightarrow> policy_effect option" where
  "stricter_of strictest r =
     (let cur = (case strictest of None \<Rightarrow> 0 | Some e \<Rightarrow> effect_rank e)
      in if effect_rank (jr_effect r) > cur then Some (jr_effect r) else strictest)"

definition effect_for :: "string \<Rightarrow> string \<Rightarrow> jurisdiction_matrix \<Rightarrow> policy_effect option" where
  "effect_for jurisdiction carrier rows =
     foldl stricter_of None (filter (\<lambda>r. jr_jurisdiction r = jurisdiction \<and> jr_carrier r = carrier) rows)"

definition matrix_digest :: "crypto \<Rightarrow> jurisdiction_matrix \<Rightarrow> string" where
  "matrix_digest C rows = digest_hex C (join_with [SEP] (map jr_row_digest rows))"

section \<open>Compilation\<close>

record jurisdiction_policy =
  jp_jurisdiction :: jurisdiction_id
  jp_deny :: "string list"
  jp_limit :: "string list"
  jp_allow :: "string list"
  jp_matrix_digest :: string

definition effect_of :: "jurisdiction_policy \<Rightarrow> string \<Rightarrow> policy_effect option" where
  "effect_of p carrier =
     (if carrier \<in> set (jp_deny p) then Some EffDeny
      else if carrier \<in> set (jp_limit p) then Some EffLimit
      else if carrier \<in> set (jp_allow p) then Some EffAllow
      else None)"

definition jurisdiction_verdict :: "jurisdiction_policy \<Rightarrow> string \<Rightarrow> (jurisdiction_error, policy_effect) result" where
  "jurisdiction_verdict p carrier =
     (case effect_of p carrier of
        Some effect \<Rightarrow> Inr effect | None \<Rightarrow> Inl (UncoveredCarrier carrier (jp_jurisdiction p)))"

definition into_bucket :: "string \<Rightarrow> string list \<Rightarrow> string list" where
  "into_bucket carrier bucket = (if carrier \<in> set bucket then bucket else bucket @ [carrier])"

fun compile_rules ::
  "jurisdiction_rule list \<Rightarrow> string list \<times> string list \<times> string list \<Rightarrow>
     (jurisdiction_error, string list \<times> string list \<times> string list) result"
where
  "compile_rules [] buckets = Inr buckets"
| "compile_rules (rule # rules) (deny, limit, allow) =
     (if trim (jr_norm_ref rule) = [] \<or> \<not> is_iso_date (jr_checked_at rule)
      then Inl (IncompleteRule (jr_carrier rule) (jr_jurisdiction rule))
      else compile_rules rules
        (case jr_effect rule of
           EffDeny \<Rightarrow> (into_bucket (jr_carrier rule) deny, limit, allow)
         | EffLimit \<Rightarrow> (deny, into_bucket (jr_carrier rule) limit, allow)
         | EffAllow \<Rightarrow> (deny, limit, into_bucket (jr_carrier rule) allow)))"

definition compile_jurisdiction_policy ::
  "crypto \<Rightarrow> jurisdiction_matrix \<Rightarrow> string \<Rightarrow> (jurisdiction_error, jurisdiction_policy) result"
where
  "compile_jurisdiction_policy C matrix jurisdiction =
     (if jurisdiction \<notin> set (jurisdictions matrix) then Inl (UnknownJurisdiction jurisdiction)
      else case compile_rules (rules_for jurisdiction matrix) ([], [], []) of
        Inl e \<Rightarrow> Inl e
      | Inr (deny, limit, allow) \<Rightarrow>
          (case JurisdictionId_new jurisdiction of
             Inl e \<Rightarrow> Inl e
           | Inr code \<Rightarrow>
               Inr \<lparr>jp_jurisdiction = code, jp_deny = deny, jp_limit = limit, jp_allow = allow,
                    jp_matrix_digest = matrix_digest C matrix\<rparr>))"

section \<open>The gate of a tool\<close>

record gate_report =
  jg_jurisdiction :: string
  jg_matrix_digest :: string
  jg_verdicts :: "(string \<times> string) list"

fun gate_verdicts ::
  "jurisdiction_policy \<Rightarrow> string list \<Rightarrow> (jurisdiction_error, (string \<times> string) list) result"
where
  "gate_verdicts p [] = Inr []"
| "gate_verdicts p (sink # sinks) =
     (case jurisdiction_verdict p sink of
        Inl e \<Rightarrow> Inl e
      | Inr effect \<Rightarrow>
          (case gate_verdicts p sinks of
             Inl e \<Rightarrow> Inl e | Inr verdicts \<Rightarrow> Inr ((sink, effect_as_str effect) # verdicts)))"

definition jurisdiction_gate ::
  "string list \<Rightarrow> jurisdiction_policy \<Rightarrow> (jurisdiction_error, gate_report) result"
where
  "jurisdiction_gate sinks p =
     (case gate_verdicts p sinks of
        Inl e \<Rightarrow> Inl e
      | Inr verdicts \<Rightarrow>
          let denied = map fst (filter (\<lambda>(_, effect). effect = ''deny'') verdicts)
          in if denied \<noteq> [] then Inl (DeniedSinks denied)
             else Inr \<lparr>jg_jurisdiction = jp_jurisdiction p, jg_matrix_digest = jp_matrix_digest p,
                       jg_verdicts = verdicts\<rparr>)"

section \<open>The compiled policy against the rules\<close>

definition rules_say :: "jurisdiction_matrix \<Rightarrow> string \<Rightarrow> string \<Rightarrow> policy_effect \<Rightarrow> bool" where
  "rules_say rows jurisdiction carrier effect \<longleftrightarrow>
     (\<exists>r \<in> set rows. jr_jurisdiction r = jurisdiction \<and> jr_carrier r = carrier \<and> jr_effect r = effect)"

text \<open>The strictest effect the rules name, deny over limit over allow.\<close>

definition strictest :: "(policy_effect \<Rightarrow> bool) \<Rightarrow> policy_effect option" where
  "strictest says =
     (if says EffDeny then Some EffDeny else if says EffLimit then Some EffLimit
      else if says EffAllow then Some EffAllow else None)"

definition complete_rule :: "jurisdiction_rule \<Rightarrow> bool" where
  "complete_rule r \<longleftrightarrow> trim (jr_norm_ref r) \<noteq> [] \<and> is_iso_date (jr_checked_at r)"

lemma set_into_bucket [simp]: "set (into_bucket c bucket) = insert c (set bucket)"
  by (auto simp: into_bucket_def)

definition carriers_with :: "policy_effect \<Rightarrow> jurisdiction_rule list \<Rightarrow> string set" where
  "carriers_with effect rules = jr_carrier ` {r \<in> set rules. jr_effect r = effect}"

lemma carriers_with_simps [simp]:
  "carriers_with e [] = {}"
  "carriers_with e (r # rs) = (if jr_effect r = e then insert (jr_carrier r) (carriers_with e rs) else carriers_with e rs)"
  by (auto simp: carriers_with_def)

lemma compile_rules_ok:
  "is_ok (compile_rules rules buckets) \<longleftrightarrow> list_all complete_rule rules"
  by (induction rules buckets rule: compile_rules.induct) (simp_all add: complete_rule_def)

lemma compile_rules_buckets:
  "compile_rules rules (deny, limit, allow) = Inr (deny', limit', allow') \<Longrightarrow>
     set deny' = set deny \<union> carriers_with EffDeny rules \<and> set limit' = set limit \<union> carriers_with EffLimit rules
     \<and> set allow' = set allow \<union> carriers_with EffAllow rules"
proof (induction rules arbitrary: deny limit allow)
  case (Cons r rules)
  then show ?case by (cases "jr_effect r") (fastforce split: if_splits)+
qed simp

lemma carriers_with_rules: "c \<in> carriers_with e (rules_for j rows) \<longleftrightarrow> rules_say rows j c e"
  by (auto simp: carriers_with_def rules_for_def rules_say_def)

lemma known_jurisdiction: "j \<in> set (jurisdictions rows) \<longleftrightarrow> (\<exists>r \<in> set rows. jr_jurisdiction r = j)"
  by (auto simp: jurisdictions_def)

lemma compile_effect_of:
  assumes "compile_jurisdiction_policy C rows j = Inr p"
  shows "effect_of p c = strictest (rules_say rows j c) \<and> jp_jurisdiction p = j \<and> jp_matrix_digest p = matrix_digest C rows"
  using assms compile_rules_buckets [of "rules_for j rows" "[]" "[]" "[]"] carriers_with_rules [of c _ j rows]
  by (auto simp: compile_jurisdiction_policy_def effect_of_def strictest_def JurisdictionId_new_def Let_def
      split: if_splits sum.splits prod.splits)

lemma foldl_stricter:
  "foldl stricter_of acc rs = strictest (\<lambda>e. acc = Some e \<or> (\<exists>r \<in> set rs. jr_effect r = e))"
proof (induction rs arbitrary: acc)
  case Nil
  then show ?case by (cases acc; cases "the acc") (simp_all add: strictest_def)
next
  case (Cons r rs)
  then show ?case
    by (cases acc; cases "the acc"; cases "jr_effect r") (simp_all add: stricter_of_def strictest_def)
qed

lemma effect_for_strictest: "effect_for j c rows = strictest (rules_say rows j c)"
  unfolding effect_for_def foldl_stricter
  by (rule arg_cong [where f = strictest]) (auto simp: rules_say_def fun_eq_iff)

text \<open>
  C23. The compiled policy is the strictest reading of the rules. For every carrier the policy of a
  jurisdiction gives the effect the matrix resolves to, which is deny if any rule of the jurisdiction
  denies the carrier, else limit if any limits it, else allow if any allows it, and none if no rule
  names it; and a further rule never makes the effect weaker.
\<close>

theorem compiled_policy_is_strictest:
  assumes "compile_jurisdiction_policy C rows j = Inr p"
  shows "effect_of p c = effect_for j c rows \<and> effect_for j c rows = strictest (rules_say rows j c)
    \<and> (\<forall>rule. case effect_for j c rows of None \<Rightarrow> True
        | Some e \<Rightarrow> \<exists>e'. effect_for j c (snd (matrix_issue rule rows)) = Some e' \<and> effect_rank e \<le> effect_rank e')"
proof -
  have "rules_say rows j c e \<Longrightarrow> rules_say (snd (matrix_issue rule rows)) j c e" for e rule
    by (auto simp: rules_say_def matrix_issue_def)
  then have "case effect_for j c rows of None \<Rightarrow> True
      | Some e \<Rightarrow> \<exists>e'. effect_for j c (snd (matrix_issue rule rows)) = Some e' \<and> effect_rank e \<le> effect_rank e'" for rule
    by (auto simp: effect_for_strictest strictest_def)
  with compile_effect_of [OF assms] effect_for_strictest show ?thesis by simp
qed

definition demo_rule :: "string \<Rightarrow> policy_effect \<Rightarrow> jurisdiction_rule" where
  "demo_rule carrier effect =
     \<lparr>jr_jurisdiction = ''EU'', jr_carrier = carrier, jr_effect = effect, jr_norm_ref = ''GDPR'',
      jr_checked_at = ''2024-02-29'', jr_source = ''test'', jr_row_digest = []\<rparr>"

definition demo_matrix :: jurisdiction_matrix where
  "demo_matrix = [demo_rule ''forget'' EffAllow, demo_rule ''http_post'' EffLimit, demo_rule ''exec'' EffAllow, demo_rule ''exec'' EffDeny]"

lemma demo_date: "is_iso_date ''2024-02-29''"
  by (simp add: is_iso_date_def parse_u32_def parse_u64_def)

lemma demo_compiles:
  "compile_jurisdiction_policy sample_crypto demo_matrix ''EU'' =
     Inr \<lparr>jp_jurisdiction = ''EU'', jp_deny = [''exec''], jp_limit = [''http_post''], jp_allow = [''forget'', ''exec''],
          jp_matrix_digest = matrix_digest sample_crypto demo_matrix\<rparr>"
proof -
  have "''EU'' \<in> set (jurisdictions demo_matrix)" by (simp add: known_jurisdiction demo_matrix_def demo_rule_def)
  then show ?thesis
    using demo_date
    by (simp add: compile_jurisdiction_policy_def rules_for_def demo_matrix_def demo_rule_def into_bucket_def
        JurisdictionId_new_def is_ascii_uppercase_def trim_def is_whitespace_def)
qed

theorem compiled_policy_is_strictest_witness: "effect_for ''EU'' ''exec'' demo_matrix = Some EffDeny"
  using compiled_policy_is_strictest [OF demo_compiles, of "''exec''"] by (simp add: effect_of_def)

definition covered :: "jurisdiction_matrix \<Rightarrow> string \<Rightarrow> string \<Rightarrow> bool" where
  "covered rows j c \<longleftrightarrow> (\<exists>e. rules_say rows j c e) \<and> \<not> rules_say rows j c EffDeny"

lemma strictest_covered:
  "(\<exists>e. strictest says = Some e) \<longleftrightarrow> (\<exists>e. says e)" "strictest says = Some EffDeny \<longleftrightarrow> says EffDeny"
  by (auto simp: strictest_def) (metis policy_effect.exhaust)

lemma effect_as_str_deny [simp]: "effect_as_str e = ''deny'' \<longleftrightarrow> e = EffDeny"
  by (cases e) simp_all

lemma gate_verdicts_eq:
  "gate_verdicts p sinks =
     (case find (\<lambda>c. effect_of p c = None) sinks of
        Some c \<Rightarrow> Inl (UncoveredCarrier c (jp_jurisdiction p))
      | None \<Rightarrow> Inr (map (\<lambda>c. (c, effect_as_str (the (effect_of p c)))) sinks))"
  by (induction sinks) (auto simp: jurisdiction_verdict_def split: option.splits)

text \<open>
  C24. Compilation is fail-closed: it fails exactly when the jurisdiction has no rule, when one of its
  rules lacks a norm or a valid date, or when its code is malformed; and the gate then lets a tool run
  exactly when each of its sinks is named by a rule of the jurisdiction and none of them is denied,
  reporting the strictest effect for each.
\<close>

theorem jurisdiction_gate_fail_closed:
  "case compile_jurisdiction_policy C rows j of
     Inl _ \<Rightarrow> j \<notin> jr_jurisdiction ` set rows \<or> (\<exists>r \<in> set rows. jr_jurisdiction r = j \<and> \<not> complete_rule r)
        \<or> \<not> is_ok (JurisdictionId_new j)
   | Inr p \<Rightarrow> (\<exists>r \<in> set rows. jr_jurisdiction r = j) \<and> list_all complete_rule (rules_for j rows) \<and> is_ok (JurisdictionId_new j)
        \<and> (case jurisdiction_gate sinks p of
             Inl _ \<Rightarrow> \<not> list_all (covered rows j) sinks
           | Inr report \<Rightarrow> list_all (covered rows j) sinks \<and> jg_jurisdiction report = j
               \<and> jg_verdicts report = map (\<lambda>c. (c, effect_as_str (the (effect_for j c rows)))) sinks)"
proof (cases "compile_jurisdiction_policy C rows j")
  case (Inl e)
  then show ?thesis
    using compile_rules_ok [of "rules_for j rows" "([], [], [])"] known_jurisdiction [of j rows]
    by (auto simp: compile_jurisdiction_policy_def list_all_iff rules_for_def image_iff is_ok_def
        split: if_splits sum.splits prod.splits)
next
  case (Inr p)
  have eff: "effect_of p c = strictest (rules_say rows j c)" "jp_jurisdiction p = j" for c
    using compile_effect_of [OF Inr] by auto
  have ok: "(\<exists>r \<in> set rows. jr_jurisdiction r = j)" "list_all complete_rule (rules_for j rows)" "is_ok (JurisdictionId_new j)"
    using Inr compile_rules_ok [of "rules_for j rows" "([], [], [])"] known_jurisdiction [of j rows]
    by (auto simp: compile_jurisdiction_policy_def split: if_splits sum.splits prod.splits)
  have "case jurisdiction_gate sinks p of
             Inl _ \<Rightarrow> \<not> list_all (covered rows j) sinks
           | Inr report \<Rightarrow> list_all (covered rows j) sinks \<and> jg_jurisdiction report = j
               \<and> jg_verdicts report = map (\<lambda>c. (c, effect_as_str (the (effect_for j c rows)))) sinks"
  proof (cases "find (\<lambda>c. effect_of p c = None) sinks")
    case (Some c)
    then have "c \<in> set sinks" "effect_of p c = None" by (auto simp: find_Some_iff)
    then have "\<not> list_all (covered rows j) sinks"
      using strictest_covered(1) [of "rules_say rows j c"] by (auto simp: eff list_all_iff covered_def)
    with Some show ?thesis by (simp add: jurisdiction_gate_def gate_verdicts_eq)
  next
    case None
    then have some: "c \<in> set sinks \<Longrightarrow> \<exists>e. strictest (rules_say rows j c) = Some e" for c
      by (auto simp: find_None_iff eff)
    have cov: "covered rows j c \<longleftrightarrow> the (strictest (rules_say rows j c)) \<noteq> EffDeny" if "c \<in> set sinks" for c
      using some [OF that] strictest_covered [of "rules_say rows j c"] by (auto simp: covered_def)
    show ?thesis
      using None cov
      by (auto simp: jurisdiction_gate_def gate_verdicts_eq Let_def eff filter_empty_conv list_all_iff effect_for_strictest)
  qed
  with ok Inr show ?thesis by simp
qed

theorem jurisdiction_gate_fail_closed_witness:
  "list_all (covered demo_matrix ''EU'') [''forget'', ''http_post''] \<and> \<not> list_all (covered demo_matrix ''EU'') [''forget'', ''exec'']"
proof
  show "list_all (covered demo_matrix ''EU'') [''forget'', ''http_post'']"
    using jurisdiction_gate_fail_closed [where C = sample_crypto and rows = demo_matrix and j = "''EU''" and sinks = "[''forget'', ''http_post'']"]
    by (simp add: demo_compiles jurisdiction_gate_def jurisdiction_verdict_def effect_of_def)
  show "\<not> list_all (covered demo_matrix ''EU'') [''forget'', ''exec'']"
    using jurisdiction_gate_fail_closed [where C = sample_crypto and rows = demo_matrix and j = "''EU''" and sinks = "[''forget'', ''exec'']"]
    by (simp add: demo_compiles jurisdiction_gate_def jurisdiction_verdict_def effect_of_def)
qed

text \<open>
  The check of the verification date reads each part as a number, and numbers may carry a sign:
  \<open>+026-+1-+3\<close> passes as a date, and a rule with it is built.
\<close>

theorem signed_date_accepted:
  "is_iso_date ''+026-+1-+3''
    \<and> is_ok (JurisdictionRule_new C ''EU'' ''forget'' EffAllow ''GDPR'' ''+026-+1-+3'' ''test'')"
proof -
  have "is_iso_date ''+026-+1-+3''" by (simp add: is_iso_date_def parse_u32_def parse_u64_def)
  then show ?thesis by (simp add: JurisdictionRule_new_def trim_def is_whitespace_def Let_def)
qed

end
