(* ===== verification/Attestation.thy ===== *)
theory Attestation
  imports Evidence_Log "HOL-Library.Multiset"
begin

text \<open>
  \<open>src/compliance.rs\<close> and \<open>src/compliance_pack.rs\<close>: attestations (a claim about a subject, pinned to a
  digest of its evidence, with a window of validity and a revocation mark), the append-only map of
  attestations, and the compiler of the evidence package, a text that an auditor checks without the
  runtime. The resolver of evidence is a parameter of the code itself.
\<close>

section \<open>Attestations\<close>

datatype evidence_kind = EvLedger | EvMandate | EvPassport | EvCapability | EvGateway | EvArtifact

fun kind_as_str :: "evidence_kind \<Rightarrow> string" where
  "kind_as_str EvLedger = ''ledger''"
| "kind_as_str EvMandate = ''mandate''"
| "kind_as_str EvPassport = ''passport''"
| "kind_as_str EvCapability = ''capability''"
| "kind_as_str EvGateway = ''gateway''"
| "kind_as_str EvArtifact = ''artifact''"

record evidence =
  ev_kind :: evidence_kind
  ev_reference :: string
  ev_digest :: string

record attestation =
  at_actor :: string
  at_subject :: string
  at_subject_digest :: string
  at_claim :: string
  at_evidence :: evidence
  at_verifier :: string
  at_issued_at :: u64
  at_expires_at :: u64
  at_revoked :: bool
  at_row_digest :: string

datatype attestation_error =
  EmptyField string
| NoSubjectParts
| NoReference
| BadEvidenceDigest string
| Dangling string
| DuplicateAttestation string
| UnknownRow string

definition subject_digest :: "crypto \<Rightarrow> string list \<Rightarrow> string" where
  "subject_digest C parts = digest_hex C (join_with [SEP] parts)"

definition att_canonical_row :: "attestation \<Rightarrow> string" where
  "att_canonical_row a =
     join_with [SEP]
       [''v1'', at_actor a, at_subject a, at_subject_digest a, at_claim a, kind_as_str (ev_kind (at_evidence a)),
        ev_reference (at_evidence a), ev_digest (at_evidence a), at_verifier a, show_dec (at_issued_at a),
        show_dec (at_expires_at a)]"

definition canonical_row_digest :: "crypto \<Rightarrow> attestation \<Rightarrow> string" where
  "canonical_row_digest C a = digest_hex C (att_canonical_row a)"

definition COMPLIANCE_DENY_WORD :: string where
  "COMPLIANCE_DENY_WORD = ''IRREVERSIBLE_NO_GRANT''"

definition compliance_deny :: verdict where
  "compliance_deny = the (Verdict_deny COMPLIANCE_DENY_WORD)"

type_synonym evidence_resolver = "evidence \<Rightarrow> (string, unit) result"

definition Attestation_issue ::
  "crypto \<Rightarrow> string \<Rightarrow> string \<Rightarrow> string list \<Rightarrow> string \<Rightarrow> evidence \<Rightarrow> string \<Rightarrow> u64 \<Rightarrow> u64 \<Rightarrow> evidence_resolver \<Rightarrow>
     (attestation_error, attestation) result"
where
  "Attestation_issue C actor subject subject_parts claim evidence verifier issued_at ttl_seconds resolve =
     (case find (\<lambda>(_, val). trim val = []) [(''actor'', actor), (''subject'', subject), (''claim'', claim), (''verifier'', verifier)] of
        Some (name, _) \<Rightarrow> Inl (EmptyField name)
      | None \<Rightarrow>
          if subject_parts = [] then Inl NoSubjectParts
          else if trim (ev_reference evidence) = [] then Inl NoReference
          else if \<not> is_sha256_hex (ev_digest evidence) then Inl (BadEvidenceDigest (ev_digest evidence))
          else case resolve evidence of
            Inl why \<Rightarrow> Inl (Dangling why)
          | Inr _ \<Rightarrow>
              let expires_at = (if ttl_seconds = 0 then u64_max else u64_saturating_add issued_at ttl_seconds);
                  a = \<lparr>at_actor = actor, at_subject = subject, at_subject_digest = subject_digest C subject_parts,
                       at_claim = claim, at_evidence = evidence, at_verifier = verifier, at_issued_at = issued_at,
                       at_expires_at = expires_at, at_revoked = False, at_row_digest = []\<rparr>
              in Inr (a\<lparr>at_row_digest := canonical_row_digest C a\<rparr>))"

definition Attestation_verify :: "attestation \<Rightarrow> u64 \<Rightarrow> verdict" where
  "Attestation_verify a now =
     (if at_revoked a \<or> now < at_issued_at a \<or> now \<ge> at_expires_at a then compliance_deny else Allow)"

definition evidence_matches :: "attestation \<Rightarrow> string \<Rightarrow> bool" where
  "evidence_matches a live_digest \<longleftrightarrow> ev_digest (at_evidence a) = live_digest"

definition Attestation_revoke :: "attestation \<Rightarrow> attestation" where
  "Attestation_revoke a = a\<lparr>at_revoked := True\<rparr>"

section \<open>The map\<close>

type_synonym attestation_map = "attestation list"

definition resolve_any :: evidence_resolver where
  "resolve_any e = Inr ()"

definition issue_with ::
  "attestation \<Rightarrow> evidence_resolver \<Rightarrow> attestation_map \<Rightarrow> (attestation_error, nat) result \<times> attestation_map"
where
  "issue_with a resolve rows =
     (if \<exists>r \<in> set rows. at_row_digest r = at_row_digest a then (Inl (DuplicateAttestation (at_row_digest a)), rows)
      else case resolve (at_evidence a) of
        Inl why \<Rightarrow> (Inl (Dangling why), rows)
      | Inr _ \<Rightarrow> (Inr (length rows), rows @ [a]))"

definition map_issue :: "attestation \<Rightarrow> attestation_map \<Rightarrow> (attestation_error, nat) result \<times> attestation_map" where
  "map_issue a rows = issue_with a resolve_any rows"

fun position :: "('a \<Rightarrow> bool) \<Rightarrow> 'a list \<Rightarrow> nat option" where
  "position P [] = None"
| "position P (x # xs) = (if P x then Some 0 else map_option Suc (position P xs))"

definition map_revoke :: "string \<Rightarrow> attestation_map \<Rightarrow> (attestation_error, nat) result \<times> attestation_map" where
  "map_revoke row_digest rows =
     (case position (\<lambda>r. at_row_digest r = row_digest) rows of
        None \<Rightarrow> (Inl (UnknownRow row_digest), rows)
      | Some idx \<Rightarrow> (Inr idx, rows[idx := Attestation_revoke (rows ! idx)]))"

definition attestation_live_count :: "attestation_map \<Rightarrow> nat" where
  "attestation_live_count rows = length (filter (\<lambda>r. \<not> at_revoked r) rows)"

interpretation attestation_log: pinned_log id map_issue at_row_digest
  by unfold_locales (auto simp: map_issue_def issue_with_def resolve_any_def image_iff)

section \<open>The evidence package\<close>

type_synonym live_digest_resolver = "string \<Rightarrow> string \<Rightarrow> (string, string) result"

datatype row_status = RsLive | RsExpired | RsRevoked

fun status_as_str :: "row_status \<Rightarrow> string" where
  "status_as_str RsLive = ''live''"
| "status_as_str RsExpired = ''expired''"
| "status_as_str RsRevoked = ''revoked''"

record compiled_row =
  cr_row_digest :: string
  cr_status :: row_status
  cr_line :: string

datatype package_error =
  BrokenLine string string
| SourceRefuses string string string string
| EvidenceMismatch string string string string string
| NoRowLines
| MalformedRow string
| NotARow string
| FieldWithoutEquals string
| MissingField string
| NoColon string
| NoAt string
| UnknownEvidenceKind string
| NoDash string
| BadNumber string
| NotRedigested string
| EditedRow string

definition row_fields :: "attestation \<Rightarrow> (string \<times> string) list" where
  "row_fields a =
     [(''claim'', at_claim a), (''subject'', at_subject a), (''subject_digest'', at_subject_digest a),
      (''evidence'', kind_as_str (ev_kind (at_evidence a)) @ '':'' @ ev_reference (at_evidence a) @ ''@'' @ ev_digest (at_evidence a)),
      (''verifier'', at_verifier a), (''window'', show_dec (at_issued_at a) @ ''-'' @ show_dec (at_expires_at a)),
      (''actor'', at_actor a)]"

definition breaks_line :: "string \<Rightarrow> bool" where
  "breaks_line v \<longleftrightarrow> CHR '' '' \<in> set v \<or> CHR 0x0A \<in> set v \<or> CHR 0x09 \<in> set v"

definition row_line :: "attestation \<Rightarrow> row_status \<Rightarrow> (package_error, string) result" where
  "row_line a status =
     (case find (\<lambda>(_, v). breaks_line v) (row_fields a) of
        Some (k, _) \<Rightarrow> Inl (BrokenLine k (at_row_digest a))
      | None \<Rightarrow>
          Inr (''row '' @ at_row_digest a @ '' '' @ status_as_str status @ '' '' @
               join_with '' '' (map (\<lambda>(k, v). k @ ''='' @ v) (row_fields a))))"

definition row_status_at :: "u64 \<Rightarrow> attestation \<Rightarrow> row_status" where
  "row_status_at now a =
     (if at_revoked a then RsRevoked
      else if now \<ge> at_expires_at a \<or> now < at_issued_at a then RsExpired else RsLive)"

definition compile_row :: "u64 \<Rightarrow> live_digest_resolver \<Rightarrow> attestation \<Rightarrow> (package_error, compiled_row) result" where
  "compile_row now resolve a =
     (let kind = kind_as_str (ev_kind (at_evidence a));
          reference = ev_reference (at_evidence a);
          status = row_status_at now a;
          resolved =
            (if status \<noteq> RsLive then Inr ()
             else case resolve kind reference of
               Inl why \<Rightarrow> Inl (SourceRefuses (at_row_digest a) kind reference why)
             | Inr live \<Rightarrow>
                 if \<not> evidence_matches a live
                 then Inl (EvidenceMismatch (at_row_digest a) kind reference (ev_digest (at_evidence a)) live)
                 else Inr ())
      in case resolved of
           Inl e \<Rightarrow> Inl e
         | Inr _ \<Rightarrow>
             (case row_line a status of
                Inl e \<Rightarrow> Inl e
              | Inr line \<Rightarrow> Inr \<lparr>cr_row_digest = at_row_digest a, cr_status = status, cr_line = line\<rparr>))"

fun compile_rows :: "u64 \<Rightarrow> live_digest_resolver \<Rightarrow> attestation list \<Rightarrow> (package_error, compiled_row list) result" where
  "compile_rows now resolve [] = Inr []"
| "compile_rows now resolve (a # rows) =
     (case compile_row now resolve a of
        Inl e \<Rightarrow> Inl e
      | Inr r \<Rightarrow> (case compile_rows now resolve rows of Inl e \<Rightarrow> Inl e | Inr rs \<Rightarrow> Inr (r # rs)))"

definition package_header :: "string \<Rightarrow> nat \<Rightarrow> nat \<Rightarrow> string" where
  "package_header package_digest rows_total rows_live =
     ''# METALOGOS compliance package v1'' @ [CHR 0x0A] @
     ''# the compliance evidence compiler of ADR-0206 '' @ section_sign @ ''2.4 ('' @ numero @
     ''868): the deterministic, digest-pinned attestation map export'' @ [CHR 0x0A] @
     ''# package_digest: '' @ package_digest @ [CHR 0x0A] @
     ''# rows_total: '' @ show_dec rows_total @ [CHR 0x0A] @
     ''# rows_live: '' @ show_dec rows_live @ [CHR 0x0A] @
     ''# freshness: the consumer compares each row'' @ [CHR 0x27] @
     ''s window against their own verification date (ADR-0206 '' @ section_sign @ ''3 '' @ em_dash @
     '' the package carries no wall clock)'' @ [CHR 0x0A]"

definition compile_package ::
  "crypto \<Rightarrow> attestation_map \<Rightarrow> u64 \<Rightarrow> live_digest_resolver \<Rightarrow> (package_error, string) result"
where
  "compile_package C rows now resolve =
     (case compile_rows now resolve rows of
        Inl e \<Rightarrow> Inl e
      | Inr unsorted \<Rightarrow>
          let compiled = sort_key cr_row_digest unsorted;
              block = join_with [CHR 0x0A] (map cr_line compiled);
              block_bytes = (if block = [] then [] else block @ [CHR 0x0A]);
              package_digest = digest_hex C block_bytes;
              live = length (filter (\<lambda>r. cr_status r = RsLive) compiled)
          in Inr (package_header package_digest (length compiled) live @ (if block = [] then [] else block @ [CHR 0x0A])))"

definition starts_with :: "string \<Rightarrow> string \<Rightarrow> bool" where
  "starts_with p s \<longleftrightarrow> strip_prefix p s \<noteq> None"

definition row_lines :: "string \<Rightarrow> string list" where
  "row_lines package_text = filter (starts_with ''row '') (str_lines package_text)"

definition package_digest_of :: "crypto \<Rightarrow> string \<Rightarrow> (package_error, string) result" where
  "package_digest_of C package_text =
     (let block = concat (map (\<lambda>line. line @ [CHR 0x0A]) (row_lines package_text))
      in if block = [] then Inl NoRowLines else Inr (digest_hex C block))"

text \<open>\<open>str::split_whitespace\<close>.\<close>

fun split_whitespace :: "string \<Rightarrow> string list" where
  "split_whitespace [] = []"
| "split_whitespace (c # s) =
     (if is_whitespace c then split_whitespace s
      else case split_whitespace s of
        [] \<Rightarrow> [[c]]
      | w # ws \<Rightarrow> (if s \<noteq> [] \<and> is_whitespace (hd s) then [c] # w # ws else (c # w) # ws))"

definition count_raw_rows :: "string \<Rightarrow> nat" where
  "count_raw_rows package_text = length (filter (\<lambda>l. length (split_whitespace l) \<ge> 5) (row_lines package_text))"

definition count_live_rows :: "string \<Rightarrow> nat" where
  "count_live_rows package_text =
     length (filter (\<lambda>l. length (split_on (CHR '' '') l) > 2 \<and> split_on (CHR '' '') l ! 2 = ''live'') (row_lines package_text))"

subsection \<open>Reading a package back\<close>

fun split_once :: "char \<Rightarrow> string \<Rightarrow> (string \<times> string) option" where
  "split_once d [] = None"
| "split_once d (c # s) = (if c = d then Some ([], s) else map_option (\<lambda>(a, b). (c # a, b)) (split_once d s))"

fun parse_fields :: "string list \<Rightarrow> (string \<rightharpoonup> string) \<Rightarrow> (package_error, string \<rightharpoonup> string) result" where
  "parse_fields [] kv = Inr kv"
| "parse_fields (field # rest) kv =
     (case split_once (CHR ''='') field of
        None \<Rightarrow> Inl (FieldWithoutEquals field)
      | Some (k, v) \<Rightarrow> parse_fields rest (kv(k \<mapsto> v)))"

definition line_field :: "(string \<rightharpoonup> string) \<Rightarrow> string \<Rightarrow> (package_error, string) result" where
  "line_field kv k = (case kv k of None \<Rightarrow> Inl (MissingField k) | Some v \<Rightarrow> Inr v)"

definition parse_kind :: "string \<Rightarrow> (package_error, evidence_kind) result" where
  "parse_kind s =
     (if s = ''ledger'' then Inr EvLedger
      else if s = ''mandate'' then Inr EvMandate
      else if s = ''passport'' then Inr EvPassport
      else if s = ''capability'' then Inr EvCapability
      else if s = ''gateway'' then Inr EvGateway
      else if s = ''artifact'' then Inr EvArtifact
      else Inl (UnknownEvidenceKind s))"

definition parse_number :: "string \<Rightarrow> (package_error, u64) result" where
  "parse_number s = (case parse_u64 s of None \<Rightarrow> Inl (BadNumber s) | Some n \<Rightarrow> Inr n)"

definition require_some :: "package_error \<Rightarrow> 'a option \<Rightarrow> (package_error, 'a) result" where
  "require_some e x = (case x of None \<Rightarrow> Inl e | Some v \<Rightarrow> Inr v)"

definition and_then :: "('e, 'a) result \<Rightarrow> ('a \<Rightarrow> ('e, 'b) result) \<Rightarrow> ('e, 'b) result" where
  "and_then r f = (case r of Inl e \<Rightarrow> Inl e | Inr a \<Rightarrow> f a)"

lemma and_then_simps [simp]: "and_then (Inl e) f = Inl e" "and_then (Inr a) f = f a"
  by (simp_all add: and_then_def)

definition parse_row_line :: "crypto \<Rightarrow> string \<Rightarrow> (package_error, attestation) result" where
  "parse_row_line C line =
     (let parts = split_whitespace line
      in if length parts < 5 \<or> parts ! 0 \<noteq> ''row'' then Inl (NotARow line)
         else
           let row_digest = parts ! 1; status = parts ! 2
           in and_then (parse_fields (drop 3 parts) Map.empty) (\<lambda>kv.
              and_then (line_field kv ''evidence'') (\<lambda>ev.
              and_then (require_some (NoColon ev) (split_once (CHR '':'') ev)) (\<lambda>(kind_part, rest).
              and_then (require_some (NoAt ev) (split_once (CHR ''@'') rest)) (\<lambda>(reference, digest).
              and_then (parse_kind kind_part) (\<lambda>kind.
              and_then (line_field kv ''window'') (\<lambda>window.
              and_then (require_some (NoDash window) (split_once (CHR ''-'') window)) (\<lambda>(issued_at, expires_at).
              and_then (line_field kv ''actor'') (\<lambda>actor.
              and_then (line_field kv ''subject'') (\<lambda>subject.
              and_then (line_field kv ''subject_digest'') (\<lambda>sdigest.
              and_then (line_field kv ''claim'') (\<lambda>claim.
              and_then (line_field kv ''verifier'') (\<lambda>verifier.
              and_then (parse_number issued_at) (\<lambda>issued.
              and_then (parse_number expires_at) (\<lambda>expires.
                let a = \<lparr>at_actor = actor, at_subject = subject, at_subject_digest = sdigest, at_claim = claim,
                         at_evidence = \<lparr>ev_kind = kind, ev_reference = reference, ev_digest = digest\<rparr>,
                         at_verifier = verifier, at_issued_at = issued, at_expires_at = expires,
                         at_revoked = (status = ''revoked''), at_row_digest = row_digest\<rparr>
                in if att_canonical_row a = [] \<or> canonical_row_digest C a \<noteq> row_digest then Inl (NotRedigested row_digest)
                   else Inr a)))))))))))))))"

fun check_row_lines :: "crypto \<Rightarrow> nat \<Rightarrow> string list \<Rightarrow> (package_error, nat) result" where
  "check_row_lines C checked [] = Inr checked"
| "check_row_lines C checked (line # ls) =
     (if \<not> starts_with ''row '' line then check_row_lines C checked ls
      else if length (split_whitespace line) < 5 then Inl (MalformedRow line)
      else case parse_row_line C line of
        Inl e \<Rightarrow> Inl e
      | Inr a \<Rightarrow>
          if canonical_row_digest C a \<noteq> split_whitespace line ! 1 then Inl (EditedRow (split_whitespace line ! 1))
          else check_row_lines C (checked + 1) ls)"

definition verify_row_digests :: "crypto \<Rightarrow> string \<Rightarrow> (package_error, nat) result" where
  "verify_row_digests C package_text = check_row_lines C 0 (str_lines package_text)"

section \<open>Lines of text\<close>

definition ws_free :: "string \<Rightarrow> bool" where
  "ws_free s \<longleftrightarrow> list_all (\<lambda>c. \<not> is_whitespace c) s"

definition word :: "string \<Rightarrow> bool" where
  "word s \<longleftrightarrow> s \<noteq> [] \<and> ws_free s"

lemma ws_free_simps [simp]: "ws_free []" "ws_free (c # s) \<longleftrightarrow> \<not> is_whitespace c \<and> ws_free s"
  "ws_free (s @ t) \<longleftrightarrow> ws_free s \<and> ws_free t"
  by (auto simp: ws_free_def)

lemma split_whitespace_word: "word w \<Longrightarrow> split_whitespace w = [w]"
proof (induction w)
  case (Cons c w)
  then show ?case by (cases w) (auto simp: word_def)
qed (simp add: word_def)

lemma split_whitespace_append: "word w \<Longrightarrow> split_whitespace (w @ CHR '' '' # s) = w # split_whitespace s"
proof (induction w)
  case (Cons c w)
  have sp: "is_whitespace (CHR '' '')" by (simp add: is_whitespace_def)
  from Cons sp show ?case by (cases w) (auto simp: word_def split: list.splits)
qed (simp add: word_def)

lemma split_whitespace_join: "list_all word ws \<Longrightarrow> split_whitespace (join_with '' '' ws) = ws"
  by (induction "'' ''" ws rule: join_with.induct) (simp_all add: split_whitespace_word split_whitespace_append)

lemma split_once_append: "d \<notin> set a \<Longrightarrow> split_once d (a @ d # b) = Some (a, b)"
  by (induction a) auto

lemma split_once_Some: "split_once d s = Some (a, b) \<Longrightarrow> s = a @ d # b \<and> d \<notin> set a"
  by (induction s arbitrary: a) (auto split: if_splits)

lemma ws_free_dec [simp]: "ws_free (show_dec n)"
proof -
  have "list_all (\<lambda>c. \<not> is_whitespace c) ''0123456789abcdef''" by (simp add: is_whitespace_def)
  then show ?thesis using show_base_chars [of 10 n] by (auto simp: ws_free_def list_all_iff)
qed

lemma dash_dec: "CHR ''-'' \<notin> set (show_dec n)"
  using show_base_chars [of 10 n] by auto

lemma ws_free_words [simp]: "ws_free (kind_as_str k)" "ws_free (status_as_str st)"
  by (cases k; simp add: is_whitespace_def) (cases st; simp add: is_whitespace_def)

lemma kind_facts: "CHR '':'' \<notin> set (kind_as_str k)" "parse_kind (kind_as_str k) = Inr k"
  by (cases k; simp add: parse_kind_def)+

section \<open>Rows as lines\<close>

text \<open>An attestation whose fields are single words, pinned by the digest of its own fields.\<close>

definition printable :: "crypto \<Rightarrow> attestation \<Rightarrow> bool" where
  "printable C a \<longleftrightarrow> ws_free (at_claim a) \<and> ws_free (at_subject a) \<and> ws_free (at_subject_digest a) \<and>
     ws_free (ev_reference (at_evidence a)) \<and> ws_free (ev_digest (at_evidence a)) \<and> ws_free (at_verifier a) \<and>
     ws_free (at_actor a) \<and> is_u64 (at_issued_at a) \<and> is_u64 (at_expires_at a) \<and>
     at_row_digest a = canonical_row_digest C a \<and> word (at_row_digest a)"

definition line_words :: "attestation \<Rightarrow> row_status \<Rightarrow> string list" where
  "line_words a st = [''row'', at_row_digest a, status_as_str st] @ map (\<lambda>(k, v). k @ ''='' @ v) (row_fields a)"

definition att_line :: "attestation \<Rightarrow> row_status \<Rightarrow> string" where
  "att_line a st = join_with '' '' (line_words a st)"

lemma ws_freeD: "ws_free v \<Longrightarrow> is_whitespace c \<Longrightarrow> c \<notin> set v"
  by (auto simp: ws_free_def list_all_iff)

lemma ws_not_broken: "ws_free v \<Longrightarrow> \<not> breaks_line v"
  using ws_freeD [of v "CHR '' ''"] ws_freeD [of v "CHR 0x0A"] ws_freeD [of v "CHR 0x09"]
  by (simp add: breaks_line_def is_whitespace_def)

lemma find_broken: "find (\<lambda>(_, v). breaks_line v) kvs = None \<longleftrightarrow> list_all (\<lambda>(_, v). \<not> breaks_line v) kvs"
  by (induction kvs) auto

lemma row_line_eq: "row_line a st = (case find (\<lambda>(_, v). breaks_line v) (row_fields a) of
    Some (k, _) \<Rightarrow> Inl (BrokenLine k (at_row_digest a)) | None \<Rightarrow> Inr (att_line a st))"
  by (simp add: row_line_def att_line_def line_words_def row_fields_def split: option.splits)

lemma status_word: "word (status_as_str st)"
  by (cases st) (simp_all add: word_def is_whitespace_def)

lemma line_words_word: "printable C a \<Longrightarrow> list_all word (line_words a st)"
  using status_word [of st] by (auto simp: line_words_def row_fields_def printable_def word_def is_whitespace_def)

lemma line_words_split: "printable C a \<Longrightarrow> split_whitespace (att_line a st) = line_words a st"
  unfolding att_line_def by (rule split_whitespace_join) (rule line_words_word)

lemma parse_fields_line:
  "parse_fields (map (\<lambda>(k, v). k @ ''='' @ v) (row_fields a)) Map.empty = Inr (map_of (row_fields a))"
proof -
  have "split_once (CHR ''='') (k @ ''='' @ v) = Some (k, v)" if "CHR ''='' \<notin> set k" for k v
    using split_once_append [OF that, of v] by simp
  then show ?thesis by (simp add: row_fields_def split_once_append fun_eq_iff)
qed

lemma parse_number_dec: "is_u64 n \<Longrightarrow> parse_number (show_dec n) = Inr n"
  by (simp add: parse_number_def parse_u64_show)

lemma canonical_row_parts: "att_canonical_row a \<noteq> []"
  by (simp add: att_canonical_row_def)

lemma parse_att_line:
  fixes st :: row_status
  assumes "printable C a" "split_once (CHR ''@'') (ev_reference (at_evidence a) @ ''@'' @ ev_digest (at_evidence a)) = Some (ref, dig)"
  defines "b \<equiv> a\<lparr>at_evidence := \<lparr>ev_kind = ev_kind (at_evidence a), ev_reference = ref, ev_digest = dig\<rparr>,
                 at_revoked := (st = RsRevoked)\<rparr>"
  shows "parse_row_line C (att_line a st) =
    (if canonical_row_digest C b \<noteq> at_row_digest a then Inl (NotRedigested (at_row_digest a)) else Inr b)"
proof -
  have words: "split_whitespace (att_line a st) = line_words a st" by (rule line_words_split [OF assms(1)])
  have u64: "is_u64 (at_issued_at a)" "is_u64 (at_expires_at a)" using assms(1) by (simp_all add: printable_def)
  have kv: "line_field (map_of (row_fields a)) ''evidence'' = Inr (kind_as_str (ev_kind (at_evidence a)) @ '':'' @ ev_reference (at_evidence a) @ ''@'' @ ev_digest (at_evidence a))"
    "line_field (map_of (row_fields a)) ''window'' = Inr (show_dec (at_issued_at a) @ ''-'' @ show_dec (at_expires_at a))"
    "line_field (map_of (row_fields a)) ''actor'' = Inr (at_actor a)"
    "line_field (map_of (row_fields a)) ''subject'' = Inr (at_subject a)"
    "line_field (map_of (row_fields a)) ''subject_digest'' = Inr (at_subject_digest a)"
    "line_field (map_of (row_fields a)) ''claim'' = Inr (at_claim a)"
    "line_field (map_of (row_fields a)) ''verifier'' = Inr (at_verifier a)"
    by (simp_all add: line_field_def row_fields_def)
  have st: "status_as_str st = ''revoked'' \<longleftrightarrow> st = RsRevoked" by (cases st) simp_all
  have b: "\<lparr>at_actor = at_actor a, at_subject = at_subject a, at_subject_digest = at_subject_digest a, at_claim = at_claim a,
      at_evidence = \<lparr>ev_kind = ev_kind (at_evidence a), ev_reference = ref, ev_digest = dig\<rparr>,
      at_verifier = at_verifier a, at_issued_at = at_issued_at a, at_expires_at = at_expires_at a,
      at_revoked = (st = RsRevoked), at_row_digest = at_row_digest a\<rparr> = b"
    by (cases a) (simp add: b_def)
  have parts: "length (line_words a st) = 10" "line_words a st ! 0 = ''row''" "line_words a st ! Suc 0 = at_row_digest a"
    "line_words a st ! 2 = status_as_str st" "drop 3 (line_words a st) = map (\<lambda>(k, v). k @ ''='' @ v) (row_fields a)"
    by (simp_all add: line_words_def row_fields_def)
  show ?thesis
    using split_once_append [OF kind_facts(1), of "ev_kind (at_evidence a)"] split_once_append [OF dash_dec, of "at_issued_at a"] assms(2)
    by (simp add: parse_row_line_def words parts parse_fields_line [simplified] kv require_some_def kind_facts(2) u64 parse_number_dec st b
        canonical_row_parts Let_def)
qed

lemma row_line_parses:
  assumes "printable C a" "CHR ''@'' \<notin> set (ev_reference (at_evidence a))"
  shows "parse_row_line C (att_line a st) = Inr (a\<lparr>at_revoked := (st = RsRevoked)\<rparr>)"
proof -
  have "canonical_row_digest C (a\<lparr>at_revoked := st = RsRevoked\<rparr>) = at_row_digest a"
    using assms(1) by (simp add: printable_def canonical_row_digest_def att_canonical_row_def)
  moreover have "a\<lparr>at_evidence := \<lparr>ev_kind = ev_kind (at_evidence a), ev_reference = ev_reference (at_evidence a),
      ev_digest = ev_digest (at_evidence a)\<rparr>, at_revoked := st = RsRevoked\<rparr> = a\<lparr>at_revoked := st = RsRevoked\<rparr>"
    by (cases a) simp
  moreover have "split_once (CHR ''@'') (ev_reference (at_evidence a) @ ''@'' @ ev_digest (at_evidence a)) =
      Some (ev_reference (at_evidence a), ev_digest (at_evidence a))"
    using split_once_append [OF assms(2), of "ev_digest (at_evidence a)"] by simp
  ultimately show ?thesis using parse_att_line [OF assms(1), of _ _ st] by metis
qed

section \<open>The package\<close>

definition unlines :: "string list \<Rightarrow> string" where
  "unlines ls = concat (map (\<lambda>l. l @ [CHR 0x0A]) ls)"

lemma unlines_simps [simp]: "unlines [] = []" "unlines (l # ls) = l @ CHR 0x0A # unlines ls" "unlines (ls @ ms) = unlines ls @ unlines ms"
  by (simp_all add: unlines_def)

lemma split_unlines: "(\<And>l. l \<in> set ls \<Longrightarrow> CHR 0x0A \<notin> set l) \<Longrightarrow> split_on (CHR 0x0A) (unlines ls) = ls @ [[]]"
  by (induction ls) (simp_all add: split_on_append_delim)

lemma strip_cr_id: "CHR 0x0D \<notin> set l \<Longrightarrow> strip_cr l = l"
  by (cases "strip_suffix [CHR 0x0D] l") (auto simp: strip_cr_def strip_suffix_Some)

lemma str_lines_unlines:
  assumes "\<And>l. l \<in> set ls \<Longrightarrow> CHR 0x0A \<notin> set l \<and> CHR 0x0D \<notin> set l"
  shows "str_lines (unlines ls) = ls"
proof -
  have "map strip_cr ls = ls" using assms by (intro map_idI) (simp add: strip_cr_id)
  then show ?thesis using assms split_unlines [of ls] by (simp add: str_lines_def Let_def)
qed

lemma join_lines: "ls \<noteq> [] \<Longrightarrow> join_with [CHR 0x0A] ls @ [CHR 0x0A] = unlines ls"
  by (induction "[CHR 0x0A]" ls rule: join_with.induct) auto

definition header_lines :: "string \<Rightarrow> nat \<Rightarrow> nat \<Rightarrow> string list" where
  "header_lines d n k =
     [''# METALOGOS compliance package v1'',
      ''# the compliance evidence compiler of ADR-0206 '' @ section_sign @ ''2.4 ('' @ numero @
        ''868): the deterministic, digest-pinned attestation map export'',
      ''# package_digest: '' @ d, ''# rows_total: '' @ show_dec n, ''# rows_live: '' @ show_dec k,
      ''# freshness: the consumer compares each row'' @ [CHR 0x27] @
        ''s window against their own verification date (ADR-0206 '' @ section_sign @ ''3 '' @ em_dash @
        '' the package carries no wall clock)'']"

lemma package_header_lines: "package_header d n k = unlines (header_lines d n k)"
  by (simp add: package_header_def header_lines_def)

lemma hex_no_break:
  assumes "is_sha256_hex d"
  shows "CHR 0x0A \<notin> set d \<and> CHR 0x0D \<notin> set d"
proof -
  have "CHR 0x0A \<notin> set ''0123456789abcdef''" "CHR 0x0D \<notin> set ''0123456789abcdef''" by simp_all
  with assms show ?thesis unfolding is_sha256_hex_def by blast
qed

lemma dec_no_break: "CHR 0x0A \<notin> set (show_dec n)" "CHR 0x0D \<notin> set (show_dec n)"
  using show_base_chars [of 10 n] by auto

lemma header_lines_facts:
  assumes "is_sha256_hex d" "l \<in> set (header_lines d n k)"
  shows "CHR 0x0A \<notin> set l \<and> CHR 0x0D \<notin> set l" "\<not> starts_with ''row '' l"
  using assms(2) hex_no_break [OF assms(1)] dec_no_break [of n] dec_no_break [of k]
  by (auto simp: header_lines_def section_sign_def numero_def em_dash_def starts_with_def)

lemma att_line_facts:
  assumes "printable C a"
  shows "CHR 0x0A \<notin> set (att_line a st) \<and> CHR 0x0D \<notin> set (att_line a st)" "starts_with ''row '' (att_line a st)"
proof -
  have "CHR 0x0A \<notin> set w \<and> CHR 0x0D \<notin> set w" if "w \<in> set (line_words a st)" for w
    using that line_words_word [OF assms, of st] ws_freeD [of w]
    by (auto simp: list_all_iff word_def is_whitespace_def)
  then show "CHR 0x0A \<notin> set (att_line a st) \<and> CHR 0x0D \<notin> set (att_line a st)"
    using join_with_chars [of _ "'' ''" "line_words a st"] unfolding att_line_def by auto
  show "starts_with ''row '' (att_line a st)" by (simp add: starts_with_def att_line_def line_words_def row_fields_def)
qed

definition compiled_of :: "u64 \<Rightarrow> attestation \<Rightarrow> compiled_row" where
  "compiled_of now a = \<lparr>cr_row_digest = at_row_digest a, cr_status = row_status_at now a, cr_line = att_line a (row_status_at now a)\<rparr>"

text \<open>A row that can be compiled: a live one has the digest its source has now.\<close>

definition compilable :: "u64 \<Rightarrow> live_digest_resolver \<Rightarrow> attestation \<Rightarrow> bool" where
  "compilable now resolve a \<longleftrightarrow> list_all (\<lambda>(_, v). \<not> breaks_line v) (row_fields a) \<and>
     (row_status_at now a = RsLive \<longrightarrow>
        resolve (kind_as_str (ev_kind (at_evidence a))) (ev_reference (at_evidence a)) = Inr (ev_digest (at_evidence a)))"

lemma compile_row_ok: "compile_row now resolve a = Inr r \<longleftrightarrow> compilable now resolve a \<and> r = compiled_of now a"
  using find_broken [of "row_fields a"]
  by (auto simp: compile_row_def compilable_def compiled_of_def row_line_eq evidence_matches_def Let_def
      split: option.splits sum.splits if_splits)

lemma compile_rows_ok:
  "compile_rows now resolve rows = Inr rs \<longleftrightarrow> list_all (compilable now resolve) rows \<and> rs = map (compiled_of now) rows"
proof (induction rows arbitrary: rs)
  case (Cons a rows)
  show ?case
  proof (cases "compilable now resolve a")
    case True
    then have "compile_row now resolve a = Inr (compiled_of now a)" by (simp add: compile_row_ok)
    with True Cons [of "tl rs"] Cons show ?thesis by (cases "compile_rows now resolve rows") auto
  next
    case False
    then obtain e where "compile_row now resolve a = Inl e"
      using compile_row_ok [of now resolve a] by (cases "compile_row now resolve a") auto
    with False show ?thesis by simp
  qed
qed auto

definition sorted_rows :: "u64 \<Rightarrow> attestation list \<Rightarrow> compiled_row list" where
  "sorted_rows now rows = sort_key cr_row_digest (map (compiled_of now) rows)"

lemma compile_package_ok:
  assumes "rows \<noteq> []"
  shows "compile_package C rows now resolve = Inr text \<longleftrightarrow>
    list_all (compilable now resolve) rows \<and>
    text = package_header (digest_hex C (unlines (map cr_line (sorted_rows now rows)))) (length rows)
        (length (filter (\<lambda>r. cr_status r = RsLive) (sorted_rows now rows))) @ unlines (map cr_line (sorted_rows now rows))"
proof -
  have ne: "map cr_line (sorted_rows now rows) \<noteq> []"
    using assms by (metis length_0_conv length_map length_sort sorted_rows_def)
  have "join_with [CHR 0x0A] (map cr_line (sorted_rows now rows)) \<noteq> []"
  proof
    assume e: "join_with [CHR 0x0A] (map cr_line (sorted_rows now rows)) = []"
    obtain r where r: "map cr_line (sorted_rows now rows) = cr_line r # map cr_line (tl (sorted_rows now rows))" "r \<in> set (sorted_rows now rows)"
      using ne by (cases "sorted_rows now rows") auto
    then have "cr_line r \<noteq> []" by (auto simp: sorted_rows_def compiled_of_def att_line_def line_words_def row_fields_def)
    with e show False unfolding r(1) by (cases "map cr_line (tl (sorted_rows now rows))") auto
  qed
  note block = this
  show ?thesis
  proof (cases "list_all (compilable now resolve) rows")
    case True
    then have "compile_rows now resolve rows = Inr (map (compiled_of now) rows)" by (simp add: compile_rows_ok)
    moreover have "length (sorted_rows now rows) = length rows" by (simp add: sorted_rows_def)
    ultimately show ?thesis
      using True block by (auto simp: compile_package_def sorted_rows_def [symmetric] join_lines [OF ne] Let_def)
  next
    case False
    then obtain e where "compile_rows now resolve rows = Inl e"
      using compile_rows_ok [of now resolve rows] by (cases "compile_rows now resolve rows") auto
    with False show ?thesis by (simp add: compile_package_def)
  qed
qed

lemma package_lines:
  assumes "sha256_size C" "rows \<noteq> []" "list_all (printable C) rows" "compile_package C rows now resolve = Inr text"
  shows "str_lines text =
      header_lines (digest_hex C (unlines (map cr_line (sorted_rows now rows)))) (length rows)
        (length (filter (\<lambda>r. cr_status r = RsLive) (sorted_rows now rows))) @ map cr_line (sorted_rows now rows)"
    "row_lines text = map cr_line (sorted_rows now rows)"
proof -
  let ?ls = "map cr_line (sorted_rows now rows)"
  let ?hs = "header_lines (digest_hex C (unlines ?ls)) (length rows) (length (filter (\<lambda>r. cr_status r = RsLive) (sorted_rows now rows)))"
  have row: "CHR 0x0A \<notin> set l \<and> CHR 0x0D \<notin> set l" "starts_with ''row '' l" if l: "l \<in> set ?ls" for l
  proof -
    obtain a st where "printable C a" "l = att_line a st"
      using l assms(3) by (auto simp: sorted_rows_def compiled_of_def list_all_iff)
    then show "CHR 0x0A \<notin> set l \<and> CHR 0x0D \<notin> set l" "starts_with ''row '' l" using att_line_facts by blast+
  qed
  note head = header_lines_facts [OF digest_hex_ok [OF assms(1)]]
  have whole: "text = unlines (?hs @ ?ls)"
    using assms(4) by (simp add: compile_package_ok [OF assms(2)] package_header_lines)
  show ls: "str_lines text = ?hs @ ?ls"
    unfolding whole by (rule str_lines_unlines) (use row(1) head(1) in \<open>fastforce simp del: set_map\<close>)
  have "filter (starts_with ''row '') ?hs = []" using head(2) by (auto simp: filter_empty_conv)
  moreover have "filter (starts_with ''row '') ?ls = ?ls" using row(2) by (intro filter_True) blast
  ultimately show "row_lines text = ?ls" by (simp only: row_lines_def ls filter_append append_Nil)
qed

lemma check_row_lines_append:
  "list_all (\<lambda>l. \<not> starts_with ''row '' l) hs \<Longrightarrow> check_row_lines C n (hs @ ls) = check_row_lines C n ls"
  by (induction hs) auto

lemma check_row_lines_rows:
  assumes "\<And>l. l \<in> set ls \<Longrightarrow> \<exists>a st. l = att_line a st \<and> printable C a \<and> CHR ''@'' \<notin> set (ev_reference (at_evidence a))"
  shows "check_row_lines C n ls = Inr (n + length ls)"
  using assms
proof (induction ls arbitrary: n)
  case (Cons l ls)
  obtain a st where a: "l = att_line a st" "printable C a" "CHR ''@'' \<notin> set (ev_reference (at_evidence a))"
    using Cons.prems [of l] by auto
  have "length (line_words a st) = 10" "line_words a st ! Suc 0 = at_row_digest a"
    by (simp_all add: line_words_def row_fields_def)
  moreover have "canonical_row_digest C (a\<lparr>at_revoked := b\<rparr>) = at_row_digest a" for b
    using a(2) by (simp add: printable_def canonical_row_digest_def att_canonical_row_def)
  ultimately show ?case
    using Cons a att_line_facts(2) [OF a(2)] line_words_split [OF a(2)] row_line_parses [OF a(2,3)] by simp
qed simp

lemma att_line_status:
  assumes "printable C a"
  shows "split_on (CHR '' '') (att_line a st) = line_words a st"
  unfolding att_line_def
proof (rule split_join_with)
  show "line_words a st \<noteq> []" by (simp add: line_words_def)
  show "CHR '' '' \<notin> set w" if "w \<in> set (line_words a st)" for w
    using that line_words_word [OF assms, of st] ws_freeD [of w "CHR '' ''"]
    by (auto simp: list_all_iff word_def is_whitespace_def)
qed

lemma status_live: "status_as_str st = ''live'' \<longleftrightarrow> st = RsLive"
  by (cases st) simp_all

lemma length_filter_sort: "length (filter P (sort_key f xs)) = length (filter P xs)"
  by (metis mset_filter mset_sort size_mset)

lemma sorted_rows_live:
  "length (filter (\<lambda>r. cr_status r = RsLive) (sorted_rows now rows)) = length (filter (\<lambda>a. row_status_at now a = RsLive) rows)"
  by (simp add: sorted_rows_def length_filter_sort filter_map o_def compiled_of_def)

definition demo_att :: "crypto \<Rightarrow> string \<Rightarrow> string \<Rightarrow> attestation" where
  "demo_att C reference actor =
     (let a = \<lparr>at_actor = actor, at_subject = ''s'', at_subject_digest = ''d'', at_claim = ''c'',
               at_evidence = \<lparr>ev_kind = EvArtifact, ev_reference = reference, ev_digest = ''e''\<rparr>, at_verifier = ''v'',
               at_issued_at = 1, at_expires_at = 9, at_revoked = False, at_row_digest = []\<rparr>
      in a\<lparr>at_row_digest := canonical_row_digest C a\<rparr>)"

lemma digest_hex_word: "sha256_size C \<Longrightarrow> word (digest_hex C t)"
proof -
  assume "sha256_size C"
  then have hex: "is_sha256_hex (digest_hex C t)" by (rule digest_hex_ok)
  have "list_all (\<lambda>c. \<not> is_whitespace c) ''0123456789abcdef''" by (simp add: is_whitespace_def)
  with hex show ?thesis unfolding word_def ws_free_def is_sha256_hex_def list_all_iff by fastforce
qed

lemma demo_att_printable:
  "sha256_size C \<Longrightarrow> ws_free reference \<Longrightarrow> ws_free actor \<Longrightarrow> printable C (demo_att C reference actor)"
  by (drule digest_hex_word)
     (simp add: printable_def demo_att_def Let_def canonical_row_digest_def att_canonical_row_def is_whitespace_def is_u64_def)

lemma demo_att_fields: "ev_reference (at_evidence (demo_att C reference actor)) = reference" "ev_digest (at_evidence (demo_att C reference actor)) = ''e''"
  "row_status_at 5 (demo_att C reference actor) = RsLive"
  by (simp_all add: demo_att_def row_status_at_def Let_def)

lemma demo_att_compilable:
  assumes "sha256_size C" "ws_free reference" "ws_free actor"
  shows "compilable 5 (\<lambda>_ _. Inr ''e'') (demo_att C reference actor)"
proof -
  have "ws_free (snd kv)" if "kv \<in> set (row_fields (demo_att C reference actor))" for kv
    using that demo_att_printable [OF assms] by (auto simp: row_fields_def printable_def is_whitespace_def)
  then have "list_all (\<lambda>(_, v). \<not> breaks_line v) (row_fields (demo_att C reference actor))"
    using ws_not_broken by (fastforce simp: list_all_iff)
  then show ?thesis by (simp add: compilable_def demo_att_fields)
qed

lemma package_checks_rows:
  assumes "sha256_size C" "rows \<noteq> []" "compile_package C rows now resolve = Inr text"
    and "list_all (\<lambda>a. printable C a \<and> CHR ''@'' \<notin> set (ev_reference (at_evidence a))) rows"
  shows "\<exists>d. prefix (package_header d (length rows) (length (filter (\<lambda>a. row_status_at now a = RsLive) rows))) text
    \<and> package_digest_of C text = Inr d \<and> verify_row_digests C text = Inr (length rows)
    \<and> count_raw_rows text = length rows
    \<and> count_live_rows text = length (filter (\<lambda>a. row_status_at now a = RsLive) rows)"
proof -
  let ?rs = "sorted_rows now rows"
  have pr: "list_all (printable C) rows" using assms(4) by (auto simp: list_all_iff)
  note ls = package_lines [OF assms(1,2) pr assms(3)]
  have rows: "\<exists>a st. r = \<lparr>cr_row_digest = at_row_digest a, cr_status = st, cr_line = att_line a st\<rparr> \<and> printable C a
      \<and> CHR ''@'' \<notin> set (ev_reference (at_evidence a))" if "r \<in> set ?rs" for r
    using that assms(4) by (auto simp: sorted_rows_def compiled_of_def list_all_iff)
  have len: "length ?rs = length rows" by (simp add: sorted_rows_def)
  have words: "length (split_whitespace (cr_line r)) = 10" "split_on (CHR '' '') (cr_line r) ! 2 = ''live'' \<longleftrightarrow> cr_status r = RsLive"
      "length (split_on (CHR '' '') (cr_line r)) = 10" if "r \<in> set ?rs" for r
    using rows [OF that] by (auto simp: line_words_split att_line_status line_words_def row_fields_def status_live)
  have digest: "package_digest_of C text = Inr (digest_hex C (unlines (map cr_line ?rs)))"
    using assms(2) len by (cases ?rs) (auto simp: package_digest_of_def ls(2) unlines_def Let_def)
  have verify: "verify_row_digests C text = Inr (length rows)"
    unfolding verify_row_digests_def ls(1)
    using header_lines_facts(2) [OF digest_hex_ok [OF assms(1)]] check_row_lines_rows [of "map cr_line ?rs" C 0] rows len
    by (subst check_row_lines_append) (fastforce simp: list_all_iff)+
  have raw: "count_raw_rows text = length rows"
    using words(1) len by (simp add: count_raw_rows_def ls(2) filter_map o_def cong: filter_cong)
  have live: "count_live_rows text = length (filter (\<lambda>a. row_status_at now a = RsLive) rows)"
    using words(2,3) sorted_rows_live [of now rows] by (simp add: count_live_rows_def ls(2) filter_map o_def cong: filter_cong)
  have "prefix (package_header (digest_hex C (unlines (map cr_line ?rs))) (length rows)
      (length (filter (\<lambda>a. row_status_at now a = RsLive) rows))) text"
    using assms(3) by (simp add: compile_package_ok [OF assms(2)] sorted_rows_live)
  with digest verify raw live show ?thesis by blast
qed

lemma empty_package:
  assumes "sha256_size C" "compile_package C [] now resolve = Inr text"
  shows "text = package_header (digest_hex C []) 0 0" "row_lines text = []" "verify_row_digests C text = Inr 0"
proof -
  show t: "text = package_header (digest_hex C []) 0 0" using assms(2) by (simp add: compile_package_def Let_def)
  note h = header_lines_facts [OF digest_hex_ok [OF assms(1)], of _ "[]" 0 0]
  have ls: "str_lines text = header_lines (digest_hex C []) 0 0"
    unfolding t package_header_lines by (rule str_lines_unlines) (rule h)
  show "row_lines text = []" using h(2) by (simp add: row_lines_def ls filter_empty_conv)
  show "verify_row_digests C text = Inr 0"
    using check_row_lines_append [of "header_lines (digest_hex C []) 0 0" C 0 "[]"] h(2)
    by (simp add: verify_row_digests_def ls list_all_iff)
qed

text \<open>
  C18. The package stands on its own. Compiled from rows whose fields are single words and whose
  references have no at-sign, its text begins with a header that states the digest of the rows, their
  number and how many are live; and the checks of a reader of the text alone agree with it: the digest
  taken over the row lines is the stated one (an empty package has no row lines and is refused there),
  every row parses back to its own digest, and the two counts over the lines are those of the map.
\<close>

theorem package_checks_out:
  assumes "sha256_size C" "compile_package C rows now resolve = Inr text"
    and "list_all (\<lambda>a. printable C a \<and> CHR ''@'' \<notin> set (ev_reference (at_evidence a))) rows"
  shows "\<exists>d. prefix (package_header d (length rows) (length (filter (\<lambda>a. row_status_at now a = RsLive) rows))) text
    \<and> package_digest_of C text = (if rows = [] then Inl NoRowLines else Inr d)
    \<and> verify_row_digests C text = Inr (length rows) \<and> count_raw_rows text = length rows
    \<and> count_live_rows text = length (filter (\<lambda>a. row_status_at now a = RsLive) rows)"
proof (cases "rows = []")
  case True
  with assms(2) have "compile_package C [] now resolve = Inr text" by simp
  note e = empty_package [OF assms(1) this]
  show ?thesis
    using True e(2,3) by (auto simp: e(1) [symmetric] package_digest_of_def count_raw_rows_def count_live_rows_def intro!: exI [of _ "digest_hex C []"])
next
  case False
  with package_checks_rows [OF assms(1) _ assms(2,3)] show ?thesis by simp
qed

theorem package_checks_out_witness:
  "\<exists>text. compile_package sample_crypto [demo_att sample_crypto ''f'' ''ann''] 5 (\<lambda>_ _. Inr ''e'') = Inr text
     \<and> verify_row_digests sample_crypto text = Inr 1 \<and> count_live_rows text = 1"
proof -
  have ws: "ws_free ''f''" "ws_free ''ann''" by (simp_all add: is_whitespace_def)
  obtain pkg where t: "compile_package sample_crypto [demo_att sample_crypto ''f'' ''ann''] 5 (\<lambda>_ _. Inr ''e'') = Inr pkg"
    using compile_package_ok [of "[demo_att sample_crypto ''f'' ''ann'']" sample_crypto 5 "\<lambda>_ _. Inr ''e''"] demo_att_compilable [OF sample_sha256_size ws] by auto
  show ?thesis
    using package_checks_out [OF sample_sha256_size t] t demo_att_printable [OF sample_sha256_size ws] by (auto simp: demo_att_fields)
qed

text \<open>
  C26. The package is a function of what the map holds, not of the order in which it was issued: a map
  with the same rows in another order compiles to the same text.
\<close>

theorem package_order_free:
  assumes "compile_package C rows now resolve = Inr text" "mset rows' = mset rows" "distinct (map at_row_digest rows)"
  shows "compile_package C rows' now resolve = Inr text"
proof (cases "rows = []")
  case True
  with assms(1,2) show ?thesis by simp
next
  case False
  then have ne: "rows' \<noteq> []" using assms(2) by auto
  have keys: "map cr_row_digest (map (compiled_of now) xs) = map at_row_digest xs" for xs by (simp add: compiled_of_def)
  have set: "set rows' = set rows" "length rows' = length rows" using assms(2) mset_eq_setD mset_eq_length by blast+
  have dist: "distinct (map at_row_digest rows')"
    using assms(2,3) by (metis mset_map mset_eq_imp_distinct_iff)
  have "sorted_rows now rows' = sorted_rows now rows"
  proof (rule map_sorted_distinct_set_unique [where f = cr_row_digest])
    show "sorted (map cr_row_digest (sorted_rows now rows'))" "sorted (map cr_row_digest (sorted_rows now rows))"
      by (simp_all add: sorted_rows_def)
    show d: "distinct (map cr_row_digest (sorted_rows now rows'))" "distinct (map cr_row_digest (sorted_rows now rows))"
      using dist assms(3) keys [of rows] keys [of rows'] unfolding sorted_rows_def
      by (metis mset_eq_imp_distinct_iff mset_map mset_sort)+
    show s: "set (sorted_rows now rows') = set (sorted_rows now rows)" by (simp add: sorted_rows_def set(1))
    show "inj_on cr_row_digest (set (sorted_rows now rows') \<union> set (sorted_rows now rows))"
      using d(2) s by (simp add: distinct_map)
  qed
  then show ?thesis
    using assms(1) compile_package_ok [OF False] compile_package_ok [OF ne] set by (simp add: list_all_iff)
qed

theorem package_order_free_witness:
  "compile_package sample_crypto [demo_att sample_crypto ''f'' ''bob'', demo_att sample_crypto ''f'' ''ann''] 5 (\<lambda>_ _. Inr ''e'') =
     compile_package sample_crypto [demo_att sample_crypto ''f'' ''ann'', demo_att sample_crypto ''f'' ''bob''] 5 (\<lambda>_ _. Inr ''e'')"
proof -
  let ?rows = "[demo_att sample_crypto ''f'' ''ann'', demo_att sample_crypto ''f'' ''bob'']"
  have ws: "ws_free ''f''" "ws_free ''ann''" "ws_free ''bob''" by (simp_all add: is_whitespace_def)
  obtain pkg where t: "compile_package sample_crypto ?rows 5 (\<lambda>_ _. Inr ''e'') = Inr pkg"
    using compile_package_ok [of ?rows sample_crypto 5 "\<lambda>_ _. Inr ''e''"] demo_att_compilable [OF sample_sha256_size ws(1,2)] demo_att_compilable [OF sample_sha256_size ws(1,3)]
    by auto
  have "sha256 sample_crypto (att_canonical_row (demo_att sample_crypto ''f'' ''ann'')) ! 3 \<noteq> sha256 sample_crypto (att_canonical_row (demo_att sample_crypto ''f'' ''bob'')) ! 3"
    by (simp add: att_canonical_row_def demo_att_def Let_def sample_crypto_def pad_to_def)
  then have "digest_hex sample_crypto (att_canonical_row (demo_att sample_crypto ''f'' ''ann'')) \<noteq> digest_hex sample_crypto (att_canonical_row (demo_att sample_crypto ''f'' ''bob''))"
    unfolding digest_hex_inj by metis
  moreover have "at_row_digest (demo_att sample_crypto ''f'' x) = digest_hex sample_crypto (att_canonical_row (demo_att sample_crypto ''f'' x))" for x
    by (simp add: demo_att_def Let_def canonical_row_digest_def att_canonical_row_def)
  ultimately have "distinct (map at_row_digest ?rows)" by simp
  with package_order_free [OF t, of "[demo_att sample_crypto ''f'' ''bob'', demo_att sample_crypto ''f'' ''ann'']"] t show ?thesis by simp
qed

section \<open>References with an at-sign\<close>

text \<open>The fields of an attestation, on which the canonical text can be read back.\<close>

definition sep_free_att :: "attestation \<Rightarrow> bool" where
  "sep_free_att a \<longleftrightarrow> sep_free (at_actor a) \<and> sep_free (at_subject a) \<and> sep_free (at_subject_digest a) \<and> sep_free (at_claim a)
     \<and> sep_free (ev_reference (at_evidence a)) \<and> sep_free (ev_digest (at_evidence a)) \<and> sep_free (at_verifier a)"

lemma kind_sep_free: "sep_free (kind_as_str k)"
  by (cases k) (simp_all add: sep_free_def SEP_def)

lemma att_canonical_reference:
  assumes "sep_free_att a" "sep_free_att b" "att_canonical_row a = att_canonical_row b"
  shows "ev_reference (at_evidence a) = ev_reference (at_evidence b)"
proof -
  have "list_all sep_free
     [''v1'', at_actor a, at_subject a, at_subject_digest a, at_claim a, kind_as_str (ev_kind (at_evidence a)),
      ev_reference (at_evidence a), ev_digest (at_evidence a), at_verifier a, show_dec (at_issued_at a),
      show_dec (at_expires_at a)]" if "sep_free_att a" for a
    using that kind_sep_free by (simp add: sep_free_att_def) (simp add: sep_free_def SEP_def)
  from canonical_inj [OF assms(3) [unfolded att_canonical_row_def] _ _ this [OF assms(1)] this [OF assms(2)]]
  show ?thesis by simp
qed

lemma check_row_lines_parse:
  "is_ok (check_row_lines C n ls) \<Longrightarrow> l \<in> set ls \<Longrightarrow> starts_with ''row '' l \<Longrightarrow> is_ok (parse_row_line C l)"
  by (induction ls arbitrary: n) (auto simp: is_ok_iff split: if_splits sum.splits)

text \<open>What the parser reads from a line: the evidence is cut at its first at-sign.\<close>

definition cut_evidence :: "attestation \<Rightarrow> attestation" where
  "cut_evidence a =
     (case split_once (CHR ''@'') (ev_reference (at_evidence a) @ ''@'' @ ev_digest (at_evidence a)) of
        None \<Rightarrow> a
      | Some (reference, digest) \<Rightarrow>
          a\<lparr>at_evidence := \<lparr>ev_kind = ev_kind (at_evidence a), ev_reference = reference, ev_digest = digest\<rparr>\<rparr>)"

lemma at_sign_not_parsed:
  assumes "printable C a" "sep_free_att a" "CHR ''@'' \<in> set (ev_reference (at_evidence a))"
  shows "\<not> is_ok (parse_row_line C (att_line a st)) \<or> collision C (att_canonical_row a) (att_canonical_row (cut_evidence a))"
proof -
  obtain p q where pq: "ev_reference (at_evidence a) = p @ CHR ''@'' # q" "CHR ''@'' \<notin> set p"
    using split_list_first [OF assms(3)] by blast
  let ?dig = "q @ CHR ''@'' # ev_digest (at_evidence a)"
  let ?b = "a\<lparr>at_evidence := \<lparr>ev_kind = ev_kind (at_evidence a), ev_reference = p, ev_digest = ?dig\<rparr>\<rparr>"
  have split: "split_once (CHR ''@'') (ev_reference (at_evidence a) @ ''@'' @ ev_digest (at_evidence a)) = Some (p, ?dig)"
    using split_once_append [OF pq(2), of ?dig] by (simp add: pq(1))
  note parse = parse_att_line [OF assms(1) this, of st]
  have b: "cut_evidence a = ?b" unfolding cut_evidence_def split by simp
  have "sep_free_att ?b" using assms(2) pq(1) by (auto simp: sep_free_att_def sep_free_def SEP_def)
  then have "att_canonical_row a \<noteq> att_canonical_row ?b"
    using att_canonical_reference [OF assms(2)] pq(1) by fastforce
  moreover have "at_row_digest a = digest_hex C (att_canonical_row a)"
    using assms(1) by (simp add: printable_def canonical_row_digest_def)
  moreover have "canonical_row_digest C (?b\<lparr>at_revoked := st = RsRevoked\<rparr>) = digest_hex C (att_canonical_row ?b)"
    by (simp add: canonical_row_digest_def att_canonical_row_def)
  ultimately have "canonical_row_digest C (?b\<lparr>at_revoked := st = RsRevoked\<rparr>) \<noteq> at_row_digest a
      \<or> collision C (att_canonical_row a) (att_canonical_row ?b)"
    using digest_hex_collision [of C "att_canonical_row a" "att_canonical_row ?b"] by auto
  then show ?thesis using parse by (auto simp: b)
qed

text \<open>
  C33. The compiler accepts a reference with an at-sign, such as a name with a version, although the
  line it writes cannot be read back: the parser cuts the evidence at the first at-sign, so the check
  of the row digests refuses the package, unless the row and the row cut that way have the same
  SHA-256.
\<close>

theorem at_sign_breaks_package:
  assumes "sha256_size C" "compile_package C rows now resolve = Inr text" "list_all (printable C) rows"
    and "a \<in> set rows" "sep_free_att a" "CHR ''@'' \<in> set (ev_reference (at_evidence a))"
  shows "\<not> is_ok (verify_row_digests C text) \<or> collision C (att_canonical_row a) (att_canonical_row (cut_evidence a))"
proof -
  have ne: "rows \<noteq> []" and pr: "printable C a" using assms(3,4) by (auto simp: list_all_iff)
  let ?l = "att_line a (row_status_at now a)"
  have "?l \<in> set (str_lines text)"
    unfolding package_lines(1) [OF assms(1) ne assms(3,2)] using assms(4) by (force simp: sorted_rows_def compiled_of_def)
  then show ?thesis
    using check_row_lines_parse [of C 0 "str_lines text" ?l] att_line_facts(2) [OF pr] at_sign_not_parsed [OF pr assms(5,6)]
    by (auto simp: verify_row_digests_def)
qed

text \<open>A digest of the last bytes of the text, which tells the two rows apart.\<close>

definition tail_crypto :: crypto where
  "tail_crypto = sample_crypto\<lparr>sha256 := (\<lambda>text. pad_to 32 (rev text))\<rparr>"

theorem at_sign_breaks_package_witness:
  "\<exists>pkg. compile_package tail_crypto [demo_att tail_crypto ''f@1'' ''ann''] 5 (\<lambda>_ _. Inr ''e'') = Inr pkg
     \<and> \<not> is_ok (verify_row_digests tail_crypto pkg)"
proof -
  let ?a = "demo_att tail_crypto ''f@1'' ''ann''"
  have size: "sha256_size tail_crypto" by (simp add: sha256_size_def tail_crypto_def)
  have ws: "ws_free ''f@1''" "ws_free ''ann''" by (simp_all add: is_whitespace_def)
  obtain pkg where t: "compile_package tail_crypto [?a] 5 (\<lambda>_ _. Inr ''e'') = Inr pkg"
    using compile_package_ok [of "[?a]" tail_crypto 5 "\<lambda>_ _. Inr ''e''"] demo_att_compilable [OF size ws] by auto
  have "sep_free_att ?a" by (simp add: sep_free_att_def demo_att_def Let_def sep_free_def SEP_def)
  moreover have "sha256 tail_crypto (att_canonical_row ?a) ! 7 \<noteq> sha256 tail_crypto (att_canonical_row (cut_evidence ?a)) ! 7"
    by (simp add: att_canonical_row_def cut_evidence_def demo_att_def Let_def tail_crypto_def pad_to_def SEP_def show_base.simps digit_char_def)
  ultimately have "\<not> is_ok (verify_row_digests tail_crypto pkg)"
    using at_sign_breaks_package [OF size t, of ?a] demo_att_printable [OF size ws] by (auto simp: demo_att_fields collision_def)
  with t show ?thesis by blast
qed

section \<open>Revocation\<close>

datatype att_op = AIssue attestation evidence_resolver | ARevoke string

fun run_att :: "att_op \<Rightarrow> attestation_map \<Rightarrow> attestation_map" where
  "run_att (AIssue a resolve) rows = snd (issue_with a resolve rows)"
| "run_att (ARevoke d) rows = snd (map_revoke d rows)"

lemma position_Some: "position P xs = Some i \<Longrightarrow> i < length xs \<and> P (xs ! i)"
  by (induction xs arbitrary: i) (auto split: if_splits)

lemma revoke_digests: "map at_row_digest (snd (map_revoke d rows)) = map at_row_digest rows"
proof (cases "position (\<lambda>r. at_row_digest r = d) rows")
  case (Some i)
  then have "i < length rows" using position_Some by blast
  then show ?thesis using Some by (simp add: map_revoke_def map_update Attestation_revoke_def list_update_same_conv)
qed (simp add: map_revoke_def)

lemma run_att_distinct: "distinct (map at_row_digest rows) \<Longrightarrow> distinct (map at_row_digest (run_att op rows))"
  by (cases op) (auto simp: revoke_digests issue_with_def split: sum.splits)

lemma run_atts_distinct: "distinct (map at_row_digest rows) \<Longrightarrow> distinct (map at_row_digest (fold run_att ops rows))"
  by (induction ops arbitrary: rows) (simp_all add: run_att_distinct)

definition withdrawn_row :: "string \<Rightarrow> attestation_map \<Rightarrow> bool" where
  "withdrawn_row d rows \<longleftrightarrow> d \<in> at_row_digest ` set rows \<and> (\<forall>a \<in> set rows. at_row_digest a = d \<longrightarrow> at_revoked a)"

lemma att_revoke_rows: "a \<in> set (snd (map_revoke e rows)) \<Longrightarrow> a \<in> set rows \<or> (\<exists>b \<in> set rows. a = Attestation_revoke b)"
proof (cases "position (\<lambda>r. at_row_digest r = e) rows")
  case (Some i)
  assume "a \<in> set (snd (map_revoke e rows))"
  moreover have "i < length rows" using Some position_Some by blast
  ultimately show ?thesis
    using Some set_update_subset_insert [of rows i "Attestation_revoke (rows ! i)"] by (auto simp: map_revoke_def)
qed (simp add: map_revoke_def)

lemma run_att_withdrawn:
  assumes "withdrawn_row d rows"
  shows "withdrawn_row d (run_att op rows)"
proof (cases op)
  case (AIssue a resolve)
  with assms show ?thesis by (auto simp: withdrawn_row_def issue_with_def split: sum.splits)
next
  case (ARevoke e)
  have "at_revoked a" if "a \<in> set (snd (map_revoke e rows))" "at_row_digest a = d" for a
    using att_revoke_rows [OF that(1)] that(2) assms by (auto simp: withdrawn_row_def Attestation_revoke_def)
  moreover have "at_row_digest ` set (snd (map_revoke e rows)) = at_row_digest ` set rows"
    using arg_cong [OF revoke_digests [of e rows], of set] by simp
  ultimately show ?thesis using assms ARevoke by (simp add: withdrawn_row_def)
qed

lemma run_atts_withdrawn: "withdrawn_row d rows \<Longrightarrow> withdrawn_row d (fold run_att ops rows)"
  by (induction ops arbitrary: rows) (simp_all add: run_att_withdrawn)

lemma revoke_withdraws:
  assumes "distinct (map at_row_digest rows)" "map_revoke d rows = (Inr i, rows')"
  shows "withdrawn_row d rows'"
proof -
  have i: "i < length rows" "at_row_digest (rows ! i) = d" "rows' = rows[i := Attestation_revoke (rows ! i)]"
    using assms(2) position_Some [of "\<lambda>r. at_row_digest r = d" rows] by (auto simp: map_revoke_def split: option.splits)
  have "at_revoked (rows' ! j)" if "j < length rows'" "at_row_digest (rows' ! j) = d" for j
  proof (cases "j = i")
    case True
    with i show ?thesis by (simp add: Attestation_revoke_def)
  next
    case False
    then have "map at_row_digest rows ! j \<noteq> map at_row_digest rows ! i"
      using nth_eq_iff_index_eq [OF assms(1), of j i] that(1) i by simp
    with False that i show ?thesis by simp
  qed
  moreover have "Attestation_revoke (rows ! i) \<in> set rows'" using i by (simp add: set_update_memI)
  moreover have "at_row_digest (Attestation_revoke (rows ! i)) = d" using i(2) by (simp add: Attestation_revoke_def)
  ultimately show ?thesis unfolding withdrawn_row_def by (metis imageI in_set_conv_nth)
qed

lemma compliance_deny_word: "is_deny compliance_deny"
  using mandate_deny_word
  by (auto simp: compliance_deny_def mandate_deny_def COMPLIANCE_DENY_WORD_def MANDATE_DENY_WORD_def is_deny_def)

text \<open>
  C25. A revocation is permanent and leaves the row in place. Once a row of a map that was built by the
  map's own operations has been revoked, then after any further operations, an attempt to issue the
  same attestation again included, the row is still there, and whatever row has its digest verifies at
  no moment.
\<close>

theorem revoked_attestation_stays:
  assumes "map_revoke d (fold run_att before []) = (Inr i, rows)"
  shows "d \<in> at_row_digest ` set (fold run_att ops rows)
    \<and> (a \<in> set (fold run_att ops rows) \<and> at_row_digest a = d \<longrightarrow> is_deny (Attestation_verify a now))"
proof -
  have "withdrawn_row d (fold run_att ops rows)"
    using revoke_withdraws [OF run_atts_distinct [of "[]" before] assms] run_atts_withdrawn by simp
  then show ?thesis using compliance_deny_word by (auto simp: withdrawn_row_def Attestation_verify_def)
qed

theorem revoked_attestation_stays_witness:
  "at_row_digest (demo_att sample_crypto ''f'' ''ann'') \<in> at_row_digest `
     set (fold run_att [AIssue (demo_att sample_crypto ''f'' ''ann'') resolve_any] [Attestation_revoke (demo_att sample_crypto ''f'' ''ann'')])
   \<and> is_deny (Attestation_verify (Attestation_revoke (demo_att sample_crypto ''f'' ''ann'')) 9)"
proof -
  let ?a = "demo_att sample_crypto ''f'' ''ann''"
  have r: "map_revoke (at_row_digest ?a) (fold run_att [AIssue ?a resolve_any] []) = (Inr 0, [Attestation_revoke ?a])"
    by (simp add: issue_with_def resolve_any_def map_revoke_def)
  note th = revoked_attestation_stays [OF r]
  have "at_row_digest ?a \<in> at_row_digest ` set (fold run_att [AIssue ?a resolve_any] [Attestation_revoke ?a])"
    using th by blast
  moreover have "is_deny (Attestation_verify (Attestation_revoke ?a) 9)"
    using th [of "[]" "Attestation_revoke ?a" 9] by (simp add: Attestation_revoke_def)
  ultimately show ?thesis by blast
qed

end
