(* ===== verification/Spec2Isabelle.thy ===== *)
theory Spec2Isabelle
  imports Refusal_Algebra Labels Ledger_Runtime Consent Deny Grants_Properties Kernel_Builtins Duplex_Properties Memory_Recall
    Lang_Properties Provenance Decision_Trace Jurisdiction Attestation
begin

text \<open>
  Verification of the security kernel and the language core of Metalogos.

  Metalogos is a language for agents, written in Rust: a parser and a static checker, a compiler and
  a virtual machine beside a tree-walking interpreter, a library of builtins, and a runtime kernel
  that decides which effects a program may have and records what it did. This development models the
  kernel and the core of the two execution engines and proves what they promise. The paths below are
  relative to \<open>src/\<close>.

  \<^bold>\<open>Parts and theories.\<close> Each theory opens with what it holds.

  \<^item> \<open>Prelude\<close>: machine integers (\<open>u64\<close> and \<open>i64\<close> with casts and wrap-around), the string
    operations of the Rust library, folds of combination operators (locale \<open>comm_idem_op\<close>) and
    transition systems with an invariant (locale \<open>invariant_system\<close>). \<open>Values\<close>: the runtime values
    of \<open>interpreter/values.rs\<close> that the kernel builds or inspects.
  \<^item> \<open>Refusal_Algebra\<close> (\<open>refusal_algebra.rs\<close>): reasons and verdicts of gates, their join and meet.
    \<open>Labels\<close> (\<open>labels.rs\<close>): the information-flow lattice, its text form, the flow check. \<open>Deny\<close>
    (\<open>deny.rs\<close>): the events and handlers of refusals.
  \<^item> \<open>Ledger\<close>, \<open>Sample_Crypto\<close>, \<open>Ledger_Chain\<close>, \<open>Ledger_Runtime\<close> (\<open>ledger.rs\<close>): the hash-chained
    and signed action ledger, its verifier, key rotation, snapshots, export and archiving. The
    interface \<open>journal\<close> is what the other components use of it.
  \<^item> \<open>Consent\<close> (\<open>consent.rs\<close>): the consent table, behind the interface \<open>consent_store\<close>.
  \<^item> \<open>Grants\<close>, \<open>Grants_Revocation\<close>, \<open>Grants_Invariant\<close>, \<open>Grants_Properties\<close> (\<open>grants.rs\<close>): issuing,
    splitting, using, looking up and revoking capability grants.
  \<^item> \<open>Approval\<close> (\<open>approval.rs\<close>), \<open>Classification\<close> (\<open>builtins_classification.rs\<close>), \<open>Exec_Gate\<close> (the
    gates of \<open>builtins/io.rs\<close>), \<open>Capability\<close> and \<open>Capability_Gate\<close> (\<open>capability.rs\<close>): the decision
    before every builtin call, composed of mandates, permits, host flags and grants. \<open>Db_Ops\<close>
    (\<open>db_ops.rs\<close>, \<open>interpreter/db.rs\<close>): the SQL statement that runs under a grant, with the database as
    a parameter. \<open>Kernel_Builtins\<close> (\<open>builtins/grants.rs\<close>, \<open>builtins/approval.rs\<close>): its language surface.
  \<^item> \<open>Session\<close>, \<open>Session_Audit\<close> (\<open>session.rs\<close>, \<open>builtins/session.rs\<close>) and \<open>Duplex\<close>,
    \<open>Duplex_Properties\<close> (\<open>duplex.rs\<close>, \<open>builtins/duplex.rs\<close>): sessions with duty, wakes and
    prioritised interrupts, and duplex channels with barge-in over them.
  \<^item> \<open>Memory_Typed\<close>, \<open>Memory_Cascade\<close>, \<open>Memory_Invariant\<close>, \<open>Memory_Properties\<close>, \<open>Memory_Recall\<close>
    (\<open>memory_typed.rs\<close>): typed memory containers with encryption at rest, provenance, pins, expiry,
    cascading forgetting and quarantine. They use the grants, the consent table and the ledger.
  \<^item> \<open>Evidence_Log\<close>: what the evidence components share, digests of canonical texts and the interface
    \<open>pinned_log\<close> of an append-only log whose rows are pinned by their digests. \<open>Provenance\<close>
    (\<open>provenance.rs\<close>): rows for what crosses the boundary of the process, the egress gate and the check
    at a use. \<open>Decision_Trace\<close> (\<open>decision_trace.rs\<close>): traces of irreversible decisions, the
    reconciliation of a claim with the log and the replay gate. \<open>Jurisdiction\<close> (\<open>jurisdiction.rs\<close>, the
    gate of \<open>metalogos-server/src/mcp_policy.rs\<close>): rules, their compilation to a policy and the gate
    over the sinks of a tool. \<open>Attestation\<close> (\<open>compliance.rs\<close>, \<open>compliance_pack.rs\<close>): attestations,
    their map, and the compiler and the readers of the evidence package. Each interprets \<open>pinned_log\<close>
    on its own log; the refusals of the gates go to the action ledger.
  \<^item> \<open>Floats\<close>: double arithmetic. \<open>Lang_Values\<close>, \<open>Lang_Expr\<close> (\<open>interpreter/values.rs\<close>,
    \<open>interpreter/execution.rs\<close>, \<open>ast.rs\<close>): values, operators and expressions of the language and the
    tree walker on them. \<open>Lang_Bytecode\<close> (\<open>compiler.rs\<close>, \<open>bytecode.rs\<close>): the backpatching compiler of
    expressions. \<open>Lang_Vm\<close> (\<open>vm.rs\<close>): the loop of the virtual machine. \<open>Lang_Parity\<close>: the simulation
    between the engines on expressions. \<open>Lang_Stmt\<close> (\<open>interpreter/execution.rs\<close>, \<open>compiler.rs\<close>):
    statements in both engines, with \<open>while\<close>, \<open>if\<close>, \<open>break\<close>, \<open>continue\<close> and \<open>return\<close>, and the compiler of a
    pattern body with its stack of loop fixups. \<open>Lang_Layout\<close>: what backpatching leaves is the code laid
    out with its targets known. \<open>Lang_Body\<close>: the simulation on bodies. \<open>Lang_Properties\<close>: the
    properties of the language core.

  \<^bold>\<open>How the code is modelled.\<close> A struct is a record and an enum a datatype with the constructors of
  the source. Process-wide state behind a lock (a registry, an in-memory SQLite table, a counter) is a
  field of a world record, \<open>None\<close> when its lock is poisoned or its initialization failed; worlds
  extend one another, so that a component's operations run on the worlds of its clients. An operation
  returns a \<open>result\<close>, with the error on the left, and the new world. Error texts are constructors that
  carry the values they interpolate. Every clock reading, random byte string and iteration order of a
  hash map is an argument. Hashes, signatures, ciphers, hexadecimal and JSON codecs are third-party
  crates: they are the fields of \<open>crypto\<close> and \<open>vault\<close>, and what the proofs need of them is stated as
  \<open>crypto_ok\<close>, \<open>sha256_size\<close>, \<open>json_ok\<close> and \<open>vault_ok\<close>, which the sample instances satisfy. Sums of machine
  integers wrap as in a release build. No operation needs fuel: the loops that are not structural
  (revocation, the scan of SQL text, the cascade walk) have measures, so they return on every input;
  the loop of the virtual machine is total because the code itself caps the call depth and the
  iterations of each body, and both caps are in the model.

  \<^bold>\<open>Lemmas.\<close> The stateful components are transition systems whose steps are the public operations:
  \<open>ledger_system\<close>, \<open>grants_system\<close>, \<open>kernel_system\<close>, \<open>minted_system\<close>, \<open>duplex_system\<close> and
  \<open>memory_system\<close> interpret \<open>invariant_system\<close> on them, and the properties quantify over every
  reachable state. In these runs grants are issued and split with use counts below 2^63, which is the
  range of the signed column that stores them; a property of its own shows what larger counts do. The
  ledger's verifier is equivalent to a declarative description of a valid chain;
  every run exports a chain that it accepts, and a chain that is accepted although it was changed
  exhibits a hash collision or a forged signature. Grants are only ever attenuated, quotas are conserved and revocation is final
  and reaches exactly the subtree. The decision before a builtin call is described on every branch.
  Sessions deliver every interrupt in order of urgency and duplex channels keep one active direction.
  A cascading forget deletes exactly what was derived from its target, and what was forgotten stays
  out of reach, as far as the links that the sweep of expired entries has left reach. Compiled
  expressions and pattern bodies compute on the machine what the tree walker computes, errors, \<open>try\<close> and
  control flow included; index access, a binding that reads the name it introduces, \<open>!=\<close> inside \<open>try\<close> and
  expression statements before the end of a body are excluded, because there the engines differ. Expressions move forward only, so their run is
  bounded by the length of their code; a body runs at most its length times the tree walker's cap on
  iterations for each level of loops, so that a body whose loops are not nested never meets the
  machine's guard. Names must be read where they are definitely assigned, which a check on the body
  decides. Every crossing of the boundary leaves its row and every refused one its deny record; the
  replay gate opens exactly for recorded traces, a compiled policy is the strictest reading of the
  rules, and an evidence package passes the checks of its reader. These statements quantify over runs
  of the logs, and where a digest stands for a text they name the collision that would break them.
  Eight properties show where the code departs from its documentation: a
  snapshot of an empty ledger, a revocation without a scope, a grant for \<open>exec\<close>, a quota beyond the
  signed range, a cascade whose grant expires midway, index access on the machine, a binding
  whose value reads the name it introduces, and an evidence reference with an at-sign.

  \<^bold>\<open>Not modelled.\<close> The front end and the static checker (grammar-driven traversals of the syntax
  tree); of the two engines the calls, \<open>each\<close>, \<open>match\<close>, block values, memory statements, flows and declarations; the
  providers of language models, media, neural networks and numeric code, the other database
  builtins and the network builtins, the recall lane and the persistent store of typed memory, profiles, model
  passports, the seed rows of the jurisdiction matrix, and the host programs. Most of
  them are I/O, generated tables, numerics or clients of the kernel.
\<close>

end
